(* ===== verification/Kubecast_Prelude.thy ===== *)
theory Kubecast_Prelude
  imports Main
begin

text \<open>
  Shared vocabulary of the development: what it means for the JavaScript to throw, the
  result type of code that may throw, the three-way comparison of the Elm runtime, and the
  list lemmas the component theories use.

  \<^item> An exception (\<^verbatim>\<open>throw new Error(...)\<close>, a \<^verbatim>\<open>Debug.crash\<close>, or a \<^verbatim>\<open>TypeError\<close>
    raised by reading a property of \<^verbatim>\<open>undefined\<close>) is a value of \<open>js_error\<close>, and code that
    may throw returns \<open>js_error + 'a\<close>, abbreviated \<open>'a result\<close>, with \<open>Inl\<close> for the throw.
    \<open>Inl Undefined\<close> stands for the one non-throwing outcome the datatypes of the model
    cannot hold: an \<^verbatim>\<open>undefined\<close> where a value of the data structure should be.
  \<^item> The integers the runtime computes with (indices, counters, code points, time-outs) are
    JavaScript numbers holding integers of magnitude below \<open>2^53\<close>; they are modelled by
    \<open>int\<close> and \<open>nat\<close>.
  \<^item> A JavaScript string is a \<open>string\<close>, one \<open>char\<close> per UTF-16 code unit, for code units
    below 256.
\<close>

named_theorems elm_simps \<open>equations relating runtime functions to library functions\<close>
named_theorems rb_simps \<open>red-black colour and height arithmetic\<close>

subsection \<open>Exceptions\<close>

datatype js_error =
    JsError string
  | TypeError
  | Undefined

type_synonym 'a result = "js_error + 'a"

definition bindE :: "'a result \<Rightarrow> ('a \<Rightarrow> 'b result) \<Rightarrow> 'b result" where
  "bindE m k = (case m of Inl e \<Rightarrow> Inl e | Inr x \<Rightarrow> k x)"

lemma bindE_Inr [simp]: "bindE (Inr x) k = k x"
  by (simp add: bindE_def)

lemma bindE_Inl [simp]: "bindE (Inl e) k = Inl e"
  by (simp add: bindE_def)

lemma bindE_eq_Inr: "bindE m k = Inr y \<longleftrightarrow> (\<exists>x. m = Inr x \<and> k x = Inr y)"
  by (cases m) simp_all

lemma bindE_cong [fundef_cong]:
  "m = m' \<Longrightarrow> (\<And>x. m' = Inr x \<Longrightarrow> k x = k' x) \<Longrightarrow> bindE m k = bindE m' k'"
  by (cases m') simp_all

subsection \<open>Three-way comparison\<close>

text \<open>
  \<^verbatim>\<open>Native.Utils.cmp\<close> on primitive comparables (numbers, strings, characters): the branches
  for \<^verbatim>\<open>typeof x !== 'object'\<close> and \<^verbatim>\<open>x instanceof String\<close> are the same expression. The
  structured comparables are treated in the theory of \<^verbatim>\<open>Native.Utils\<close>.
\<close>

definition cmp :: "'a::linorder \<Rightarrow> 'a \<Rightarrow> int" where
  "cmp x y = (if x = y then 0 else if x < y then -1 else 1)"

datatype order = LT | EQ | GT

definition ord :: "order list" where
  "ord = [LT, EQ, GT]"

definition compare :: "'a::linorder \<Rightarrow> 'a \<Rightarrow> order" where
  "compare x y = ord ! nat (cmp x y + 1)"

lemma cmp_less_1 [simp]: "cmp x y < 1 \<longleftrightarrow> x \<le> y"
  by (auto simp: cmp_def)

lemma cmp_less_0 [simp]: "cmp x y < 0 \<longleftrightarrow> x < y"
  by (auto simp: cmp_def)

lemma cmp_greater_0 [simp]: "0 < cmp x y \<longleftrightarrow> y < x"
  by (auto simp: cmp_def)

lemma cmp_eq_0 [simp]: "cmp x y = 0 \<longleftrightarrow> x = y"
  by (auto simp: cmp_def)

lemma cmp_cases:
  "cmp x y = -1 \<and> x < y \<or> cmp x y = 0 \<and> x = y \<or> cmp x y = 1 \<and> y < x"
  by (auto simp: cmp_def)

lemma compare_eq: "compare x y = (if x < y then LT else if x = y then EQ else GT)"
  by (auto simp: compare_def ord_def cmp_def)

lemma compare_LT [simp]: "compare x y = LT \<longleftrightarrow> x < y"
  by (auto simp: compare_eq)

lemma compare_EQ [simp]: "compare x y = EQ \<longleftrightarrow> x = y"
  by (auto simp: compare_eq)

lemma compare_GT [simp]: "compare x y = GT \<longleftrightarrow> y < x"
  by (auto simp: compare_eq)

subsection \<open>Number formatting\<close>

text \<open>How JavaScript converts a number that holds an integer below \<open>10^21\<close> to a string.\<close>

definition digit_char :: "nat \<Rightarrow> char" where
  "digit_char d = char_of (48 + d)"

fun show_nat :: "nat \<Rightarrow> string" where
  "show_nat n = (if n < 10 then [digit_char n] else show_nat (n div 10) @ [digit_char (n mod 10)])"

declare show_nat.simps [simp del]

definition show_int :: "int \<Rightarrow> string" where
  "show_int i = (if i < 0 then CHR ''-'' # show_nat (nat (- i)) else show_nat (nat i))"

subsection \<open>JavaScript arrays\<close>

text \<open>
  \<open>js_nth\<close> is an indexed read (\<open>None\<close> for \<^verbatim>\<open>undefined\<close>), \<open>js_slice\<close> is
  \<^verbatim>\<open>Array.prototype.slice\<close> and \<^verbatim>\<open>String.prototype.slice\<close> with their treatment of negative
  and overlong bounds, and \<open>js_store\<close> is an indexed write to an array with holes, which
  extends the array when the index is beyond its end.
\<close>

definition js_nth :: "'a list \<Rightarrow> int \<Rightarrow> 'a option" where
  "js_nth xs i = (if 0 \<le> i \<and> i < int (length xs) then Some (xs ! nat i) else None)"

definition js_clip :: "'a list \<Rightarrow> int \<Rightarrow> nat" where
  "js_clip xs i = (if i < 0 then nat (int (length xs) + i) else min (nat i) (length xs))"

definition js_slice :: "int \<Rightarrow> int \<Rightarrow> 'a list \<Rightarrow> 'a list" where
  "js_slice from to xs = take (js_clip xs to - js_clip xs from) (drop (js_clip xs from) xs)"

definition js_store :: "nat \<Rightarrow> 'a option \<Rightarrow> 'a option list \<Rightarrow> 'a option list" where
  "js_store k v xs =
     (if k < length xs then xs[k := v] else xs @ replicate (k - length xs) None @ [v])"

lemma js_nth_SomeD: "js_nth xs i = Some x \<Longrightarrow> 0 \<le> i \<and> nat i < length xs \<and> x = xs ! nat i"
  by (auto simp: js_nth_def split: if_splits)

lemma js_nth_in_set: "js_nth xs i = Some x \<Longrightarrow> x \<in> set xs"
  by (auto dest: js_nth_SomeD)

lemma js_nth_int [simp]: "k < length xs \<Longrightarrow> js_nth xs (int k) = Some (xs ! k)"
  by (simp add: js_nth_def)

lemma js_nth_None [simp]: "js_nth xs i = None \<longleftrightarrow> i < 0 \<or> int (length xs) \<le> i"
  by (auto simp: js_nth_def)

lemma js_clip_int [simp]: "js_clip xs (int n) = min n (length xs)"
  by (simp add: js_clip_def)

lemma js_clip_zero [simp]: "js_clip xs 0 = 0"
  by (simp add: js_clip_def)

lemma js_slice_int [simp]: "js_slice (int m) (int n) xs = take (n - m) (drop m xs)"
  by (cases "m \<le> length xs") (auto simp: js_slice_def min_def)

lemma js_slice_prefix: "0 \<le> n \<Longrightarrow> js_slice 0 n xs = take (nat n) xs"
  using js_slice_int [of 0 "nat n" xs] by simp

subsection \<open>Lists\<close>

lemma take_nat_Cons:
  "0 < n \<Longrightarrow> take (nat n) (x # xs) = x # take (nat (n - 1)) xs"
  by (cases "nat n") (auto simp: nat_diff_distrib')

lemma drop_nat_Cons:
  "0 < n \<Longrightarrow> drop (nat n) (x # xs) = drop (nat (n - 1)) xs"
  by (cases "nat n") (auto simp: nat_diff_distrib')

end
