(* ===== verification/Elm_Basics.thy ===== *)
theory Elm_Basics
  imports Kubecast_Prelude "HOL-Library.Signed_Division"
begin

text \<open>
  Arithmetic and comparison primitives (\<^verbatim>\<open>Native/Basics.js\<close>) and the compiled modules
  \<^verbatim>\<open>Maybe\<close> and \<^verbatim>\<open>Result\<close> of \<^verbatim>\<open>dist/Main.js\<close>. An Elm \<^verbatim>\<open>Maybe\<close> is a HOL \<open>option\<close>; an Elm
  \<^verbatim>\<open>Result\<close> is the datatype \<open>elm_result\<close> with the source's constructors \<open>Ok\<close> and \<open>Err\<close>.
  The trigonometric functions, \<^verbatim>\<open>logBase\<close> and the float predicates only forward to
  \<^verbatim>\<open>Math\<close> and are left out.
\<close>

subsection \<open>Numbers\<close>

text \<open>
  JavaScript's \<^verbatim>\<open>ToInt32\<close>, which every bitwise operator applies to its operands: the value
  modulo \<open>2^32\<close>, read as a signed 32-bit number.
\<close>

definition toInt32 :: "int \<Rightarrow> int" where
  "toInt32 x = (let m = x mod 2 ^ 32 in if m < 2 ^ 31 then m else m - 2 ^ 32)"

text \<open>
  \<^verbatim>\<open>a / b\<close> truncates towards zero under \<^verbatim>\<open>| 0\<close>; a division by zero gives an infinity or
  \<^verbatim>\<open>NaN\<close>, which \<^verbatim>\<open>ToInt32\<close> sends to 0.
\<close>

definition Basics_div :: "int \<Rightarrow> int \<Rightarrow> int" where
  "Basics_div a b = (if b = 0 then 0 else toInt32 (a sdiv b))"

text \<open>
  \<^verbatim>\<open>a % b\<close> takes the sign of the dividend. For \<open>b = 0\<close> the JavaScript value is \<^verbatim>\<open>NaN\<close>,
  here \<open>None\<close>.
\<close>

definition Basics_rem :: "int \<Rightarrow> int \<Rightarrow> int option" where
  "Basics_rem a b = (if b = 0 then None else Some (a smod b))"

definition mod_error :: js_error where
  "mod_error = JsError ''Cannot perform mod 0. Division by zero error.''"

text \<open>
  The recursive call \<^verbatim>\<open>-mod(-a, -b)\<close> is made for a negative divisor only, so it is made once.
\<close>

function Basics_mod :: "int \<Rightarrow> int \<Rightarrow> int result" where
  "Basics_mod a b =
     (if b = 0 then Inl mod_error
      else
        bindE (if a = 0 then Inr 0
               else if b > 0 then Inr (if a \<ge> 0 then a smod b else a smod b + b)
               else bindE (Basics_mod (- a) (- b)) (\<lambda>r. Inr (- r)))
          (\<lambda>m. Inr (if m = b then 0 else m)))"
  by pat_completeness auto
termination
  by (relation "measure (\<lambda>(a, b). if b < 0 then 1 else 0)") auto

declare Basics_mod.simps [simp del]

definition Basics_negate :: "int \<Rightarrow> int" where
  "Basics_negate n = - n"

definition Basics_abs :: "int \<Rightarrow> int" where
  "Basics_abs n = (if n < 0 then - n else n)"

definition Basics_min :: "'a::linorder \<Rightarrow> 'a \<Rightarrow> 'a" where
  "Basics_min a b = (if cmp a b < 0 then a else b)"

definition Basics_max :: "'a::linorder \<Rightarrow> 'a \<Rightarrow> 'a" where
  "Basics_max a b = (if cmp a b > 0 then a else b)"

definition Basics_clamp :: "'a::linorder \<Rightarrow> 'a \<Rightarrow> 'a \<Rightarrow> 'a" where
  "Basics_clamp lo hi n = (if cmp n lo < 0 then lo else if cmp n hi > 0 then hi else n)"

definition Basics_xor :: "bool \<Rightarrow> bool \<Rightarrow> bool" where
  "Basics_xor a b = (a \<noteq> b)"

definition Basics_not :: "bool \<Rightarrow> bool" where
  "Basics_not b = (\<not> b)"

definition Basics_always :: "'a \<Rightarrow> 'b \<Rightarrow> 'a" where
  "Basics_always a _ = a"

subsection \<open>Maybe\<close>

definition Maybe_withDefault :: "'a \<Rightarrow> 'a option \<Rightarrow> 'a" where
  "Maybe_withDefault dflt maybe = (case maybe of Some x \<Rightarrow> x | None \<Rightarrow> dflt)"

definition Maybe_andThen :: "('a \<Rightarrow> 'b option) \<Rightarrow> 'a option \<Rightarrow> 'b option" where
  "Maybe_andThen callback maybeValue =
     (case maybeValue of Some x \<Rightarrow> callback x | None \<Rightarrow> None)"

definition Maybe_map :: "('a \<Rightarrow> 'b) \<Rightarrow> 'a option \<Rightarrow> 'b option" where
  "Maybe_map f maybe = (case maybe of Some x \<Rightarrow> Some (f x) | None \<Rightarrow> None)"

definition Maybe_map2 :: "('a \<Rightarrow> 'b \<Rightarrow> 'c) \<Rightarrow> 'a option \<Rightarrow> 'b option \<Rightarrow> 'c option" where
  "Maybe_map2 func ma mb =
     (case (ma, mb) of (Some a, Some b) \<Rightarrow> Some (func a b) | _ \<Rightarrow> None)"

definition Maybe_map3 ::
  "('a \<Rightarrow> 'b \<Rightarrow> 'c \<Rightarrow> 'd) \<Rightarrow> 'a option \<Rightarrow> 'b option \<Rightarrow> 'c option \<Rightarrow> 'd option" where
  "Maybe_map3 func ma mb mc =
     (case (ma, mb, mc) of (Some a, Some b, Some c) \<Rightarrow> Some (func a b c) | _ \<Rightarrow> None)"

definition Maybe_map4 ::
  "('a \<Rightarrow> 'b \<Rightarrow> 'c \<Rightarrow> 'd \<Rightarrow> 'e) \<Rightarrow> 'a option \<Rightarrow> 'b option \<Rightarrow> 'c option \<Rightarrow> 'd option \<Rightarrow> 'e option"
where
  "Maybe_map4 func ma mb mc md =
     (case (ma, mb, mc, md) of
        (Some a, Some b, Some c, Some d) \<Rightarrow> Some (func a b c d) | _ \<Rightarrow> None)"

definition Maybe_map5 ::
  "('a \<Rightarrow> 'b \<Rightarrow> 'c \<Rightarrow> 'd \<Rightarrow> 'e \<Rightarrow> 'f) \<Rightarrow>
   'a option \<Rightarrow> 'b option \<Rightarrow> 'c option \<Rightarrow> 'd option \<Rightarrow> 'e option \<Rightarrow> 'f option"
where
  "Maybe_map5 func ma mb mc md me =
     (case (ma, mb, mc, md, me) of
        (Some a, Some b, Some c, Some d, Some e) \<Rightarrow> Some (func a b c d e) | _ \<Rightarrow> None)"

subsection \<open>Result\<close>

datatype ('x, 'a) elm_result = Err 'x | Ok 'a

definition Result_toMaybe :: "('x, 'a) elm_result \<Rightarrow> 'a option" where
  "Result_toMaybe result = (case result of Ok a \<Rightarrow> Some a | Err _ \<Rightarrow> None)"

definition Result_withDefault :: "'a \<Rightarrow> ('x, 'a) elm_result \<Rightarrow> 'a" where
  "Result_withDefault dflt result = (case result of Ok a \<Rightarrow> a | Err _ \<Rightarrow> dflt)"

definition Result_andThen ::
  "('a \<Rightarrow> ('x, 'b) elm_result) \<Rightarrow> ('x, 'a) elm_result \<Rightarrow> ('x, 'b) elm_result" where
  "Result_andThen callback result = (case result of Ok a \<Rightarrow> callback a | Err e \<Rightarrow> Err e)"

definition Result_map :: "('a \<Rightarrow> 'b) \<Rightarrow> ('x, 'a) elm_result \<Rightarrow> ('x, 'b) elm_result" where
  "Result_map func ra = (case ra of Ok a \<Rightarrow> Ok (func a) | Err e \<Rightarrow> Err e)"

definition Result_map2 ::
  "('a \<Rightarrow> 'b \<Rightarrow> 'c) \<Rightarrow> ('x, 'a) elm_result \<Rightarrow> ('x, 'b) elm_result \<Rightarrow> ('x, 'c) elm_result" where
  "Result_map2 func ra rb =
     (case ra of Ok a \<Rightarrow> (case rb of Ok b \<Rightarrow> Ok (func a b) | Err e \<Rightarrow> Err e) | Err e \<Rightarrow> Err e)"

definition Result_map3 ::
  "('a \<Rightarrow> 'b \<Rightarrow> 'c \<Rightarrow> 'd) \<Rightarrow> ('x, 'a) elm_result \<Rightarrow> ('x, 'b) elm_result \<Rightarrow> ('x, 'c) elm_result \<Rightarrow>
   ('x, 'd) elm_result" where
  "Result_map3 func ra rb rc =
     (case ra of
        Ok a \<Rightarrow>
          (case rb of
             Ok b \<Rightarrow> (case rc of Ok c \<Rightarrow> Ok (func a b c) | Err e \<Rightarrow> Err e)
           | Err e \<Rightarrow> Err e)
      | Err e \<Rightarrow> Err e)"

definition Result_map4 ::
  "('a \<Rightarrow> 'b \<Rightarrow> 'c \<Rightarrow> 'd \<Rightarrow> 'e) \<Rightarrow> ('x, 'a) elm_result \<Rightarrow> ('x, 'b) elm_result \<Rightarrow>
   ('x, 'c) elm_result \<Rightarrow> ('x, 'd) elm_result \<Rightarrow> ('x, 'e) elm_result" where
  "Result_map4 func ra rb rc rd =
     (case ra of
        Ok a \<Rightarrow>
          (case rb of
             Ok b \<Rightarrow>
               (case rc of
                  Ok c \<Rightarrow> (case rd of Ok d \<Rightarrow> Ok (func a b c d) | Err e \<Rightarrow> Err e)
                | Err e \<Rightarrow> Err e)
           | Err e \<Rightarrow> Err e)
      | Err e \<Rightarrow> Err e)"

definition Result_map5 ::
  "('a \<Rightarrow> 'b \<Rightarrow> 'c \<Rightarrow> 'd \<Rightarrow> 'e \<Rightarrow> 'f) \<Rightarrow> ('x, 'a) elm_result \<Rightarrow> ('x, 'b) elm_result \<Rightarrow>
   ('x, 'c) elm_result \<Rightarrow> ('x, 'd) elm_result \<Rightarrow> ('x, 'e) elm_result \<Rightarrow> ('x, 'f) elm_result" where
  "Result_map5 func ra rb rc rd re =
     (case ra of
        Ok a \<Rightarrow>
          (case rb of
             Ok b \<Rightarrow>
               (case rc of
                  Ok c \<Rightarrow>
                    (case rd of
                       Ok d \<Rightarrow> (case re of Ok e \<Rightarrow> Ok (func a b c d e) | Err x \<Rightarrow> Err x)
                     | Err x \<Rightarrow> Err x)
                | Err x \<Rightarrow> Err x)
           | Err x \<Rightarrow> Err x)
      | Err x \<Rightarrow> Err x)"

definition Result_mapError :: "('x \<Rightarrow> 'y) \<Rightarrow> ('x, 'a) elm_result \<Rightarrow> ('y, 'a) elm_result" where
  "Result_mapError f result = (case result of Ok a \<Rightarrow> Ok a | Err e \<Rightarrow> Err (f e))"

definition Result_fromMaybe :: "'x \<Rightarrow> 'a option \<Rightarrow> ('x, 'a) elm_result" where
  "Result_fromMaybe err maybe = (case maybe of Some a \<Rightarrow> Ok a | None \<Rightarrow> Err err)"

subsection \<open>Properties\<close>

lemma toInt32_range: "- (2 ^ 31) \<le> toInt32 x" "toInt32 x < 2 ^ 31"
  by (auto simp: toInt32_def Let_def)

lemma toInt32_id:
  assumes "- (2 ^ 31) \<le> x" "x < 2 ^ 31"
  shows "toInt32 x = x"
proof (cases "0 \<le> x")
  case True
  with assms show ?thesis by (simp add: toInt32_def)
next
  case False
  have "x mod 2 ^ 32 = (x + 2 ^ 32) mod 2 ^ 32" by (rule mod_add_self2 [symmetric])
  also have "\<dots> = x + 2 ^ 32" using False assms by (simp add: mod_pos_pos_trivial del: mod_add_self2)
  finally show ?thesis using False assms by (simp add: toInt32_def)
qed

lemma Basics_min_eq [elm_simps]: "Basics_min = min"
  by (rule ext, rule ext) (auto simp: Basics_min_def min_def)

lemma Basics_max_eq [elm_simps]: "Basics_max = max"
  by (rule ext, rule ext) (auto simp: Basics_max_def max_def)

lemma smod_pos: "0 \<le> a \<Longrightarrow> 0 < b \<Longrightarrow> a smod b = a mod (b::int)"
  by (cases "a = 0") (simp_all add: signed_modulo_int_def)

lemma smod_neg: "a < 0 \<Longrightarrow> 0 < b \<Longrightarrow> a smod b = - ((- a) mod (b::int))"
  by (simp add: signed_modulo_int_def)

lemma neg_mod_cases:
  "0 < b \<Longrightarrow> b - (- a) mod b = (if (- a) mod b = 0 then b else a mod (b::int))"
  using zmod_zminus1_eq_if [of "- a" b] by simp

lemma Basics_mod_pos:
  assumes "0 < b"
  shows "Basics_mod a b = Inr (a mod b)"
proof (cases "0 \<le> a")
  case True
  have "a mod b \<noteq> b" using assms by (simp add: order_less_imp_not_eq)
  with True assms show ?thesis by (simp add: Basics_mod.simps [of a b] smod_pos)
next
  case False
  have "a mod b \<noteq> b" using assms by (simp add: order_less_imp_not_eq)
  with False assms show ?thesis
    using neg_mod_cases [OF assms, of a]
    by (auto simp: Basics_mod.simps [of a b] smod_neg split: if_splits)
qed

text \<open>
  Elm's \<^verbatim>\<open>%\<close> corrects JavaScript's remainder to the mathematical modulus: the result has the
  sign of the divisor and is congruent to the dividend; a zero divisor throws.
\<close>

theorem Basics_mod_correct:
  "Basics_mod a b = (if b = 0 then Inl mod_error else Inr (a mod b))"
proof (cases "b < 0")
  case True
  have "- ((- a) mod (- b)) = a mod b" by simp
  moreover have "a mod b \<noteq> b" using True neg_mod_bound [of b a] by linarith
  ultimately show ?thesis
    using True by (auto simp: Basics_mod.simps [of a b] Basics_mod_pos)
next
  case False
  then show ?thesis
    by (cases "b = 0") (auto simp: Basics_mod_pos Basics_mod.simps [of a 0])
qed

text \<open>
  The applicative functions of \<^verbatim>\<open>Result\<close> agree with the chained form and stop at the leftmost
  error.
\<close>

theorem Result_map5_leftmost_error:
  "Result_map5 f ra rb rc rd re =
   Result_andThen (\<lambda>a. Result_andThen (\<lambda>b. Result_andThen (\<lambda>c. Result_andThen (\<lambda>d.
     Result_map (f a b c d) re) rd) rc) rb) ra"
  by (simp add: Result_map5_def Result_andThen_def Result_map_def split: elm_result.split)

end
