(* ===== verification/Elm_List.thy ===== *)
theory Elm_List
  imports Elm_Basics
begin

text \<open>
  Lists of the Elm runtime. The cells \<^verbatim>\<open>{ctor: '[]'}\<close> and \<^verbatim>\<open>{ctor: '::', _0, _1}\<close> are
  HOL lists, and so are the JavaScript arrays the native code uses as buffers. The first
  group of definitions is \<^verbatim>\<open>Native/List.js\<close> (prefix \<open>NList\<close>), the second the compiled
  module \<^verbatim>\<open>_elm_lang$core$List\<close> of \<^verbatim>\<open>dist/Main.js\<close> (prefix \<open>List\<close>).
\<close>

subsection \<open>Native lists\<close>

fun fromArray_loop :: "'a list \<Rightarrow> nat \<Rightarrow> 'a list \<Rightarrow> 'a list" where
  "fromArray_loop arr 0 out = out"
| "fromArray_loop arr (Suc i) out = fromArray_loop arr i (arr ! i # out)"

definition fromArray :: "'a list \<Rightarrow> 'a list" where
  "fromArray arr = fromArray_loop arr (length arr) []"

fun toArray_loop :: "'a list \<Rightarrow> 'a list \<Rightarrow> 'a list" where
  "toArray_loop [] out = out"
| "toArray_loop (x # xs) out = toArray_loop xs (out @ [x])"

definition toArray :: "'a list \<Rightarrow> 'a list" where
  "toArray xs = toArray_loop xs []"

fun NList_foldr_loop :: "('a \<Rightarrow> 'b \<Rightarrow> 'b) \<Rightarrow> 'a list \<Rightarrow> nat \<Rightarrow> 'b \<Rightarrow> 'b" where
  "NList_foldr_loop f arr 0 acc = acc"
| "NList_foldr_loop f arr (Suc i) acc = NList_foldr_loop f arr i (f (arr ! i) acc)"

definition NList_foldr :: "('a \<Rightarrow> 'b \<Rightarrow> 'b) \<Rightarrow> 'b \<Rightarrow> 'a list \<Rightarrow> 'b" where
  "NList_foldr f b xs = (let arr = toArray xs in NList_foldr_loop f arr (length arr) b)"

fun NList_map2_loop :: "('a \<Rightarrow> 'b \<Rightarrow> 'c) \<Rightarrow> 'c list \<Rightarrow> 'a list \<Rightarrow> 'b list \<Rightarrow> 'c list" where
  "NList_map2_loop f arr (x # xs) (y # ys) = NList_map2_loop f (arr @ [f x y]) xs ys"
| "NList_map2_loop f arr xs ys = arr"

definition NList_map2 :: "('a \<Rightarrow> 'b \<Rightarrow> 'c) \<Rightarrow> 'a list \<Rightarrow> 'b list \<Rightarrow> 'c list" where
  "NList_map2 f xs ys = fromArray (NList_map2_loop f [] xs ys)"

fun NList_map3_loop ::
  "('a \<Rightarrow> 'b \<Rightarrow> 'c \<Rightarrow> 'd) \<Rightarrow> 'd list \<Rightarrow> 'a list \<Rightarrow> 'b list \<Rightarrow> 'c list \<Rightarrow> 'd list" where
  "NList_map3_loop f arr (x # xs) (y # ys) (z # zs) =
     NList_map3_loop f (arr @ [f x y z]) xs ys zs"
| "NList_map3_loop f arr xs ys zs = arr"

definition NList_map3 ::
  "('a \<Rightarrow> 'b \<Rightarrow> 'c \<Rightarrow> 'd) \<Rightarrow> 'a list \<Rightarrow> 'b list \<Rightarrow> 'c list \<Rightarrow> 'd list" where
  "NList_map3 f xs ys zs = fromArray (NList_map3_loop f [] xs ys zs)"

fun NList_map4_loop ::
  "('a \<Rightarrow> 'b \<Rightarrow> 'c \<Rightarrow> 'd \<Rightarrow> 'e) \<Rightarrow> 'e list \<Rightarrow> 'a list \<Rightarrow> 'b list \<Rightarrow> 'c list \<Rightarrow> 'd list \<Rightarrow> 'e list" where
  "NList_map4_loop f arr (w # ws) (x # xs) (y # ys) (z # zs) =
     NList_map4_loop f (arr @ [f w x y z]) ws xs ys zs"
| "NList_map4_loop f arr ws xs ys zs = arr"

definition NList_map4 ::
  "('a \<Rightarrow> 'b \<Rightarrow> 'c \<Rightarrow> 'd \<Rightarrow> 'e) \<Rightarrow> 'a list \<Rightarrow> 'b list \<Rightarrow> 'c list \<Rightarrow> 'd list \<Rightarrow> 'e list" where
  "NList_map4 f ws xs ys zs = fromArray (NList_map4_loop f [] ws xs ys zs)"

fun NList_map5_loop ::
  "('a \<Rightarrow> 'b \<Rightarrow> 'c \<Rightarrow> 'd \<Rightarrow> 'e \<Rightarrow> 'f) \<Rightarrow> 'f list \<Rightarrow>
   'a list \<Rightarrow> 'b list \<Rightarrow> 'c list \<Rightarrow> 'd list \<Rightarrow> 'e list \<Rightarrow> 'f list" where
  "NList_map5_loop f arr (v # vs) (w # ws) (x # xs) (y # ys) (z # zs) =
     NList_map5_loop f (arr @ [f v w x y z]) vs ws xs ys zs"
| "NList_map5_loop f arr vs ws xs ys zs = arr"

definition NList_map5 ::
  "('a \<Rightarrow> 'b \<Rightarrow> 'c \<Rightarrow> 'd \<Rightarrow> 'e \<Rightarrow> 'f) \<Rightarrow>
   'a list \<Rightarrow> 'b list \<Rightarrow> 'c list \<Rightarrow> 'd list \<Rightarrow> 'e list \<Rightarrow> 'f list" where
  "NList_map5 f vs ws xs ys zs = fromArray (NList_map5_loop f [] vs ws xs ys zs)"

subsection \<open>The compiled module List\<close>

definition List_singleton :: "'a \<Rightarrow> 'a list" where
  "List_singleton value = [value]"

fun List_drop :: "int \<Rightarrow> 'a list \<Rightarrow> 'a list" where
  "List_drop n [] = []"
| "List_drop n (x # xs) = (if cmp n 0 < 1 then x # xs else List_drop (n - 1) xs)"

fun List_any :: "('a \<Rightarrow> bool) \<Rightarrow> 'a list \<Rightarrow> bool" where
  "List_any isOkay [] = False"
| "List_any isOkay (x # xs) = (if isOkay x then True else List_any isOkay xs)"

definition List_all :: "('a \<Rightarrow> bool) \<Rightarrow> 'a list \<Rightarrow> bool" where
  "List_all isOkay list = (\<not> List_any (\<lambda>p. \<not> isOkay p) list)"

definition List_foldr :: "('a \<Rightarrow> 'b \<Rightarrow> 'b) \<Rightarrow> 'b \<Rightarrow> 'a list \<Rightarrow> 'b" where
  "List_foldr = NList_foldr"

fun List_foldl :: "('a \<Rightarrow> 'b \<Rightarrow> 'b) \<Rightarrow> 'b \<Rightarrow> 'a list \<Rightarrow> 'b" where
  "List_foldl func acc [] = acc"
| "List_foldl func acc (x # xs) = List_foldl func (func x acc) xs"

definition List_length :: "'a list \<Rightarrow> int" where
  "List_length xs = List_foldl (\<lambda>_ i. i + 1) 0 xs"

definition List_sum :: "int list \<Rightarrow> int" where
  "List_sum numbers = List_foldl (\<lambda>x y. x + y) 0 numbers"

definition List_product :: "int list \<Rightarrow> int" where
  "List_product numbers = List_foldl (\<lambda>x y. x * y) 1 numbers"

definition List_maximum :: "'a::linorder list \<Rightarrow> 'a option" where
  "List_maximum list = (case list of x # xs \<Rightarrow> Some (List_foldl Basics_max x xs) | [] \<Rightarrow> None)"

definition List_minimum :: "'a::linorder list \<Rightarrow> 'a option" where
  "List_minimum list = (case list of x # xs \<Rightarrow> Some (List_foldl Basics_min x xs) | [] \<Rightarrow> None)"

definition List_member :: "'a \<Rightarrow> 'a list \<Rightarrow> bool" where
  "List_member x xs = List_any (\<lambda>a. a = x) xs"

definition List_isEmpty :: "'a list \<Rightarrow> bool" where
  "List_isEmpty xs = (case xs of [] \<Rightarrow> True | _ # _ \<Rightarrow> False)"

definition List_tail :: "'a list \<Rightarrow> 'a list option" where
  "List_tail list = (case list of _ # rest \<Rightarrow> Some rest | [] \<Rightarrow> None)"

definition List_head :: "'a list \<Rightarrow> 'a option" where
  "List_head list = (case list of x # _ \<Rightarrow> Some x | [] \<Rightarrow> None)"

definition List_map :: "('a \<Rightarrow> 'b) \<Rightarrow> 'a list \<Rightarrow> 'b list" where
  "List_map f xs = List_foldr (\<lambda>x acc. f x # acc) [] xs"

definition List_filter :: "('a \<Rightarrow> bool) \<Rightarrow> 'a list \<Rightarrow> 'a list" where
  "List_filter pred xs =
     (let conditionalCons = (\<lambda>front back. if pred front then front # back else back)
      in List_foldr conditionalCons [] xs)"

definition List_maybeCons :: "('a \<Rightarrow> 'b option) \<Rightarrow> 'a \<Rightarrow> 'b list \<Rightarrow> 'b list" where
  "List_maybeCons f mx xs = (case f mx of Some x \<Rightarrow> x # xs | None \<Rightarrow> xs)"

definition List_filterMap :: "('a \<Rightarrow> 'b option) \<Rightarrow> 'a list \<Rightarrow> 'b list" where
  "List_filterMap f xs = List_foldr (List_maybeCons f) [] xs"

definition List_reverse :: "'a list \<Rightarrow> 'a list" where
  "List_reverse list = List_foldl (\<lambda>x y. x # y) [] list"

definition List_scanl :: "('a \<Rightarrow> 'b \<Rightarrow> 'b) \<Rightarrow> 'b \<Rightarrow> 'a list \<Rightarrow> 'b list" where
  "List_scanl f b xs =
     (let scan1 = (\<lambda>x accAcc. case accAcc of acc # _ \<Rightarrow> f x acc # accAcc | [] \<Rightarrow> [])
      in List_reverse (List_foldl scan1 [b] xs))"

definition List_append :: "'a list \<Rightarrow> 'a list \<Rightarrow> 'a list" where
  "List_append xs ys = (case ys of [] \<Rightarrow> xs | _ # _ \<Rightarrow> List_foldr (\<lambda>x y. x # y) ys xs)"

definition List_concat :: "'a list list \<Rightarrow> 'a list" where
  "List_concat xss = List_foldr List_append [] xss"

definition List_concatMap :: "('a \<Rightarrow> 'b list) \<Rightarrow> 'a list \<Rightarrow> 'b list" where
  "List_concatMap f list = List_concat (List_map f list)"

definition List_partition :: "('a \<Rightarrow> bool) \<Rightarrow> 'a list \<Rightarrow> 'a list \<times> 'a list" where
  "List_partition pred list =
     (let step = (\<lambda>x p. if pred x then (x # fst p, snd p) else (fst p, x # snd p))
      in List_foldr step ([], []) list)"

definition List_unzip :: "('a \<times> 'b) list \<Rightarrow> 'a list \<times> 'b list" where
  "List_unzip pairs =
     (let step = (\<lambda>p acc. (fst p # fst acc, snd p # snd acc))
      in List_foldr step ([], []) pairs)"

definition List_intersperse :: "'a \<Rightarrow> 'a list \<Rightarrow> 'a list" where
  "List_intersperse sep xs =
     (case xs of [] \<Rightarrow> []
      | x0 # xs' \<Rightarrow>
          (let step = (\<lambda>x rest. sep # x # rest);
               spersed = List_foldr step [] xs'
           in x0 # spersed))"

fun List_takeReverse :: "int \<Rightarrow> 'a list \<Rightarrow> 'a list \<Rightarrow> 'a list" where
  "List_takeReverse n [] taken = taken"
| "List_takeReverse n (x # xs) taken =
     (if cmp n 0 < 1 then taken else List_takeReverse (n - 1) xs (x # taken))"

definition List_takeTailRec :: "int \<Rightarrow> 'a list \<Rightarrow> 'a list" where
  "List_takeTailRec n list = List_reverse (List_takeReverse n list [])"

fun List_takeFast :: "int \<Rightarrow> int \<Rightarrow> 'a list \<Rightarrow> 'a list" where
  "List_takeFast ctr n list =
     (if cmp n 0 < 1 then []
      else case list of
        [] \<Rightarrow> list
      | [x] \<Rightarrow> (if n = 1 then [x] else list)
      | x # y # rest \<Rightarrow>
          (if n = 1 then [x]
           else if n = 2 then [x, y]
           else if n = 3 then (case rest of z # _ \<Rightarrow> [x, y, z] | [] \<Rightarrow> list)
           else (case rest of
                   z # w # rest' \<Rightarrow>
                     (if cmp ctr 1000 > 0
                      then x # y # z # w # List_takeTailRec (n - 4) rest'
                      else x # y # z # w # List_takeFast (ctr + 1) (n - 4) rest')
                 | _ \<Rightarrow> list)))"

declare List_takeFast.simps [simp del]

definition List_take :: "int \<Rightarrow> 'a list \<Rightarrow> 'a list" where
  "List_take n list = List_takeFast 0 n list"

function List_repeatHelp :: "'a list \<Rightarrow> int \<Rightarrow> 'a \<Rightarrow> 'a list" where
  "List_repeatHelp result n value =
     (if cmp n 0 < 1 then result else List_repeatHelp (value # result) (n - 1) value)"
  by pat_completeness auto
termination
  by (relation "measure (\<lambda>(result, n, value). nat n)") auto

declare List_repeatHelp.simps [simp del]

definition List_repeat :: "int \<Rightarrow> 'a \<Rightarrow> 'a list" where
  "List_repeat n value = List_repeatHelp [] n value"

function List_rangeHelp :: "int \<Rightarrow> int \<Rightarrow> int list \<Rightarrow> int list" where
  "List_rangeHelp lo hi list =
     (if cmp lo hi < 1 then List_rangeHelp lo (hi - 1) (hi # list) else list)"
  by pat_completeness auto
termination
  by (relation "measure (\<lambda>(lo, hi, list). nat (hi - lo + 1))") auto

declare List_rangeHelp.simps [simp del]

definition List_range :: "int \<Rightarrow> int \<Rightarrow> int list" where
  "List_range lo hi = List_rangeHelp lo hi []"

definition List_indexedMap :: "(int \<Rightarrow> 'a \<Rightarrow> 'b) \<Rightarrow> 'a list \<Rightarrow> 'b list" where
  "List_indexedMap f xs = NList_map2 f (List_range 0 (List_length xs - 1)) xs"


subsection \<open>What the native loops compute\<close>

lemma fromArray_loop_eq: "i \<le> length arr \<Longrightarrow> fromArray_loop arr i out = take i arr @ out"
  by (induction i arbitrary: out) (auto simp: take_Suc_conv_app_nth)

lemma fromArray_id [simp]: "fromArray arr = arr"
  by (simp add: fromArray_def fromArray_loop_eq)

lemma toArray_loop_eq: "toArray_loop xs out = out @ xs"
  by (induction xs arbitrary: out) auto

lemma toArray_id [simp]: "toArray xs = xs"
  by (simp add: toArray_def toArray_loop_eq)

lemma NList_foldr_loop_eq:
  "i \<le> length arr \<Longrightarrow> NList_foldr_loop f arr i acc = foldr f (take i arr) acc"
  by (induction i arbitrary: acc) (auto simp: take_Suc_conv_app_nth)

lemma List_foldr_eq [elm_simps]: "List_foldr f b xs = foldr f xs b"
  by (simp add: List_foldr_def NList_foldr_def NList_foldr_loop_eq)

lemma NList_map2_loop_eq: "NList_map2_loop f arr xs ys = arr @ map2 f xs ys"
  by (induction f arr xs ys rule: NList_map2_loop.induct) auto

lemma NList_map2_eq [elm_simps]: "NList_map2 f xs ys = map2 f xs ys"
  by (simp add: NList_map2_def NList_map2_loop_eq)

lemma NList_map3_loop_eq:
  "NList_map3_loop f arr xs ys zs = arr @ map (\<lambda>(x, y, z). f x y z) (zip xs (zip ys zs))"
  by (induction f arr xs ys zs rule: NList_map3_loop.induct) (auto simp: zip_eq_Nil_iff)

lemma NList_map3_eq [elm_simps]:
  "NList_map3 f xs ys zs = map (\<lambda>(x, y, z). f x y z) (zip xs (zip ys zs))"
  by (simp add: NList_map3_def NList_map3_loop_eq)

lemma NList_map4_loop_eq:
  "NList_map4_loop f arr ws xs ys zs =
   arr @ map (\<lambda>(w, x, y, z). f w x y z) (zip ws (zip xs (zip ys zs)))"
  by (induction f arr ws xs ys zs rule: NList_map4_loop.induct) (auto simp: zip_eq_Nil_iff)

lemma NList_map4_eq [elm_simps]:
  "NList_map4 f ws xs ys zs = map (\<lambda>(w, x, y, z). f w x y z) (zip ws (zip xs (zip ys zs)))"
  by (simp add: NList_map4_def NList_map4_loop_eq)

lemma NList_map5_loop_eq:
  "NList_map5_loop f arr vs ws xs ys zs =
   arr @ map (\<lambda>(v, w, x, y, z). f v w x y z) (zip vs (zip ws (zip xs (zip ys zs))))"
  by (induction f arr vs ws xs ys zs rule: NList_map5_loop.induct) (auto simp: zip_eq_Nil_iff)

lemma NList_map5_eq [elm_simps]:
  "NList_map5 f vs ws xs ys zs =
   map (\<lambda>(v, w, x, y, z). f v w x y z) (zip vs (zip ws (zip xs (zip ys zs))))"
  by (simp add: NList_map5_def NList_map5_loop_eq)

subsection \<open>What the compiled functions compute\<close>

lemma List_drop_eq [elm_simps]: "List_drop n xs = drop (nat n) xs"
  by (induction n xs rule: List_drop.induct) (auto simp: drop_nat_Cons)

lemma List_any_eq [elm_simps]: "List_any p xs \<longleftrightarrow> (\<exists>x \<in> set xs. p x)"
  by (induction xs) auto

lemma List_all_eq [elm_simps]: "List_all p xs \<longleftrightarrow> (\<forall>x \<in> set xs. p x)"
  by (simp add: List_all_def List_any_eq)

lemma List_foldl_eq [elm_simps]: "List_foldl f b xs = fold f xs b"
  by (induction f b xs rule: List_foldl.induct) auto

lemma fold_count: "fold (\<lambda>_ i. i + 1) xs (a::int) = a + int (length xs)"
  by (induction xs arbitrary: a) auto

lemma List_length_eq [elm_simps]: "List_length xs = int (length xs)"
  by (simp add: List_length_def List_foldl_eq fold_count)

lemma List_sum_eq [elm_simps]: "List_sum xs = sum_list xs"
proof -
  have "fold (\<lambda>x y. x + y) xs (a::int) = a + sum_list xs" for a
    by (induction xs arbitrary: a) auto
  then show ?thesis by (simp add: List_sum_def List_foldl_eq)
qed

lemma List_product_eq [elm_simps]: "List_product xs = prod_list xs"
proof -
  have "fold (\<lambda>x y. x * y) xs (a::int) = a * prod_list xs" for a
    by (induction xs arbitrary: a) (auto simp: algebra_simps)
  then show ?thesis by (simp add: List_product_def List_foldl_eq)
qed

lemma List_maximum_eq [elm_simps]:
  "List_maximum xs = (if xs = [] then None else Some (Max (set xs)))"
  by (cases xs)
    (simp_all add: List_maximum_def List_foldl_eq Basics_max_eq Max.set_eq_fold
      flip: list.set(2))

lemma List_minimum_eq [elm_simps]:
  "List_minimum xs = (if xs = [] then None else Some (Min (set xs)))"
  by (cases xs)
    (simp_all add: List_minimum_def List_foldl_eq Basics_min_eq Min.set_eq_fold
      flip: list.set(2))

lemma List_member_eq [elm_simps]: "List_member x xs \<longleftrightarrow> x \<in> set xs"
  by (auto simp: List_member_def List_any_eq)

lemma List_map_eq [elm_simps]: "List_map f xs = map f xs"
proof -
  have "foldr (\<lambda>x acc. f x # acc) xs [] = map f xs" by (induction xs) auto
  then show ?thesis by (simp add: List_map_def List_foldr_eq)
qed

lemma List_filter_eq [elm_simps]: "List_filter p xs = filter p xs"
proof -
  have "foldr (\<lambda>x b. if p x then x # b else b) xs [] = filter p xs" by (induction xs) auto
  then show ?thesis by (simp add: List_filter_def List_foldr_eq)
qed

lemma List_filterMap_eq [elm_simps]: "List_filterMap f xs = List.map_filter f xs"
proof -
  have "foldr (List_maybeCons f) xs [] = List.map_filter f xs"
    by (induction xs) (auto simp: List_maybeCons_def map_filter_simps split: option.splits)
  then show ?thesis by (simp add: List_filterMap_def List_foldr_eq)
qed

lemma fold_Cons_rev: "fold (\<lambda>x y. x # y) xs ys = rev xs @ ys"
  by (induction xs arbitrary: ys) auto

lemma List_reverse_eq [elm_simps]: "List_reverse xs = rev xs"
  by (simp add: List_reverse_def List_foldl_eq fold_Cons_rev)

lemma List_append_eq [elm_simps]: "List_append xs ys = xs @ ys"
proof -
  have "foldr (\<lambda>x y. x # y) xs ys = xs @ ys" by (induction xs) auto
  then show ?thesis by (auto simp: List_append_def List_foldr_eq split: list.split)
qed

lemma List_concat_eq [elm_simps]: "List_concat xss = concat xss"
proof -
  have "foldr List_append xss [] = concat xss" by (induction xss) (auto simp: List_append_eq)
  then show ?thesis by (simp add: List_concat_def List_foldr_eq)
qed

lemma List_concatMap_eq [elm_simps]: "List_concatMap f xs = concat (map f xs)"
  by (simp add: List_concatMap_def List_concat_eq List_map_eq)

lemma List_partition_eq [elm_simps]:
  "List_partition p xs = (filter p xs, filter (\<lambda>x. \<not> p x) xs)"
proof -
  have "foldr (\<lambda>x q. if p x then (x # fst q, snd q) else (fst q, x # snd q)) xs ([], []) =
    (filter p xs, filter (\<lambda>x. \<not> p x) xs)"
    by (induction xs) auto
  then show ?thesis by (simp add: List_partition_def List_foldr_eq)
qed

lemma List_unzip_eq [elm_simps]: "List_unzip ps = (map fst ps, map snd ps)"
proof -
  have "foldr (\<lambda>p acc. (fst p # fst acc, snd p # snd acc)) ps ([], []) = (map fst ps, map snd ps)"
    by (induction ps) auto
  then show ?thesis by (simp add: List_unzip_def List_foldr_eq)
qed

lemma List_takeReverse_eq:
  "List_takeReverse n xs taken = rev (take (nat n) xs) @ taken"
  by (induction n xs taken rule: List_takeReverse.induct) (auto simp: take_nat_Cons)

lemma List_takeTailRec_eq: "List_takeTailRec n xs = take (nat n) xs"
  by (simp add: List_takeTailRec_def List_takeReverse_eq List_reverse_eq)

lemma List_takeFast_eq: "List_takeFast ctr n xs = take (nat n) xs"
proof (induction ctr n xs rule: List_takeFast.induct)
  case (1 ctr n xs)
  consider "n \<le> 0" | "n = 1" | "n = 2" | "n = 3" | "4 \<le> n" by linarith
  then show ?case
  proof cases
    case 5
    then have n: "nat n = Suc (Suc (Suc (Suc (nat (n - 4)))))" by simp
    show ?thesis
      using 5 "1.IH"
      by (auto simp: List_takeFast.simps [of ctr n xs] List_takeTailRec_eq n split: list.split)
  qed (auto simp: List_takeFast.simps [of ctr _ xs] numeral_2_eq_2 numeral_3_eq_3 split: list.split)
qed

lemma List_repeatHelp_eq: "List_repeatHelp result n v = replicate (nat n) v @ result"
proof (induction result n v rule: List_repeatHelp.induct)
  case (1 result n v)
  show ?case
  proof (cases "n \<le> 0")
    case True
    then show ?thesis by (simp add: List_repeatHelp.simps [of result n v])
  next
    case False
    then have "nat n = Suc (nat (n - 1))" by simp
    with False 1 show ?thesis
      by (simp add: List_repeatHelp.simps [of result n v] replicate_append_same [symmetric])
  qed
qed

lemma List_repeat_eq [elm_simps]: "List_repeat n v = replicate (nat n) v"
  by (simp add: List_repeat_def List_repeatHelp_eq)

lemma List_rangeHelp_eq: "List_rangeHelp lo hi xs = [lo..hi] @ xs"
proof (induction lo hi xs rule: List_rangeHelp.induct)
  case (1 lo hi xs)
  then show ?case
    by (cases "lo \<le> hi") (simp_all add: List_rangeHelp.simps [of lo hi xs] upto_rec2)
qed

lemma List_range_eq [elm_simps]: "List_range lo hi = [lo..hi]"
  by (simp add: List_range_def List_rangeHelp_eq)

lemma upto_nth_int: "[0..int n - 1] = map int [0..<n]"
  by (induction n) (auto simp: upto_rec2)

lemma List_indexedMap_eq [elm_simps]:
  "List_indexedMap f xs = map2 (\<lambda>i x. f (int i) x) [0..<length xs] xs"
  by (simp add: List_indexedMap_def NList_map2_eq List_range_eq List_length_eq upto_nth_int
      zip_map1 case_prod_unfold)

text \<open>
  \<^verbatim>\<open>List.take\<close> unrolls four cells at a time and switches to a tail-recursive copy after a
  thousand rounds; it still returns the first \<open>n\<close> elements (none for \<open>n \<le> 0\<close>), which is what
  its callers rely on.
\<close>

theorem List_take_correct: "List_take n xs = take (nat n) xs"
  by (simp add: List_take_def List_takeFast_eq)

end
