(* ===== verification/Elm_Sort.thy ===== *)
theory Elm_Sort
  imports Elm_List "HOL-Library.AList" "HOL-Library.Multiset"
begin

text \<open>
  Sorting (\<^verbatim>\<open>sortBy\<close> and \<^verbatim>\<open>sortWith\<close> of \<^verbatim>\<open>Native.List\<close>) over the \<^verbatim>\<open>sort\<close> of JavaScript's arrays, and the update of
  records (\<^verbatim>\<open>update\<close> of \<^verbatim>\<open>Native.Utils\<close>).
\<close>

subsection \<open>Sorting\<close>

text \<open>
  The \<^verbatim>\<open>sort\<close> of the engine is an argument. What is documented of it: for a consistent comparison function the
  result is a rearrangement of the array in ascending order. It need not be stable.
\<close>

definition consistent :: "('a \<Rightarrow> 'a \<Rightarrow> int) \<Rightarrow> bool" where
  "consistent c \<longleftrightarrow> (\<forall>x y. (c x y < 0 \<longleftrightarrow> 0 < c y x)) \<and> (\<forall>x y z. c x y \<le> 0 \<longrightarrow> c y z \<le> 0 \<longrightarrow> c x z \<le> 0)"

definition sorts :: "(('a \<Rightarrow> 'a \<Rightarrow> int) \<Rightarrow> 'a list \<Rightarrow> 'a list) \<Rightarrow> bool" where
  "sorts engine \<longleftrightarrow>
     (\<forall>c xs. consistent c \<longrightarrow> mset (engine c xs) = mset xs \<and> sorted_wrt (\<lambda>x y. c x y \<le> 0) (engine c xs))"

definition List_sortBy ::
  "(('a \<Rightarrow> 'a \<Rightarrow> int) \<Rightarrow> 'a list \<Rightarrow> 'a list) \<Rightarrow> ('a \<Rightarrow> 'k::linorder) \<Rightarrow> 'a list \<Rightarrow> 'a list" where
  "List_sortBy engine f xs = fromArray (engine (\<lambda>a b. cmp (f a) (f b)) (toArray xs))"

definition List_sortWith ::
  "(('a \<Rightarrow> 'a \<Rightarrow> int) \<Rightarrow> 'a list \<Rightarrow> 'a list) \<Rightarrow> ('a \<Rightarrow> 'a \<Rightarrow> order) \<Rightarrow> 'a list \<Rightarrow> 'a list" where
  "List_sortWith engine f xs =
     fromArray (engine (\<lambda>a b. let ord = f a b in if ord = EQ then 0 else if ord = LT then -1 else 1) (toArray xs))"

definition List_sort :: "(('k \<Rightarrow> 'k \<Rightarrow> int) \<Rightarrow> 'k list \<Rightarrow> 'k list) \<Rightarrow> 'k::linorder list \<Rightarrow> 'k list" where
  "List_sort engine xs = List_sortBy engine (\<lambda>x. x) xs"

lemma cmp_consistent: "consistent (\<lambda>a b. cmp (f a) (f b))"
  by (auto simp: consistent_def cmp_def split: if_splits)

lemma cmp_le_0: "cmp x y \<le> 0 \<longleftrightarrow> x \<le> y"
  by (auto simp: cmp_def)

text \<open>
  \<^verbatim>\<open>sortBy\<close> rearranges the list into ascending order of the keys, with every engine. \<^verbatim>\<open>sort\<close> has one result only.
\<close>

theorem List_sortBy_correct:
  assumes "sorts engine"
  shows "mset (List_sortBy engine f xs) = mset xs \<and> sorted (map f (List_sortBy engine f xs))"
proof -
  have "mset (engine (\<lambda>a b. cmp (f a) (f b)) xs) = mset xs \<and>
      sorted_wrt (\<lambda>x y. cmp (f x) (f y) \<le> 0) (engine (\<lambda>a b. cmp (f a) (f b)) xs)"
    using assms cmp_consistent unfolding sorts_def by blast
  then show ?thesis by (simp add: List_sortBy_def elm_simps sorted_map cmp_le_0)
qed

lemma List_sort_unique:
  assumes "sorts engine"
  shows "List_sort engine xs = sort xs"
  using List_sortBy_correct [OF assms, of "\<lambda>x. x" xs] by (metis List_sort_def list.map_ident properties_for_sort)

text \<open>A function that orders consistently sorts the list; \<^verbatim>\<open>compare\<close> of keys gives the order of \<^verbatim>\<open>sortBy\<close>.\<close>

lemma List_sortWith_correct:
  assumes "sorts engine" "\<forall>x y. f x y = LT \<longleftrightarrow> f y x = GT"
    "\<forall>x y z. f x y \<noteq> GT \<longrightarrow> f y z \<noteq> GT \<longrightarrow> f x z \<noteq> GT"
  shows "mset (List_sortWith engine f xs) = mset xs \<and> sorted_wrt (\<lambda>x y. f x y \<noteq> GT) (List_sortWith engine f xs)"
proof -
  let ?c = "\<lambda>a b. let ord = f a b in if ord = EQ then 0 else if ord = LT then -1 else (1 :: int)"
  have s: "?c x y < 0 \<longleftrightarrow> f x y = LT" "0 < ?c x y \<longleftrightarrow> f x y = GT" "?c x y \<le> 0 \<longleftrightarrow> f x y \<noteq> GT" for x y
    by (cases "f x y"; simp)+
  then have "consistent ?c" using assms(2,3) unfolding consistent_def by blast
  then have "mset (engine ?c xs) = mset xs \<and> sorted_wrt (\<lambda>x y. ?c x y \<le> 0) (engine ?c xs)"
    using assms(1) unfolding sorts_def by blast
  then show ?thesis using s(3) by (simp add: List_sortWith_def elm_simps)
qed

text \<open>There are such engines.\<close>

fun engine_insert :: "('a \<Rightarrow> 'a \<Rightarrow> int) \<Rightarrow> 'a \<Rightarrow> 'a list \<Rightarrow> 'a list" where
  "engine_insert c x [] = [x]"
| "engine_insert c x (y # ys) = (if c x y \<le> 0 then x # y # ys else y # engine_insert c x ys)"

definition engine_sort :: "('a \<Rightarrow> 'a \<Rightarrow> int) \<Rightarrow> 'a list \<Rightarrow> 'a list" where
  "engine_sort c xs = foldr (engine_insert c) xs []"

lemma engine_sort_sorts: "sorts engine_sort"
proof -
  have m: "mset (engine_insert c x ys) = add_mset x (mset ys)" for c :: "'a \<Rightarrow> 'a \<Rightarrow> int" and x ys by (induction ys) auto
  have s: "sorted_wrt (\<lambda>x y. c x y \<le> 0) (engine_insert c x ys)"
    if "consistent c" "sorted_wrt (\<lambda>x y. c x y \<le> 0) ys" for c :: "'a \<Rightarrow> 'a \<Rightarrow> int" and x ys
    using that(2)
  proof (induction ys)
    case (Cons y ys)
    have set: "set (engine_insert c x ys) = insert x (set ys)" using m [of c x ys] by (metis set_mset_add_mset_insert set_mset_mset)
    show ?case
    proof (cases "c x y \<le> 0")
      case True
      with Cons.prems that(1) show ?thesis unfolding consistent_def by auto
    next
      case False
      with that(1) have "c y x \<le> 0" unfolding consistent_def by (meson less_le_not_le linorder_not_le)
      with False Cons set show ?thesis by simp
    qed
  qed simp
  have "mset (engine_sort c xs) = mset xs" for c :: "'a \<Rightarrow> 'a \<Rightarrow> int" and xs
    by (induction xs) (simp_all add: engine_sort_def m)
  moreover have "sorted_wrt (\<lambda>x y. c x y \<le> 0) (engine_sort c xs)" if "consistent c" for c :: "'a \<Rightarrow> 'a \<Rightarrow> int" and xs
    by (induction xs) (use s that in \<open>simp_all add: engine_sort_def\<close>)
  ultimately show ?thesis unfolding sorts_def by blast
qed

theorem List_sortBy_correct_witness:
  "mset (List_sortBy engine_sort (\<lambda>x. - x) [1, 3, 2 :: int]) = mset [1, 3, 2] \<and>
   sorted (map (\<lambda>x. - x) (List_sortBy engine_sort (\<lambda>x. - x) [1, 3, 2 :: int]))"
  by (rule List_sortBy_correct [OF engine_sort_sorts])

subsection \<open>Records\<close>

text \<open>
  \<^verbatim>\<open>update\<close> copies the fields of the old record and then those that are updated; an assignment to a field that is there
  keeps its place. \<^verbatim>\<open>guid\<close> counts its calls.
\<close>

definition Utils_update :: "(string \<times> 'a) list \<Rightarrow> (string \<times> 'a) list \<Rightarrow> (string \<times> 'a) list" where
  "Utils_update oldRecord updatedFields =
     fold (\<lambda>(k, v) r. AList.update k v r) updatedFields (fold (\<lambda>(k, v) r. AList.update k v r) oldRecord [])"

definition Utils_guid :: "nat \<Rightarrow> nat \<times> nat" where
  "Utils_guid n = (n, Suc n)"

lemma fold_update_map_of: "distinct (map fst kvs) \<Longrightarrow> map_of (fold (\<lambda>(k, v) r. AList.update k v r) kvs r) = map_of r ++ map_of kvs"
proof (induction kvs arbitrary: r)
  case (Cons kv kvs)
  obtain k v where kv: "kv = (k, v)" by (cases kv)
  have "map_of kvs k = None" using Cons.prems kv by (auto simp: map_of_eq_None_iff)
  then have "map_of (AList.update k v r) ++ map_of kvs = map_of r ++ map_of (kv # kvs)"
    using kv by (auto simp: fun_eq_iff map_add_def update_conv' split: option.split)
  moreover have "map_of (fold (\<lambda>(k, v) r. AList.update k v r) (kv # kvs) r) = map_of (AList.update k v r) ++ map_of kvs"
    using Cons kv by simp
  ultimately show ?case by (rule trans [rotated])
qed simp

lemma fold_update_keys: "fst ` set kvs \<subseteq> fst ` set r \<Longrightarrow> map fst (fold (\<lambda>(k, v) r. AList.update k v r) kvs r) = map fst r"
proof (induction kvs arbitrary: r)
  case (Cons kv kvs)
  obtain k v where kv: "kv = (k, v)" by (cases kv)
  have "map fst (AList.update k v r) = map fst r" using Cons.prems kv by (simp add: update_keys)
  moreover from this have "fst ` set (AList.update k v r) = fst ` set r" by (metis list.set_map)
  ultimately show ?case using Cons kv by simp
qed simp

lemma fold_update_copy: "distinct (map fst (r @ kvs)) \<Longrightarrow> fold (\<lambda>(k, v) r. AList.update k v r) kvs r = r @ kvs"
proof (induction kvs arbitrary: r)
  case (Cons kv kvs)
  obtain k v where kv: "kv = (k, v)" by (cases kv)
  have "AList.update k v r = r @ [(k, v)]" if "k \<notin> fst ` set r" using that by (induction r) auto
  then have "AList.update k v r = r @ [(k, v)]" using Cons.prems kv by simp
  with Cons.IH [of "r @ [(k, v)]"] Cons.prems kv show ?case by simp
qed simp

text \<open>An update keeps the fields of a record and their order, and changes the value of exactly the updated ones.\<close>

theorem Utils_update_correct:
  assumes "distinct (map fst oldRecord)" "distinct (map fst updatedFields)" "fst ` set updatedFields \<subseteq> fst ` set oldRecord"
  shows "map fst (Utils_update oldRecord updatedFields) = map fst oldRecord \<and>
    map_of (Utils_update oldRecord updatedFields) = map_of oldRecord ++ map_of updatedFields"
proof -
  have "Utils_update oldRecord updatedFields = fold (\<lambda>(k, v) r. AList.update k v r) updatedFields oldRecord"
    using fold_update_copy [of "[]" oldRecord] assms(1) by (simp add: Utils_update_def)
  with fold_update_keys [OF assms(3)] fold_update_map_of [OF assms(2)] show ?thesis by simp
qed

end
