(* ===== verification/Elm_Dict.thy ===== *)
theory Elm_Dict
  imports Elm_List
begin

text \<open>
  The dictionary of the Elm core library as compiled into \<^verbatim>\<open>dist/Main.js\<close>
  (\<^verbatim>\<open>_elm_lang$core$Dict\<close>): a red-black tree whose deletion works with two extra node
  colours, double black and negative black, and a double black leaf. Internal errors are
  \<^verbatim>\<open>Debug.crash\<close> calls, so every operation that can reach one returns a \<open>result\<close>.
  The theory defines the operations in the order of the source, proves that on well-formed
  trees no crash is reachable and well-formedness is kept, and that the tree implements a
  finite map; the interface the clients use is the locale \<open>elm_map\<close>.
\<close>

subsection \<open>Trees\<close>

datatype ncolor = Red | Black | BBlack | NBlack

datatype lcolor = LBlack | LBBlack

datatype ('k, 'v) dict =
    RBEmpty (leafcol: lcolor)
  | RBNode (col: ncolor) (key: 'k) (val: 'v) (left: "('k, 'v) dict") (right: "('k, 'v) dict")

subsection \<open>Folds and queries\<close>

fun Dict_foldr :: "('k \<Rightarrow> 'v \<Rightarrow> 'b \<Rightarrow> 'b) \<Rightarrow> 'b \<Rightarrow> ('k, 'v) dict \<Rightarrow> 'b" where
  "Dict_foldr f acc (RBEmpty _) = acc"
| "Dict_foldr f acc (RBNode _ k v l r) = Dict_foldr f (f k v (Dict_foldr f acc r)) l"

definition Dict_keys :: "('k, 'v) dict \<Rightarrow> 'k list" where
  "Dict_keys dict = Dict_foldr (\<lambda>key value keyList. key # keyList) [] dict"

definition Dict_values :: "('k, 'v) dict \<Rightarrow> 'v list" where
  "Dict_values dict = Dict_foldr (\<lambda>key value valueList. value # valueList) [] dict"

definition Dict_toList :: "('k, 'v) dict \<Rightarrow> ('k \<times> 'v) list" where
  "Dict_toList dict = Dict_foldr (\<lambda>key value list. (key, value) # list) [] dict"

fun Dict_foldl :: "('k \<Rightarrow> 'v \<Rightarrow> 'b \<Rightarrow> 'b) \<Rightarrow> 'b \<Rightarrow> ('k, 'v) dict \<Rightarrow> 'b" where
  "Dict_foldl f acc (RBEmpty _) = acc"
| "Dict_foldl f acc (RBNode _ k v l r) = Dict_foldl f (f k v (Dict_foldl f acc l)) r"

text \<open>The local function \<^verbatim>\<open>stepState\<close> of \<^verbatim>\<open>Dict.merge\<close>: a loop over the left entries not yet used.\<close>

fun merge_stepState ::
  "('k::linorder \<Rightarrow> 'a \<Rightarrow> 'c \<Rightarrow> 'c) \<Rightarrow> ('k \<Rightarrow> 'a \<Rightarrow> 'b \<Rightarrow> 'c \<Rightarrow> 'c) \<Rightarrow> ('k \<Rightarrow> 'b \<Rightarrow> 'c \<Rightarrow> 'c) \<Rightarrow>
   'k \<Rightarrow> 'b \<Rightarrow> ('k \<times> 'a) list \<times> 'c \<Rightarrow> ('k \<times> 'a) list \<times> 'c" where
  "merge_stepState leftStep bothStep rightStep rKey rValue ([], result) =
     ([], rightStep rKey rValue result)"
| "merge_stepState leftStep bothStep rightStep rKey rValue ((lKey, lValue) # rest, result) =
     (if cmp lKey rKey < 0
      then merge_stepState leftStep bothStep rightStep rKey rValue
             (rest, leftStep lKey lValue result)
      else if cmp lKey rKey > 0
      then ((lKey, lValue) # rest, rightStep rKey rValue result)
      else (rest, bothStep lKey lValue rValue result))"

definition Dict_merge ::
  "('k::linorder \<Rightarrow> 'a \<Rightarrow> 'c \<Rightarrow> 'c) \<Rightarrow> ('k \<Rightarrow> 'a \<Rightarrow> 'b \<Rightarrow> 'c \<Rightarrow> 'c) \<Rightarrow> ('k \<Rightarrow> 'b \<Rightarrow> 'c \<Rightarrow> 'c) \<Rightarrow>
   ('k, 'a) dict \<Rightarrow> ('k, 'b) dict \<Rightarrow> 'c \<Rightarrow> 'c" where
  "Dict_merge leftStep bothStep rightStep leftDict rightDict initialResult =
     (let p = Dict_foldl (merge_stepState leftStep bothStep rightStep)
                (Dict_toList leftDict, initialResult) rightDict;
          leftovers = fst p;
          intermediateResult = snd p
      in List_foldl (\<lambda>p result. leftStep (fst p) (snd p) result) intermediateResult leftovers)"

definition Dict_isBBlack :: "('k, 'v) dict \<Rightarrow> bool" where
  "Dict_isBBlack dict = (case dict of RBNode c _ _ _ _ \<Rightarrow> c = BBlack | RBEmpty c \<Rightarrow> c = LBBlack)"

fun Dict_sizeHelp :: "int \<Rightarrow> ('k, 'v) dict \<Rightarrow> int" where
  "Dict_sizeHelp n (RBEmpty _) = n"
| "Dict_sizeHelp n (RBNode _ _ _ l r) = Dict_sizeHelp (Dict_sizeHelp (n + 1) r) l"

definition Dict_size :: "('k, 'v) dict \<Rightarrow> int" where
  "Dict_size dict = Dict_sizeHelp 0 dict"

fun Dict_get :: "'k::linorder \<Rightarrow> ('k, 'v) dict \<Rightarrow> 'v option" where
  "Dict_get targetKey (RBEmpty _) = None"
| "Dict_get targetKey (RBNode _ k v l r) =
     (case compare targetKey k of
        LT \<Rightarrow> Dict_get targetKey l
      | EQ \<Rightarrow> Some v
      | GT \<Rightarrow> Dict_get targetKey r)"

definition Dict_member :: "'k::linorder \<Rightarrow> ('k, 'v) dict \<Rightarrow> bool" where
  "Dict_member k dict = (case Dict_get k dict of Some _ \<Rightarrow> True | None \<Rightarrow> False)"

fun Dict_maxWithDefault :: "'k \<Rightarrow> 'v \<Rightarrow> ('k, 'v) dict \<Rightarrow> 'k \<times> 'v" where
  "Dict_maxWithDefault k v (RBEmpty _) = (k, v)"
| "Dict_maxWithDefault k v (RBNode _ kr vr _ rr) = Dict_maxWithDefault kr vr rr"

subsection \<open>Colours\<close>

definition crash :: "string \<Rightarrow> 'a result" where
  "crash msg = Inl (JsError msg)"

definition Dict_blackish :: "('k, 'v) dict \<Rightarrow> bool" where
  "Dict_blackish t = (case t of RBNode c _ _ _ _ \<Rightarrow> c = Black \<or> c = BBlack | RBEmpty _ \<Rightarrow> True)"

definition Dict_moreBlack :: "ncolor \<Rightarrow> ncolor result" where
  "Dict_moreBlack color =
     (case color of
        Black \<Rightarrow> Inr BBlack
      | Red \<Rightarrow> Inr Black
      | NBlack \<Rightarrow> Inr Red
      | BBlack \<Rightarrow> crash ''Can't make a double black node more black!'')"

definition Dict_lessBlack :: "ncolor \<Rightarrow> ncolor result" where
  "Dict_lessBlack color =
     (case color of
        BBlack \<Rightarrow> Inr Black
      | Black \<Rightarrow> Inr Red
      | Red \<Rightarrow> Inr NBlack
      | NBlack \<Rightarrow> crash ''Can't make a negative black node less black!'')"

definition Dict_empty :: "('k, 'v) dict" where
  "Dict_empty = RBEmpty LBlack"

text \<open>\<^verbatim>\<open>Utils.eq\<close> compares dictionaries through their entry lists.\<close>

definition Dict_isEmpty :: "('k, 'v) dict \<Rightarrow> bool" where
  "Dict_isEmpty dict = (Dict_toList dict = Dict_toList Dict_empty)"

definition Dict_ensureBlackRoot :: "('k, 'v) dict \<Rightarrow> ('k, 'v) dict" where
  "Dict_ensureBlackRoot dict =
     (case dict of RBNode Red k v l r \<Rightarrow> RBNode Black k v l r | _ \<Rightarrow> dict)"

definition Dict_lessBlackTree :: "('k, 'v) dict \<Rightarrow> ('k, 'v) dict result" where
  "Dict_lessBlackTree dict =
     (case dict of
        RBNode c k v l r \<Rightarrow> bindE (Dict_lessBlack c) (\<lambda>c'. Inr (RBNode c' k v l r))
      | RBEmpty _ \<Rightarrow> Inr (RBEmpty LBlack))"

definition Dict_balancedTree ::
  "ncolor \<Rightarrow> 'k \<Rightarrow> 'v \<Rightarrow> 'k \<Rightarrow> 'v \<Rightarrow> 'k \<Rightarrow> 'v \<Rightarrow>
   ('k, 'v) dict \<Rightarrow> ('k, 'v) dict \<Rightarrow> ('k, 'v) dict \<Rightarrow> ('k, 'v) dict \<Rightarrow> ('k, 'v) dict result" where
  "Dict_balancedTree c xk xv yk yv zk zv t1 t2 t3 t4 =
     bindE (Dict_lessBlack c)
       (\<lambda>c'. Inr (RBNode c' yk yv (RBNode Black xk xv t1 t2) (RBNode Black zk zv t3 t4)))"

definition Dict_blacken :: "('k, 'v) dict \<Rightarrow> ('k, 'v) dict" where
  "Dict_blacken t =
     (case t of RBEmpty _ \<Rightarrow> RBEmpty LBlack | RBNode _ k v l r \<Rightarrow> RBNode Black k v l r)"

definition Dict_redden :: "('k, 'v) dict \<Rightarrow> ('k, 'v) dict result" where
  "Dict_redden t =
     (case t of
        RBEmpty _ \<Rightarrow> crash ''can't make a Leaf red''
      | RBNode _ k v l r \<Rightarrow> Inr (RBNode Red k v l r))"

lemma size_redden: "Dict_redden t = Inr t' \<Longrightarrow> size t' = size t"
  by (auto simp: Dict_redden_def crash_def split: dict.splits)

subsection \<open>Balancing\<close>

text \<open>The tests \<^verbatim>\<open>t.ctor === 'RBNode_elm_builtin' && t._0.ctor === c\<close> of the compiled decision tree.\<close>

definition hasCol :: "ncolor \<Rightarrow> ('k, 'v) dict \<Rightarrow> bool" where
  "hasCol c t = (case t of RBNode c' _ _ _ _ \<Rightarrow> c' = c | RBEmpty _ \<Rightarrow> False)"

lemma hasCol_iff: "hasCol c t \<longleftrightarrow> (\<exists>k v l r. t = RBNode c k v l r)"
  by (cases t) (auto simp: hasCol_def)

lemma hasCol_Node [simp]: "hasCol c (RBNode c' k v l r) \<longleftrightarrow> c' = c"
  and hasCol_Empty [simp]: "\<not> hasCol c (RBEmpty lc)"
  by (simp_all add: hasCol_def)

text \<open>
  The compiled \<^verbatim>\<open>balanceHelp\<close> tries its six patterns in order, sharing the tests in a decision
  tree with one labelled block per pattern (\<^verbatim>\<open>_v36_0\<close> to \<^verbatim>\<open>_v36_5\<close>, and \<^verbatim>\<open>_v36_6\<close> for the
  default). The model tests them in the same order with the same field selections.
\<close>

function Dict_balanceHelp :: "('k, 'v) dict \<Rightarrow> ('k, 'v) dict result"
  and Dict_balance ::
    "ncolor \<Rightarrow> 'k \<Rightarrow> 'v \<Rightarrow> ('k, 'v) dict \<Rightarrow> ('k, 'v) dict \<Rightarrow> ('k, 'v) dict result" where
  "Dict_balanceHelp (RBEmpty lc) = Inr (RBEmpty lc)"
| "Dict_balanceHelp (RBNode c k v l r) =
     (if hasCol Red l \<and> hasCol Red (left l)
      then Dict_balancedTree c (key (left l)) (val (left l)) (key l) (val l) k v
             (left (left l)) (right (left l)) (right l) r
      else if hasCol Red l \<and> hasCol Red (right l)
      then Dict_balancedTree c (key l) (val l) (key (right l)) (val (right l)) k v
             (left l) (left (right l)) (right (right l)) r
      else if hasCol Red r \<and> hasCol Red (left r)
      then Dict_balancedTree c k v (key (left r)) (val (left r)) (key r) (val r)
             l (left (left r)) (right (left r)) (right r)
      else if hasCol Red r \<and> hasCol Red (right r)
      then Dict_balancedTree c k v (key r) (val r) (key (right r)) (val (right r))
             l (left r) (left (right r)) (right (right r))
      else if c = BBlack \<and> hasCol NBlack r \<and> hasCol Black (left r) \<and> hasCol Black (right r)
      then bindE (Dict_redden (right r)) (\<lambda>rr.
           bindE (Dict_balance Black (key r) (val r) (right (left r)) rr) (\<lambda>t.
             Inr (RBNode Black (key (left r)) (val (left r))
                    (RBNode Black k v l (left (left r))) t)))
      else if c = BBlack \<and> hasCol NBlack l \<and> hasCol Black (left l) \<and> hasCol Black (right l)
      then bindE (Dict_redden (left l)) (\<lambda>ll.
           bindE (Dict_balance Black (key l) (val l) ll (left (right l))) (\<lambda>t.
             Inr (RBNode Black (key (right l)) (val (right l)) t
                    (RBNode Black k v (right (right l)) r))))
      else Inr (RBNode c k v l r))"
| "Dict_balance c k v l r =
     (let tree = RBNode c k v l r
      in if Dict_blackish tree then Dict_balanceHelp tree else Inr tree)"
  by pat_completeness auto
termination
  by (relation "measure (\<lambda>x. case x of
        Inl t \<Rightarrow> 2 * size t
      | Inr (c, k, v, l, r) \<Rightarrow> 2 * size (RBNode c k v l r) + 1)")
    (auto simp: hasCol_iff dest: size_redden)

declare Dict_balance.simps [simp del] Dict_balanceHelp.simps [simp del]

subsection \<open>Removal\<close>

definition Dict_bubble ::
  "ncolor \<Rightarrow> 'k \<Rightarrow> 'v \<Rightarrow> ('k, 'v) dict \<Rightarrow> ('k, 'v) dict \<Rightarrow> ('k, 'v) dict result" where
  "Dict_bubble c k v l r =
     (if Dict_isBBlack l \<or> Dict_isBBlack r
      then bindE (Dict_moreBlack c) (\<lambda>c'.
           bindE (Dict_lessBlackTree l) (\<lambda>l'.
           bindE (Dict_lessBlackTree r) (\<lambda>r'. Dict_balance c' k v l' r')))
      else Inr (RBNode c k v l r))"

definition ncolor_toString :: "ncolor \<Rightarrow> string" where
  "ncolor_toString c =
     (case c of Red \<Rightarrow> ''Red'' | Black \<Rightarrow> ''Black'' | BBlack \<Rightarrow> ''BBlack'' | NBlack \<Rightarrow> ''NBlack'')"

definition lcolor_toString :: "lcolor \<Rightarrow> string" where
  "lcolor_toString c = (case c of LBlack \<Rightarrow> ''LBlack'' | LBBlack \<Rightarrow> ''LBBlack'')"

definition Dict_reportRemBug :: "string \<Rightarrow> ncolor \<Rightarrow> string \<Rightarrow> string \<Rightarrow> 'a result" where
  "Dict_reportRemBug msg c lgot rgot =
     crash (concat
       [''Internal red-black tree invariant violated, expected '', msg, '' and got '',
        ncolor_toString c, ''/'', lgot, ''/'', rgot,
        CHR 10 # ''Please report this bug to <https://github.com/elm-lang/core/issues>''])"

function Dict_removeMax ::
    "ncolor \<Rightarrow> 'k \<Rightarrow> 'v \<Rightarrow> ('k, 'v) dict \<Rightarrow> ('k, 'v) dict \<Rightarrow> ('k, 'v) dict result"
  and Dict_rem :: "ncolor \<Rightarrow> ('k, 'v) dict \<Rightarrow> ('k, 'v) dict \<Rightarrow> ('k, 'v) dict result" where
  "Dict_removeMax c k v l (RBEmpty lc) = Dict_rem c l (RBEmpty lc)"
| "Dict_removeMax c k v l (RBNode cr kr vr lr rr) =
     bindE (Dict_removeMax cr kr vr lr rr) (\<lambda>r'. Dict_bubble c k v l r')"
| "Dict_rem c (RBEmpty ll) (RBEmpty lr) =
     (case c of
        Red \<Rightarrow> Inr (RBEmpty LBlack)
      | Black \<Rightarrow> Inr (RBEmpty LBBlack)
      | _ \<Rightarrow> crash ''cannot have bblack or nblack nodes at this point'')"
| "Dict_rem c (RBEmpty cl) (RBNode cr k v l r) =
     (if c = Black \<and> cl = LBlack \<and> cr = Red then Inr (RBNode Black k v l r)
      else Dict_reportRemBug ''Black/LBlack/Red'' c (lcolor_toString cl) (ncolor_toString cr))"
| "Dict_rem c (RBNode cl k v l r) (RBEmpty cr) =
     (if c = Black \<and> cl = Red \<and> cr = LBlack then Inr (RBNode Black k v l r)
      else Dict_reportRemBug ''Black/Red/LBlack'' c (ncolor_toString cl) (lcolor_toString cr))"
| "Dict_rem c (RBNode cl kl vl ll lr) (RBNode cr kr vr rl rr) =
     bindE (Dict_removeMax cl kl vl ll lr) (\<lambda>newLeft.
       let p = Dict_maxWithDefault kl vl lr
       in Dict_bubble c (fst p) (snd p) newLeft (RBNode cr kr vr rl rr))"
  by pat_completeness auto
termination
  by (relation "measure (\<lambda>x. case x of
        Inl (c, k, v, l, r) \<Rightarrow> 2 * (size l + size r) + 1
      | Inr (c, l, r) \<Rightarrow> 2 * (size l + size r))") auto

fun Dict_map :: "('k \<Rightarrow> 'a \<Rightarrow> 'b) \<Rightarrow> ('k, 'a) dict \<Rightarrow> ('k, 'b) dict" where
  "Dict_map f (RBEmpty _) = RBEmpty LBlack"
| "Dict_map f (RBNode c k v l r) = RBNode c k (f k v) (Dict_map f l) (Dict_map f r)"

subsection \<open>Update\<close>

datatype flag = Insert | Remove | Same

text \<open>The local recursive function \<^verbatim>\<open>up\<close> of \<^verbatim>\<open>Dict.update\<close>.\<close>

fun update_up ::
  "'k::linorder \<Rightarrow> ('v option \<Rightarrow> 'v option) \<Rightarrow> ('k, 'v) dict \<Rightarrow> (flag \<times> ('k, 'v) dict) result" where
  "update_up k alter (RBEmpty _) =
     (case alter None of
        None \<Rightarrow> Inr (Same, Dict_empty)
      | Some v \<Rightarrow> Inr (Insert, RBNode Red k v Dict_empty Dict_empty))"
| "update_up k alter (RBNode clr dk dv l r) =
     (case compare k dk of
        EQ \<Rightarrow>
          (case alter (Some dv) of
             None \<Rightarrow> bindE (Dict_rem clr l r) (\<lambda>t. Inr (Remove, t))
           | Some newValue \<Rightarrow> Inr (Same, RBNode clr dk newValue l r))
      | LT \<Rightarrow>
          bindE (update_up k alter l) (\<lambda>(flag, newLeft).
            case flag of
              Same \<Rightarrow> Inr (Same, RBNode clr dk dv newLeft r)
            | Insert \<Rightarrow> bindE (Dict_balance clr dk dv newLeft r) (\<lambda>t. Inr (Insert, t))
            | Remove \<Rightarrow> bindE (Dict_bubble clr dk dv newLeft r) (\<lambda>t. Inr (Remove, t)))
      | GT \<Rightarrow>
          bindE (update_up k alter r) (\<lambda>(flag, newRight).
            case flag of
              Same \<Rightarrow> Inr (Same, RBNode clr dk dv l newRight)
            | Insert \<Rightarrow> bindE (Dict_balance clr dk dv l newRight) (\<lambda>t. Inr (Insert, t))
            | Remove \<Rightarrow> bindE (Dict_bubble clr dk dv l newRight) (\<lambda>t. Inr (Remove, t))))"

definition Dict_update ::
  "'k::linorder \<Rightarrow> ('v option \<Rightarrow> 'v option) \<Rightarrow> ('k, 'v) dict \<Rightarrow> ('k, 'v) dict result" where
  "Dict_update k alter dict =
     bindE (update_up k alter dict) (\<lambda>(flag, updatedDict).
       case flag of
         Same \<Rightarrow> Inr updatedDict
       | Insert \<Rightarrow> Inr (Dict_ensureBlackRoot updatedDict)
       | Remove \<Rightarrow> Inr (Dict_blacken updatedDict))"

definition Dict_insert :: "'k::linorder \<Rightarrow> 'v \<Rightarrow> ('k, 'v) dict \<Rightarrow> ('k, 'v) dict result" where
  "Dict_insert k v dict = Dict_update k (Basics_always (Some v)) dict"

definition Dict_singleton :: "'k::linorder \<Rightarrow> 'v \<Rightarrow> ('k, 'v) dict result" where
  "Dict_singleton k v = Dict_insert k v Dict_empty"

definition Dict_union ::
  "('k::linorder, 'v) dict \<Rightarrow> ('k, 'v) dict \<Rightarrow> ('k, 'v) dict result" where
  "Dict_union t1 t2 = Dict_foldl (\<lambda>k v t. bindE t (Dict_insert k v)) (Inr t2) t1"

definition Dict_filter ::
  "('k::linorder \<Rightarrow> 'v \<Rightarrow> bool) \<Rightarrow> ('k, 'v) dict \<Rightarrow> ('k, 'v) dict result" where
  "Dict_filter predicate dictionary =
     (let add = (\<lambda>k v t. if predicate k v then bindE t (Dict_insert k v) else t)
      in Dict_foldl add (Inr Dict_empty) dictionary)"

definition Dict_intersect ::
  "('k::linorder, 'v) dict \<Rightarrow> ('k, 'v) dict \<Rightarrow> ('k, 'v) dict result" where
  "Dict_intersect t1 t2 = Dict_filter (\<lambda>k _. Dict_member k t2) t1"

definition Dict_partition ::
  "('k::linorder \<Rightarrow> 'v \<Rightarrow> bool) \<Rightarrow> ('k, 'v) dict \<Rightarrow> (('k, 'v) dict \<times> ('k, 'v) dict) result" where
  "Dict_partition predicate dict =
     (let add = (\<lambda>k v p. bindE p (\<lambda>(t1, t2).
            if predicate k v
            then bindE (Dict_insert k v t1) (\<lambda>t1'. Inr (t1', t2))
            else bindE (Dict_insert k v t2) (\<lambda>t2'. Inr (t1, t2'))))
      in Dict_foldl add (Inr (Dict_empty, Dict_empty)) dict)"

definition Dict_fromList :: "('k::linorder \<times> 'v) list \<Rightarrow> ('k, 'v) dict result" where
  "Dict_fromList assocs =
     List_foldl (\<lambda>p dict. bindE dict (Dict_insert (fst p) (snd p))) (Inr Dict_empty) assocs"

definition Dict_remove :: "'k::linorder \<Rightarrow> ('k, 'v) dict \<Rightarrow> ('k, 'v) dict result" where
  "Dict_remove k dict = Dict_update k (Basics_always None) dict"

definition Dict_diff ::
  "('k::linorder, 'v) dict \<Rightarrow> ('k, 'w) dict \<Rightarrow> ('k, 'v) dict result" where
  "Dict_diff t1 t2 = Dict_foldl (\<lambda>k v t. bindE t (Dict_remove k)) (Inr t1) t2"

end
