(* ===== verification/Elm_Dict_Correct.thy ===== *)
theory Elm_Dict_Correct
  imports Elm_Dict
begin

text \<open>
  Correctness of the red-black dictionary: contents as an ordered association list, the
  well-formedness invariant, absence of crashes, and the finite-map interface \<open>elm_map\<close>
  with its interpretation.
\<close>

subsection \<open>Contents\<close>

fun inorder :: "('k, 'v) dict \<Rightarrow> ('k \<times> 'v) list" where
  "inorder (RBEmpty _) = []"
| "inorder (RBNode _ k v l r) = inorder l @ (k, v) # inorder r"

lemma Dict_foldr_eq: "Dict_foldr f acc t = foldr (\<lambda>(k, v). f k v) (inorder t) acc"
  by (induction f acc t rule: Dict_foldr.induct) auto

lemma Dict_foldl_eq: "Dict_foldl f acc t = fold (\<lambda>(k, v). f k v) (inorder t) acc"
  by (induction f acc t rule: Dict_foldl.induct) auto

lemma foldr_case_Cons: "foldr (\<lambda>(k, v). (#) (g k v)) xs ys = map (\<lambda>(k, v). g k v) xs @ ys"
  by (induction xs) auto

lemma foldr_Cons_Nil: "foldr (#) xs [] = xs"
  by (induction xs) auto

lemma Dict_toList_eq [elm_simps]: "Dict_toList t = inorder t"
  by (simp add: Dict_toList_def Dict_foldr_eq foldr_Cons_Nil)

lemma Dict_keys_eq [elm_simps]: "Dict_keys t = map fst (inorder t)"
  by (simp add: Dict_keys_def Dict_foldr_eq foldr_case_Cons fst_def)

lemma Dict_values_eq [elm_simps]: "Dict_values t = map snd (inorder t)"
  by (simp add: Dict_values_def Dict_foldr_eq foldr_case_Cons snd_def)

lemma Dict_sizeHelp_eq: "Dict_sizeHelp n t = n + int (length (inorder t))"
  by (induction n t rule: Dict_sizeHelp.induct) auto

lemma Dict_size_eq [elm_simps]: "Dict_size t = int (length (inorder t))"
  by (simp add: Dict_size_def Dict_sizeHelp_eq)

lemma inorder_lessBlackTree: "Dict_lessBlackTree t = Inr t' \<Longrightarrow> inorder t' = inorder t"
  by (auto simp: Dict_lessBlackTree_def bindE_eq_Inr split: dict.splits)

lemma inorder_redden: "Dict_redden t = Inr t' \<Longrightarrow> inorder t' = inorder t"
  by (auto simp: Dict_redden_def crash_def split: dict.splits)

lemma inorder_blacken [simp]: "inorder (Dict_blacken t) = inorder t"
  by (cases t) (auto simp: Dict_blacken_def)

lemma inorder_ensureBlackRoot [simp]: "inorder (Dict_ensureBlackRoot t) = inorder t"
  by (auto simp: Dict_ensureBlackRoot_def split: dict.split ncolor.split)

lemma inorder_balancedTree:
  "Dict_balancedTree c xk xv yk yv zk zv t1 t2 t3 t4 = Inr t \<Longrightarrow>
   inorder t = inorder t1 @ (xk, xv) # inorder t2 @ (yk, yv) # inorder t3 @ (zk, zv) # inorder t4"
  by (auto simp: Dict_balancedTree_def bindE_eq_Inr)

text \<open>
  The seven ways through \<^verbatim>\<open>balanceHelp\<close>, one case per pattern of the source.
\<close>

lemma balanceHelp_cases [case_names LL LR RL RR NR NL Id]:
  obtains
    yk yv xk xv a b d where
      "l = RBNode Red yk yv (RBNode Red xk xv a b) d"
      "Dict_balanceHelp (RBNode c k v l r) = Dict_balancedTree c xk xv yk yv k v a b d r"
  | yk yv xk xv a b d where
      "l = RBNode Red xk xv a (RBNode Red yk yv b d)"
      "\<not> hasCol Red a"
      "Dict_balanceHelp (RBNode c k v l r) = Dict_balancedTree c xk xv yk yv k v a b d r"
  | yk yv zk zv b d e where
      "r = RBNode Red zk zv (RBNode Red yk yv b d) e"
      "\<not> (hasCol Red l \<and> (hasCol Red (left l) \<or> hasCol Red (right l)))"
      "Dict_balanceHelp (RBNode c k v l r) = Dict_balancedTree c k v yk yv zk zv l b d e"
  | yk yv zk zv b d e where
      "r = RBNode Red yk yv b (RBNode Red zk zv d e)"
      "\<not> hasCol Red b"
      "\<not> (hasCol Red l \<and> (hasCol Red (left l) \<or> hasCol Red (right l)))"
      "Dict_balanceHelp (RBNode c k v l r) = Dict_balancedTree c k v yk yv zk zv l b d e"
  | yk yv zk zv b d wk wv e f where
      "c = BBlack"
      "r = RBNode NBlack zk zv (RBNode Black yk yv b d) (RBNode Black wk wv e f)"
      "Dict_balanceHelp (RBNode c k v l r) =
         bindE (Dict_balance Black zk zv d (RBNode Red wk wv e f))
           (\<lambda>t. Inr (RBNode Black yk yv (RBNode Black k v l b) t))"
  | xk xv yk yv wk wv e f b d where
      "c = BBlack"
      "l = RBNode NBlack xk xv (RBNode Black wk wv e f) (RBNode Black yk yv b d)"
      "\<not> hasCol NBlack r \<or> \<not> hasCol Black (left r) \<or> \<not> hasCol Black (right r)"
      "Dict_balanceHelp (RBNode c k v l r) =
         bindE (Dict_balance Black xk xv (RBNode Red wk wv e f) b)
           (\<lambda>t. Inr (RBNode Black yk yv t (RBNode Black k v d r)))"
  | "\<not> (hasCol Red l \<and> (hasCol Red (left l) \<or> hasCol Red (right l)))"
    "\<not> (hasCol Red r \<and> (hasCol Red (left r) \<or> hasCol Red (right r)))"
    "c = BBlack \<longrightarrow> \<not> (hasCol NBlack r \<and> hasCol Black (left r) \<and> hasCol Black (right r))"
    "c = BBlack \<longrightarrow> \<not> (hasCol NBlack l \<and> hasCol Black (left l) \<and> hasCol Black (right l))"
    "Dict_balanceHelp (RBNode c k v l r) = Inr (RBNode c k v l r)"
proof -
  let ?redL = "hasCol Red l \<and> (hasCol Red (left l) \<or> hasCol Red (right l))"
  let ?redR = "hasCol Red r \<and> (hasCol Red (left r) \<or> hasCol Red (right r))"
  let ?negR = "c = BBlack \<and> hasCol NBlack r \<and> hasCol Black (left r) \<and> hasCol Black (right r)"
  let ?negL = "c = BBlack \<and> hasCol NBlack l \<and> hasCol Black (left l) \<and> hasCol Black (right l)"
  note unf = Dict_balanceHelp.simps(2) [of c k v l r]
  consider "hasCol Red l \<and> hasCol Red (left l)"
    | "hasCol Red l \<and> \<not> hasCol Red (left l) \<and> hasCol Red (right l)"
    | "\<not> ?redL" "hasCol Red r \<and> hasCol Red (left r)"
    | "\<not> ?redL" "hasCol Red r \<and> \<not> hasCol Red (left r) \<and> hasCol Red (right r)"
    | "\<not> ?redL" "\<not> ?redR" "?negR" | "\<not> ?redL" "\<not> ?redR" "\<not> ?negR" "?negL"
    | "\<not> ?redL" "\<not> ?redR" "\<not> ?negR" "\<not> ?negL"
    by blast
  then show thesis
  proof cases
    case 1 then show ?thesis using that(1) unf by (auto simp: hasCol_iff)
  next
    case 2 then show ?thesis using that(2) unf by (auto simp: hasCol_iff [of Red l] hasCol_iff [of Red "right l"])
  next
    case 3
    then obtain yk yv zk zv b d e where "r = RBNode Red zk zv (RBNode Red yk yv b d) e"
      by (auto simp: hasCol_iff)
    with 3 show ?thesis using that(3) unf by auto
  next
    case 4
    then obtain yk yv zk zv b d e where "r = RBNode Red yk yv b (RBNode Red zk zv d e)"
      by (auto simp: hasCol_iff [of Red r] hasCol_iff [of Red "right r"])
    with 4 show ?thesis using that(4) unf by auto
  next
    case 5
    then obtain yk yv zk zv b d wk wv e f where
      "r = RBNode NBlack zk zv (RBNode Black yk yv b d) (RBNode Black wk wv e f)"
      by (auto simp: hasCol_iff)
    with 5 show ?thesis using that(5) unf by (auto simp: Dict_redden_def)
  next
    case 6
    then obtain xk xv yk yv wk wv e f b d where
      "l = RBNode NBlack xk xv (RBNode Black wk wv e f) (RBNode Black yk yv b d)"
      by (auto simp: hasCol_iff)
    with 6 show ?thesis using that(6) unf by (auto simp: Dict_redden_def)
  next
    case 7
    then show ?thesis using that(7) unf by auto
  qed
qed

lemma balance_eq:
  "Dict_balance c k v l r =
     (if c = Black \<or> c = BBlack then Dict_balanceHelp (RBNode c k v l r)
      else Inr (RBNode c k v l r))"
  by (simp add: Dict_balance.simps Dict_blackish_def Let_def)

lemma inorder_balance_Black:
  assumes "Dict_balance Black k v l r = Inr t"
  shows "inorder t = inorder l @ (k, v) # inorder r"
  by (rule balanceHelp_cases [where l = l and r = r and c = Black and k = k and v = v])
    (use assms in \<open>auto simp: balance_eq dest!: inorder_balancedTree\<close>)

lemma inorder_balance:
  assumes "Dict_balance c k v l r = Inr t"
  shows "inorder t = inorder l @ (k, v) # inorder r"
proof (cases "c = Black \<or> c = BBlack")
  case True
  with assms have eq: "Dict_balanceHelp (RBNode c k v l r) = Inr t" by (simp add: balance_eq)
  show ?thesis
    by (rule balanceHelp_cases [where l = l and r = r and c = c and k = k and v = v])
      (use eq in \<open>auto simp: bindE_eq_Inr dest!: inorder_balancedTree inorder_balance_Black\<close>)
next
  case False
  with assms show ?thesis by (auto simp: balance_eq)
qed

lemma inorder_bubble:
  "Dict_bubble c k v l r = Inr t \<Longrightarrow> inorder t = inorder l @ (k, v) # inorder r"
  by (auto simp: Dict_bubble_def bindE_eq_Inr
      dest!: inorder_balance inorder_lessBlackTree split: if_splits)

lemma inorder_maxWithDefault:
  "last ((k, v) # inorder r) = Dict_maxWithDefault k v r"
  by (induction k v r rule: Dict_maxWithDefault.induct) auto

lemma inorder_removeMax_rem:
  "Dict_removeMax c k v l r = Inr t \<Longrightarrow> inorder t = butlast (inorder l @ (k, v) # inorder r)"
  "Dict_rem c l r = Inr t \<Longrightarrow> inorder t = inorder l @ inorder r"
proof (induction c k v l r and c l r arbitrary: t and t rule: Dict_removeMax_Dict_rem.induct)
  case (6 c cl kl vl ll lr cr kr vr rl rr)
  let ?xs = "inorder ll @ (kl, vl) # inorder lr"
  have "last ?xs = Dict_maxWithDefault kl vl lr" by (simp add: inorder_maxWithDefault [symmetric])
  with 6 obtain newLeft where
    "inorder newLeft = butlast ?xs"
    "inorder t = inorder newLeft @ last ?xs # inorder (RBNode cr kr vr rl rr)"
    by (auto simp: bindE_eq_Inr Let_def dest!: inorder_bubble)
  moreover have "?xs \<noteq> []" by simp
  ultimately have "inorder t = (butlast ?xs @ [last ?xs]) @ inorder (RBNode cr kr vr rl rr)"
    by simp
  then show ?case by (simp only: append_butlast_last_id [OF \<open>?xs \<noteq> []\<close>] inorder.simps)
qed (auto simp: crash_def Dict_reportRemBug_def bindE_eq_Inr butlast_append
      dest!: inorder_bubble split: ncolor.splits if_splits)

lemmas inorder_rem = inorder_removeMax_rem(2)


subsection \<open>Ordered association lists\<close>

abbreviation sorted_keys :: "('k::linorder \<times> 'v) list \<Rightarrow> bool" where
  "sorted_keys xs \<equiv> sorted_wrt (<) (map fst xs)"

text \<open>What \<^verbatim>\<open>Dict.update\<close> does to the entries: the specification of the operation on lists.\<close>

fun alter_list ::
  "'k::linorder \<Rightarrow> ('v option \<Rightarrow> 'v option) \<Rightarrow> ('k \<times> 'v) list \<Rightarrow> ('k \<times> 'v) list" where
  "alter_list k f [] = (case f None of None \<Rightarrow> [] | Some v \<Rightarrow> [(k, v)])"
| "alter_list k f ((a, b) # ps) =
     (if k < a then (case f None of None \<Rightarrow> (a, b) # ps | Some v \<Rightarrow> (k, v) # (a, b) # ps)
      else if k = a then (case f (Some b) of None \<Rightarrow> ps | Some v \<Rightarrow> (a, v) # ps)
      else (a, b) # alter_list k f ps)"

lemma alter_list_less:
  "sorted_keys (xs @ (a, b) # ys) \<Longrightarrow> k < a \<Longrightarrow>
   alter_list k f (xs @ (a, b) # ys) = alter_list k f xs @ (a, b) # ys"
  by (induction xs) (auto simp: sorted_wrt_append split: option.split)

lemma alter_list_greater:
  "sorted_keys (xs @ (a, b) # ys) \<Longrightarrow> a \<le> k \<Longrightarrow>
   alter_list k f (xs @ (a, b) # ys) = xs @ alter_list k f ((a, b) # ys)"
  by (induction xs) (auto simp: sorted_wrt_append)

lemma keys_alter_list: "set (map fst (alter_list k f xs)) \<subseteq> insert k (set (map fst xs))"
  by (induction k f xs rule: alter_list.induct) (auto split: option.splits if_splits)

lemma sorted_alter_list: "sorted_keys xs \<Longrightarrow> sorted_keys (alter_list k f xs)"
proof (induction k f xs rule: alter_list.induct)
  case (2 k f a b ps)
  consider "k < a" | "k = a" | "a < k" by (meson linorder_neqE)
  then show ?case
  proof cases
    case 1
    with 2 show ?thesis by (auto split: option.split)
  next
    case 2
    with "2.prems" show ?thesis by (auto split: option.split)
  next
    case 3
    with 2 have "sorted_keys (alter_list k f ps)" by simp
    with 3 "2.prems" show ?thesis using keys_alter_list [of k f ps] by fastforce
  qed
qed (auto split: option.split)

lemma map_of_None_less: "\<forall>x \<in> set (map fst xs). k < (x::'k::linorder) \<Longrightarrow> map_of xs k = None"
  by (auto simp: map_of_eq_None_iff intro: less_irrefl)

lemma map_of_alter_list:
  "sorted_keys xs \<Longrightarrow> map_of (alter_list k f xs) = (map_of xs)(k := f (map_of xs k))"
proof (induction k f xs rule: alter_list.induct)
  case (2 k f a b ps)
  show ?case
  proof (cases "k \<le> a")
    case True
    with "2.prems" have "map_of ps k = None" by (intro map_of_None_less) fastforce
    with True "2.prems" show ?thesis by (auto simp: fun_eq_iff split: option.split)
  next
    case False
    with 2 show ?thesis by (auto simp: fun_eq_iff)
  qed
qed (auto simp: fun_eq_iff split: option.split)

subsection \<open>Lookup and update on the entries\<close>

lemma map_of_append_less:
  "sorted_keys (xs @ (a, b) # ys) \<Longrightarrow> k < a \<Longrightarrow> map_of (xs @ (a, b) # ys) k = map_of xs k"
proof -
  assume "sorted_keys (xs @ (a, b) # ys)" "k < a"
  then have "map_of ((a, b) # ys) k = None" by (intro map_of_None_less) (auto simp: sorted_wrt_append)
  then show ?thesis by (simp add: map_add_def split: option.split)
qed

lemma map_of_append_greater:
  "sorted_keys (xs @ (a, b) # ys) \<Longrightarrow> a \<le> k \<Longrightarrow>
   map_of (xs @ (a, b) # ys) k = map_of ((a, b) # ys) k"
proof -
  assume "sorted_keys (xs @ (a, b) # ys)" "a \<le> k"
  then have "k \<notin> fst ` set xs" by (auto simp: sorted_wrt_append)
  then have "map_of xs k = None" by (simp add: map_of_eq_None_iff)
  then show ?thesis by (simp add: map_add_def split: option.split)
qed

lemma Dict_get_eq: "sorted_keys (inorder t) \<Longrightarrow> Dict_get k t = map_of (inorder t) k"
proof (induction k t rule: Dict_get.induct)
  case (2 k c a b l r)
  then have "sorted_keys (inorder l)" "sorted_keys (inorder r)"
    by (auto simp: sorted_wrt_append)
  with 2 show ?case
    using map_of_append_less [of "inorder l" a b "inorder r" k]
      map_of_append_greater [of "inorder l" a b "inorder r" k]
    by (auto simp: compare_eq split: if_splits)
qed simp

lemma bindE_flag_eq_Inr:
  "bindE m (\<lambda>(flag, t). case flag of Insert \<Rightarrow> B t | Remove \<Rightarrow> C t | Same \<Rightarrow> A t) = Inr y \<longleftrightarrow>
   (\<exists>t. m = Inr (Same, t) \<and> A t = Inr y) \<or> (\<exists>t. m = Inr (Insert, t) \<and> B t = Inr y) \<or>
   (\<exists>t. m = Inr (Remove, t) \<and> C t = Inr y)"
proof (cases m)
  case (Inr p)
  then show ?thesis by (cases p, cases "fst p") auto
qed simp

lemma inorder_update_up:
  "sorted_keys (inorder t) \<Longrightarrow> update_up k f t = Inr (flag, t') \<Longrightarrow>
   inorder t' = alter_list k f (inorder t)"
proof (induction k f t arbitrary: flag t' rule: update_up.induct)
  case (2 k f c a b l r)
  then have sl: "sorted_keys (inorder l)" and sr: "sorted_keys (inorder r)"
    by (auto simp: sorted_wrt_append)
  have sorted: "sorted_keys (inorder l @ (a, b) # inorder r)" using "2.prems" by simp
  consider "k < a" | "k = a" | "a < k" by (meson linorder_neqE)
  then show ?case
  proof cases
    case 1
    then have alt: "alter_list k f (inorder l @ (a, b) # inorder r) =
      alter_list k f (inorder l) @ (a, b) # inorder r"
      using sorted by (rule alter_list_less [rotated])
    have lt: "compare k a = LT" using 1 by simp
    note IH = "2.IH"(1) [OF lt sl]
    from "2.prems"(2) show ?thesis
      by (simp add: lt bindE_flag_eq_Inr)
        (elim disjE exE conjE;
          clarsimp simp: alt bindE_eq_Inr dest!: IH inorder_balance inorder_bubble)
  next
    case 2
    with "2.prems" alter_list_greater [of "inorder l" a b "inorder r" k f] show ?thesis
      by (auto simp: compare_eq bindE_eq_Inr dest!: inorder_rem split: option.splits)
  next
    case 3
    then have alt: "alter_list k f (inorder l @ (a, b) # inorder r) =
      inorder l @ (a, b) # alter_list k f (inorder r)"
      using alter_list_greater [OF sorted less_imp_le, of k f] by auto
    have gt: "compare k a = GT" using 3 by simp
    note IH = "2.IH"(2) [OF gt sr]
    from "2.prems"(2) show ?thesis
      by (simp add: gt bindE_flag_eq_Inr)
        (elim disjE exE conjE;
          clarsimp simp: alt bindE_eq_Inr dest!: IH inorder_balance inorder_bubble)
  qed
qed (auto simp: Dict_empty_def split: option.splits)

lemma inorder_update:
  "sorted_keys (inorder t) \<Longrightarrow> Dict_update k f t = Inr t' \<Longrightarrow>
   inorder t' = alter_list k f (inorder t)"
  by (auto simp: Dict_update_def bindE_flag_eq_Inr dest: inorder_update_up)


subsection \<open>The red-black invariant\<close>

text \<open>
  The black height counts a double black node twice and a negative black node as minus one, so
  that it is the quantity every rotation keeps. A tree is \<open>proper\<close> when it uses only the two
  ordinary colours and no red node has a red child; \<open>weak\<close> allows the violation at the root
  that an insertion can leave, \<open>dbl\<close> is the double black root that a removal can leave.
\<close>

fun bw :: "ncolor \<Rightarrow> int" where
  "bw Red = 0"
| "bw Black = 1"
| "bw BBlack = 2"
| "bw NBlack = -1"

fun bh :: "('k, 'v) dict \<Rightarrow> int" where
  "bh (RBEmpty c) = (if c = LBlack then 1 else 2)"
| "bh (RBNode c _ _ l _) = bw c + bh l"

fun invh :: "('k, 'v) dict \<Rightarrow> bool" where
  "invh (RBEmpty _) = True"
| "invh (RBNode _ _ _ l r) \<longleftrightarrow> bh l = bh r \<and> invh l \<and> invh r"

fun proper :: "('k, 'v) dict \<Rightarrow> bool" where
  "proper (RBEmpty c) \<longleftrightarrow> c = LBlack"
| "proper (RBNode c _ _ l r) \<longleftrightarrow>
     (c = Black \<or> c = Red \<and> \<not> hasCol Red l \<and> \<not> hasCol Red r) \<and> proper l \<and> proper r"

fun weak :: "('k, 'v) dict \<Rightarrow> bool" where
  "weak (RBEmpty c) \<longleftrightarrow> c = LBlack"
| "weak (RBNode c _ _ l r) \<longleftrightarrow> (c = Black \<or> c = Red) \<and> proper l \<and> proper r"

fun dbl :: "('k, 'v) dict \<Rightarrow> bool" where
  "dbl (RBEmpty c) \<longleftrightarrow> c = LBBlack"
| "dbl (RBNode c _ _ l r) \<longleftrightarrow> c = BBlack \<and> proper l \<and> proper r"

definition removed :: "bool \<Rightarrow> ('k, 'v) dict \<Rightarrow> bool" where
  "removed red t \<longleftrightarrow> (if red then proper t else proper t \<and> \<not> hasCol Red t \<or> dbl t)"

definition rb_tree :: "('k, 'v) dict \<Rightarrow> bool" where
  "rb_tree t \<longleftrightarrow> proper t \<and> invh t \<and> \<not> hasCol Red t"

lemma bh_pos: "proper t \<Longrightarrow> 1 \<le> bh t"
  by (induction t) auto

lemma bh_dbl: "dbl t \<Longrightarrow> 2 \<le> bh t"
  by (cases t) (use bh_pos in fastforce)+

lemma proper_imp_weak: "proper t \<Longrightarrow> weak t"
  by (cases t) auto

lemma weak_Black: "weak t \<Longrightarrow> \<not> hasCol Red t \<Longrightarrow> proper t"
  by (cases t) auto

lemma isBBlack_dbl: "dbl t \<Longrightarrow> Dict_isBBlack t"
  by (cases t) (auto simp: Dict_isBBlack_def)

lemma isBBlack_proper: "proper t \<Longrightarrow> \<not> Dict_isBBlack t"
  by (cases t) (auto simp: Dict_isBBlack_def)

lemma lessBlackTree_dbl:
  "dbl t \<Longrightarrow> invh t \<Longrightarrow> \<exists>t'. Dict_lessBlackTree t = Inr t' \<and> proper t' \<and> \<not> hasCol Red t' \<and>
   \<not> hasCol NBlack t' \<and> invh t' \<and> bh t' = bh t - 1"
  by (cases t) (auto simp: Dict_lessBlackTree_def Dict_lessBlack_def)

lemma proper_node:
  assumes "proper t" "2 \<le> bh t" "\<not> hasCol Red t"
  obtains k v l r where "t = RBNode Black k v l r" "proper l" "proper r"
  using assms by (cases t) auto

lemma weak_no_red_red:
  "weak t \<Longrightarrow> \<not> (hasCol Red t \<and> (hasCol Red (left t) \<or> hasCol Red (right t))) \<Longrightarrow> proper t"
  by (cases t) auto

lemma weak_cases: "weak l \<and> proper r \<or> proper l \<and> weak r \<Longrightarrow> weak l \<and> weak r"
  by (auto simp: proper_imp_weak)

lemma balancedTree_Black [simp]:
  "Dict_balancedTree Black xk xv yk yv zk zv t1 t2 t3 t4 =
   Inr (RBNode Red yk yv (RBNode Black xk xv t1 t2) (RBNode Black zk zv t3 t4))"
  and balancedTree_BBlack [simp]:
  "Dict_balancedTree BBlack xk xv yk yv zk zv t1 t2 t3 t4 =
   Inr (RBNode Black yk yv (RBNode Black xk xv t1 t2) (RBNode Black zk zv t3 t4))"
  by (simp_all add: Dict_balancedTree_def Dict_lessBlack_def)

lemma balance_Black_ok:
  assumes w: "weak l \<and> proper r \<or> proper l \<and> weak r" and h: "invh l" "invh r" "bh l = bh r"
  shows "\<exists>t. Dict_balance Black k v l r = Inr t \<and> proper t \<and> invh t \<and> bh t = bh l + 1"
proof (rule balanceHelp_cases [where l = l and r = r and c = Black and k = k and v = v], goal_cases)
  case 7
  then show ?case using weak_no_red_red [of l] weak_no_red_red [of r] weak_cases [OF w] h by (simp add: balance_eq)
qed (use w h in \<open>auto simp: balance_eq\<close>)

text \<open>Removal makes one child double black; the sibling then takes a darker parent.\<close>

lemma balance_BBlack_left:
  assumes l: "proper l" "\<not> hasCol Red l" "\<not> hasCol NBlack l"
    and r: "r = RBNode Red kr vr lr rr" "proper lr" "proper rr"
    and h: "invh l" "invh r" "bh l = bh r"
  shows "\<exists>t. Dict_balance BBlack k v l r = Inr t \<and> (proper t \<and> \<not> hasCol Red t \<or> dbl t) \<and>
    invh t \<and> bh t = bh l + 2"
proof (rule balanceHelp_cases [where l = l and r = r and c = BBlack and k = k and v = v], goal_cases)
  case 7
  then show ?case using assms by (auto simp: balance_eq)
qed (use assms in \<open>auto simp: balance_eq\<close>)

lemma balance_BBlack_right:
  assumes r: "proper r" "\<not> hasCol Red r" "\<not> hasCol NBlack r"
    and l: "l = RBNode Red kl vl ll rl" "proper ll" "proper rl"
    and h: "invh l" "invh r" "bh l = bh r"
  shows "\<exists>t. Dict_balance BBlack k v l r = Inr t \<and> (proper t \<and> \<not> hasCol Red t \<or> dbl t) \<and>
    invh t \<and> bh t = bh l + 2"
proof (rule balanceHelp_cases [where l = l and r = r and c = BBlack and k = k and v = v], goal_cases)
  case 7
  then show ?case using assms by (auto simp: balance_eq)
qed (use assms in \<open>auto simp: balance_eq\<close>)

lemma balance_NBlack_left:
  assumes l: "proper l" "\<not> hasCol Red l" "invh l"
    and r: "r = RBNode NBlack zk zv (RBNode Black yk yv b d) (RBNode Black wk wv e f)"
      "proper b" "proper d" "proper e" "proper f"
    and h: "invh r" "bh l = bh r"
  shows "\<exists>t. Dict_balance BBlack k v l r = Inr t \<and> proper t \<and> \<not> hasCol Red t \<and>
    invh t \<and> bh t = bh l + 2"
proof -
  obtain t0 where t0: "Dict_balance Black zk zv d (RBNode Red wk wv e f) = Inr t0"
    "proper t0" "invh t0" "bh t0 = bh d + 1"
    using balance_Black_ok [of d "RBNode Red wk wv e f" zk zv] r h by auto
  show ?thesis
  proof (rule balanceHelp_cases [where l = l and r = r and c = BBlack and k = k and v = v], goal_cases)
    case 5
    then show ?case using l r h t0 by (auto simp: balance_eq)
  qed (use l r in auto)
qed

lemma balance_NBlack_right:
  assumes r: "proper r" "\<not> hasCol Red r" "invh r"
    and l: "l = RBNode NBlack xk xv (RBNode Black wk wv e f) (RBNode Black yk yv b d)"
      "proper b" "proper d" "proper e" "proper f"
    and h: "invh l" "bh l = bh r"
  shows "\<exists>t. Dict_balance BBlack k v l r = Inr t \<and> proper t \<and> \<not> hasCol Red t \<and>
    invh t \<and> bh t = bh l + 2"
proof -
  obtain t0 where t0: "Dict_balance Black xk xv (RBNode Red wk wv e f) b = Inr t0"
    "proper t0" "invh t0" "bh t0 = bh b + 1"
    using balance_Black_ok [of "RBNode Red wk wv e f" b xk xv] l h by auto
  have nn: "\<not> hasCol NBlack r" using r by (cases r) auto
  show ?thesis
  proof (rule balanceHelp_cases [where l = l and r = r and c = BBlack and k = k and v = v], goal_cases)
    case 6
    then show ?case using l r h t0 by (auto simp: balance_eq)
  qed (use l r nn in auto)
qed


lemma lessBlackTree_Node [simp]:
  "Dict_lessBlackTree (RBNode Black k v l r) = Inr (RBNode Red k v l r)"
  "Dict_lessBlackTree (RBNode Red k v l r) = Inr (RBNode NBlack k v l r)"
  by (simp_all add: Dict_lessBlackTree_def Dict_lessBlack_def)

lemma moreBlack_simps [simp]:
  "Dict_moreBlack Red = Inr Black" "Dict_moreBlack Black = Inr BBlack"
  by (simp_all add: Dict_moreBlack_def)

lemma bubble_proper:
  "proper l \<Longrightarrow> proper r \<Longrightarrow> Dict_bubble c k v l r = Inr (RBNode c k v l r)"
  by (simp add: Dict_bubble_def isBBlack_proper)

lemma bubble_left_ok:
  assumes l: "proper l \<and> \<not> (c = Red \<and> hasCol Red l) \<or> dbl l" and r: "proper r"
    and c: "c = Black \<or> c = Red \<and> \<not> hasCol Red r"
    and h: "invh l" "invh r" "bh l = bh r"
  shows "\<exists>t. Dict_bubble c k v l r = Inr t \<and> removed (c = Red) t \<and> invh t \<and> bh t = bw c + bh l"
proof (cases "dbl l")
  case False
  with l r c h show ?thesis by (auto simp: bubble_proper removed_def)
next
  case True
  then obtain l' where l': "Dict_lessBlackTree l = Inr l'" "proper l'" "\<not> hasCol Red l'"
    "\<not> hasCol NBlack l'" "invh l'" "bh l' = bh l - 1"
    using lessBlackTree_dbl [of l] h by blast
  have b2: "2 \<le> bh r" using bh_dbl [OF True] h by simp
  have bub: "Dict_bubble c k v l r = bindE (Dict_moreBlack c) (\<lambda>c'.
      bindE (Dict_lessBlackTree r) (\<lambda>r'. Dict_balance c' k v l' r'))"
    using True c by (auto simp: Dict_bubble_def isBBlack_dbl l')
  show ?thesis
  proof (cases "hasCol Red r")
    case False
    from proper_node [OF r b2 False] obtain kr vr lr rr where
      rr: "r = RBNode Black kr vr lr rr" "proper lr" "proper rr" .
    let ?r = "RBNode Red kr vr lr rr"
    have "weak ?r" "invh ?r" "bh l' = bh ?r" using rr h l' by auto
    then show ?thesis
      using bub c l' rr balance_Black_ok [of l' ?r k v]
        balance_BBlack_left [of l' ?r kr vr lr rr k v]
      by (auto simp: removed_def)
  next
    case True
    then obtain kr vr lr rr where rr: "r = RBNode Red kr vr lr rr" by (auto simp: hasCol_iff)
    with r h b2 have "2 \<le> bh lr" "2 \<le> bh rr" "proper lr" "proper rr" "\<not> hasCol Red lr"
      "\<not> hasCol Red rr" by auto
    then obtain yk yv b d wk wv e f where "lr = RBNode Black yk yv b d" "rr = RBNode Black wk wv e f"
      "proper b" "proper d" "proper e" "proper f"
      by (metis proper_node)
    with True c rr l' h bub show ?thesis
      using balance_NBlack_left [of l' "RBNode NBlack kr vr lr rr" kr vr yk yv b d wk wv e f k v]
      by (auto simp: removed_def)
  qed
qed

lemma bubble_right_ok:
  assumes r: "proper r \<and> \<not> (c = Red \<and> hasCol Red r) \<or> dbl r" and l: "proper l"
    and c: "c = Black \<or> c = Red \<and> \<not> hasCol Red l"
    and h: "invh l" "invh r" "bh l = bh r"
  shows "\<exists>t. Dict_bubble c k v l r = Inr t \<and> removed (c = Red) t \<and> invh t \<and> bh t = bw c + bh l"
proof (cases "dbl r")
  case False
  with l r c h show ?thesis by (auto simp: bubble_proper removed_def)
next
  case True
  then obtain r' where r': "Dict_lessBlackTree r = Inr r'" "proper r'" "\<not> hasCol Red r'"
    "\<not> hasCol NBlack r'" "invh r'" "bh r' = bh r - 1"
    using lessBlackTree_dbl [of r] h by blast
  have b2: "2 \<le> bh l" using bh_dbl [OF True] h by simp
  have bub: "Dict_bubble c k v l r = bindE (Dict_moreBlack c) (\<lambda>c'.
      bindE (Dict_lessBlackTree l) (\<lambda>l'. Dict_balance c' k v l' r'))"
    using True c by (auto simp: Dict_bubble_def isBBlack_dbl r')
  show ?thesis
  proof (cases "hasCol Red l")
    case False
    from proper_node [OF l b2 False] obtain kl vl ll rl where
      ll: "l = RBNode Black kl vl ll rl" "proper ll" "proper rl" .
    let ?l = "RBNode Red kl vl ll rl"
    have "weak ?l" "invh ?l" "bh ?l = bh r'" using ll h r' by auto
    then show ?thesis
      using bub c r' ll balance_Black_ok [of ?l r' k v]
        balance_BBlack_right [of r' ?l kl vl ll rl k v]
      by (auto simp: removed_def)
  next
    case True
    then obtain kl vl ll rl where ll: "l = RBNode Red kl vl ll rl" by (auto simp: hasCol_iff)
    with l h b2 have "2 \<le> bh ll" "2 \<le> bh rl" "proper ll" "proper rl" "\<not> hasCol Red ll"
      "\<not> hasCol Red rl" by auto
    then obtain yk yv b d wk wv e f where "rl = RBNode Black yk yv b d" "ll = RBNode Black wk wv e f"
      "proper b" "proper d" "proper e" "proper f"
      by (metis proper_node)
    with True c ll r' h bub show ?thesis
      using balance_NBlack_right [of r' "RBNode NBlack kl vl ll rl" kl vl wk wv e f yk yv b d k v]
      by (auto simp: removed_def)
  qed
qed

lemma removed_child: "removed red t \<Longrightarrow> red = hasCol Red s \<Longrightarrow> c = Red \<longrightarrow> \<not> hasCol Red s \<Longrightarrow>
    proper t \<and> \<not> (c = Red \<and> hasCol Red t) \<or> dbl t"
  by (auto simp: removed_def split: if_splits)

lemma removeMax_rem_ok:
  fixes l l' :: "('k, 'v) dict"
  shows
  "proper (RBNode c k v l r) \<Longrightarrow> invh (RBNode c k v l r) \<Longrightarrow>
   \<exists>t. Dict_removeMax c k v l r = Inr t \<and> removed (c = Red) t \<and> invh t \<and> bh t = bw c + bh l"
  "proper (RBNode c' k' v' l' r') \<Longrightarrow> invh (RBNode c' k' v' l' r') \<Longrightarrow>
   \<exists>t. Dict_rem c' l' r' = Inr t \<and> removed (c' = Red) t \<and> invh t \<and> bh t = bw c' + bh l'"
proof (induction c k v l r and c' l' r' arbitrary: and k' v' rule: Dict_removeMax_Dict_rem.induct)
  case (1 c k v l lc)
  then show ?case by simp
next
  case (2 c k v l cr kr vr lr rr)
  then obtain r' where r': "Dict_removeMax cr kr vr lr rr = Inr r'" "removed (cr = Red) r'"
    "invh r'" "bh r' = bw cr + bh lr" by auto
  have "proper r' \<and> \<not> (c = Red \<and> hasCol Red r') \<or> dbl r'"
    by (rule removed_child [OF r'(2), of "RBNode cr kr vr lr rr"]) (use 2 in auto)
  then show ?case using bubble_right_ok [of r' c l k v] r' 2 by auto
next
  case (3 c ll lr)
  then show ?case by (auto simp: removed_def)
next
  case (4 c cl cr k v l r)
  then show ?case using bh_pos [of l] by (auto simp: removed_def)
next
  case (5 c cl k v l r cr)
  then show ?case using bh_pos [of l] by (auto simp: removed_def)
next
  case (6 c cl kl vl ll lr cr kr vr rl rr)
  then obtain t where t: "Dict_removeMax cl kl vl ll lr = Inr t" "removed (cl = Red) t"
    "invh t" "bh t = bw cl + bh ll" by auto
  have "proper t \<and> \<not> (c = Red \<and> hasCol Red t) \<or> dbl t"
    by (rule removed_child [OF t(2), of "RBNode cl kl vl ll lr"]) (use 6 in auto)
  then show ?case using bubble_left_ok [of t c "RBNode cr kr vr rl rr"] t 6 by (auto simp: Let_def)
qed

lemmas rem_ok = removeMax_rem_ok(2)

text \<open>What \<^verbatim>\<open>up\<close> guarantees of its result, by flag.\<close>

definition up_result :: "('k, 'v) dict \<Rightarrow> flag \<Rightarrow> ('k, 'v) dict \<Rightarrow> bool" where
  "up_result t flag t' \<longleftrightarrow>
     invh t' \<and> bh t' = bh t \<and>
     (case flag of
        Same \<Rightarrow> proper t' \<and> (hasCol Red t' \<longleftrightarrow> hasCol Red t)
      | Insert \<Rightarrow> weak t' \<and> (\<not> hasCol Red t \<longrightarrow> proper t')
      | Remove \<Rightarrow> removed (hasCol Red t) t')"

lemma update_up_ok:
  "proper t \<Longrightarrow> invh t \<Longrightarrow> \<exists>flag t'. update_up k f t = Inr (flag, t') \<and> up_result t flag t'"
proof (induction k f t rule: update_up.induct)
  case (1 k f lc)
  then show ?case by (auto simp: up_result_def Dict_empty_def split: option.split)
next
  case (2 k f c a b l r)
  consider "k < a" | "k = a" | "a < k" by (meson linorder_neqE)
  then show ?case
  proof cases
    case 1
    then have lt: "compare k a = LT" by simp
    obtain flag t where t: "update_up k f l = Inr (flag, t)" "up_result l flag t"
      using "2.IH"(1) [OF lt] "2.prems" by auto
    show ?thesis
    proof (cases flag)
      case Same
      with t "2.prems" show ?thesis by (auto simp: lt up_result_def)
    next
      case Insert
      with t "2.prems" balance_Black_ok [of t r a b] show ?thesis
        by (auto simp: lt up_result_def balance_eq [of Red] intro: proper_imp_weak)
    next
      case Remove
      with t "2.prems" bubble_left_ok [of t c r a b] removed_child [of _ t l c] show ?thesis
        by (auto simp: lt up_result_def)
    qed
  next
    case 2
    then show ?thesis using rem_ok [of c a b l r] "2.prems"
      by (auto simp: up_result_def compare_eq split: option.split)
  next
    case 3
    then have gt: "compare k a = GT" by simp
    obtain flag t where t: "update_up k f r = Inr (flag, t)" "up_result r flag t"
      using "2.IH"(2) [OF gt] "2.prems" by auto
    show ?thesis
    proof (cases flag)
      case Same
      with t "2.prems" show ?thesis by (auto simp: gt up_result_def)
    next
      case Insert
      with t "2.prems" balance_Black_ok [of l t a b] show ?thesis
        by (auto simp: gt up_result_def balance_eq [of Red] intro: proper_imp_weak)
    next
      case Remove
      with t "2.prems" bubble_right_ok [of t c l a b] removed_child [of _ t r c] show ?thesis
        by (auto simp: gt up_result_def)
    qed
  qed
qed

lemma rb_tree_ensureBlackRoot: "weak t \<Longrightarrow> invh t \<Longrightarrow> rb_tree (Dict_ensureBlackRoot t)"
  by (cases t) (auto simp: rb_tree_def Dict_ensureBlackRoot_def)

lemma rb_tree_blacken: "removed red t \<Longrightarrow> invh t \<Longrightarrow> rb_tree (Dict_blacken t)"
  by (cases t) (auto simp: rb_tree_def Dict_blacken_def removed_def split: if_splits)

lemma update_ok: "rb_tree t \<Longrightarrow> \<exists>t'. Dict_update k f t = Inr t' \<and> rb_tree t'"
proof -
  assume "rb_tree t"
  then obtain flag t' where t': "update_up k f t = Inr (flag, t')" "up_result t flag t'" "\<not> hasCol Red t"
    using update_up_ok [of t k f] by (auto simp: rb_tree_def)
  then show ?thesis
    by (cases flag) (auto simp: Dict_update_def up_result_def rb_tree_def [of t']
        intro: rb_tree_ensureBlackRoot rb_tree_blacken)
qed


subsection \<open>The finite-map interface\<close>

lemma map_of_filter_rev:
  assumes "distinct (map fst xs)"
  shows "map_of (filter (\<lambda>(k, v). P k v) (rev xs)) j =
    (case map_of xs j of Some v \<Rightarrow> if P j v then Some v else None | None \<Rightarrow> None)"
proof -
  let ?ys = "filter (\<lambda>(k, v). P k v) (rev xs)"
  have "distinct (map fst (rev xs))" using assms by (simp add: rev_map [symmetric])
  then have "distinct (map fst ?ys)" by (rule distinct_map_filter)
  then have iff: "map_of ?ys j = Some v \<longleftrightarrow> map_of xs j = Some v \<and> P j v" for v
    using assms by (simp add: map_of_eq_Some_iff)
  show ?thesis
  proof (cases "map_of ?ys j")
    case None
    with iff show ?thesis by (auto split: option.split)
  next
    case (Some v)
    with iff [of v] show ?thesis by simp
  qed
qed

text \<open>
  What the clients of the dictionary (the WebSocket effect manager, \<^verbatim>\<open>Utils.eq\<close>,
  \<^verbatim>\<open>Utils.toString\<close>) rely on: a lookup, an update that never throws on well-formed values, and
  the entry list in key order. The derived operations are folds of the update over entry lists,
  so their laws are proved once here.
\<close>

locale elm_map =
  fixes empty :: "'m"
    and update :: "'k::linorder \<Rightarrow> ('v option \<Rightarrow> 'v option) \<Rightarrow> 'm \<Rightarrow> 'm result"
    and get :: "'k \<Rightarrow> 'm \<Rightarrow> 'v option"
    and entries :: "'m \<Rightarrow> ('k \<times> 'v) list"
    and wf :: "'m \<Rightarrow> bool"
  assumes wf_empty: "wf empty"
    and get_empty: "get k empty = None"
    and update_total: "wf m \<Longrightarrow> \<exists>m'. update k f m = Inr m' \<and> wf m' \<and>
      (\<forall>j. get j m' = (if j = k then f (get k m) else get j m))"
    and get_entries: "wf m \<Longrightarrow> get k m = map_of (entries m) k"
    and entries_sorted: "wf m \<Longrightarrow> sorted_wrt (<) (map fst (entries m))"
begin

lemma insert_total:
  "wf m \<Longrightarrow> \<exists>m'. update k (\<lambda>_. Some v) m = Inr m' \<and> wf m' \<and>
     (\<forall>j. get j m' = (if j = k then Some v else get j m))"
  using update_total [of m k "\<lambda>_. Some v"] by auto

lemma remove_total:
  "wf m \<Longrightarrow> \<exists>m'. update k (\<lambda>_. None) m = Inr m' \<and> wf m' \<and>
     (\<forall>j. get j m' = (if j = k then None else get j m))"
  using update_total [of m k "\<lambda>_. None"] by auto

lemma fold_insert_total:
  "wf m \<Longrightarrow> \<exists>m'. fold (\<lambda>(k, v) acc. if P k v then bindE acc (update k (\<lambda>_. Some v)) else acc) xs (Inr m) = Inr m' \<and>
     wf m' \<and> (\<forall>j. get j m' = (case map_of (filter (\<lambda>(k, v). P k v) (rev xs)) j of Some v \<Rightarrow> Some v | None \<Rightarrow> get j m))"
proof (induction xs arbitrary: m)
  case (Cons x xs)
  obtain k v where x: "x = (k, v)" by (cases x)
  show ?case
  proof (cases "P k v")
    case True
    obtain m1 where m1: "update k (\<lambda>_. Some v) m = Inr m1" "wf m1"
      "\<And>j. get j m1 = (if j = k then Some v else get j m)"
      using insert_total [OF Cons.prems, of k v] by blast
    obtain m' where "fold (\<lambda>(k, v) acc. if P k v then bindE acc (update k (\<lambda>_. Some v)) else acc) xs (Inr m1) = Inr m'"
      "wf m'" "\<And>j. get j m' = (case map_of (filter (\<lambda>(k, v). P k v) (rev xs)) j of Some v \<Rightarrow> Some v | None \<Rightarrow> get j m1)"
      using Cons.IH [OF m1(2)] by blast
    with m1 x True show ?thesis by (auto simp: map_add_def split: option.split)
  next
    case False
    with Cons x show ?thesis by auto
  qed
qed auto

lemma fold_remove_total:
  "wf m \<Longrightarrow> \<exists>m'. fold (\<lambda>(k, v) acc. bindE acc (update k (\<lambda>_. None))) xs (Inr m) = Inr m' \<and>
     wf m' \<and> (\<forall>j. get j m' = (if j \<in> fst ` set xs then None else get j m))"
proof (induction xs arbitrary: m)
  case (Cons x xs)
  obtain k v where x: "x = (k, v)" by (cases x)
  obtain m1 where m1: "update k (\<lambda>_. None) m = Inr m1" "wf m1"
    "\<And>j. get j m1 = (if j = k then None else get j m)"
    using remove_total [OF Cons.prems, of k] by blast
  obtain m' where "fold (\<lambda>(k, v) acc. bindE acc (update k (\<lambda>_. None))) xs (Inr m1) = Inr m'"
    "wf m'" "\<And>j. get j m' = (if j \<in> fst ` set xs then None else get j m1)"
    using Cons.IH [OF m1(2)] by blast
  with m1 x show ?case by auto
qed auto

lemma entries_distinct: "wf m \<Longrightarrow> distinct (map fst (entries m))"
  using entries_sorted by (auto simp: strict_sorted_iff)

lemma get_filter_entries:
  assumes "wf m"
  shows "map_of (filter (\<lambda>(k, v). P k v) (rev (entries m))) j =
     (case get j m of Some v \<Rightarrow> if P j v then Some v else None | None \<Rightarrow> None)"
  using map_of_filter_rev [OF entries_distinct [OF assms], of P j] get_entries [OF assms, of j]
  by simp

lemma filter_total:
  assumes "wf m"
  shows "\<exists>m'. fold (\<lambda>(k, v) acc. if P k v then bindE acc (update k (\<lambda>_. Some v)) else acc)
      (entries m) (Inr empty) = Inr m' \<and> wf m' \<and>
    (\<forall>j. get j m' = (case get j m of Some v \<Rightarrow> if P j v then Some v else None | None \<Rightarrow> None))"
  using fold_insert_total [OF wf_empty, of P "entries m"]
  by (auto simp: get_filter_entries [OF assms] get_empty split: option.split)

lemma union_total:
  assumes "wf m1" "wf m2"
  shows "\<exists>m'. fold (\<lambda>(k, v) acc. bindE acc (update k (\<lambda>_. Some v))) (entries m1) (Inr m2) = Inr m' \<and>
    wf m' \<and> (\<forall>j. get j m' = (case get j m1 of Some v \<Rightarrow> Some v | None \<Rightarrow> get j m2))"
  using fold_insert_total [OF assms(2), of "\<lambda>_ _. True" "entries m1"]
    get_filter_entries [OF assms(1), of "\<lambda>_ _. True"]
  by (auto split: option.split)

lemma from_list_total:
  "\<exists>m'. fold (\<lambda>(k, v) acc. bindE acc (update k (\<lambda>_. Some v))) xs (Inr empty) = Inr m' \<and>
    wf m' \<and> (\<forall>j. get j m' = map_of (rev xs) j)"
  using fold_insert_total [OF wf_empty, of "\<lambda>_ _. True" xs]
  by (auto simp: get_empty split: option.split)

lemma difference_total:
  assumes "wf m"
  shows "\<exists>m'. fold (\<lambda>(k, v) acc. bindE acc (update k (\<lambda>_. None))) xs (Inr m) = Inr m' \<and>
    wf m' \<and> (\<forall>j. get j m' = (if j \<in> fst ` set xs then None else get j m))"
  by (rule fold_remove_total [OF assms])

end

subsection \<open>The dictionary implements the interface\<close>

definition Dict_wf :: "('k::linorder, 'v) dict \<Rightarrow> bool" where
  "Dict_wf t \<longleftrightarrow> rb_tree t \<and> sorted_keys (inorder t)"

lemma Dict_get_inorder: "Dict_wf t \<Longrightarrow> Dict_get k t = map_of (inorder t) k"
  by (simp add: Dict_wf_def Dict_get_eq)

lemma Dict_wf_empty: "Dict_wf Dict_empty"
  by (simp add: Dict_wf_def Dict_empty_def rb_tree_def)

lemma Dict_update_total:
  assumes "Dict_wf t"
  shows "\<exists>t'. Dict_update k f t = Inr t' \<and> Dict_wf t' \<and>
    (\<forall>j. Dict_get j t' = (if j = k then f (Dict_get k t) else Dict_get j t))"
proof -
  from assms obtain t' where t': "Dict_update k f t = Inr t'" "rb_tree t'"
    using update_ok [of t k f] by (auto simp: Dict_wf_def)
  with assms have io: "inorder t' = alter_list k f (inorder t)"
    by (auto simp: Dict_wf_def intro: inorder_update)
  then have "Dict_wf t'" using assms t' by (simp add: Dict_wf_def sorted_alter_list)
  with t' io assms show ?thesis
    by (auto simp: Dict_get_inorder map_of_alter_list Dict_wf_def)
qed

lemma Dict_insert_eq: "Dict_insert k v = Dict_update k (\<lambda>_. Some v)"
  by (rule ext) (simp add: Dict_insert_def Basics_always_def [abs_def])

lemma Dict_remove_eq: "Dict_remove k = Dict_update k (\<lambda>_. None)"
  by (rule ext) (simp add: Dict_remove_def Basics_always_def [abs_def])

interpretation dict: elm_map Dict_empty Dict_update Dict_get Dict_toList Dict_wf
  by unfold_locales
    (auto simp: Dict_wf_empty Dict_update_total Dict_toList_eq Dict_get_inorder,
     simp_all add: Dict_empty_def Dict_wf_def)

lemma Dict_insert_total:
  "Dict_wf d \<Longrightarrow> \<exists>d'. Dict_insert k v d = Inr d' \<and> Dict_wf d' \<and>
     (\<forall>j. Dict_get j d' = (if j = k then Some v else Dict_get j d))"
  unfolding Dict_insert_eq by (rule dict.insert_total)

lemma Dict_remove_total:
  "Dict_wf d \<Longrightarrow> \<exists>d'. Dict_remove k d = Inr d' \<and> Dict_wf d' \<and>
     (\<forall>j. Dict_get j d' = (if j = k then None else Dict_get j d))"
  unfolding Dict_remove_eq by (rule dict.remove_total)

subsection \<open>Merging two dictionaries\<close>

text \<open>One call of the right callback for a key, given what the two dictionaries hold for it.\<close>

definition merge_visit ::
  "('k \<Rightarrow> 'a \<Rightarrow> 'c \<Rightarrow> 'c) \<Rightarrow> ('k \<Rightarrow> 'a \<Rightarrow> 'b \<Rightarrow> 'c \<Rightarrow> 'c) \<Rightarrow> ('k \<Rightarrow> 'b \<Rightarrow> 'c \<Rightarrow> 'c) \<Rightarrow>
   ('k \<rightharpoonup> 'a) \<Rightarrow> ('k \<rightharpoonup> 'b) \<Rightarrow> 'k \<Rightarrow> 'c \<Rightarrow> 'c" where
  "merge_visit L B R m1 m2 k =
     (case m1 k of
        Some a \<Rightarrow> (case m2 k of Some b \<Rightarrow> B k a b | None \<Rightarrow> L k a)
      | None \<Rightarrow> (case m2 k of Some b \<Rightarrow> R k b | None \<Rightarrow> id))"

fun merge_keys :: "('k::linorder \<times> 'a) list \<Rightarrow> ('k \<times> 'b) list \<Rightarrow> 'k list" where
  "merge_keys xs [] = map fst xs"
| "merge_keys [] ys = map fst ys"
| "merge_keys ((j, a) # xs) ((k, b) # ys) =
     (if j < k then j # merge_keys xs ((k, b) # ys)
      else if k < j then k # merge_keys ((j, a) # xs) ys
      else j # merge_keys xs ys)"

lemma set_merge_keys: "set (merge_keys xs ys) = fst ` set xs \<union> fst ` set ys"
  by (induction xs ys rule: merge_keys.induct) auto

lemma sorted_merge_keys:
  "sorted_keys xs \<Longrightarrow> sorted_keys ys \<Longrightarrow> sorted_wrt (<) (merge_keys xs ys)"
proof (induction xs ys rule: merge_keys.induct)
  case (3 j a xs k b ys)
  have xs: "\<forall>x \<in> set xs. j < fst x" and ys: "\<forall>y \<in> set ys. k < fst y" using "3.prems" by auto
  consider "j < k" | "k < j" | "j = k" by (meson linorder_neqE)
  then show ?case
  proof cases
    case 1
    have "\<forall>x \<in> set (merge_keys xs ((k, b) # ys)). j < x"
      using xs ys 1 by (auto simp: set_merge_keys intro: less_trans)
    then show ?thesis using 1 3 by simp
  next
    case 2
    have "\<forall>x \<in> set (merge_keys ((j, a) # xs) ys). k < x"
      using xs ys 2 by (auto simp: set_merge_keys intro: less_trans)
    then show ?thesis using 2 3 less_not_sym [OF 2] by simp
  next
    case 3
    have "\<forall>x \<in> set (merge_keys xs ys). j < x" using xs ys 3 by (auto simp: set_merge_keys)
    then show ?thesis using 3 "3.IH"(3) "3.prems" by simp
  qed
qed auto

lemma merge_keys_eq:
  "sorted_keys xs \<Longrightarrow> sorted_keys ys \<Longrightarrow>
   merge_keys xs ys = sorted_list_of_set (fst ` set xs \<union> fst ` set ys)"
  using sorted_merge_keys [of xs ys] set_merge_keys [of xs ys]
  by (metis sorted_list_of_set.idem_if_sorted_distinct strict_sorted_iff)

lemma merge_visit_simps:
  "m1 k = Some a \<Longrightarrow> m2 k = None \<Longrightarrow> merge_visit L B R m1 m2 k = L k a"
  "m1 k = Some a \<Longrightarrow> m2 k = Some b \<Longrightarrow> merge_visit L B R m1 m2 k = B k a b"
  "m1 k = None \<Longrightarrow> m2 k = Some b \<Longrightarrow> merge_visit L B R m1 m2 k = R k b"
  by (simp_all add: merge_visit_def)

lemma merge_visit_neither: "m1 k = None \<Longrightarrow> m2 k = None \<Longrightarrow> merge_visit L B R m1 m2 k acc = acc"
  by (simp add: merge_visit_def)

lemma fold_merge_visit_left:
  "\<forall>(k, a) \<in> set xs. m1 k = Some a \<and> m2 k = None \<Longrightarrow>
   fold (merge_visit L B R m1 m2) (map fst xs) acc = fold (\<lambda>(k, a). L k a) xs acc"
  by (induction xs arbitrary: acc) (auto simp: merge_visit_simps)

lemma fold_merge_visit_right:
  "\<forall>(k, b) \<in> set ys. m1 k = None \<and> m2 k = Some b \<Longrightarrow>
   fold (merge_visit L B R m1 m2) (map fst ys) acc = fold (\<lambda>(k, b). R k b) ys acc"
  by (induction ys arbitrary: acc) (auto simp: merge_visit_simps)

lemma fold_stepState_Nil:
  "fold (\<lambda>(k, v). merge_stepState L B R k v) ys ([], acc) = ([], fold (\<lambda>(k, v). R k v) ys acc)"
  by (induction ys arbitrary: acc) auto

lemma merge_loop_eq:
  "sorted_keys xs \<Longrightarrow> sorted_keys ys \<Longrightarrow>
   \<forall>k \<in> fst ` set xs \<union> fst ` set ys. m1 k = map_of xs k \<and> m2 k = map_of ys k \<Longrightarrow>
   (let p = fold (\<lambda>(k, v). merge_stepState L B R k v) ys (xs, acc)
    in fold (\<lambda>(k, a). L k a) (fst p) (snd p)) =
   fold (merge_visit L B R m1 m2) (merge_keys xs ys) acc"
proof (induction xs ys arbitrary: acc rule: merge_keys.induct)
  case (1 xs)
  then show ?case
    by (subst merge_keys.simps(1), subst fold_merge_visit_left)
      (auto simp: strict_sorted_iff intro: map_of_is_SomeI)
next
  case (2 y ys)
  have d: "distinct (map fst (y # ys))" using "2.prems"(2) by (simp only: strict_sorted_iff)
  have "m1 k = None \<and> m2 k = Some b" if "(k, b) \<in> set (y # ys)" for k b
    using "2.prems"(3) that map_of_is_SomeI [OF d that] by (auto simp del: map_of.simps(2) simp: image_iff)
  then have "\<forall>(k, b) \<in> set (y # ys). m1 k = None \<and> m2 k = Some b" by blast
  from fold_merge_visit_right [OF this, of L B R acc] show ?case
    by (simp only: merge_keys.simps fold_stepState_Nil Let_def fst_conv snd_conv fold_simps(1))
next
  case (3 j a xs k b ys)
  have sx: "sorted_keys xs" and sy: "sorted_keys ys"
    and jx: "j \<notin> fst ` set xs" and ky: "k \<notin> fst ` set ys" using "3.prems" by auto
  consider "j < k" | "k < j" | "j = k" by (meson linorder_neqE)
  then show ?case
  proof cases
    case 1
    then have jy: "j \<notin> fst ` set ((k, b) # ys)" using "3.prems"(2) by force
    then have "m1 j = Some a" "m2 j = None" using "3.prems"(3) by (auto simp: map_of_eq_None_iff)
    moreover have "\<forall>i \<in> fst ` set xs \<union> fst ` set ((k, b) # ys). m1 i = map_of xs i \<and> m2 i = map_of ((k, b) # ys) i"
      using "3.prems"(3) jx jy by (auto simp: image_iff)
    ultimately show ?thesis
      using 1 "3.IH"(1) [OF 1 sx "3.prems"(2)] by (simp add: merge_visit_simps)
  next
    case 2
    then have kx: "k \<notin> fst ` set ((j, a) # xs)" using "3.prems"(1) by force
    then have "m1 k = None" "m2 k = Some b" using "3.prems"(3) by (auto simp: map_of_eq_None_iff)
    moreover have "\<forall>i \<in> fst ` set ((j, a) # xs) \<union> fst ` set ys. m1 i = map_of ((j, a) # xs) i \<and> m2 i = map_of ys i"
      using "3.prems"(3) kx ky by (auto simp: image_iff)
    moreover have "\<not> j < k" using 2 by simp
    ultimately show ?thesis
      using 2 "3.IH"(2) [OF _ 2 "3.prems"(1) sy] by (simp add: merge_visit_simps)
  next
    case 3
    then have "m1 j = Some a" "m2 j = Some b" using "3.prems"(3) by auto
    moreover have "\<forall>i \<in> fst ` set xs \<union> fst ` set ys. m1 i = map_of xs i \<and> m2 i = map_of ys i"
      using "3.prems"(3) jx ky 3 by (auto simp: image_iff)
    ultimately show ?thesis using 3 "3.IH"(3) [OF _ _ sx sy] by (simp add: merge_visit_simps)
  qed
qed

lemma dom_Dict_get: "Dict_wf t \<Longrightarrow> {k. Dict_get k t \<noteq> None} = fst ` set (inorder t)"
  by (auto simp: Dict_get_inorder map_of_eq_None_iff)

subsection \<open>Depth\<close>

fun depth :: "('k, 'v) dict \<Rightarrow> nat" where
  "depth (RBEmpty _) = 0"
| "depth (RBNode _ _ _ l r) = Suc (max (depth l) (depth r))"

lemma depth_bh:
  "proper t \<Longrightarrow> invh t \<Longrightarrow> int (depth t) \<le> 2 * (bh t - 1) + (if hasCol Red t then 1 else 0)"
proof (induction t)
  case (RBNode c k v l r)
  have "1 \<le> bh l" "1 \<le> bh r" using RBNode.prems bh_pos by auto
  with RBNode show ?case by (auto split: if_splits)
qed auto

lemma size_bh: "proper t \<Longrightarrow> invh t \<Longrightarrow> 2 ^ nat (bh t - 1) \<le> length (inorder t) + 1"
proof (induction t)
  case (RBNode c k v l r)
  then have IH: "2 ^ nat (bh l - 1) \<le> length (inorder l) + 1" "2 ^ nat (bh l - 1) \<le> length (inorder r) + 1"
    by auto
  have b: "1 \<le> bh l" using RBNode.prems bh_pos by auto
  show ?case
  proof (cases "c = Black")
    case True
    then have "nat (bh (RBNode c k v l r) - 1) = Suc (nat (bh l - 1))" using b by simp
    then show ?thesis using IH by simp
  next
    case False
    then have "bh (RBNode c k v l r) = bh l" using RBNode.prems by auto
    then show ?thesis using IH by simp
  qed
qed auto

lemma Dict_merge_eq:
  assumes "Dict_wf d1" "Dict_wf d2"
  shows "Dict_merge L B R d1 d2 acc =
    fold (merge_visit L B R (\<lambda>k. Dict_get k d1) (\<lambda>k. Dict_get k d2))
      (sorted_list_of_set ({k. Dict_get k d1 \<noteq> None} \<union> {k. Dict_get k d2 \<noteq> None})) acc"
proof -
  have s: "sorted_keys (inorder d1)" "sorted_keys (inorder d2)" using assms by (auto simp: Dict_wf_def)
  have "Dict_merge L B R d1 d2 acc =
      fold (merge_visit L B R (\<lambda>k. Dict_get k d1) (\<lambda>k. Dict_get k d2))
        (merge_keys (inorder d1) (inorder d2)) acc"
    using merge_loop_eq [OF s, of "\<lambda>k. Dict_get k d1" "\<lambda>k. Dict_get k d2" L B R acc] assms
    by (simp add: Dict_merge_def Dict_foldl_eq Dict_toList_eq List_foldl_eq case_prod_unfold
        Dict_get_inorder)
  then show ?thesis by (simp only: merge_keys_eq [OF s] assms [THEN dom_Dict_get])
qed



subsection \<open>Properties\<close>

text \<open>
  The central contract of the dictionary. On every well-formed tree an update terminates
  without reaching a \<^verbatim>\<open>Debug.crash\<close>, returns a well-formed tree, and changes the mapping at the
  given key only, to what the given function makes of the old value; \<open>None\<close> removes the key.
  Insertion and removal are instances. This is claim C26.
\<close>

theorem Dict_update_refines_map:
  "Dict_wf t \<Longrightarrow>
   \<exists>t'. Dict_update k f t = Inr t' \<and> Dict_wf t' \<and>
     (\<forall>j. Dict_get j t' = (if j = k then f (Dict_get k t) else Dict_get j t))"
  by (rule dict.update_total)

theorem Dict_update_refines_map_witness:
  "\<exists>t'. Dict_update (1::nat) (\<lambda>_. None)
       (RBNode Black 2 True (RBNode Black 1 False (RBEmpty LBlack) (RBEmpty LBlack))
         (RBNode Black 3 True (RBEmpty LBlack) (RBEmpty LBlack))) = Inr t' \<and>
     Dict_wf t' \<and> Dict_get 1 t' = None \<and> Dict_get 3 t' = Some True"
proof -
  let ?t = "RBNode Black (2::nat) True (RBNode Black 1 False (RBEmpty LBlack) (RBEmpty LBlack))
         (RBNode Black 3 True (RBEmpty LBlack) (RBEmpty LBlack))"
  have "Dict_wf ?t" by (simp add: Dict_wf_def rb_tree_def)
  from Dict_update_refines_map [OF this, of 1 "\<lambda>_. None"] show ?thesis
    by (auto simp: compare_eq)
qed

text \<open>
  Building a dictionary from any association list succeeds, and looking a key up returns the
  value of its last occurrence.
\<close>

theorem Dict_fromList_lookup:
  "\<exists>t. Dict_fromList xs = Inr t \<and> Dict_wf t \<and> (\<forall>k. Dict_get k t = map_of (rev xs) k)"
  using dict.from_list_total [of xs]
  by (simp add: Dict_fromList_def List_foldl_eq Dict_insert_eq case_prod_unfold)

text \<open>
  The set operations on well-formed dictionaries never throw, keep well-formedness, and have
  the documented meaning: the union prefers the left value, the intersection keeps the left
  entries whose key is on the right, the difference drops them.
\<close>

theorem Dict_set_operations:
  assumes "Dict_wf t1" "Dict_wf t2"
  shows "\<exists>u i d. Dict_union t1 t2 = Inr u \<and> Dict_intersect t1 t2 = Inr i \<and> Dict_diff t1 t2 = Inr d \<and>
    Dict_wf u \<and> Dict_wf i \<and> Dict_wf d \<and>
    (\<forall>k. Dict_get k u = (case Dict_get k t1 of Some v \<Rightarrow> Some v | None \<Rightarrow> Dict_get k t2) \<and>
         Dict_get k i = (if Dict_get k t2 = None then None else Dict_get k t1) \<and>
         Dict_get k d = (if Dict_get k t2 = None then Dict_get k t1 else None))"
proof -
  obtain u where u: "Dict_union t1 t2 = Inr u" "Dict_wf u"
    "\<And>k. Dict_get k u = (case Dict_get k t1 of Some v \<Rightarrow> Some v | None \<Rightarrow> Dict_get k t2)"
    using dict.union_total [OF assms]
    by (auto simp: Dict_union_def Dict_foldl_eq Dict_toList_eq Dict_insert_eq)
  obtain i where i: "Dict_intersect t1 t2 = Inr i" "Dict_wf i"
    "\<And>k. Dict_get k i = (case Dict_get k t1 of Some v \<Rightarrow> if Dict_member k t2 then Some v else None | None \<Rightarrow> None)"
    using dict.filter_total [OF assms(1), of "\<lambda>k _. Dict_member k t2"]
    by (auto simp: Dict_intersect_def Dict_filter_def Dict_foldl_eq Dict_toList_eq Dict_insert_eq
        cong: if_cong)
  obtain d where d: "Dict_diff t1 t2 = Inr d" "Dict_wf d"
    "\<And>k. Dict_get k d = (if k \<in> fst ` set (inorder t2) then None else Dict_get k t1)"
    using dict.difference_total [OF assms(1), of "inorder t2"]
    by (auto simp: Dict_diff_def Dict_foldl_eq Dict_remove_eq)
  have "k \<in> fst ` set (inorder t2) \<longleftrightarrow> Dict_get k t2 \<noteq> None" for k
    using dom_Dict_get [OF assms(2)] by blast
  with u i d show ?thesis
    by (auto simp: Dict_member_def split: option.split)
qed

theorem Dict_set_operations_witness:
  "\<exists>u. Dict_union (RBNode Black (1::nat) True (RBEmpty LBlack) (RBEmpty LBlack)) Dict_empty = Inr u \<and>
     Dict_get 1 u = Some True"
proof -
  have w: "Dict_wf (RBNode Black (1::nat) True (RBEmpty LBlack) (RBEmpty LBlack))"
    "Dict_wf (Dict_empty :: (nat, bool) dict)"
    by (simp_all add: Dict_wf_def rb_tree_def Dict_empty_def)
  have e: "Dict_get 1 (RBNode Black (1::nat) True (RBEmpty LBlack) (RBEmpty LBlack)) = Some True"
    by (simp add: compare_eq)
  from Dict_set_operations [OF w] obtain u where
    "Dict_union (RBNode Black (1::nat) True (RBEmpty LBlack) (RBEmpty LBlack)) Dict_empty = Inr u"
    and g: "\<forall>k. Dict_get k u =
      (case Dict_get k (RBNode Black (1::nat) True (RBEmpty LBlack) (RBEmpty LBlack)) of
         Some v \<Rightarrow> Some v | None \<Rightarrow> Dict_get k Dict_empty)"
    by blast
  with spec [OF g, of 1] e show ?thesis by simp
qed

text \<open>
  \<^verbatim>\<open>Dict.merge\<close> visits every key of either dictionary exactly once, in ascending order, and
  calls the callback that fits where the key occurs. This is claim C27.
\<close>

theorem Dict_merge_visits_keys_in_order:
  "Dict_wf d1 \<Longrightarrow> Dict_wf d2 \<Longrightarrow>
   Dict_merge L B R d1 d2 acc =
    fold (merge_visit L B R (\<lambda>k. Dict_get k d1) (\<lambda>k. Dict_get k d2))
      (sorted_list_of_set ({k. Dict_get k d1 \<noteq> None} \<union> {k. Dict_get k d2 \<noteq> None})) acc"
  by (rule Dict_merge_eq)

theorem Dict_merge_visits_keys_in_order_witness:
  "Dict_merge (\<lambda>k (a::nat) acc. acc @ [(k, a)]) (\<lambda>k a (b::nat) acc. acc @ [(k, a + b)]) (\<lambda>k b acc. acc @ [(k, b)])
     (RBNode Black (1::nat) 10 (RBEmpty LBlack) (RBNode Red 2 20 (RBEmpty LBlack) (RBEmpty LBlack)))
     (RBNode Black 2 5 (RBEmpty LBlack) (RBEmpty LBlack)) [] =
   fold (merge_visit (\<lambda>k a acc. acc @ [(k, a)]) (\<lambda>k a b acc. acc @ [(k, a + b)]) (\<lambda>k b acc. acc @ [(k, b)])
       (\<lambda>k. Dict_get k (RBNode Black 1 10 (RBEmpty LBlack) (RBNode Red 2 20 (RBEmpty LBlack) (RBEmpty LBlack))))
       (\<lambda>k. Dict_get k (RBNode Black 2 5 (RBEmpty LBlack) (RBEmpty LBlack))))
     (sorted_list_of_set
       ({k. Dict_get k (RBNode Black 1 10 (RBEmpty LBlack) (RBNode Red 2 (20::nat) (RBEmpty LBlack) (RBEmpty LBlack))) \<noteq> None} \<union>
        {k. Dict_get k (RBNode Black 2 (5::nat) (RBEmpty LBlack) (RBEmpty LBlack)) \<noteq> None})) []"
proof -
  have "Dict_wf (RBNode Black (1::nat) (10::nat) (RBEmpty LBlack) (RBNode Red 2 20 (RBEmpty LBlack) (RBEmpty LBlack)))"
    "Dict_wf (RBNode Black (2::nat) (5::nat) (RBEmpty LBlack) (RBEmpty LBlack))"
    by (simp_all add: Dict_wf_def rb_tree_def)
  then show ?thesis by (rule Dict_merge_visits_keys_in_order)
qed



text \<open>
  The entry list of a well-formed dictionary is strictly ascending in the keys, and it holds
  exactly the mappings that lookups return.
\<close>

theorem Dict_toList_sorted:
  "Dict_wf t \<Longrightarrow>
   sorted_wrt (<) (Dict_keys t) \<and> Dict_keys t = map fst (Dict_toList t) \<and>
   Dict_values t = map snd (Dict_toList t) \<and>
   (\<forall>k v. (k, v) \<in> set (Dict_toList t) \<longleftrightarrow> Dict_get k t = Some v)"
  by (auto simp: Dict_keys_eq Dict_values_eq Dict_toList_eq Dict_get_inorder Dict_wf_def strict_sorted_iff
      dest: map_of_SomeD)

theorem Dict_toList_sorted_witness:
  "sorted_wrt (<) (Dict_keys (RBNode Black (1::nat) True (RBEmpty LBlack) (RBNode Red 2 False (RBEmpty LBlack) (RBEmpty LBlack))))"
proof -
  have "Dict_wf (RBNode Black (1::nat) True (RBEmpty LBlack) (RBNode Red 2 False (RBEmpty LBlack) (RBEmpty LBlack)))"
    by (simp add: Dict_wf_def rb_tree_def)
  from Dict_toList_sorted [OF this] show ?thesis by blast
qed

end
