(* ===== verification/Elm_Array.thy ===== *)
theory Elm_Array
  imports Elm_List
begin

text \<open>
  The relaxed radix balanced trees of \<^verbatim>\<open>Native/Array.js\<close> and the compiled module \<^verbatim>\<open>Array\<close>.
  A JavaScript object with \<^verbatim>\<open>height\<close> 0 is a \<open>Leaf\<close> holding its \<^verbatim>\<open>table\<close>; any other is a
  \<open>Node\<close> holding its \<^verbatim>\<open>height\<close>, the \<^verbatim>\<open>table\<close> of children and the accumulated \<^verbatim>\<open>lengths\<close>.
  The length of a node whose \<^verbatim>\<open>lengths\<close> is empty is \<^verbatim>\<open>undefined\<close> in the source and left
  unspecified here (\<open>last []\<close>); the invariant of the correctness theory excludes such nodes.
  Indices are JavaScript numbers; \<^verbatim>\<open>>>\<close> converts its operand to 32 bits and takes the shift
  distance modulo 32.
\<close>

datatype 'a rrb =
    Leaf "'a list"
  | Node nat "'a rrb list" "int list"

abbreviation (input) NArray_M :: nat where "NArray_M \<equiv> 32"

abbreviation (input) NArray_E :: int where "NArray_E \<equiv> 2"

definition NArray_empty :: "'a rrb" where
  "NArray_empty = Leaf []"

fun NArray_height :: "'a rrb \<Rightarrow> nat" where
  "NArray_height (Leaf _) = 0"
| "NArray_height (Node h _ _) = h"

text \<open>\<^verbatim>\<open>a.table.length\<close>\<close>

fun tableLength :: "'a rrb \<Rightarrow> nat" where
  "tableLength (Leaf xs) = length xs"
| "tableLength (Node _ ts _) = length ts"

fun NArray_length :: "'a rrb \<Rightarrow> int" where
  "NArray_length (Leaf xs) = int (length xs)"
| "NArray_length (Node _ _ ls) = last ls"

text \<open>
  The loop that fills a \<^verbatim>\<open>lengths\<close> array from the children, \<^verbatim>\<open>len\<close> being the length so far.
\<close>

fun accLengths :: "int \<Rightarrow> 'a rrb list \<Rightarrow> int list" where
  "accLengths len [] = []"
| "accLengths len (t # ts) = (len + NArray_length t) # accLengths (len + NArray_length t) ts"

subsection \<open>Access\<close>

definition js_shr :: "int \<Rightarrow> nat \<Rightarrow> int" where
  "js_shr i k = toInt32 i div 2 ^ (k mod 32)"

text \<open>\<^verbatim>\<open>while (lengths[slot] <= i) slot++\<close>: a read beyond the end is \<^verbatim>\<open>undefined\<close> and ends the loop.\<close>

function slot_loop :: "int list \<Rightarrow> int \<Rightarrow> int \<Rightarrow> int" where
  "slot_loop lengths i slot =
     (case js_nth lengths slot of
        Some l \<Rightarrow> if l \<le> i then slot_loop lengths i (slot + 1) else slot
      | None \<Rightarrow> slot)"
  by pat_completeness auto
termination
  by (relation "measure (\<lambda>(ls, i, slot). nat (int (length ls) - slot))") (auto dest: js_nth_SomeD)

declare slot_loop.simps [simp del]

definition NArray_getSlot :: "int \<Rightarrow> nat \<Rightarrow> int list \<Rightarrow> int" where
  "NArray_getSlot i h lengths = slot_loop lengths i (js_shr i (5 * h))"

text \<open>\<^verbatim>\<open>slot > 0 ? lengths[slot - 1] : 0\<close>\<close>

definition slotStart :: "int list \<Rightarrow> int \<Rightarrow> int" where
  "slotStart lengths slot = (if slot > 0 then lengths ! nat (slot - 1) else 0)"

fun unsafeGet_loop :: "nat \<Rightarrow> int \<Rightarrow> 'a rrb \<Rightarrow> 'a result" where
  "unsafeGet_loop 0 i (Leaf table) =
     (case js_nth table i of Some v \<Rightarrow> Inr v | None \<Rightarrow> Inl Undefined)"
| "unsafeGet_loop 0 i (Node _ _ _) = Inl Undefined"
| "unsafeGet_loop (Suc x) i (Leaf _) = Inl TypeError"
| "unsafeGet_loop (Suc x) i (Node h table lengths) =
     (let slot = slot_loop lengths i (js_shr i (Suc x * 5)) in
      case js_nth table slot of
        Some t \<Rightarrow> unsafeGet_loop x (i - slotStart lengths slot) t
      | None \<Rightarrow> Inl TypeError)"

definition NArray_unsafeGet :: "int \<Rightarrow> 'a rrb \<Rightarrow> 'a result" where
  "NArray_unsafeGet i array = unsafeGet_loop (NArray_height array) i array"

definition NArray_get :: "int \<Rightarrow> 'a rrb \<Rightarrow> 'a result" where
  "NArray_get i array =
     (if i < 0 \<or> i \<ge> NArray_length array
      then Inl (JsError (''Index '' @ show_int i @ '' is out of range. Check the length of '' @
                         ''your array first or use getMaybe or getWithDefault.''))
      else NArray_unsafeGet i array)"

function NArray_unsafeSet :: "int \<Rightarrow> 'a \<Rightarrow> 'a rrb \<Rightarrow> 'a rrb result" where
  "NArray_unsafeSet i item (Leaf table) =
     (if 0 \<le> i \<and> i < int (length table) then Inr (Leaf (table[nat i := item]))
      else if i = int (length table) then Inr (Leaf (table @ [item]))
      else Inl Undefined)"
| "NArray_unsafeSet i item (Node h table lengths) =
     (let slot = NArray_getSlot i h lengths in
      case js_nth table slot of
        Some t \<Rightarrow>
          bindE (NArray_unsafeSet (i - slotStart lengths slot) item t)
            (\<lambda>t'. Inr (Node h (table[nat slot := t']) lengths))
      | None \<Rightarrow> Inl TypeError)"
  by pat_completeness auto
termination
  by (relation "measure (\<lambda>(i, item, a). size a)")
     (auto dest!: js_nth_in_set simp: less_Suc_eq_le dest: size_list_estimation' [OF _ order_refl])

definition NArray_set :: "int \<Rightarrow> 'a \<Rightarrow> 'a rrb \<Rightarrow> 'a rrb result" where
  "NArray_set i item array =
     (if i < 0 \<or> NArray_length array \<le> i then Inr array else NArray_unsafeSet i item array)"

subsection \<open>Construction\<close>

text \<open>
  \<^verbatim>\<open>initialize_\<close> is called with \<open>from \<le> to\<close>. The height argument of \<^verbatim>\<open>initialize\<close> and
  \<^verbatim>\<open>fromJSArray\<close> is \<^verbatim>\<open>Math.floor(Math.log(len) / Math.log(M))\<close>, a floating-point computation that
  may be one off at an exact power of \<open>M\<close>; it is the parameter \<open>floorLog\<close>.
\<close>

fun NArray_initialize_rec :: "(int \<Rightarrow> 'a) \<Rightarrow> nat \<Rightarrow> int \<Rightarrow> int \<Rightarrow> 'a rrb" where
  "NArray_initialize_rec f 0 from to =
     Leaf (map (\<lambda>i. f (from + i)) [0..(to - from) smod (int NArray_M + 1) - 1])"
| "NArray_initialize_rec f (Suc h) from to =
     (let step = int NArray_M ^ Suc h;
          table = map (\<lambda>i. NArray_initialize_rec f h (from + i * step)
                           (min (from + (i + 1) * step) to))
                    [0..(to - from + step - 1) div step - 1]
      in Node (Suc h) table (accLengths 0 table))"

definition NArray_initialize :: "(int \<Rightarrow> nat) \<Rightarrow> int \<Rightarrow> (int \<Rightarrow> 'a) \<Rightarrow> 'a rrb" where
  "NArray_initialize floorLog len f =
     (if len \<le> 0 then NArray_empty else NArray_initialize_rec f (floorLog len) 0 len)"

text \<open>
  \<^verbatim>\<open>nodes[h]\<close> is always an object of height \<open>h + 1\<close>, given here by its \<^verbatim>\<open>table\<close> and
  \<^verbatim>\<open>lengths\<close>. Reading \<^verbatim>\<open>nodes[h]\<close> beyond the end is a \<^verbatim>\<open>TypeError\<close>.
\<close>

type_synonym 'a open_nodes = "('a rrb list \<times> int list) list"

text \<open>One push into \<^verbatim>\<open>nodes[h]\<close>, the node created first when it does not exist.\<close>

definition pushInto :: "'a rrb \<Rightarrow> nat \<Rightarrow> 'a open_nodes \<Rightarrow> 'a open_nodes" where
  "pushInto toPush h nodes =
     (let nodes = (if length nodes = h then nodes @ [([], [])] else nodes);
          (table, lengths) = nodes ! h;
          len = NArray_length toPush + (if lengths \<noteq> [] then last lengths else 0)
      in nodes[h := (table @ [toPush], lengths @ [len])])"

lemma length_pushInto [simp]:
  "length (pushInto t h nodes) = (if length nodes = h then Suc h else length nodes)"
  by (simp add: pushInto_def Let_def split: prod.split)

lemma pushInto_nth:
  "h \<le> length nodes \<Longrightarrow> length (fst (pushInto t h nodes ! h)) =
     (if length nodes = h then 1 else Suc (length (fst (nodes ! h))))"
  by (auto simp: pushInto_def Let_def nth_append split: prod.split)

function fromListPush_at :: "nat \<Rightarrow> 'a rrb \<Rightarrow> 'a open_nodes \<Rightarrow> 'a open_nodes result" where
  "fromListPush_at h toPush nodes =
     (if length nodes < h then Inl TypeError
      else
        let pushed = pushInto toPush h nodes in
        if length (fst (pushed ! h)) = NArray_M
        then bindE (fromListPush_at (Suc h)
                      (Node (Suc h) (fst (pushed ! h)) (snd (pushed ! h))) pushed)
               (\<lambda>nodes'. Inr (nodes'[h := ([], [])]))
        else Inr pushed)"
  by pat_completeness auto
termination
  by (relation "measure (\<lambda>(h, t, nodes). length nodes - h)") (auto simp: pushInto_nth)

declare fromListPush_at.simps [simp del]

definition NArray_fromListPush :: "'a rrb \<Rightarrow> 'a open_nodes \<Rightarrow> 'a open_nodes result" where
  "NArray_fromListPush toPush nodes = fromListPush_at (NArray_height toPush) toPush nodes"

text \<open>The first loop of \<^verbatim>\<open>fromList\<close>; \<open>table\<close> is the filled prefix of the current block.\<close>

fun fromList_loop :: "'a list \<Rightarrow> 'a list \<Rightarrow> 'a open_nodes \<Rightarrow> ('a list \<times> 'a open_nodes) result" where
  "fromList_loop [] table nodes = Inr (table, nodes)"
| "fromList_loop (x # xs) table nodes =
     (let table = table @ [x] in
      if length table = NArray_M
      then bindE (NArray_fromListPush (Leaf table) nodes) (fromList_loop xs [])
      else fromList_loop xs table nodes)"

text \<open>
  The loop \<^verbatim>\<open>for (h = 0; h < nodes.length - 1; h++)\<close>. A push may lengthen \<^verbatim>\<open>nodes\<close>, so the loop
  is given one step per index and one spare: a lengthening empties every node below the new
  one, and can happen once.
\<close>

fun fromList_close :: "nat \<Rightarrow> nat \<Rightarrow> 'a open_nodes \<Rightarrow> 'a open_nodes result" where
  "fromList_close fuel h nodes =
     (if Suc h < length nodes then
        (case fuel of
           0 \<Rightarrow> Inl Undefined
         | Suc fuel' \<Rightarrow>
             bindE (if fst (nodes ! h) \<noteq> []
                    then NArray_fromListPush
                           (Node (Suc h) (fst (nodes ! h)) (snd (nodes ! h))) nodes
                    else Inr nodes)
               (fromList_close fuel' (Suc h)))
      else Inr nodes)"

declare fromList_close.simps [simp del]

definition NArray_fromList :: "'a list \<Rightarrow> 'a rrb result" where
  "NArray_fromList list =
     (if list = [] then Inr NArray_empty
      else
        bindE (fromList_loop list [] [])
          (\<lambda>(table, nodes).
             bindE (if table \<noteq> [] then NArray_fromListPush (Leaf table) nodes else Inr nodes)
               (\<lambda>nodes.
                  bindE (fromList_close (Suc (length nodes)) 0 nodes)
                    (\<lambda>nodes.
                       let (table, lengths) = last nodes in
                       Inr (if length table = 1 then hd table
                            else Node (length nodes) table lengths)))))"

fun NArray_fromJSArray_rec :: "'a list \<Rightarrow> nat \<Rightarrow> int \<Rightarrow> int \<Rightarrow> 'a rrb" where
  "NArray_fromJSArray_rec jsArray 0 from to = Leaf (js_slice from to jsArray)"
| "NArray_fromJSArray_rec jsArray (Suc h) from to =
     (let step = int NArray_M ^ Suc h;
          table = map (\<lambda>i. NArray_fromJSArray_rec jsArray h (from + i * step)
                           (min (from + (i + 1) * step) to))
                    [0..(to - from + step - 1) div step - 1]
      in Node (Suc h) table (accLengths 0 table))"

definition NArray_fromJSArray :: "(int \<Rightarrow> nat) \<Rightarrow> 'a list \<Rightarrow> 'a rrb" where
  "NArray_fromJSArray floorLog jsArray =
     (if jsArray = [] then NArray_empty
      else NArray_fromJSArray_rec jsArray (floorLog (int (length jsArray))) 0 (int (length jsArray)))"

subsection \<open>Pushing\<close>

fun NArray_create :: "'a \<Rightarrow> nat \<Rightarrow> 'a rrb" where
  "NArray_create item 0 = Leaf [item]"
| "NArray_create item (Suc h) = Node (Suc h) [NArray_create item h] [1]"

definition NArray_siblise :: "'a rrb \<Rightarrow> 'a rrb \<Rightarrow> 'a rrb" where
  "NArray_siblise a b =
     Node (NArray_height a + 1) [a, b]
       [NArray_length a, NArray_length a + NArray_length b]"

text \<open>
  \<^verbatim>\<open>parentise(tree, h)\<close> is called with \<open>h\<close> at least the height of the tree; the count-down from
  \<open>h\<close> to that height is the argument here.
\<close>

fun parentise_by :: "nat \<Rightarrow> 'a rrb \<Rightarrow> 'a rrb" where
  "parentise_by 0 tree = tree"
| "parentise_by (Suc n) tree =
     Node (NArray_height tree + Suc n) [parentise_by n tree] [NArray_length tree]"

definition NArray_parentise :: "'a rrb \<Rightarrow> nat \<Rightarrow> 'a rrb" where
  "NArray_parentise tree h = parentise_by (h - NArray_height tree) tree"

text \<open>\<^verbatim>\<open>push_\<close> answers \<^verbatim>\<open>null\<close>, here \<open>Inr None\<close>, when there is no room.\<close>

function NArray_push_rec :: "'a \<Rightarrow> 'a rrb \<Rightarrow> 'a rrb option result" where
  "NArray_push_rec item (Leaf table) =
     Inr (if length table < NArray_M then Some (Leaf (table @ [item])) else None)"
| "NArray_push_rec item (Node h table lengths) =
     (case js_nth table (int (length table) - 1) of
        None \<Rightarrow> Inl TypeError
      | Some botRight \<Rightarrow>
          bindE (NArray_push_rec item botRight)
            (\<lambda>pushed.
               case pushed of
                 Some p \<Rightarrow>
                   Inr (Some (Node h (table[length table - 1 := p])
                                     (lengths[length lengths - 1 := last lengths + 1])))
               | None \<Rightarrow>
                   Inr (if length table < NArray_M
                        then let newSlot = NArray_create item (h - 1) in
                             Some (Node h (table @ [newSlot])
                                          (lengths @ [last lengths + NArray_length newSlot]))
                        else None)))"
  by pat_completeness auto
termination
  by (relation "measure (\<lambda>(item, a). size a)")
     (auto dest!: js_nth_in_set simp: less_Suc_eq_le dest: size_list_estimation' [OF _ order_refl])

definition NArray_push :: "'a \<Rightarrow> 'a rrb \<Rightarrow> 'a rrb result" where
  "NArray_push item a =
     bindE (NArray_push_rec item a)
       (\<lambda>pushed.
          case pushed of
            Some p \<Rightarrow> Inr p
          | None \<Rightarrow> Inr (NArray_siblise a (NArray_create item (NArray_height a))))"

subsection \<open>Traversals\<close>

fun NArray_toList_rec :: "'a list \<Rightarrow> 'a rrb \<Rightarrow> 'a list" where
  "NArray_toList_rec list (Leaf table) = foldr (#) table list"
| "NArray_toList_rec list (Node _ table _) = foldr (\<lambda>t list. NArray_toList_rec list t) table list"

definition NArray_toList :: "'a rrb \<Rightarrow> 'a list" where
  "NArray_toList a = NArray_toList_rec [] a"

fun NArray_map :: "('a \<Rightarrow> 'b) \<Rightarrow> 'a rrb \<Rightarrow> 'b rrb" where
  "NArray_map f (Leaf table) = Leaf (map f table)"
| "NArray_map f (Node h table lengths) = Node h (map (NArray_map f) table) lengths"

function NArray_indexedMap_rec :: "(int \<Rightarrow> 'a \<Rightarrow> 'b) \<Rightarrow> 'a rrb \<Rightarrow> int \<Rightarrow> 'b rrb" where
  "NArray_indexedMap_rec f (Leaf table) from =
     Leaf (map (\<lambda>(i, x). f (from + int i) x) (enumerate 0 table))"
| "NArray_indexedMap_rec f (Node h table lengths) from =
     Node h (map (\<lambda>(t, start). NArray_indexedMap_rec f t (from + start)) (zip table (0 # lengths)))
       lengths"
  by pat_completeness auto
termination
  by (relation "measure (\<lambda>(f, a, from). size a)")
     (auto dest!: set_zip_leftD simp: less_Suc_eq_le dest: size_list_estimation' [OF _ order_refl])

definition NArray_indexedMap :: "(int \<Rightarrow> 'a \<Rightarrow> 'b) \<Rightarrow> 'a rrb \<Rightarrow> 'b rrb" where
  "NArray_indexedMap f a = NArray_indexedMap_rec f a 0"

fun NArray_foldl :: "('a \<Rightarrow> 'b \<Rightarrow> 'b) \<Rightarrow> 'b \<Rightarrow> 'a rrb \<Rightarrow> 'b" where
  "NArray_foldl f b (Leaf table) = fold f table b"
| "NArray_foldl f b (Node _ table _) = fold (\<lambda>t b. NArray_foldl f b t) table b"

fun NArray_foldr :: "('a \<Rightarrow> 'b \<Rightarrow> 'b) \<Rightarrow> 'b \<Rightarrow> 'a rrb \<Rightarrow> 'b" where
  "NArray_foldr f b (Leaf table) = foldr f table b"
| "NArray_foldr f b (Node _ table _) = foldr (\<lambda>t b. NArray_foldr f b t) table b"

function toJSArray_rec :: "int \<Rightarrow> 'a rrb \<Rightarrow> 'a option list \<Rightarrow> 'a option list" where
  "toJSArray_rec i (Leaf table) jsArray =
     fold (\<lambda>(t, x). js_store (nat i + t) (Some x)) (enumerate 0 table) jsArray"
| "toJSArray_rec i (Node _ table lengths) jsArray =
     fold (\<lambda>(child, inc). toJSArray_rec (i + inc) child) (zip table (0 # lengths)) jsArray"
  by pat_completeness auto
termination
  by (relation "measure (\<lambda>(i, a, arr). size a)")
     (auto dest!: set_zip_leftD simp: less_Suc_eq_le dest: size_list_estimation' [OF _ order_refl])

text \<open>The array starts as \<^verbatim>\<open>new Array(length(a))\<close>, all holes.\<close>

definition NArray_toJSArray :: "'a rrb \<Rightarrow> 'a option list" where
  "NArray_toJSArray a = toJSArray_rec 0 a (replicate (nat (NArray_length a)) None)"

subsection \<open>Slicing\<close>

function NArray_sliceRight :: "int \<Rightarrow> 'a rrb \<Rightarrow> 'a rrb result" where
  "NArray_sliceRight to (Leaf table) =
     Inr (if to = int (length table) then Leaf table else Leaf (js_slice 0 to table))"
| "NArray_sliceRight to (Node h table lengths) =
     (if to = last lengths then Inr (Node h table lengths)
      else
        let right = NArray_getSlot to h lengths in
        case js_nth table right of
          None \<Rightarrow> Inl TypeError
        | Some t \<Rightarrow>
            bindE (NArray_sliceRight (to - slotStart lengths right) t)
              (\<lambda>sliced.
                 if right = 0 then Inr sliced
                 else if tableLength sliced > 0
                 then Inr (Node h (js_slice 0 right table @ [sliced])
                             (js_slice 0 right lengths @
                              [NArray_length sliced + lengths ! nat (right - 1)]))
                 else Inr (Node h (js_slice 0 right table) (js_slice 0 right lengths))))"
  by pat_completeness auto
termination
  by (relation "measure (\<lambda>(to, a). size a)")
     (auto dest!: js_nth_in_set simp: less_Suc_eq_le dest: size_list_estimation' [OF _ order_refl])

function NArray_sliceLeft :: "int \<Rightarrow> 'a rrb \<Rightarrow> 'a rrb result" where
  "NArray_sliceLeft from (Leaf table) =
     Inr (if from = 0 then Leaf table
          else Leaf (js_slice from (int (length table) + 1) table))"
| "NArray_sliceLeft from (Node h table lengths) =
     (if from = 0 then Inr (Node h table lengths)
      else
        let left = NArray_getSlot from h lengths in
        case js_nth table left of
          None \<Rightarrow> Inl TypeError
        | Some t \<Rightarrow>
            bindE (NArray_sliceLeft (from - slotStart lengths left) t)
              (\<lambda>sliced.
                 if left = int (length table) - 1 then Inr sliced
                 else
                   let newTable = (js_slice left (int (length table) + 1) table)[0 := sliced]
                   in Inr (Node h newTable (accLengths 0 newTable))))"
  by pat_completeness auto
termination
  by (relation "measure (\<lambda>(from, a). size a)")
     (auto dest!: js_nth_in_set simp: less_Suc_eq_le dest: size_list_estimation' [OF _ order_refl])

definition NArray_slice :: "int \<Rightarrow> int \<Rightarrow> 'a rrb \<Rightarrow> 'a rrb result" where
  "NArray_slice from to a =
     (let from = (if from < 0 then from + NArray_length a else from);
          to = (if to < 0 then to + NArray_length a else to)
      in bindE (NArray_sliceRight to a) (NArray_sliceLeft from))"

subsection \<open>Appending\<close>

text \<open>
  \<^verbatim>\<open>insertRight\<close> and \<^verbatim>\<open>insertLeft\<close> update a node in place; here they return the updated node.
\<close>

fun NArray_insertRight :: "'a rrb \<Rightarrow> 'a rrb \<Rightarrow> 'a rrb result" where
  "NArray_insertRight (Leaf _) node = Inl TypeError"
| "NArray_insertRight (Node h table lengths) node =
     (if table = [] then Inl Undefined
      else
        let index = length table - 1 in
        Inr (Node h (table[index := node])
               (lengths[index := NArray_length node +
                                 (if index > 0 then lengths ! (index - 1) else 0)])))"

fun NArray_insertLeft :: "'a rrb \<Rightarrow> 'a rrb \<Rightarrow> 'a rrb result" where
  "NArray_insertLeft (Leaf _) node = Inl TypeError"
| "NArray_insertLeft (Node h table lengths) node =
     (if tableLength node > 0
      then let newTable = table[0 := node] in Inr (Node h newTable (accLengths 0 newTable))
      else Inr (Node h (tl table) (map (\<lambda>l. l - hd lengths) (tl lengths))))"

text \<open>\<^verbatim>\<open>a.table[i].table.length\<close> on a leaf reads a property of an element: a \<^verbatim>\<open>TypeError\<close>.\<close>

fun subLengths :: "'a rrb \<Rightarrow> int result" where
  "subLengths (Leaf table) = (if table = [] then Inr 0 else Inl TypeError)"
| "subLengths (Node _ table _) = Inr (int (sum_list (map tableLength table)))"

definition NArray_calcToRemove :: "'a rrb \<Rightarrow> 'a rrb \<Rightarrow> int result" where
  "NArray_calcToRemove a b =
     bindE (subLengths a) (\<lambda>la. bindE (subLengths b) (\<lambda>lb.
       Inr (int (tableLength a) + int (tableLength b) -
            ((la + lb - 1) div int NArray_M + 1))))"

text \<open>
  \<^verbatim>\<open>shuffle\<close> fills two preallocated nodes. Their arrays have holes until they are written, so
  they are lists of options; \<open>None\<close> in \<^verbatim>\<open>lengths\<close> is also the \<^verbatim>\<open>NaN\<close> that arithmetic on a hole gives.
\<close>

definition NArray_get2 :: "'a list \<Rightarrow> 'a list \<Rightarrow> nat \<Rightarrow> 'a option" where
  "NArray_get2 a b index =
     (if index < length a then Some (a ! index) else js_nth b (int index - int (length a)))"

definition NArray_set2 ::
  "'a option list \<Rightarrow> 'a option list \<Rightarrow> nat \<Rightarrow> 'a option \<Rightarrow> 'a option list \<times> 'a option list" where
  "NArray_set2 a b index value =
     (if index < length a then (a[index := value], b)
      else (a, js_store (index - length a) value b))"

record 'a shuffled =
  tableA :: "'a rrb option list"
  lengthsA :: "int option list"
  tableB :: "'a rrb option list"
  lengthsB :: "int option list"

text \<open>The predecessor's length is read with \<^verbatim>\<open>get2(a.lengths, a.lengths, index - 1)\<close>, as in the source.\<close>

definition NArray_saveSlot :: "nat \<Rightarrow> 'a rrb \<Rightarrow> 'a shuffled \<Rightarrow> 'a shuffled" where
  "NArray_saveSlot index slot st =
     (let (tA, tB) = NArray_set2 (tableA st) (tableB st) index (Some slot);
          l = (if index = 0 \<or> index = length (lengthsA st) then Some 0
               else (case NArray_get2 (lengthsA st) (lengthsA st) (index - 1) of
                       Some v \<Rightarrow> v | None \<Rightarrow> None));
          (lA, lB) = NArray_set2 (lengthsA st) (lengthsB st) index
                       (map_option (\<lambda>v. v + NArray_length slot) l)
      in \<lparr>tableA = tA, lengthsA = lA, tableB = tB, lengthsB = lB\<rparr>)"

definition NArray_createNode :: "nat \<Rightarrow> 'a rrb" where
  "NArray_createNode h = (if h > 0 then Node h [] [] else Leaf [])"

text \<open>
  Copying \<^verbatim>\<open>source.table.slice(from, to)\<close> to the end of the slot, with the new \<^verbatim>\<open>lengths\<close>.
  Slot and source have the same height.
\<close>

fun slot_extend :: "'a rrb \<Rightarrow> 'a rrb \<Rightarrow> nat \<Rightarrow> nat \<Rightarrow> 'a rrb result" where
  "slot_extend (Leaf xs) (Leaf ys) from to = Inr (Leaf (xs @ take (to - from) (drop from ys)))"
| "slot_extend (Node h ts ls) (Node _ us _) from to =
     (let new = take (to - from) (drop from us) in
      Inr (Node h (ts @ new) (ls @ accLengths (if ls = [] then 0 else last ls) new)))"
| "slot_extend _ _ _ _ = Inl Undefined"

fun shuffle_skip :: "nat \<Rightarrow> 'a rrb list \<Rightarrow> int list \<Rightarrow> nat \<Rightarrow> 'a shuffled \<Rightarrow> (nat \<times> 'a shuffled) result"
where
  "shuffle_skip 0 slots lens read st = Inl TypeError"
| "shuffle_skip (Suc fuel) slots lens read st =
     (if read < length slots then
        if tableLength (slots ! read) mod NArray_M = 0
        then
          let (tA, tB) = NArray_set2 (tableA st) (tableB st) read (Some (slots ! read));
              (lA, lB) = NArray_set2 (lengthsA st) (lengthsB st) read (js_nth lens (int read))
          in shuffle_skip fuel slots lens (Suc read)
               \<lparr>tableA = tA, lengthsA = lA, tableB = tB, lengthsB = lB\<rparr>
        else Inr (read, st)
      else Inl TypeError)"

fun shuffle_move ::
  "nat \<Rightarrow> 'a rrb list \<Rightarrow> int \<Rightarrow> nat \<Rightarrow> nat \<Rightarrow> nat \<Rightarrow> 'a rrb \<Rightarrow> 'a shuffled \<Rightarrow>
   (nat \<times> nat \<times> 'a rrb \<times> 'a shuffled) result"
where
  "shuffle_move fuel slots toRemove read write from slot st =
     (if int read - int write - (if tableLength slot > 0 then 1 else 0) < toRemove then
        (case fuel of
           0 \<Rightarrow> Inl Undefined
         | Suc fuel' \<Rightarrow>
             if read < length slots then
               let source = slots ! read;
                   to = min (NArray_M - tableLength slot) (tableLength source)
               in
               bindE (slot_extend slot source from to)
                 (\<lambda>slot.
                    let (read, from) = (if tableLength source \<le> to then (Suc read, 0)
                                        else (read, from + to))
                    in
                    if tableLength slot = NArray_M
                    then shuffle_move fuel' slots toRemove read (Suc write) from
                           (NArray_createNode (NArray_height slot))
                           (NArray_saveSlot write slot st)
                    else shuffle_move fuel' slots toRemove read write from slot st)
             else Inl TypeError)
      else Inr (read, write, slot, st))"

declare shuffle_move.simps [simp del]

fun shuffle_shift :: "'a rrb list \<Rightarrow> nat \<Rightarrow> 'a shuffled \<Rightarrow> 'a shuffled" where
  "shuffle_shift [] write st = st"
| "shuffle_shift (t # ts) write st = shuffle_shift ts (Suc write) (NArray_saveSlot write t st)"

definition close_node :: "nat \<Rightarrow> 'a rrb option list \<Rightarrow> int option list \<Rightarrow> 'a rrb result" where
  "close_node h table lengths =
     (if None \<in> set table \<or> None \<in> set lengths then Inl Undefined
      else Inr (Node h (map the table) (map the lengths)))"

text \<open>
  The second preallocated node always gets length 0, since its size
  \<^verbatim>\<open>newA.table.length - (...)\<close> is never positive; writes then extend it. A loop of \<^verbatim>\<open>shuffle\<close>
  passes every slot at most twice, which bounds its steps.
\<close>

definition shuffle_finish ::
  "nat \<Rightarrow> 'a rrb list \<Rightarrow> nat \<times> nat \<times> 'a rrb \<times> 'a shuffled \<Rightarrow> ('a rrb \<times> 'a rrb) result"
where
  "shuffle_finish h slots = (\<lambda>(read, write, slot, st).
     let (write, st) = (if tableLength slot > 0 then (Suc write, NArray_saveSlot write slot st)
                        else (write, st));
         st = shuffle_shift (drop read slots) write st
     in
     bindE (close_node h (tableA st) (lengthsA st))
       (\<lambda>a. bindE (close_node h (tableB st) (lengthsB st)) (\<lambda>b. Inr (a, b))))"

definition NArray_shuffle :: "'a rrb \<Rightarrow> 'a rrb \<Rightarrow> int \<Rightarrow> ('a rrb \<times> 'a rrb) result" where
  "NArray_shuffle a b toRemove =
     (case (a, b) of
        (Node h ta la, Node _ tb lb) \<Rightarrow>
          let slots = ta @ tb;
              total = int (length slots);
              sizeA = nat (min (int NArray_M) (total - toRemove));
              sizeB = nat (int sizeA - (total - toRemove));
              st = \<lparr>tableA = replicate sizeA None, lengthsA = replicate sizeA None,
                    tableB = replicate sizeB None, lengthsB = replicate sizeB None\<rparr>
          in
          bindE (shuffle_skip (Suc (length slots)) slots (la @ lb) 0 st)
            (\<lambda>(read, st).
               bindE (shuffle_move (2 * length slots + 2) slots toRemove read read 0
                        (NArray_createNode (h - 1)) st)
                 (shuffle_finish h slots))
      | _ \<Rightarrow> Inl TypeError)"

text \<open>\<^verbatim>\<open>botRight\<close> and \<^verbatim>\<open>botLeft\<close>; the child they return is used as a node by every caller.\<close>

fun NArray_botRight :: "'a rrb \<Rightarrow> 'a rrb result" where
  "NArray_botRight (Leaf _) = Inl TypeError"
| "NArray_botRight (Node _ table _) = (if table = [] then Inl TypeError else Inr (last table))"

fun NArray_botLeft :: "'a rrb \<Rightarrow> 'a rrb result" where
  "NArray_botLeft (Leaf _) = Inl TypeError"
| "NArray_botLeft (Node _ table _) = (if table = [] then Inl TypeError else Inr (hd table))"

lemma botRight_size: "NArray_botRight a = Inr t \<Longrightarrow> size t < size a"
  by (cases a) (auto split: if_splits simp: less_Suc_eq_le intro!: size_list_estimation' [OF _ order_refl])

lemma botLeft_size: "NArray_botLeft a = Inr t \<Longrightarrow> size t < size a"
  by (cases a) (auto split: if_splits simp: less_Suc_eq_le intro!: size_list_estimation' [OF _ order_refl])

text \<open>The end of \<^verbatim>\<open>append_\<close>: balance the two nodes when they waste more than \<^verbatim>\<open>E\<close> slots.\<close>

definition append_balance :: "bool \<Rightarrow> 'a rrb \<Rightarrow> 'a rrb \<Rightarrow> (bool \<times> 'a rrb \<times> 'a rrb) result" where
  "append_balance shared a b =
     (if tableLength a = 0 \<or> tableLength b = 0 then Inr (shared, a, b)
      else
        bindE (NArray_calcToRemove a b) (\<lambda>toRemove.
          if toRemove \<le> NArray_E then Inr (shared, a, b)
          else bindE (NArray_shuffle a b toRemove) (\<lambda>(a, b). Inr (False, a, b))))"

text \<open>
  \<^verbatim>\<open>append_\<close> returns two nodes. The flag says that they are the argument objects themselves
  and not copies, which matters because \<^verbatim>\<open>append\<close> writes to them.
\<close>

function append_rec :: "'a rrb \<Rightarrow> 'a rrb \<Rightarrow> (bool \<times> 'a rrb \<times> 'a rrb) result" where
  "append_rec a b =
     (if NArray_height a = 0 \<and> NArray_height b = 0 then Inr (True, a, b)
      else if NArray_height a = 1 \<and> NArray_height b = 1 then append_balance True a b
      else if NArray_height a = NArray_height b then
        bindE (NArray_botRight a) (\<lambda>ra. bindE (NArray_botLeft b) (\<lambda>lb.
        bindE (append_rec ra lb) (\<lambda>(_, x, y).
        bindE (NArray_insertRight a y) (\<lambda>a. bindE (NArray_insertLeft b x) (\<lambda>b.
          append_balance False a b)))))
      else if NArray_height a > NArray_height b then
        bindE (NArray_botRight a) (\<lambda>ra.
        bindE (append_rec ra b) (\<lambda>(_, x, y).
        bindE (NArray_insertRight a x) (\<lambda>a.
          append_balance False a (NArray_parentise y (NArray_height y + 1)))))
      else
        bindE (NArray_botLeft b) (\<lambda>lb.
        bindE (append_rec a lb) (\<lambda>(_, x, y).
          let (l, r) = (if tableLength x = 0 then (x, y) else (y, x)) in
          bindE (NArray_insertLeft b l) (\<lambda>b.
            append_balance False (NArray_parentise r (NArray_height r + 1)) b))))"
  by pat_completeness auto
termination
  by (relation "measure (\<lambda>(a, b). size a + size b)")
     (auto dest: botRight_size botLeft_size intro: add_strict_mono)

declare append_rec.simps [simp del]

text \<open>
  \<^verbatim>\<open>append\<close> returns its result together with what the two argument objects are afterwards: when
  \<^verbatim>\<open>append_\<close> hands back the arguments, the assignments to \<^verbatim>\<open>c[0].table\<close>, \<^verbatim>\<open>c[0].lengths\<close> and
  \<^verbatim>\<open>c[1].lengths\<close> are visible to every other holder of them.
\<close>

fun crunch :: "'a rrb \<Rightarrow> 'a rrb \<Rightarrow> ('a rrb \<times> 'a rrb) result" where
  "crunch (Leaf xs) (Leaf ys) = Inr (Leaf (xs @ ys), Leaf ys)"
| "crunch (Node h ts ls) (Node h' us ms) =
     (let ms' = map (\<lambda>l. l + last ls) ms in Inr (Node h (ts @ us) (ls @ ms'), Node h' us ms'))"
| "crunch _ _ = Inl Undefined"

definition NArray_append :: "'a rrb \<Rightarrow> 'a rrb \<Rightarrow> ('a rrb \<times> 'a rrb \<times> 'a rrb) result" where
  "NArray_append a b =
     (if tableLength a = 0 then Inr (b, a, b)
      else if tableLength b = 0 then Inr (a, a, b)
      else
        bindE (append_rec a b) (\<lambda>(shared, c0, c1).
          if tableLength c0 + tableLength c1 \<le> NArray_M then
            if tableLength c0 = 0 then Inr (c1, a, b)
            else if tableLength c1 = 0 then Inr (c0, a, b)
            else bindE (crunch c0 c1)
                   (\<lambda>(c0, c1). Inr (if shared then (c0, c0, c1) else (c0, a, b)))
          else if NArray_height c0 > 0 then
            bindE (NArray_calcToRemove a b) (\<lambda>toRemove.
              if toRemove > NArray_E
              then bindE (NArray_shuffle c0 c1 toRemove)
                     (\<lambda>(c0, c1). Inr (NArray_siblise c0 c1, a, b))
              else Inr (NArray_siblise c0 c1, a, b))
          else Inr (NArray_siblise c0 c1, a, b)))"

subsection \<open>The compiled module\<close>

definition Array_isEmpty :: "'a rrb \<Rightarrow> bool" where
  "Array_isEmpty array = (NArray_length array = 0)"

definition Array_get :: "int \<Rightarrow> 'a rrb \<Rightarrow> 'a option result" where
  "Array_get i array =
     (if cmp 0 i < 1 \<and> cmp i (NArray_length array) < 0
      then bindE (NArray_get i array) (\<lambda>v. Inr (Some v)) else Inr None)"

definition Array_filter :: "('a \<Rightarrow> bool) \<Rightarrow> 'a rrb \<Rightarrow> 'a rrb result" where
  "Array_filter isOkay arr =
     NArray_foldl (\<lambda>x xs. if isOkay x then bindE xs (NArray_push x) else xs) (Inr NArray_empty) arr"

definition Array_toIndexedList :: "'a rrb \<Rightarrow> (int \<times> 'a) list" where
  "Array_toIndexedList array =
     NList_map2 Pair (List_range 0 (NArray_length array - 1)) (NArray_toList array)"

definition Array_repeat :: "(int \<Rightarrow> nat) \<Rightarrow> int \<Rightarrow> 'a \<Rightarrow> 'a rrb" where
  "Array_repeat floorLog n e = NArray_initialize floorLog n (Basics_always e)"

end
