(* ===== verification/Elm_Array_Correct.thy ===== *)
theory Elm_Array_Correct
  imports Elm_Array
begin

text \<open>
  Correctness of the array trees: their elements as a list, the invariant that the accumulated
  lengths are right and every node has between 1 and \<open>M\<close> children of the next lower height,
  and the sequence interface \<open>elm_array\<close> with its interpretation.
\<close>

subsection \<open>Elements and invariant\<close>

fun elems :: "'a rrb \<Rightarrow> 'a list" where
  "elems (Leaf xs) = xs"
| "elems (Node _ ts _) = concat (map elems ts)"

fun rrb_wf :: "'a rrb \<Rightarrow> bool" where
  "rrb_wf (Leaf xs) \<longleftrightarrow> length xs \<le> NArray_M"
| "rrb_wf (Node h ts ls) \<longleftrightarrow>
     0 < h \<and> ts \<noteq> [] \<and> length ts \<le> NArray_M \<and> ls = accLengths 0 ts \<and>
     (\<forall>t \<in> set ts. Suc (NArray_height t) = h \<and> elems t \<noteq> [] \<and> rrb_wf t)"

lemma length_accLengths [simp]: "length (accLengths l ts) = length ts"
  by (induction l ts rule: accLengths.induct) auto

lemma accLengths_eq_Nil [simp]: "accLengths l ts = [] \<longleftrightarrow> ts = []"
  using length_accLengths [of l ts] by fastforce

text \<open>Lengths that agree with the elements: what the invariant says of a list of children.\<close>

definition sized :: "'a rrb list \<Rightarrow> bool" where
  "sized ts \<longleftrightarrow> (\<forall>t \<in> set ts. NArray_length t = int (length (elems t)))"

lemma sized_simps [simp]:
  "sized []"
  "sized (t # ts) \<longleftrightarrow> NArray_length t = int (length (elems t)) \<and> sized ts"
  "sized (ts @ us) \<longleftrightarrow> sized ts \<and> sized us"
  by (auto simp: sized_def)

definition start :: "'a rrb list \<Rightarrow> nat \<Rightarrow> nat" where
  "start ts k = length (concat (map elems (take k ts)))"

lemma start_0 [simp]: "start ts 0 = 0"
  by (simp add: start_def)

lemma start_Cons_Suc [simp]: "start (t # ts) (Suc k) = length (elems t) + start ts k"
  by (simp add: start_def)

lemma start_Suc: "k < length ts \<Longrightarrow> start ts (Suc k) = start ts k + length (elems (ts ! k))"
  by (simp add: start_def take_Suc_conv_app_nth)

lemma accLengths_nth:
  "sized ts \<Longrightarrow> k < length ts \<Longrightarrow> accLengths l ts ! k = l + int (start ts (Suc k))"
proof (induction ts arbitrary: l k)
  case (Cons t ts)
  then show ?case by (cases k) auto
qed simp

lemma accLengths_append:
  "sized ts \<Longrightarrow>
   accLengths l (ts @ us) = accLengths l ts @ accLengths (l + int (length (concat (map elems ts)))) us"
  by (induction ts arbitrary: l) (auto simp: add.assoc)

lemma accLengths_last:
  "sized ts \<Longrightarrow> ts \<noteq> [] \<Longrightarrow> last (accLengths l ts) = l + int (length (concat (map elems ts)))"
  by (simp add: last_conv_nth accLengths_nth start_def)

lemma accLengths_take: "take k (accLengths l ts) = accLengths l (take k ts)"
proof (induction ts arbitrary: l k)
  case (Cons t ts)
  then show ?case by (cases k) auto
qed simp

lemma rrb_wf_length: "rrb_wf a \<Longrightarrow> NArray_length a = int (length (elems a))"
proof (induction a)
  case (Node h ts ls)
  then have "sized ts" by (simp add: sized_def)
  with Node.prems show ?case by (simp add: accLengths_last)
qed simp

lemma rrb_wf_sized: "\<forall>t \<in> set ts. rrb_wf t \<Longrightarrow> sized ts"
  by (simp add: sized_def rrb_wf_length)

lemma rrb_wf_capacity: "rrb_wf a \<Longrightarrow> length (elems a) \<le> NArray_M ^ Suc (NArray_height a)"
proof (induction a)
  case (Node h ts ls)
  then have "sum_list (map (length \<circ> elems) ts) \<le> sum_list (map (\<lambda>_. NArray_M ^ h) ts)"
    by (intro sum_list_mono) (auto simp flip: power_Suc)
  also have "\<dots> \<le> NArray_M * NArray_M ^ h"
    using Node.prems by (simp add: sum_list_triv)
  finally show ?case by (simp add: length_concat comp_def)
qed simp

lemma start_le: "\<forall>t \<in> set ts. length (elems t) \<le> c \<Longrightarrow> start ts k \<le> k * c"
proof (induction k)
  case (Suc k)
  show ?case
  proof (cases "k < length ts")
    case True
    then have "length (elems (ts ! k)) \<le> c" using Suc.prems by simp
    then show ?thesis using Suc.IH [OF Suc.prems] True by (simp only: start_Suc mult_Suc)
  next
    case False
    then have "start ts (Suc k) = start ts k" by (simp add: start_def)
    with Suc show ?thesis by simp
  qed
qed simp

subsection \<open>Finding the slot\<close>

lemma concat_nth_slot:
  assumes "i < length (concat (map elems ts))"
  obtains k where "k < length ts" "start ts k \<le> i" "i < start ts (Suc k)"
    "concat (map elems ts) ! i = elems (ts ! k) ! (i - start ts k)"
    "i - start ts k < length (elems (ts ! k))"
  using assms
proof (induction ts arbitrary: i thesis)
  case (Cons t ts)
  show ?case
  proof (cases "i < length (elems t)")
    case True
    then show ?thesis using Cons.prems(1) [of 0] by (simp add: nth_append)
  next
    case False
    then have "i - length (elems t) < length (concat (map elems ts))"
      using Cons.prems(2) by simp
    from Cons.IH [OF _ this] obtain k where k: "k < length ts" "start ts k \<le> i - length (elems t)"
      "i - length (elems t) < start ts (Suc k)"
      "concat (map elems ts) ! (i - length (elems t)) = elems (ts ! k) ! (i - length (elems t) - start ts k)"
      "i - length (elems t) - start ts k < length (elems (ts ! k))"
      by blast
    show ?thesis
    proof (rule Cons.prems(1) [of "Suc k"])
      show "start (t # ts) (Suc k) \<le> i" "i < start (t # ts) (Suc (Suc k))"
        "i - start (t # ts) (Suc k) < length (elems ((t # ts) ! Suc k))"
        using k False by auto
      show "concat (map elems (t # ts)) ! i = elems ((t # ts) ! Suc k) ! (i - start (t # ts) (Suc k))"
        using k(4) False by (simp add: nth_append)
    qed (use k in simp)
  qed
qed simp

lemma slot_loop_finds:
  assumes "s \<le> k" "k < length ls" "\<forall>j. s \<le> j \<and> j < k \<longrightarrow> ls ! j \<le> i" "i < ls ! k"
  shows "slot_loop ls i (int s) = int k"
  using assms
proof (induction "k - s" arbitrary: s)
  case 0
  then show ?case by (subst slot_loop.simps) simp
next
  case (Suc d)
  then have "s < k" by simp
  with Suc.prems have "ls ! s \<le> i" by simp
  moreover have "slot_loop ls i (int (Suc s)) = int k"
    using Suc.hyps(2) Suc.prems \<open>s < k\<close> by (intro Suc.hyps(1)) auto
  ultimately show ?case
    using \<open>s < k\<close> Suc.prems(2) by (subst slot_loop.simps) (simp add: add.commute)
qed

lemma js_shr_eq:
  assumes "i < 2 ^ 31" "h \<le> 6"
  shows "js_shr (int i) (5 * h) = int (i div NArray_M ^ h)"
proof -
  have "toInt32 (int i) = int i" using assms(1) by (intro toInt32_id) auto
  moreover have "5 * h mod 32 = 5 * h" using assms(2) by simp
  moreover have "(2::int) ^ (5 * h) = int (NArray_M ^ h)" by (simp add: power_mult)
  ultimately show ?thesis by (simp only: js_shr_def zdiv_int)
qed

lemma getSlot_finds:
  assumes sz: "sized ts" and ls: "ls = accLengths 0 ts"
    and cap: "\<forall>t \<in> set ts. length (elems t) \<le> NArray_M ^ h" and "h \<le> 6" "i < 2 ^ 31"
    and k: "k < length ts" "start ts k \<le> i" "i < start ts (Suc k)"
  shows "NArray_getSlot (int i) h ls = int k"
proof -
  let ?c = "NArray_M ^ h"
  have "i < Suc k * ?c" using start_le [OF cap, of "Suc k"] k(3) by simp
  then have "i div ?c < Suc k" by (rule less_mult_imp_div_less)
  then have le: "i div ?c \<le> k" by simp
  have mono: "start ts (Suc j) \<le> start ts k" if "j < k" for j
    using that unfolding start_def
    by (metis Suc_leI concat_append length_append le_add1 map_append take_add le_Suc_ex)
  have "slot_loop ls (int i) (int (i div ?c)) = int k"
  proof (rule slot_loop_finds [OF le])
    show "k < length ls" using k ls by simp
    show "\<forall>j. i div ?c \<le> j \<and> j < k \<longrightarrow> ls ! j \<le> int i"
      using mono k sz ls by (auto simp: accLengths_nth intro: order_trans)
    show "int i < ls ! k" using k sz ls by (simp add: accLengths_nth)
  qed
  then show ?thesis using assms(4,5) by (simp add: NArray_getSlot_def js_shr_eq)
qed

lemma rrb_wf_children:
  assumes "rrb_wf (Node h ts ls)"
  shows "sized ts" "ls = accLengths 0 ts" "\<forall>t \<in> set ts. length (elems t) \<le> NArray_M ^ h"
  using assms rrb_wf_capacity by (auto intro: rrb_wf_sized simp flip: power_Suc) fastforce

lemma slotStart_eq: "sized ts \<Longrightarrow> k < length ts \<Longrightarrow> slotStart (accLengths 0 ts) (int k) = int (start ts k)"
  by (cases k) (simp_all add: slotStart_def accLengths_nth)

subsection \<open>Reading and writing\<close>

lemma unsafeGet_loop_correct:
  assumes "rrb_wf a" "NArray_height a \<le> 6" "i < 2 ^ 31" "i < length (elems a)"
  shows "unsafeGet_loop (NArray_height a) (int i) a = Inr (elems a ! i)"
  using assms
proof (induction a arbitrary: i)
  case (Node h ts ls)
  then obtain x where h: "h = Suc x" by (cases h) auto
  have sz: "sized ts" and ls: "ls = accLengths 0 ts" using Node.prems(1) by (auto intro: rrb_wf_sized)
  from Node.prems(4) obtain k where k: "k < length ts" "start ts k \<le> i" "i < start ts (Suc k)"
    "concat (map elems ts) ! i = elems (ts ! k) ! (i - start ts k)"
    "i - start ts k < length (elems (ts ! k))"
    by (auto elim: concat_nth_slot)
  have child: "NArray_height (ts ! k) = x" "rrb_wf (ts ! k)"
    using Node.prems(1) k(1) h by auto
  have slot: "slot_loop ls (int i) (js_shr (int i) (Suc x * 5)) = int k"
    using getSlot_finds [OF rrb_wf_children [OF Node.prems(1)], of i k] Node.prems(2,3) k(1-3) h
    by (simp only: NArray_getSlot_def NArray_height.simps mult.commute)
  have "unsafeGet_loop x (int (i - start ts k)) (ts ! k) = Inr (elems (ts ! k) ! (i - start ts k))"
    using Node.IH [of "ts ! k" "i - start ts k"] Node.prems(2,3) child k(1,5) h by simp
  moreover have "int i - slotStart ls (int k) = int (i - start ts k)"
    using slotStart_eq [OF sz k(1)] ls k(2) by (simp add: of_nat_diff)
  ultimately show ?case
    using slot k(1,4) h by (simp del: mult_Suc)
qed simp

lemma accLengths_update:
  "k < length ts \<Longrightarrow> NArray_length t = NArray_length (ts ! k) \<Longrightarrow>
   accLengths l (ts[k := t]) = accLengths l ts"
proof (induction ts arbitrary: k l)
  case (Cons u us)
  then show ?case by (cases k) auto
qed simp

lemma concat_update:
  "k < length ts \<Longrightarrow> j < length (elems (ts ! k)) \<Longrightarrow> elems t = (elems (ts ! k))[j := x] \<Longrightarrow>
   concat (map elems (ts[k := t])) = (concat (map elems ts))[start ts k + j := x]"
proof (induction ts arbitrary: k)
  case (Cons u us)
  then show ?case by (cases k) (auto simp: list_update_append)
qed simp

lemma rrb_wf_update_child:
  assumes "rrb_wf (Node h ts ls)" "k < length ts" "rrb_wf t" "Suc (NArray_height t) = h"
    "length (elems t) = length (elems (ts ! k))"
  shows "rrb_wf (Node h (ts[k := t]) ls)"
proof -
  have "ts ! k \<in> set ts" using assms(2) by simp
  then have "NArray_length t = NArray_length (ts ! k)" "elems t \<noteq> []"
    using assms by (auto simp: rrb_wf_length)
  with assms show ?thesis
    by (auto simp: accLengths_update dest: set_update_subset_insert [THEN subsetD])
qed

lemma unsafeSet_correct:
  assumes "rrb_wf a" "NArray_height a \<le> 6" "i < 2 ^ 31" "i < length (elems a)"
  shows "\<exists>a'. NArray_unsafeSet (int i) x a = Inr a' \<and> rrb_wf a' \<and>
    NArray_height a' = NArray_height a \<and> elems a' = (elems a)[i := x]"
  using assms
proof (induction a arbitrary: i)
  case (Node h ts ls)
  have sz: "sized ts" and ls: "ls = accLengths 0 ts" using Node.prems(1) by (auto intro: rrb_wf_sized)
  from Node.prems(4) obtain k where k: "k < length ts" "start ts k \<le> i" "i < start ts (Suc k)"
    "i - start ts k < length (elems (ts ! k))"
    by (auto elim: concat_nth_slot)
  have child: "Suc (NArray_height (ts ! k)) = h" "rrb_wf (ts ! k)"
    using Node.prems(1) k(1) by auto
  have slot: "NArray_getSlot (int i) h ls = int k"
    using getSlot_finds [OF rrb_wf_children [OF Node.prems(1)] _ _ k(1-3)] Node.prems(2,3) by simp
  have "i - start ts k < 2 ^ 31" using Node.prems(3) by (rule less_imp_diff_less)
  then obtain t where t: "NArray_unsafeSet (int (i - start ts k)) x (ts ! k) = Inr t" "rrb_wf t"
    "NArray_height t = NArray_height (ts ! k)" "elems t = (elems (ts ! k))[i - start ts k := x]"
    using Node.IH [of "ts ! k" "i - start ts k"] Node.prems(2,3) child k(1,4) by auto
  have idx: "int i - slotStart ls (int k) = int (i - start ts k)"
    using slotStart_eq [OF sz k(1)] ls k(2) by (simp add: of_nat_diff)
  have "NArray_unsafeSet (int i) x (Node h ts ls) = Inr (Node h (ts[k := t]) ls)"
    using slot k(1) idx t(1) by (simp add: Let_def)
  moreover have "rrb_wf (Node h (ts[k := t]) ls)"
    by (rule rrb_wf_update_child [OF Node.prems(1) k(1) t(2)]) (simp_all only: t(3,4) child(1) length_list_update)
  moreover have "elems (Node h (ts[k := t]) ls) = (elems (Node h ts ls))[i := x]"
    using concat_update [OF k(1,4) t(4)] k(2) by simp
  ultimately show ?case 
    by (intro exI conjI) (assumption | simp only: NArray_height.simps)+
qed simp

subsection \<open>Pushing\<close>

lemma create_correct:
  "rrb_wf (NArray_create x h) \<and> elems (NArray_create x h) = [x] \<and> NArray_height (NArray_create x h) = h"
proof (induction h)
  case (Suc h)
  then show ?case by (auto simp: rrb_wf_length)
qed simp

lemma siblise_wf:
  assumes "rrb_wf a" "rrb_wf b" "NArray_height a = NArray_height b" "elems a \<noteq> []" "elems b \<noteq> []"
  shows "rrb_wf (NArray_siblise a b)" "elems (NArray_siblise a b) = elems a @ elems b"
  using assms by (auto simp: NArray_siblise_def)

lemma push_rec_correct:
  assumes "rrb_wf a" "NArray_height a = 0 \<or> elems a \<noteq> []"
  shows "\<exists>r. NArray_push_rec x a = Inr r \<and>
    (case r of None \<Rightarrow> elems a \<noteq> []
     | Some p \<Rightarrow> rrb_wf p \<and> elems p = elems a @ [x] \<and> NArray_height p = NArray_height a)"
  using assms
proof (induction a)
  case (Node h ts ls)
  then obtain us v where ts: "ts = us @ [v]" by (cases ts rule: rev_cases) auto
  have szs: "sized us" and child: "Suc (NArray_height v) = h" "rrb_wf v" "elems v \<noteq> []"
    using Node.prems(1) by (auto simp: ts intro: rrb_wf_sized)
  have ls: "ls = accLengths 0 us @ [int (length (concat (map elems ts)))]"
    using Node.prems(1) szs child(2) by (simp add: ts accLengths_append rrb_wf_length)
  have nth: "js_nth ts (int (length ts) - 1) = Some v"
    by (simp add: ts js_nth_def nat_add_distrib nth_append)
  obtain r where r: "NArray_push_rec x v = Inr r" and
    r': "case r of None \<Rightarrow> elems v \<noteq> [] | Some p \<Rightarrow> rrb_wf p \<and> elems p = elems v @ [x] \<and>
         NArray_height p = NArray_height v"
    using Node.IH [of v] child by (auto simp: ts)
  show ?case
  proof (cases r)
    case None
    let ?new = "NArray_create x (h - 1)"
    have new: "rrb_wf ?new" "elems ?new = [x]" "Suc (NArray_height ?new) = h"
      using create_correct [of x "h - 1"] child(1) by auto
    have "rrb_wf (Node h (ts @ [?new]) (ls @ [last ls + NArray_length ?new]))" if "length ts < NArray_M"
      using Node.prems(1) new that szs child ls
      by (auto simp: ts accLengths_append rrb_wf_length)
    then show ?thesis
      using None r nth new Node.prems by (auto simp: Let_def)
  next
    case (Some p)
    with r' have p: "rrb_wf p" "elems p = elems v @ [x]" "NArray_height p = NArray_height v"
      by auto
    have "ls[length ls - 1 := last ls + 1] = accLengths 0 (us @ [p])"
      using szs p by (simp add: ls ts accLengths_append rrb_wf_length list_update_append)
    moreover have "rrb_wf (Node h (us @ [p]) (accLengths 0 (us @ [p])))"
      using Node.prems(1) p child by (auto simp: ts)
    ultimately show ?thesis
      using Some r nth p child by (auto simp: ts)
  qed
qed (auto split: option.split)

text \<open>The height grows by one only when the whole right edge is full.\<close>

lemma push_correct:
  assumes "rrb_wf a" "NArray_height a = 0 \<or> elems a \<noteq> []"
  shows "\<exists>a'. NArray_push x a = Inr a' \<and> rrb_wf a' \<and> elems a' = elems a @ [x] \<and>
    NArray_height a' \<le> Suc (NArray_height a)"
proof -
  obtain r where r: "NArray_push_rec x a = Inr r" and
    r': "case r of None \<Rightarrow> elems a \<noteq> []
         | Some p \<Rightarrow> rrb_wf p \<and> elems p = elems a @ [x] \<and> NArray_height p = NArray_height a"
    using push_rec_correct [OF assms, of x] by blast
  show ?thesis
  proof (cases r)
    case None
    let ?new = "NArray_create x (NArray_height a)"
    have new: "rrb_wf ?new" "elems ?new = [x]" "NArray_height a = NArray_height ?new"
      using create_correct [of x "NArray_height a"] by auto
    then show ?thesis
      using None r r' siblise_wf [OF assms(1) new(1) new(3)]
      by (auto simp: NArray_push_def NArray_siblise_def)
  qed (use r r' in \<open>auto simp: NArray_push_def\<close>)
qed

lemma rrb_wf_nonempty: "rrb_wf a \<Longrightarrow> NArray_height a = 0 \<or> elems a \<noteq> []"
  by (cases a) (auto simp: neq_Nil_conv)

subsection \<open>Traversals\<close>

lemma toList_rec_eq: "NArray_toList_rec list a = elems a @ list"
proof (induction a arbitrary: list)
  case (Leaf xs)
  then show ?case by (induction xs) auto
next
  case (Node h ts ls)
  then show ?case by (induction ts) auto
qed

lemma NArray_toList_eq [elm_simps]: "NArray_toList a = elems a"
  by (simp add: NArray_toList_def toList_rec_eq)

lemma NArray_foldl_eq [elm_simps]: "NArray_foldl f b a = fold f (elems a) b"
proof (induction a arbitrary: b)
  case (Node h ts ls)
  then show ?case by (induction ts arbitrary: b) auto
qed simp

lemma NArray_foldr_eq [elm_simps]: "NArray_foldr f b a = foldr f (elems a) b"
proof (induction a arbitrary: b)
  case (Node h ts ls)
  then show ?case by (induction ts) auto
qed simp

lemma NArray_map_shape [simp]:
  "NArray_length (NArray_map f a) = NArray_length a" "NArray_height (NArray_map f a) = NArray_height a"
  by (cases a; simp)+

lemma accLengths_map [simp]: "accLengths l (map (NArray_map f) ts) = accLengths l ts"
  by (induction ts arbitrary: l) auto

lemma NArray_map_elems: "elems (NArray_map f a) = map f (elems a)"
proof (induction a)
  case (Node h ts ls)
  then show ?case by (simp add: map_concat comp_def cong: map_cong)
qed simp

lemma NArray_map_wf: "rrb_wf a \<Longrightarrow> rrb_wf (NArray_map f a)"
proof (induction a)
  case (Node h ts ls)
  then show ?case by (auto simp: NArray_map_elems)
qed simp

text \<open>\<^verbatim>\<open>indexedMap\<close> numbers the elements from the left.\<close>

definition imap :: "(int \<Rightarrow> 'a \<Rightarrow> 'b) \<Rightarrow> int \<Rightarrow> 'a list \<Rightarrow> 'b list" where
  "imap f from xs = map (\<lambda>(i, x). f (from + int i) x) (enumerate 0 xs)"

lemma imap_append: "imap f from (xs @ ys) = imap f from xs @ imap f (from + int (length xs)) ys"
  by (auto simp: imap_def enumerate_append_eq enumerate_eq_zip add.assoc nth_append intro!: nth_equalityI)

lemma length_imap [simp]: "length (imap f from xs) = length xs"
  by (simp add: imap_def)

lemma imap_Nil [simp]: "imap f from [] = []"
  by (simp add: imap_def)

lemma imap_nth: "i < length xs \<Longrightarrow> imap f from xs ! i = f (from + int i) (xs ! i)"
  by (simp add: imap_def nth_enumerate_eq)

lemma indexedMap_children:
  assumes "\<And>t from. t \<in> set ts \<Longrightarrow> elems (NArray_indexedMap_rec f t from) = imap f from (elems t)"
    and "sized ts"
  shows "concat (map elems (map (\<lambda>(t, start). NArray_indexedMap_rec f t (from + start))
           (zip ts (l # accLengths l ts)))) = imap f (from + l) (concat (map elems ts))"
  using assms
proof (induction ts arbitrary: l)
  case (Cons t ts)
  then show ?case by (simp add: imap_append add.assoc)
qed simp

lemma indexedMap_elems: "rrb_wf a \<Longrightarrow> elems (NArray_indexedMap_rec f a from) = imap f from (elems a)"
proof (induction a arbitrary: "from")
  case (Node h ts ls)
  then show ?case
    using indexedMap_children [of ts f "from" 0] rrb_wf_children [OF Node.prems] by simp
qed (simp add: imap_def)

subsection \<open>Slicing\<close>

text \<open>
  Slicing can leave a child whose height is more than one below its parent's, so it keeps only
  the weaker invariant \<open>rrb_loose\<close>.
\<close>

fun rrb_loose :: "'a rrb \<Rightarrow> bool" where
  "rrb_loose (Leaf xs) \<longleftrightarrow> length xs \<le> NArray_M"
| "rrb_loose (Node h ts ls) \<longleftrightarrow>
     ts \<noteq> [] \<and> length ts \<le> NArray_M \<and> ls = accLengths 0 ts \<and>
     (\<forall>t \<in> set ts. NArray_height t < h \<and> elems t \<noteq> [] \<and> rrb_loose t)"

lemma rrb_wf_loose: "rrb_wf a \<Longrightarrow> rrb_loose a"
  by (induction a) auto

lemma rrb_loose_length: "rrb_loose a \<Longrightarrow> NArray_length a = int (length (elems a))"
proof (induction a)
  case (Node h ts ls)
  then have "sized ts" by (simp add: sized_def)
  with Node.prems show ?case by (simp add: accLengths_last)
qed simp

lemma rrb_loose_capacity: "rrb_loose a \<Longrightarrow> length (elems a) \<le> NArray_M ^ Suc (NArray_height a)"
proof (induction a)
  case (Node h ts ls)
  have "length (elems t) \<le> NArray_M ^ h" if "t \<in> set ts" for t
  proof -
    have "length (elems t) \<le> NArray_M ^ Suc (NArray_height t)" using Node that by auto
    also have "\<dots> \<le> NArray_M ^ h" using Node.prems that by (intro power_increasing) auto
    finally show ?thesis .
  qed
  then have "sum_list (map (length \<circ> elems) ts) \<le> sum_list (map (\<lambda>_. NArray_M ^ h) ts)"
    by (intro sum_list_mono) auto
  also have "\<dots> \<le> NArray_M * NArray_M ^ h"
    using Node.prems by (simp add: sum_list_triv)
  finally show ?case by (simp add: length_concat comp_def)
qed simp

lemma rrb_loose_children:
  assumes "rrb_loose (Node h ts ls)"
  shows "sized ts" "ls = accLengths 0 ts" "\<forall>t \<in> set ts. length (elems t) \<le> NArray_M ^ h"
proof -
  show "sized ts" "ls = accLengths 0 ts" using assms by (auto simp: sized_def rrb_loose_length)
  show "\<forall>t \<in> set ts. length (elems t) \<le> NArray_M ^ h"
  proof
    fix t assume t: "t \<in> set ts"
    have "length (elems t) \<le> NArray_M ^ Suc (NArray_height t)"
      using assms t by (intro rrb_loose_capacity) auto
    also have "\<dots> \<le> NArray_M ^ h" using assms t by (intro power_increasing) auto
    finally show "length (elems t) \<le> NArray_M ^ h" .
  qed
qed

lemma rrb_loose_empty: "rrb_loose a \<Longrightarrow> tableLength a = 0 \<longleftrightarrow> elems a = []"
  by (cases a) (auto simp: neq_Nil_conv)

lemma take_concat_slot:
  assumes "k < length ts" "start ts k \<le> n" "n \<le> start ts (Suc k)"
  shows "take n (concat (map elems ts)) =
    concat (map elems (take k ts)) @ take (n - start ts k) (elems (ts ! k))"
proof -
  have "ts = take k ts @ ts ! k # drop (Suc k) ts" using assms(1) by (simp add: id_take_nth_drop)
  then have "concat (map elems ts) =
    concat (map elems (take k ts)) @ elems (ts ! k) @ concat (map elems (drop (Suc k) ts))"
    by (metis concat.simps(2) concat_append list.simps(9) map_append)
  with assms show ?thesis by (simp add: start_Suc) (simp add: start_def)
qed

lemma drop_concat_slot:
  assumes "k < length ts" "start ts k \<le> n" "n \<le> start ts (Suc k)"
  shows "drop n (concat (map elems ts)) =
    drop (n - start ts k) (elems (ts ! k)) @ concat (map elems (drop (Suc k) ts))"
proof -
  have "ts = take k ts @ ts ! k # drop (Suc k) ts" using assms(1) by (simp add: id_take_nth_drop)
  then have "concat (map elems ts) =
    concat (map elems (take k ts)) @ elems (ts ! k) @ concat (map elems (drop (Suc k) ts))"
    by (metis concat.simps(2) concat_append list.simps(9) map_append)
  with assms show ?thesis by (simp add: start_Suc) (simp add: start_def)
qed

lemma sliceRight_correct:
  assumes "rrb_loose a" "NArray_height a \<le> 6" "n < 2 ^ 31" "n \<le> length (elems a)"
  shows "\<exists>a'. NArray_sliceRight (int n) a = Inr a' \<and> rrb_loose a' \<and>
    NArray_height a' \<le> NArray_height a \<and> elems a' = take n (elems a)"
  using assms
proof (induction a arbitrary: n)
  case (Leaf xs)
  then show ?case by (auto simp: js_slice_prefix)
next
  case (Node h ts ls)
  note ch = rrb_loose_children [OF Node.prems(1)]
  have lst: "last ls = int (length (concat (map elems ts)))"
    using ch Node.prems(1) by (simp add: accLengths_last)
  show ?case
  proof (cases "n = length (concat (map elems ts))")
    case True
    then show ?thesis using Node.prems(1) lst by auto
  next
    case False
    then have "n < length (concat (map elems ts))" using Node.prems(4) by simp
    then obtain k where k: "k < length ts" "start ts k \<le> n" "n < start ts (Suc k)"
      "n - start ts k < length (elems (ts ! k))"
      by (auto elim: concat_nth_slot)
    have slot: "NArray_getSlot (int n) h ls = int k"
      using getSlot_finds [OF ch _ _ k(1-3)] Node.prems(2,3) by simp
    have child: "NArray_height (ts ! k) < h" "rrb_loose (ts ! k)" using Node.prems(1) k(1) by auto
    have idx: "int n - slotStart ls (int k) = int (n - start ts k)"
      using slotStart_eq [OF ch(1) k(1)] ch(2) k(2) by (simp add: of_nat_diff)
    have "n - start ts k < 2 ^ 31" using Node.prems(3) by (rule less_imp_diff_less)
    then obtain t where t: "NArray_sliceRight (int (n - start ts k)) (ts ! k) = Inr t" "rrb_loose t"
      "NArray_height t \<le> NArray_height (ts ! k)" "elems t = take (n - start ts k) (elems (ts ! k))"
      using Node.IH [of "ts ! k" "n - start ts k"] Node.prems(2,3) child k(1,4) by auto
    have th: "NArray_height t < h" using t(3) child(1) by (rule le_less_trans)
    have el: "take n (concat (map elems ts)) = concat (map elems (take k ts)) @ elems t"
      using take_concat_slot [of k ts n] k t(4) by simp
    have szk: "sized (take k ts)"
      using ch(1) by (auto simp: sized_def dest: in_set_takeD)
    have lsk: "take k ls = accLengths 0 (take k ts)" by (simp add: ch(2) accLengths_take)
    have step: "NArray_sliceRight (int n) (Node h ts ls) =
      (if k = 0 then Inr t
       else if tableLength t > 0
       then Inr (Node h (take k ts @ [t]) (take k ls @ [NArray_length t + ls ! (k - 1)]))
       else Inr (Node h (take k ts) (take k ls)))"
      using slot idx t(1) k(1) False lst by (auto simp: js_slice_prefix nat_diff_distrib')
    consider "k = 0" | "k > 0" "elems t \<noteq> []" | "k > 0" "elems t = []" by blast
    then show ?thesis
    proof cases
      case 1
      then show ?thesis using step t child el by auto
    next
      case 2
      have "NArray_length t + ls ! (k - 1) = int (length (elems t)) + int (start ts k)"
        using 2 k(1) ch t(2) by (simp add: accLengths_nth rrb_loose_length)
      then have "take k ls @ [NArray_length t + ls ! (k - 1)] = accLengths 0 (take k ts @ [t])"
        using szk t(2) by (simp add: lsk accLengths_append rrb_loose_length start_def)
      then have "rrb_loose (Node h (take k ts @ [t]) (take k ls @ [NArray_length t + ls ! (k - 1)]))"
        using Node.prems(1) t(2) th 2 k(1) by (auto dest: in_set_takeD)
      then show ?thesis using step 2 t(2) el by (auto simp: rrb_loose_empty)
    next
      case 3
      then have "rrb_loose (Node h (take k ts) (take k ls))"
        using Node.prems(1) k(1) lsk by (auto dest: in_set_takeD)
      then show ?thesis using step 3 t(2) el by (auto simp: rrb_loose_empty)
    qed
  qed
qed

lemma sliceLeft_correct:
  assumes "rrb_loose a" "NArray_height a \<le> 6" "n < 2 ^ 31"
    "n < length (elems a) \<or> NArray_height a = 0"
  shows "\<exists>a'. NArray_sliceLeft (int n) a = Inr a' \<and> rrb_loose a' \<and>
    NArray_height a' \<le> NArray_height a \<and> elems a' = drop n (elems a)"
  using assms
proof (induction a arbitrary: n)
  case (Leaf xs)
  have "js_slice (int n) (int (length xs) + 1) xs = drop n xs"
    using js_slice_int [of n "Suc (length xs)" xs] by (simp add: add.commute)
  with Leaf show ?case by auto
next
  case (Node h ts ls)
  note ch = rrb_loose_children [OF Node.prems(1)]
  show ?case
  proof (cases "n = 0")
    case True
    then show ?thesis using Node.prems(1) by auto
  next
    case False
    have "h \<noteq> 0" using Node.prems(1) by (auto simp: neq_Nil_conv)
    then have "n < length (concat (map elems ts))" using Node.prems(4) by simp
    then obtain k where k: "k < length ts" "start ts k \<le> n" "n < start ts (Suc k)"
      "n - start ts k < length (elems (ts ! k))"
      by (auto elim: concat_nth_slot)
    have slot: "NArray_getSlot (int n) h ls = int k"
      using getSlot_finds [OF ch _ _ k(1-3)] Node.prems(2,3) by simp
    have child: "NArray_height (ts ! k) < h" "rrb_loose (ts ! k)" using Node.prems(1) k(1) by auto
    have idx: "int n - slotStart ls (int k) = int (n - start ts k)"
      using slotStart_eq [OF ch(1) k(1)] ch(2) k(2) by (simp add: of_nat_diff)
    have "n - start ts k < 2 ^ 31" using Node.prems(3) by (rule less_imp_diff_less)
    then obtain t where t: "NArray_sliceLeft (int (n - start ts k)) (ts ! k) = Inr t" "rrb_loose t"
      "NArray_height t \<le> NArray_height (ts ! k)" "elems t = drop (n - start ts k) (elems (ts ! k))"
      using Node.IH [of "ts ! k" "n - start ts k"] Node.prems(2,3) child k(1,4) by auto
    have th: "NArray_height t < h" using t(3) child(1) by (rule le_less_trans)
    have tne: "elems t \<noteq> []" using t(4) k(4) by simp
    have el: "drop n (concat (map elems ts)) = elems t @ concat (map elems (drop (Suc k) ts))"
      using drop_concat_slot [of k ts n] k t(4) by simp
    have sl: "(js_slice (int k) (int (length ts) + 1) ts)[0 := t] = t # drop (Suc k) ts"
      using js_slice_int [of k "Suc (length ts)" ts] k(1) Cons_nth_drop_Suc [OF k(1), symmetric]
      by (simp add: add.commute)
    have step: "NArray_sliceLeft (int n) (Node h ts ls) =
      (if Suc k = length ts then Inr t
       else Inr (Node h (t # drop (Suc k) ts) (accLengths 0 (t # drop (Suc k) ts))))"
      using slot idx t(1) k(1) False sl by (auto simp: Let_def)
    have "rrb_loose (Node h (t # drop (Suc k) ts) (accLengths 0 (t # drop (Suc k) ts)))"
      using Node.prems(1) t(2) th tne k(1) by (auto dest: in_set_dropD)
    then show ?thesis using step t(2) th el by auto
  qed
qed

lemma slice_contents:
  assumes "rrb_loose a" "NArray_height a \<le> 6" "to < 2 ^ 31" "from < to" "to \<le> length (elems a)"
  shows "\<exists>a'. NArray_slice (int from) (int to) a = Inr a' \<and> rrb_loose a' \<and>
    elems a' = drop from (take to (elems a))"
proof -
  obtain r where r: "NArray_sliceRight (int to) a = Inr r" "rrb_loose r"
    "NArray_height r \<le> NArray_height a" "elems r = take to (elems a)"
    using sliceRight_correct [OF assms(1,2,3,5)] by blast
  have "from < 2 ^ 31" "from < length (elems r)" "NArray_height r \<le> 6"
    using assms r(3,4) by auto
  then obtain l where "NArray_sliceLeft (int from) r = Inr l" "rrb_loose l"
    "elems l = drop from (elems r)"
    using sliceLeft_correct [OF r(2), of "from"] by blast
  then show ?thesis using r by (simp add: NArray_slice_def)
qed

lemma slot_loop_stops: "js_nth ls (slot_loop ls i slot) = Some l \<Longrightarrow> i < l"
proof (induction ls i slot rule: slot_loop.induct)
  case (1 ls i slot)
  then show ?case
    by (cases "js_nth ls slot")
       (auto simp: slot_loop.simps [of ls i slot] simp del: js_nth_None split: if_splits)
qed

lemma getSlot_overrun:
  assumes "\<forall>l \<in> set ls. l \<le> i" "length ts = length ls"
  shows "js_nth ts (NArray_getSlot i h ls) = None"
proof -
  have "js_nth ls (NArray_getSlot i h ls) = None"
    using slot_loop_stops [of ls i "js_shr i (5 * h)"] assms(1)
    by (cases "js_nth ls (NArray_getSlot i h ls)")
       (auto simp: NArray_getSlot_def dest!: js_nth_in_set)
  then show ?thesis using assms(2) by simp
qed

lemma accLengths_le_last:
  assumes "sized ts" "l \<in> set (accLengths 0 ts)"
  shows "l \<le> int (length (concat (map elems ts)))"
proof -
  from assms(2) obtain k where k: "k < length ts" "l = accLengths 0 ts ! k"
    by (auto simp: in_set_conv_nth)
  have "start ts (Suc k) \<le> start ts (length ts)"
    unfolding start_def using k(1)
    by (metis Suc_leI concat_append length_append le_add1 map_append take_add le_Suc_ex)
  with k assms(1) show ?thesis by (simp add: accLengths_nth) (simp add: start_def)
qed

lemma slice_overrun:
  assumes "rrb_loose (Node h ts ls)" "int (length (elems (Node h ts ls))) < to"
  shows "NArray_slice from to (Node h ts ls) = Inl TypeError"
proof -
  note ch = rrb_loose_children [OF assms(1)]
  have "\<forall>l \<in> set ls. l \<le> to" using accLengths_le_last [OF ch(1)] ch(2) assms(2) by fastforce
  then have "js_nth ts (NArray_getSlot to h ls) = None"
    using ch(2) by (intro getSlot_overrun) simp_all
  moreover have "to \<noteq> last ls" "\<not> to < 0"
    using rrb_loose_length [OF assms(1)] assms(2) by auto
  ultimately show ?thesis by (simp add: NArray_slice_def Let_def del: js_nth_None)
qed

subsection \<open>Initialisation\<close>

lemma upto_join: "i \<le> j \<Longrightarrow> j \<le> k \<Longrightarrow> [i..j - 1] @ [j..k - 1] = [i..k - (1::int)]"
  using upto_split1 [of i j "k - 1"] by (cases "j = k") auto

lemma map_upto_shift: "map (\<lambda>i. f (from + i)) [0..n - 1] = map f [from..from + n - (1::int)]"
  by (intro nth_equalityI) (auto simp: add.commute)

text \<open>Cutting an interval into blocks of a given size, the last one perhaps shorter.\<close>

lemma blocks_count:
  assumes "0 < s" "0 < (d::int)"
  shows "1 \<le> (d + s - 1) div s" "d \<le> c * s \<Longrightarrow> (d + s - 1) div s \<le> c"
    "d \<le> (d + s - 1) div s * s" "i < (d + s - 1) div s \<Longrightarrow> i * s < d"
proof -
  let ?q = "(d + s - 1) div s"
  have e: "?q * s = d + s - 1 - (d + s - 1) mod s" by (simp add: minus_mod_eq_div_mult)
  have m: "0 \<le> (d + s - 1) mod s" "(d + s - 1) mod s < s" using assms(1) by simp_all
  show d: "d \<le> ?q * s" unfolding e using m by linarith
  have "0 < ?q * s" using d assms(2) by linarith
  then show "1 \<le> ?q" using assms(1) by (simp add: zero_less_mult_iff)
  show "?q \<le> c" if "d \<le> c * s"
  proof -
    have "?q * s < (c + 1) * s" unfolding e using m that by (simp add: distrib_right)
    then show ?thesis using assms(1) by (simp add: mult_less_cancel_right)
  qed
  show "i * s < d" if "i < ?q"
  proof -
    have "(i + 1) * s \<le> ?q * s" using assms(1) that by (intro mult_right_mono) auto
    then show ?thesis unfolding e using m by (simp add: distrib_right)
  qed
qed

lemma concat_blocks:
  assumes "0 < s" "from < to" "int k \<le> (to - from + s - 1) div s"
  shows "concat (map (\<lambda>i. map f [from + i * s..min (from + (i + 1) * s) to - 1]) [0..int k - 1])
    = map f [from..min (from + int k * s) to - (1::int)]"
  using assms(3)
proof (induction k)
  case 0
  then show ?case using assms(2) by simp
next
  case (Suc k)
  have "int k * s < to - from"
    using Suc.prems assms(1,2) by (intro blocks_count(4)) auto
  then have k: "from + int k * s \<le> to" by simp
  have "[0..int (Suc k) - 1] = [0..int k - 1] @ [int k]" by (simp add: upto_rec2)
  then have "concat (map (\<lambda>i. map f [from + i * s..min (from + (i + 1) * s) to - 1]) [0..int (Suc k) - 1])
    = map f ([from..from + int k * s - 1] @ [from + int k * s..min (from + (int k + 1) * s) to - 1])"
    using Suc k by (simp add: min_absorb1)
  also have "[from..from + int k * s - 1] @ [from + int k * s..min (from + (int k + 1) * s) to - 1]
    = [from..min (from + (int k + 1) * s) to - 1]"
    using k assms(1) by (intro upto_join) (auto simp: algebra_simps)
  finally show ?case by (simp add: add.commute)
qed

lemma initialize_rec_correct:
  assumes "from < to" "to - from \<le> int NArray_M ^ Suc h"
  shows "rrb_wf (NArray_initialize_rec f h from to) \<and>
    NArray_height (NArray_initialize_rec f h from to) = h \<and>
    elems (NArray_initialize_rec f h from to) = map f [from..to - 1]"
  using assms
proof (induction h arbitrary: "from" to)
  case 0
  then have "(to - from) smod (int NArray_M + 1) = to - from" by (simp add: smod_pos)
  then show ?case using 0 map_upto_shift [of f "from" "to - from"] by simp
next
  case (Suc h)
  define s where "s = int NArray_M ^ Suc h"
  define q where "q = (to - from + s - 1) div s"
  define child where "child i = NArray_initialize_rec f h (from + i * s) (min (from + (i + 1) * s) to)" for i
  have s: "0 < s" by (simp add: s_def)
  have "to - from \<le> int NArray_M * s" using Suc.prems(2) by (simp add: s_def)
  with s Suc.prems(1) have q: "1 \<le> q" "q \<le> int NArray_M" "to \<le> from + q * s"
    using blocks_count [of s "to - from"] by (auto simp: q_def)
  have child: "rrb_wf (child i) \<and> NArray_height (child i) = h \<and>
      elems (child i) = map f [from + i * s..min (from + (i + 1) * s) to - 1] \<and>
      elems (child i) \<noteq> []" if "0 \<le> i" "i < q" for i
  proof -
    have "i * s < to - from" using s Suc.prems(1) that by (intro blocks_count(4)) (auto simp: q_def)
    then have lt: "from + i * s < min (from + (i + 1) * s) to" using s by (simp add: algebra_simps)
    have "min (from + (i + 1) * s) to - (from + i * s) \<le> int NArray_M ^ Suc h"
      by (simp only: s_def [symmetric]) (simp add: distrib_right min_le_iff_disj)
    moreover have "[from + i * s..min (from + (i + 1) * s) to - 1] \<noteq> []"
      using lt by (simp only: upto_Nil)
    ultimately show ?thesis using Suc.IH [OF lt] by (simp only: child_def) simp
  qed
  have eq: "NArray_initialize_rec f (Suc h) from to =
      Node (Suc h) (map child [0..q - 1]) (accLengths 0 (map child [0..q - 1]))"
    by (simp add: Let_def s_def [symmetric, simplified] q_def child_def [abs_def])
  have "concat (map elems (map child [0..q - 1])) =
      concat (map (\<lambda>i. map f [from + i * s..min (from + (i + 1) * s) to - 1]) [0..q - 1])"
    using child by (intro arg_cong [where f = concat]) simp
  also have "\<dots> = map f [from..min (from + q * s) to - 1]"
    using concat_blocks [OF s Suc.prems(1), of "nat q" f] q(1) by (simp add: q_def)
  finally have "concat (map elems (map child [0..q - 1])) = map f [from..to - 1]"
    using q(3) by (simp add: min_absorb2)
  moreover have "Suc (NArray_height c) = Suc h \<and> elems c \<noteq> [] \<and> rrb_wf c"
    if "c \<in> set (map child [0..q - 1])" for c
  proof -
    from that obtain i where "0 \<le> i" "i < q" "c = child i" by auto
    with child [of i] show ?thesis by blast
  qed
  then have "rrb_wf (Node (Suc h) (map child [0..q - 1]) (accLengths 0 (map child [0..q - 1])))"
    unfolding rrb_wf.simps using q by auto
  ultimately show ?case unfolding eq by simp
qed

lemma fromJSArray_rec_eq:
  assumes "0 \<le> from" "from < to" "to \<le> int (length xs)"
  shows "NArray_fromJSArray_rec xs h from to =
    (if h = 0 then Leaf (map (\<lambda>i. xs ! nat i) [from..to - 1])
     else NArray_fromJSArray_rec xs h from to)"
  using assms
  by (cases h) (auto simp: js_slice_def js_clip_def nat_diff_distrib' intro!: nth_equalityI arg_cong [where f = "(!) xs"])

lemma fromJSArray_rec_initialize:
  assumes "0 \<le> from" "from < to" "to \<le> int (length xs)" "to - from \<le> int NArray_M ^ Suc h"
  shows "NArray_fromJSArray_rec xs h from to = NArray_initialize_rec (\<lambda>i. xs ! nat i) h from to"
  using assms
proof (induction h arbitrary: "from" to)
  case 0
  then have "(to - from) smod (int NArray_M + 1) = to - from" by (simp add: smod_pos)
  then show ?case
    using 0 fromJSArray_rec_eq [of "from" to xs 0] map_upto_shift [of "\<lambda>i. xs ! nat i" "from" "to - from"]
    by simp
next
  case (Suc h)
  define s where "s = int NArray_M ^ Suc h"
  have s: "0 < s" by (simp add: s_def)
  have same: "NArray_fromJSArray_rec xs h (from + i * s) (min (from + (i + 1) * s) to) =
      NArray_initialize_rec (\<lambda>i. xs ! nat i) h (from + i * s) (min (from + (i + 1) * s) to)"
    if "0 \<le> i" "i \<le> (to - from + s - 1) div s - 1" for i
  proof (rule Suc.IH)
    have "i * s < to - from" using s Suc.prems(2) that by (intro blocks_count(4)) auto
    then show "from + i * s < min (from + (i + 1) * s) to" using s by (simp add: algebra_simps)
    show "0 \<le> from + i * s" using Suc.prems(1) s that(1) by simp
    show "min (from + (i + 1) * s) to - (from + i * s) \<le> int NArray_M ^ Suc h"
      by (simp only: s_def [symmetric]) (simp add: distrib_right min_le_iff_disj)
  qed (use Suc.prems in simp)
  have "map (\<lambda>i. NArray_fromJSArray_rec xs h (from + i * s) (min (from + (i + 1) * s) to))
          [0..(to - from + s - 1) div s - 1] =
        map (\<lambda>i. NArray_initialize_rec (\<lambda>i. xs ! nat i) h (from + i * s) (min (from + (i + 1) * s) to))
          [0..(to - from + s - 1) div s - 1]"
    by (rule map_cong) (simp_all add: same)
  then show ?case
    by (simp only: NArray_fromJSArray_rec.simps NArray_initialize_rec.simps Let_def s_def [symmetric])
qed

subsection \<open>Building from a list\<close>

definition open_ok :: "nat \<Rightarrow> 'a rrb list \<times> int list \<Rightarrow> bool" where
  "open_ok j = (\<lambda>(table, lengths).
     length table < NArray_M \<and> lengths = accLengths 0 table \<and>
     (\<forall>t \<in> set table. NArray_height t = j \<and> elems t \<noteq> [] \<and> rrb_wf t))"

definition nodes_ok :: "nat \<Rightarrow> 'a open_nodes \<Rightarrow> bool" where
  "nodes_ok h nodes \<longleftrightarrow> (\<forall>j. h \<le> j \<and> j < length nodes \<longrightarrow> open_ok j (nodes ! j))"

text \<open>The elements held by the open nodes from height \<open>h\<close> upwards, the highest leftmost.\<close>

definition held :: "nat \<Rightarrow> 'a open_nodes \<Rightarrow> 'a list" where
  "held h nodes = concat (rev (map (\<lambda>(table, _). concat (map elems table)) (drop h nodes)))"

lemma held_step:
  "h < length nodes \<Longrightarrow> held h nodes = held (Suc h) nodes @ concat (map elems (fst (nodes ! h)))"
  by (simp add: held_def Cons_nth_drop_Suc [symmetric] case_prod_beta)

lemma held_beyond [simp]: "length nodes \<le> h \<Longrightarrow> held h nodes = []"
  by (simp add: held_def)

lemma held_update_below [simp]: "j < h \<Longrightarrow> held h (nodes[j := x]) = held h nodes"
  by (simp add: held_def)

lemma pushInto_eq:
  assumes "h \<le> length nodes" "nodes_ok h nodes" "rrb_wf t"
  shows "pushInto t h nodes =
    (if length nodes = h then nodes @ [([t], accLengths 0 [t])]
     else nodes[h := (fst (nodes ! h) @ [t], accLengths 0 (fst (nodes ! h) @ [t]))])"
proof (cases "length nodes = h")
  case False
  then have h: "h < length nodes" using assms(1) by simp
  have "open_ok h (nodes ! h)" using assms(2) h by (simp add: nodes_ok_def)
  then obtain tb where tb: "nodes ! h = (tb, accLengths 0 tb)" and sz: "sized tb"
    by (cases "nodes ! h") (auto simp: open_ok_def intro!: rrb_wf_sized)
  show ?thesis
    using False tb sz assms(3)
    by (auto simp: pushInto_def accLengths_append accLengths_last rrb_wf_length add.commute)
qed (auto simp: pushInto_def Let_def nth_append)

text \<open>What a push at height \<open>h\<close> does. A new highest node appears only by emptying those below it.\<close>

definition pushes :: "nat \<Rightarrow> 'a list \<Rightarrow> 'a open_nodes \<Rightarrow> 'a open_nodes \<Rightarrow> bool" where
  "pushes h xs nodes nodes' \<longleftrightarrow>
     nodes_ok h nodes' \<and> take h nodes' = take h nodes \<and> held h nodes' = held h nodes @ xs \<and>
     h < length nodes' \<and> length nodes \<le> length nodes' \<and> length nodes' \<le> Suc (length nodes) \<and>
     (nodes = [] \<or> fst (last nodes) \<noteq> [] \<longrightarrow> fst (last nodes') \<noteq> []) \<and>
     (length nodes < length nodes' \<longrightarrow> (\<forall>j. h \<le> j \<and> j < length nodes \<longrightarrow> fst (nodes' ! j) = []))"

lemma pushes_new:
  assumes "length nodes = h" "rrb_wf t" "NArray_height t = h" "elems t \<noteq> []"
  shows "pushes h (elems t) nodes (nodes @ [([t], accLengths 0 [t])])"
  using assms by (auto simp: pushes_def nodes_ok_def open_ok_def held_def nth_append)

lemma pushes_room:
  assumes "h < length nodes" "nodes_ok h nodes" "rrb_wf t" "NArray_height t = h" "elems t \<noteq> []"
    "length (fst (nodes ! h) @ [t]) < NArray_M"
  shows "pushes h (elems t) nodes
    (nodes[h := (fst (nodes ! h) @ [t], accLengths 0 (fst (nodes ! h) @ [t]))])"
proof -
  let ?new = "nodes[h := (fst (nodes ! h) @ [t], accLengths 0 (fst (nodes ! h) @ [t]))]"
  have "open_ok h (nodes ! h)" using assms(1,2) by (simp add: nodes_ok_def)
  then have "open_ok h (?new ! h)"
    using assms by (auto simp: open_ok_def case_prod_beta)
  then have "nodes_ok h ?new" using assms(2) by (auto simp: nodes_ok_def nth_list_update)
  moreover have "held h ?new = held h nodes @ elems t"
    using assms(1) by (simp add: held_step)
  moreover have "fst (last ?new) \<noteq> []" if "fst (last nodes) \<noteq> []"
    using that assms(1) by (subst last_list_update) auto
  ultimately show ?thesis using assms(1) by (auto simp: pushes_def)
qed

lemma pushes_full:
  assumes "h < length nodes" "fst (nodes ! h) = tb" "tb' \<noteq> []"
    "pushes (Suc h) (concat (map elems tb) @ xs) (nodes[h := (tb', ls)]) nodes'"
  shows "pushes h xs nodes (nodes'[h := ([], [])])"
proof -
  have p: "nodes_ok (Suc h) nodes'" "take (Suc h) nodes' = take (Suc h) (nodes[h := (tb', ls)])"
    "held (Suc h) nodes' = held (Suc h) nodes @ concat (map elems tb) @ xs" "Suc h < length nodes'"
    "length nodes \<le> length nodes'" "length nodes' \<le> Suc (length nodes)"
    "fst (last (nodes[h := (tb', ls)])) \<noteq> [] \<Longrightarrow> fst (last nodes') \<noteq> []"
    "\<And>j. length nodes < length nodes' \<Longrightarrow> Suc h \<le> j \<Longrightarrow> j < length nodes \<Longrightarrow> fst (nodes' ! j) = []"
    using assms(4) by (auto simp: pushes_def)
  have ne: "nodes \<noteq> []" "nodes' \<noteq> []" using assms(1) p(4) by auto
  have "take h nodes' = take h (take (Suc h) nodes')" by (simp add: min_def)
  also have "\<dots> = take h nodes" by (simp add: p(2) min_def)
  finally have "take h nodes' = take h nodes" .
  moreover have "nodes_ok h (nodes'[h := ([], [])])"
    using p(1) by (auto simp: nodes_ok_def nth_list_update open_ok_def Suc_le_eq)
  moreover have "held h (nodes'[h := ([], [])]) = held h nodes @ xs"
    using p(3,4) assms(1,2) by (simp add: held_step)
  moreover have "fst (last (nodes'[h := ([], [])])) \<noteq> []" if "fst (last nodes) \<noteq> []"
    using that p(4,7) assms(3) last_list_update [OF ne(1)] last_list_update [OF ne(2)] by auto
  moreover have "fst (nodes'[h := ([], [])] ! j) = []"
    if "length nodes < length nodes'" "h \<le> j" "j < length nodes" for j
    using that p(4) p(8) [of j] by (cases "j = h") auto
  ultimately show ?thesis using p(4-6) ne(1) by (auto simp: pushes_def)
qed

lemma fromListPush_at_correct:
  assumes "h \<le> length nodes" "nodes_ok h nodes" "rrb_wf t" "NArray_height t = h" "elems t \<noteq> []"
  shows "\<exists>nodes'. fromListPush_at h t nodes = Inr nodes' \<and> pushes h (elems t) nodes nodes'"
  using assms
proof (induction h t nodes rule: fromListPush_at.induct)
  case (1 h t nodes)
  note push = pushInto_eq [OF "1.prems"(1-3)]
  show ?case
  proof (cases "length nodes = h")
    case True
    then show ?thesis
      using pushes_new [OF True "1.prems"(3-5)] push
      by (subst fromListPush_at.simps) (simp add: nth_append)
  next
    case False
    then have h: "h < length nodes" using "1.prems"(1) by simp
    define tb where "tb = fst (nodes ! h) @ [t]"
    have ok: "open_ok h (nodes ! h)" using "1.prems"(2) h by (simp add: nodes_ok_def)
    have nth: "pushInto t h nodes = nodes[h := (tb, accLengths 0 tb)]" "pushInto t h nodes ! h = (tb, accLengths 0 tb)"
      using push False h by (simp_all add: tb_def)
    show ?thesis
    proof (cases "length tb = NArray_M")
      case True
      let ?node = "Node (Suc h) tb (accLengths 0 tb)"
      have node: "rrb_wf ?node" "elems ?node = concat (map elems (fst (nodes ! h))) @ elems t"
        using ok True "1.prems"(3-5) by (auto simp: tb_def open_ok_def case_prod_beta)
      have "nodes_ok (Suc h) (pushInto t h nodes)"
        using "1.prems"(2) nth by (auto simp: nodes_ok_def)
      then obtain nodes' where "fromListPush_at (Suc h) ?node (pushInto t h nodes) = Inr nodes'"
        "pushes (Suc h) (elems ?node) (pushInto t h nodes) nodes'"
        using "1.IH" [OF _ refl] node "1.prems"(5) True h nth by fastforce
      then show ?thesis
        using pushes_full [OF h refl, of tb "elems t" "accLengths 0 tb" nodes'] node True h nth
        by (subst fromListPush_at.simps) (simp add: tb_def)
    next
      case False
      then have "length tb < NArray_M" using ok by (auto simp: tb_def open_ok_def case_prod_beta)
      then show ?thesis
        using pushes_room [OF h "1.prems"(2-5)] False h nth
        by (subst fromListPush_at.simps) (simp add: tb_def)
    qed
  qed
qed

definition idle :: "nat \<Rightarrow> 'a open_nodes \<Rightarrow> bool" where
  "idle h nodes \<longleftrightarrow> (\<forall>j. h \<le> j \<and> Suc j < length nodes \<longrightarrow> fst (nodes ! j) = [])"

lemma held_idle:
  "idle h nodes \<Longrightarrow> h < length nodes \<Longrightarrow> held h nodes = concat (map elems (fst (last nodes)))"
proof (induction "length nodes - h" arbitrary: h)
  case (Suc d)
  show ?case
  proof (cases "Suc h = length nodes")
    case True
    then have "last nodes = nodes ! h" by (metis diff_Suc_1 last_conv_nth length_0_conv nat.distinct(1))
    with True show ?thesis by (simp add: held_step)
  next
    case False
    then show ?thesis
      using Suc.hyps(1) [of "Suc h"] Suc.hyps(2) Suc.prems by (auto simp: held_step idle_def)
  qed
qed simp

lemma close_idle:
  "idle h nodes \<Longrightarrow> length nodes \<le> Suc (h + fuel) \<Longrightarrow> fromList_close fuel h nodes = Inr nodes"
proof (induction fuel arbitrary: h)
  case (Suc fuel)
  then have "fst (nodes ! h) = []" if "Suc h < length nodes" using that by (simp add: idle_def)
  moreover have "idle (Suc h) nodes" using Suc.prems(1) by (auto simp: idle_def)
  ultimately show ?case
    using Suc by (subst fromList_close.simps) simp
qed (simp add: fromList_close.simps)

definition topped :: "'a list \<Rightarrow> 'a open_nodes \<Rightarrow> bool" where
  "topped xs nodes \<longleftrightarrow> nodes \<noteq> [] \<and> fst (last nodes) \<noteq> [] \<and>
     open_ok (length nodes - 1) (last nodes) \<and> concat (map elems (fst (last nodes))) = xs"

lemma topped_idle:
  assumes "idle h nodes" "h < length nodes" "nodes_ok h nodes" "fst (last nodes) \<noteq> []"
  shows "topped (held h nodes) nodes"
  using assms held_idle [OF assms(1,2)]
  by (cases "nodes = []") (auto simp: topped_def nodes_ok_def last_conv_nth)

lemma close_correct:
  assumes "nodes_ok h nodes" "h < length nodes" "fst (last nodes) \<noteq> []" "length nodes \<le> h + fuel"
  shows "\<exists>nodes'. fromList_close fuel h nodes = Inr nodes' \<and> topped (held h nodes) nodes'"
  using assms
proof (induction fuel arbitrary: h nodes)
  case (Suc fuel)
  show ?case
  proof (cases "Suc h < length nodes \<and> fst (nodes ! h) \<noteq> []")
    case False
    then consider "Suc h = length nodes" | "Suc h < length nodes" "fst (nodes ! h) = []"
      using Suc.prems(2) by linarith
    then show ?thesis
    proof cases
      case 1
      then have "idle h nodes" by (auto simp: idle_def)
      then show ?thesis using topped_idle [of h nodes] close_idle [of h nodes "Suc fuel"] 1 Suc.prems by auto
    next
      case 2
      then have "held h nodes = held (Suc h) nodes" "nodes_ok (Suc h) nodes"
        using Suc.prems(1) by (auto simp: held_step nodes_ok_def)
      then show ?thesis
        using Suc.IH [of "Suc h" nodes] Suc.prems 2 by (subst fromList_close.simps) simp
    qed
  next
    case True
    let ?node = "Node (Suc h) (fst (nodes ! h)) (snd (nodes ! h))"
    have "open_ok h (nodes ! h)" using Suc.prems(1,2) by (simp add: nodes_ok_def)
    then have node: "rrb_wf ?node" "elems ?node \<noteq> []"
      using True by (auto simp: open_ok_def case_prod_beta neq_Nil_conv)
    have "nodes_ok (Suc h) nodes" using Suc.prems(1) by (simp add: nodes_ok_def)
    then obtain n where n: "fromListPush_at (Suc h) ?node nodes = Inr n" "pushes (Suc h) (elems ?node) nodes n"
      using fromListPush_at_correct [of "Suc h" nodes ?node] node True by auto
    have held: "held (Suc h) n = held h nodes"
      using n(2) Suc.prems(2) by (simp add: pushes_def held_step)
    have ok: "nodes_ok (Suc h) n" "Suc h < length n" "fst (last n) \<noteq> []"
      using n(2) Suc.prems(3) by (auto simp: pushes_def)
    have step: "fromList_close (Suc fuel) h nodes = fromList_close fuel (Suc h) n"
      using True n(1) by (subst fromList_close.simps) (simp add: NArray_fromListPush_def)
    show ?thesis
    proof (cases "length n = length nodes")
      case True
      then show ?thesis using Suc.IH [OF ok] Suc.prems(4) step held by simp
    next
      case False
      then have "length n = Suc (length nodes)" "idle (Suc h) n"
        using n(2) by (auto simp: pushes_def idle_def)
      then show ?thesis
        using topped_idle [OF _ ok(2,1,3)] close_idle [of "Suc h" n fuel] Suc.prems(4) step held by simp
    qed
  qed
qed simp

lemma fromList_loop_correct:
  assumes "nodes_ok 0 nodes" "nodes = [] \<or> fst (last nodes) \<noteq> []" "length table < NArray_M"
  shows "\<exists>table' nodes'. fromList_loop xs table nodes = Inr (table', nodes') \<and> nodes_ok 0 nodes' \<and>
    (nodes' = [] \<or> fst (last nodes') \<noteq> []) \<and> length table' < NArray_M \<and>
    held 0 nodes' @ table' = held 0 nodes @ table @ xs"
  using assms
proof (induction xs arbitrary: table nodes)
  case (Cons x xs)
  show ?case
  proof (cases "length (table @ [x]) = NArray_M")
    case True
    then have "table @ [x] \<noteq> [] \<and> rrb_wf (Leaf (table @ [x]))" by simp
    then obtain n where n: "fromListPush_at 0 (Leaf (table @ [x])) nodes = Inr n"
      "pushes 0 (table @ [x]) nodes n"
      using fromListPush_at_correct [of 0 nodes "Leaf (table @ [x])"] Cons.prems(1) by auto
    then have "nodes_ok 0 n" "n = [] \<or> fst (last n) \<noteq> []" "held 0 n = held 0 nodes @ table @ [x]"
      using Cons.prems(2) by (auto simp: pushes_def)
    then show ?thesis
      using Cons.IH [of n "[]"] n(1) True by (simp add: NArray_fromListPush_def)
  next
    case False
    then show ?thesis using Cons.IH [of nodes "table @ [x]"] Cons.prems by simp
  qed
qed simp

lemma fromList_correct: "\<exists>a. NArray_fromList xs = Inr a \<and> rrb_wf a \<and> elems a = xs"
proof (cases "xs = []")
  case False
  obtain tb n where n: "fromList_loop xs [] [] = Inr (tb, n)" "nodes_ok 0 n"
    "n = [] \<or> fst (last n) \<noteq> []" "length tb < NArray_M" "held 0 n @ tb = xs"
    using fromList_loop_correct [of "[]" "[]" xs] by (auto simp: nodes_ok_def held_def)
  have "\<exists>m. (if tb \<noteq> [] then NArray_fromListPush (Leaf tb) n else Inr n) = Inr m \<and> nodes_ok 0 m \<and>
      m \<noteq> [] \<and> fst (last m) \<noteq> [] \<and> held 0 m = xs"
  proof (cases "tb = []")
    case True
    then show ?thesis using n False by (auto simp: held_def)
  next
    case tb: False
    then show ?thesis
      using fromListPush_at_correct [of 0 n "Leaf tb"] n by (auto simp: NArray_fromListPush_def pushes_def)
  qed
  then obtain m where m: "(if tb \<noteq> [] then NArray_fromListPush (Leaf tb) n else Inr n) = Inr m"
    "nodes_ok 0 m" "m \<noteq> []" "fst (last m) \<noteq> []" "held 0 m = xs" by blast
  obtain r where r: "fromList_close (Suc (length m)) 0 m = Inr r" "topped xs r"
    using close_correct [OF m(2) _ m(4), of "Suc (length m)"] m(3,5) by auto
  obtain ts ls where last: "last r = (ts, ls)" by force
  have "NArray_fromList xs = Inr (if length ts = 1 then hd ts else Node (length r) ts ls)"
    using False n(1) m(1) r(1) last by (simp add: NArray_fromList_def del: fromList_close.simps)
  moreover have "rrb_wf (hd ts) \<and> elems (hd ts) = xs" if "length ts = 1"
    using that r(2) last by (auto simp: topped_def open_ok_def length_Suc_conv)
  moreover have "rrb_wf (Node (length r) ts ls)" "elems (Node (length r) ts ls) = xs"
    using r(2) last by (auto simp: topped_def open_ok_def)
  ultimately show ?thesis by simp
qed (simp add: NArray_fromList_def NArray_empty_def)

subsection \<open>The sequence interface\<close>

text \<open>
  What users of \<^verbatim>\<open>Array\<close> rely on: an array denotes a list, reads see that list, and writes and
  pushes change it as the list operations do, without throwing and within the invariant.
  \<open>room\<close> says that one more element fits.
\<close>

locale elm_array =
  fixes get :: "int \<Rightarrow> 'ar \<Rightarrow> 'a option result"
    and set :: "int \<Rightarrow> 'a \<Rightarrow> 'ar \<Rightarrow> 'ar result"
    and push :: "'a \<Rightarrow> 'ar \<Rightarrow> 'ar result"
    and toList :: "'ar \<Rightarrow> 'a list"
    and inv :: "'ar \<Rightarrow> bool"
    and room :: "'ar \<Rightarrow> bool"
  assumes get_law: "inv a \<Longrightarrow> get i a = Inr (js_nth (toList a) i)"
    and set_law: "inv a \<Longrightarrow> 0 \<le> i \<Longrightarrow> i < int (length (toList a)) \<Longrightarrow>
      \<exists>a'. set i x a = Inr a' \<and> inv a' \<and> toList a' = (toList a)[nat i := x]"
    and set_outside: "inv a \<Longrightarrow> i < 0 \<or> int (length (toList a)) \<le> i \<Longrightarrow> set i x a = Inr a"
    and push_law: "inv a \<Longrightarrow> room a \<Longrightarrow>
      \<exists>a'. push x a = Inr a' \<and> inv a' \<and> toList a' = toList a @ [x]"
begin

lemma get_after_set:
  assumes "inv a" "0 \<le> i" "i < int (length (toList a))"
  shows "\<exists>a'. set i x a = Inr a' \<and> inv a' \<and> length (toList a') = length (toList a) \<and>
    (\<forall>j. get j a' = (if j = i then Inr (Some x) else get j a))"
proof -
  obtain a' where a': "set i x a = Inr a'" "inv a'" "toList a' = (toList a)[nat i := x]"
    using set_law [OF assms] by blast
  have "get j a' = (if j = i then Inr (Some x) else get j a)" for j
    using get_law [OF a'(2)] get_law [OF assms(1)] a'(3) assms(2,3)
    by (auto simp: js_nth_def nth_list_update)
  with a' show ?thesis by auto
qed

lemma get_after_push:
  assumes "inv a" "room a"
  shows "\<exists>a'. push x a = Inr a' \<and> inv a' \<and>
    (\<forall>j. get j a' = (if j = int (length (toList a)) then Inr (Some x) else get j a))"
proof -
  obtain a' where a': "push x a = Inr a'" "inv a'" "toList a' = toList a @ [x]"
    using push_law [OF assms] by blast
  have "get j a' = (if j = int (length (toList a)) then Inr (Some x) else get j a)" for j
    using get_law [OF a'(2)] get_law [OF assms(1)] a'(3)
    by (auto simp: js_nth_def nth_append)
  with a' show ?thesis by blast
qed

lemma equal_reads:
  assumes "inv a" "inv b" "\<And>j. get j a = get j b"
  shows "toList a = toList b"
proof -
  have nth: "js_nth (toList a) j = js_nth (toList b) j" for j
    using assms(3) [of j] get_law [OF assms(1)] get_law [OF assms(2)] by simp
  then have len: "length (toList a) = length (toList b)"
    by (metis js_nth_None linorder_neqE_nat less_irrefl js_nth_int option.distinct(1) of_nat_less_iff
        of_nat_le_iff less_le_not_le nat_le_linear)
  show ?thesis
    using nth len by (intro nth_equalityI) (metis js_nth_int option.inject)+
qed

end

definition array_ok :: "'a rrb \<Rightarrow> bool" where
  "array_ok a \<longleftrightarrow> rrb_wf a \<and> NArray_height a \<le> 6 \<and> length (elems a) < 2 ^ 31"

definition array_room :: "'a rrb \<Rightarrow> bool" where
  "array_room a \<longleftrightarrow> NArray_height a < 6 \<and> Suc (length (elems a)) < 2 ^ 31"

lemma Array_get_js_nth: "array_ok a \<Longrightarrow> Array_get i a = Inr (js_nth (NArray_toList a) i)"
  using unsafeGet_loop_correct [of a "nat i"]
  by (auto simp: Array_get_def NArray_get_def NArray_unsafeGet_def array_ok_def rrb_wf_length
      js_nth_def elm_simps)

lemma NArray_set_in_range:
  assumes "array_ok a" "0 \<le> i" "i < int (length (NArray_toList a))"
  shows "\<exists>a'. NArray_set i x a = Inr a' \<and> array_ok a' \<and>
    NArray_toList a' = (NArray_toList a)[nat i := x]"
proof -
  have "nat i < length (elems a)" using assms by (simp add: elm_simps)
  with assms obtain a' where "NArray_unsafeSet i x a = Inr a'" "rrb_wf a'"
    "NArray_height a' = NArray_height a" "elems a' = (elems a)[nat i := x]"
    using unsafeSet_correct [of a "nat i" x] by (auto simp: array_ok_def)
  with assms show ?thesis by (auto simp: NArray_set_def array_ok_def rrb_wf_length elm_simps)
qed

lemma NArray_set_outside:
  "array_ok a \<Longrightarrow> i < 0 \<or> int (length (NArray_toList a)) \<le> i \<Longrightarrow> NArray_set i x a = Inr a"
  by (auto simp: NArray_set_def array_ok_def rrb_wf_length elm_simps)

lemma NArray_push_room:
  assumes "array_ok a" "array_room a"
  shows "\<exists>a'. NArray_push x a = Inr a' \<and> array_ok a' \<and> NArray_toList a' = NArray_toList a @ [x]"
proof -
  have "rrb_wf a" using assms(1) by (simp add: array_ok_def)
  from push_correct [OF this rrb_wf_nonempty [OF this], of x]
  obtain a' where "NArray_push x a = Inr a'" "rrb_wf a'" "elems a' = elems a @ [x]"
    "NArray_height a' \<le> Suc (NArray_height a)" by blast
  with assms(2) show ?thesis by (auto simp: array_ok_def array_room_def elm_simps)
qed

interpretation arr: elm_array Array_get NArray_set NArray_push NArray_toList array_ok array_room
  by unfold_locales
     (rule Array_get_js_nth NArray_set_in_range NArray_set_outside NArray_push_room; assumption)+

subsection \<open>Properties\<close>

text \<open>
  Building an array from a list never throws; it yields a well-formed tree, and reading it back
  gives the list. This is claim C29.
\<close>

theorem Array_fromList_roundtrip:
  "\<exists>a. NArray_fromList xs = Inr a \<and> rrb_wf a \<and> NArray_toList a = xs \<and>
     NArray_length a = int (length xs)"
  using fromList_correct [of xs] by (auto simp: rrb_wf_length elm_simps)

text \<open>
  After a write at an index of the array, a read at that index sees the new element and every
  other read is unchanged.
\<close>

theorem Array_get_set:
  assumes "array_ok a" "0 \<le> i" "i < int (length (NArray_toList a))"
  shows "\<exists>a'. NArray_set i x a = Inr a' \<and> array_ok a' \<and>
    length (NArray_toList a') = length (NArray_toList a) \<and>
    (\<forall>j. Array_get j a' = (if j = i then Inr (Some x) else Array_get j a))"
  using assms by (rule arr.get_after_set)

theorem Array_get_set_witness:
  "\<exists>a'. NArray_set 1 (7::int) (Node 1 [Leaf [1], Leaf [2, 3]] [1, 3]) = Inr a' \<and> array_ok a' \<and>
    length (NArray_toList a') = length (NArray_toList (Node 1 [Leaf [1], Leaf [2, 3::int]] [1, 3])) \<and>
    (\<forall>j. Array_get j a' = (if j = 1 then Inr (Some 7)
                           else Array_get j (Node 1 [Leaf [1], Leaf [2, 3]] [1, 3])))"
  by (rule Array_get_set) (simp_all add: array_ok_def elm_simps)

text \<open>
  Pushing appends: the new index holds the new element and every other read is unchanged, also
  when the push adds a level to the tree.
\<close>

theorem Array_get_push:
  assumes "array_ok a" "array_room a"
  shows "\<exists>a'. NArray_push x a = Inr a' \<and> array_ok a' \<and>
    (\<forall>j. Array_get j a' =
       (if j = int (length (NArray_toList a)) then Inr (Some x) else Array_get j a))"
  using assms by (rule arr.get_after_push)

theorem Array_get_push_witness:
  "\<exists>a'. NArray_push (9::int) (Leaf [5]) = Inr a' \<and> array_ok a' \<and>
    (\<forall>j. Array_get j a' =
       (if j = int (length (NArray_toList (Leaf [5::int]))) then Inr (Some 9) else Array_get j (Leaf [5])))"
  by (rule Array_get_push) (simp_all add: array_ok_def array_room_def)

text \<open>
  The traversals are those of the element list: \<^verbatim>\<open>foldl\<close> and \<^verbatim>\<open>foldr\<close> visit the elements from
  the left and from the right, \<^verbatim>\<open>map\<close> and \<^verbatim>\<open>indexedMap\<close> act elementwise, the latter with the
  index of each element.
\<close>

theorem Array_traversals:
  assumes "rrb_wf a"
  shows "NArray_foldl g b a = fold g (NArray_toList a) b \<and>
    NArray_foldr g b a = foldr g (NArray_toList a) b \<and>
    NArray_toList (NArray_map f a) = map f (NArray_toList a) \<and>
    length (NArray_toList (NArray_indexedMap k a)) = length (NArray_toList a) \<and>
    (\<forall>i < length (NArray_toList a).
       NArray_toList (NArray_indexedMap k a) ! i = k (int i) (NArray_toList a ! i))"
  using indexedMap_elems [OF assms, of k 0]
  by (simp add: elm_simps NArray_map_elems NArray_indexedMap_def imap_nth)

theorem Array_traversals_witness:
  "NArray_foldl (\<lambda>x y. x - y) 0 (Node 1 [Leaf [1::int], Leaf [2, 3]] [1, 3]) =
     fold (\<lambda>x y. x - y) (NArray_toList (Node 1 [Leaf [1::int], Leaf [2, 3]] [1, 3])) 0 \<and>
   NArray_toList (NArray_map Suc (Node 1 [Leaf [1], Leaf [2, 3]] [1, 3])) = [2, 3, 4]"
  using Array_traversals [of "Node 1 [Leaf [1::int], Leaf [2, 3]] [1, 3]" "\<lambda>x y. x - y" 0]
    Array_traversals [of "Node 1 [Leaf [1::nat], Leaf [2, 3]] [1, 3]" _ _ Suc]
  by (simp add: elm_simps)

text \<open>
  \<^verbatim>\<open>initialize\<close> yields the well-formed array of the values of its function, for every height the
  floating-point logarithm may return that is large enough to hold the elements: in particular
  when the logarithm of an exact power of 32 is rounded down.
\<close>

theorem Array_initialize_correct:
  assumes "len \<le> int NArray_M ^ Suc (floorLog len)"
  shows "rrb_wf (NArray_initialize floorLog len f) \<and>
    NArray_toList (NArray_initialize floorLog len f) = map f [0..len - 1]"
  using assms initialize_rec_correct [of 0 len "floorLog len" f]
  by (auto simp: NArray_initialize_def NArray_empty_def elm_simps)

theorem Array_initialize_correct_witness:
  "rrb_wf (NArray_initialize (\<lambda>n. if n < 32 then 0 else 1) 40 (\<lambda>i. i * i)) \<and>
   NArray_toList (NArray_initialize (\<lambda>n. if n < 32 then 0 else 1) 40 (\<lambda>i. i * i)) =
   map (\<lambda>i. i * i) [0..40 - 1]"
  by (rule Array_initialize_correct) simp

lemma fromJSArray_elems:
  assumes "int (length xs) \<le> int NArray_M ^ Suc (floorLog (int (length xs)))"
  shows "NArray_fromJSArray floorLog xs = NArray_initialize floorLog (int (length xs)) (\<lambda>i. xs ! nat i) \<and>
    rrb_wf (NArray_fromJSArray floorLog xs) \<and> NArray_toList (NArray_fromJSArray floorLog xs) = xs"
proof (cases "xs = []")
  case False
  then have eq: "NArray_fromJSArray floorLog xs =
      NArray_initialize floorLog (int (length xs)) (\<lambda>i. xs ! nat i)"
    using fromJSArray_rec_initialize [of 0 "int (length xs)" xs "floorLog (int (length xs))"] assms
    by (simp add: NArray_fromJSArray_def NArray_initialize_def)
  have "map (\<lambda>i. xs ! nat i) [0..int (length xs) - 1] = xs"
    by (rule nth_equalityI) auto
  with False eq assms show ?thesis
    using initialize_rec_correct [of 0 "int (length xs)" "floorLog (int (length xs))" "\<lambda>i. xs ! nat i"]
    by (simp add: NArray_initialize_def elm_simps)
qed (simp add: NArray_fromJSArray_def NArray_initialize_def NArray_empty_def elm_simps)

text \<open>
  A conversion from a JavaScript array (as the JSON decoder makes it) gives the same tree as
  \<^verbatim>\<open>initialize\<close> on the array's elements.
\<close>

theorem Array_fromJSArray_correct:
  assumes "int (length xs) \<le> int NArray_M ^ Suc (floorLog (int (length xs)))"
  shows "NArray_fromJSArray floorLog xs = NArray_initialize floorLog (int (length xs)) (\<lambda>i. xs ! nat i) \<and>
    rrb_wf (NArray_fromJSArray floorLog xs) \<and> NArray_toList (NArray_fromJSArray floorLog xs) = xs"
  using assms by (rule fromJSArray_elems)

theorem Array_fromJSArray_correct_witness:
  "NArray_fromJSArray (\<lambda>_. 1) [True, False] =
     NArray_initialize (\<lambda>_. 1) (int (length [True, False])) (\<lambda>i. [True, False] ! nat i) \<and>
   rrb_wf (NArray_fromJSArray (\<lambda>_. 1) [True, False]) \<and>
   NArray_toList (NArray_fromJSArray (\<lambda>_. 1) [True, False]) = [True, False]"
  by (rule Array_fromJSArray_correct) simp

text \<open>
  A slice inside a well-formed array holds the elements of the slice.
\<close>

theorem Array_slice_contents:
  assumes "array_ok a" "0 \<le> from" "from < to" "to \<le> NArray_length a"
  shows "\<exists>a'. NArray_slice from to a = Inr a' \<and>
    NArray_toList a' = drop (nat from) (take (nat to) (NArray_toList a))"
  using slice_contents [of a "nat to" "nat from"] assms
  by (fastforce simp: array_ok_def rrb_wf_loose rrb_wf_length elm_simps)

theorem Array_slice_contents_witness:
  "\<exists>a'. NArray_slice 1 3 (Node 1 [Leaf [1::int, 2], Leaf [3, 4]] [2, 4]) = Inr a' \<and>
    NArray_toList a' = drop (nat 1) (take (nat 3) (NArray_toList (Node 1 [Leaf [1::int, 2], Leaf [3, 4]] [2, 4])))"
  by (rule Array_slice_contents) (simp_all add: array_ok_def)

text \<open>
  A slice that ends beyond an array of more than one leaf throws a \<^verbatim>\<open>TypeError\<close>, where the slice
  of an array of one leaf is cut at its end.
\<close>

theorem Array_slice_overrun_throws:
  assumes "rrb_wf a" "NArray_height a > 0" "NArray_length a < to"
  shows "NArray_slice from to a = Inl TypeError \<and>
    NArray_slice 0 (int n) (Leaf xs) = Inr (Leaf (take n xs))"
proof
  show "NArray_slice from to a = Inl TypeError"
    using assms rrb_wf_loose [OF assms(1)] rrb_wf_length [OF assms(1)]
    by (cases a) (auto intro: slice_overrun)
qed (auto simp: NArray_slice_def js_slice_prefix)

theorem Array_slice_overrun_throws_witness:
  "NArray_slice 0 9 (Node 1 [Leaf [1::int, 2], Leaf [3, 4]] [2, 4]) = Inl TypeError \<and>
   NArray_slice 0 (int 9) (Leaf [1::int, 2, 3, 4]) = Inr (Leaf (take 9 [1, 2, 3, 4]))"
  by (rule Array_slice_overrun_throws) simp_all

text \<open>
  The slice of a tree of height 2 can put a leaf where a node of height 1 belongs; reading an
  element of that leaf throws, although the index is inside the slice.
\<close>

theorem Array_slice_breaks_get:
  "\<exists>(a :: int rrb) s. array_ok a \<and> NArray_slice 0 3 a = Inr s \<and> NArray_toList s = [1, 2, 3] \<and>
     Array_get 2 s = Inl TypeError"
proof -
  let ?a = "Node 2 [Node 1 [Leaf [1], Leaf [2]] [1, 2], Node 1 [Leaf [3, 4], Leaf [5]] [2, 3]] [2, 5]"
  let ?s = "Node 2 [Node 1 [Leaf [1], Leaf [2]] [1, 2], Leaf [3]] [2, 3 :: int]"
  have "array_ok ?a" by (simp add: array_ok_def)
  moreover have "NArray_slice 0 3 ?a = Inr ?s"
    by (simp add: NArray_slice_def NArray_getSlot_def js_shr_def toInt32_def slot_loop.simps js_nth_def
        slotStart_def js_slice_def js_clip_def)
  moreover have "Array_get 2 ?s = Inl TypeError"
    by (simp add: Array_get_def cmp_def NArray_get_def NArray_unsafeGet_def numeral_2_eq_2 js_shr_def
        toInt32_def slot_loop.simps js_nth_def)
  ultimately show ?thesis by (intro exI [of _ ?a] exI [of _ ?s]) (simp add: elm_simps)
qed

text \<open>
  Appending two one-leaf arrays gives the well-formed array of the concatenation. When the
  elements fit into one leaf, the assignment to \<^verbatim>\<open>c[0].table\<close> reaches the first argument, since
  \<^verbatim>\<open>append_\<close> returned it without copying: afterwards the argument holds the concatenation
  too.
\<close>

theorem Array_append_leaves:
  assumes "xs \<noteq> []" "ys \<noteq> []" "length xs \<le> NArray_M" "length ys \<le> NArray_M"
  shows "\<exists>r a. NArray_append (Leaf xs) (Leaf ys) = Inr (r, a, Leaf ys) \<and> rrb_wf r \<and>
    NArray_toList r = xs @ ys \<and>
    NArray_toList a = (if length xs + length ys \<le> NArray_M then xs @ ys else xs)"
  using assms
  by (auto simp: NArray_append_def append_rec.simps NArray_siblise_def elm_simps)

theorem Array_append_leaves_witness:
  "\<exists>r a. NArray_append (Leaf [1::int]) (Leaf [2]) = Inr (r, a, Leaf [2]) \<and> rrb_wf r \<and>
    NArray_toList r = [1] @ [2] \<and>
    NArray_toList a = (if length [1::int] + length [2::int] \<le> NArray_M then [1] @ [2] else [1])"
  by (rule Array_append_leaves) simp_all

text \<open>
  Appending trees of height 2 exchanges the two middle parts: \<^verbatim>\<open>append_\<close> inserts the second
  result of the recursive call on the left and the first on the right, so the elements of the
  result are out of order.
\<close>

theorem Array_append_reorders:
  "\<exists>(a :: int rrb) b r. array_ok a \<and> array_ok b \<and> NArray_toList a = [1, 2] \<and> NArray_toList b = [3, 4] \<and>
     NArray_append a b = Inr (r, a, b) \<and> NArray_toList r = [1, 3, 2, 4]"
proof -
  let ?n = "\<lambda>(x :: int) (y :: int). Node 2 [Node 1 [Leaf [x]] [1], Node 1 [Leaf [y]] [1]] [1, 2 :: int]"
  have "array_ok (?n 1 2)" "array_ok (?n 3 4)" by (simp_all add: array_ok_def)
  moreover have "case NArray_append (?n 1 2) (?n 3 4) of
      Inr (r, a, b) \<Rightarrow> a = ?n 1 2 \<and> b = ?n 3 4 \<and> elems r = [1, 3, 2, 4] | Inl _ \<Rightarrow> False"
    by code_simp
  ultimately show ?thesis
    by - (rule exI [of _ "?n 1 2"], rule exI [of _ "?n 3 4"], auto simp: elm_simps split: sum.splits)
qed

text \<open>
  Appending a tree with a full root to a one-leaf array throws: \<^verbatim>\<open>append\<close> passes its argument,
  and not the node of height 1 built from it, to \<^verbatim>\<open>calcToRemove\<close>, which reads the tables of
  the children.
\<close>

theorem Array_append_to_leaf_throws:
  assumes "xs \<noteq> []" "length xs \<le> NArray_M" "length blocks = NArray_M"
    "\<forall>ys \<in> set blocks. length ys = NArray_M"
  shows "NArray_append (Leaf xs) (Node 1 (map Leaf blocks) (accLengths 0 (map Leaf blocks))) =
    Inl TypeError"
proof -
  let ?b = "Node 1 (map Leaf blocks) (accLengths 0 (map Leaf blocks))"
  obtain ys rest where bl: "blocks = ys # rest" using assms(3) by (cases blocks) auto
  have "sum_list (map (tableLength \<circ> Leaf) blocks) = sum_list (map (\<lambda>_. NArray_M) blocks)"
    using assms(4) by (intro arg_cong [where f = sum_list]) auto
  then have sum: "subLengths ?b = Inr 1024" using assms(3) by (simp add: sum_list_triv comp_def)
  define n where "n = int (length xs)"
  have "1 \<le> n" "n \<le> 32" using assms(1,2) by (cases xs; simp add: n_def)+
  then have div: "(n + 1024 - 1) div 32 = 32" by linarith
  have "NArray_insertLeft ?b (Leaf ys) = Inr ?b"
    using assms(4) bl by auto
  moreover have "NArray_calcToRemove (Node 1 [Leaf xs] [int (length xs)]) ?b = Inr 0"
    using div assms(3) sum by (simp add: NArray_calcToRemove_def n_def)
  ultimately have "append_rec (Leaf xs) ?b = Inr (False, Node 1 [Leaf xs] [int (length xs)], ?b)"
    using assms(1,3) bl
    by (subst append_rec.simps) (simp add: append_rec.simps [of "Leaf xs" "Leaf ys"]
        append_balance_def NArray_parentise_def)
  moreover have "NArray_calcToRemove (Leaf xs) ?b = Inl TypeError"
    using assms(1) by (simp add: NArray_calcToRemove_def)
  ultimately show ?thesis using assms(1,3) by (simp add: NArray_append_def)
qed

theorem Array_append_to_leaf_throws_witness:
  "NArray_append (Leaf [True])
     (Node 1 (map Leaf (replicate 32 (replicate 32 False)))
        (accLengths 0 (map Leaf (replicate 32 (replicate 32 False))))) = Inl TypeError"
  by (rule Array_append_to_leaf_throws) simp_all

end
