(* ===== verification/Elm_String.thy ===== *)
theory Elm_String
  imports Elm_Array "HOL-Library.Sublist" "HOL-Library.Char_ord"
begin

text \<open>
  Strings (\<^verbatim>\<open>Native/String.js\<close>), which the compiled module \<^verbatim>\<open>String\<close> re-exports. The first group
  of definitions models the JavaScript string methods the file calls; the second the functions
  of the file. White space is the set of code units that \<^verbatim>\<open>trim\<close> and \<^verbatim>\<open>\s\<close> recognise
  below 256. \<^verbatim>\<open>toUpper\<close>, \<^verbatim>\<open>toLower\<close> and \<^verbatim>\<open>toFloat\<close> only forward to the Unicode tables and the
  float parser of the engine and are left out.
\<close>

subsection \<open>JavaScript string methods\<close>

definition js_space :: "char \<Rightarrow> bool" where
  "js_space c \<longleftrightarrow> (of_char c :: nat) \<in> {9, 10, 11, 12, 13, 32, 160}"

definition js_trimLeft :: "string \<Rightarrow> string" where
  "js_trimLeft s = dropWhile js_space s"

definition js_trimRight :: "string \<Rightarrow> string" where
  "js_trimRight s = rev (dropWhile js_space (rev s))"

definition js_trim :: "string \<Rightarrow> string" where
  "js_trim s = js_trimRight (js_trimLeft s)"

text \<open>\<^verbatim>\<open>str.split(sep)\<close>; \<open>cur\<close> is the piece being read, reversed.\<close>

function js_split_loop :: "string \<Rightarrow> string \<Rightarrow> string \<Rightarrow> string list" where
  "js_split_loop sep cur [] = [rev cur]"
| "js_split_loop sep cur (c # cs) =
     (if sep \<noteq> [] \<and> prefix sep (c # cs)
      then rev cur # js_split_loop sep [] (drop (length sep) (c # cs))
      else js_split_loop sep (c # cur) cs)"
  by pat_completeness auto
termination
  by (relation "measure (\<lambda>(sep, cur, s). length s)") auto

definition js_split :: "string \<Rightarrow> string \<Rightarrow> string list" where
  "js_split sep str = (if sep = [] then map (\<lambda>c. [c]) str else js_split_loop sep [] str)"

fun js_join :: "string \<Rightarrow> string list \<Rightarrow> string" where
  "js_join sep [] = []"
| "js_join sep [s] = s"
| "js_join sep (s # t # ts) = s @ sep @ js_join sep (t # ts)"

text \<open>\<^verbatim>\<open>str.split(/\s+/g)\<close> and \<^verbatim>\<open>str.split(/\r\n|\r|\n/g)\<close>\<close>

function js_split_spaces :: "string \<Rightarrow> string \<Rightarrow> string list" where
  "js_split_spaces cur [] = [rev cur]"
| "js_split_spaces cur (c # cs) =
     (if js_space c then rev cur # js_split_spaces [] (dropWhile js_space cs)
      else js_split_spaces (c # cur) cs)"
  by pat_completeness auto
termination
  by (relation "measure (\<lambda>(cur, s). length s)") (auto simp: less_Suc_eq_le length_dropWhile_le)

function js_split_lines :: "string \<Rightarrow> string \<Rightarrow> string list" where
  "js_split_lines cur [] = [rev cur]"
| "js_split_lines cur (c # cs) =
     (if of_char c = (13::nat) then
        rev cur # js_split_lines [] (if cs \<noteq> [] \<and> of_char (hd cs) = (10::nat) then tl cs else cs)
      else if of_char c = (10::nat) then rev cur # js_split_lines [] cs
      else js_split_lines (c # cur) cs)"
  by pat_completeness auto
termination
  by (relation "measure (\<lambda>(cur, s). length s)") (auto simp: less_Suc_eq_le)

text \<open>\<^verbatim>\<open>str.indexOf(sub, pos)\<close> with \<open>rest\<close> the part from \<open>pos\<close>, and \<^verbatim>\<open>str.lastIndexOf(sub)\<close>.\<close>

fun js_index_from :: "string \<Rightarrow> nat \<Rightarrow> string \<Rightarrow> int" where
  "js_index_from sub pos [] = (if sub = [] then int pos else -1)"
| "js_index_from sub pos (c # cs) =
     (if prefix sub (c # cs) then int pos else js_index_from sub (Suc pos) cs)"

definition js_indexOf :: "string \<Rightarrow> string \<Rightarrow> nat \<Rightarrow> int" where
  "js_indexOf sub str pos = js_index_from sub pos (drop pos str)"

fun js_last_from :: "string \<Rightarrow> string \<Rightarrow> nat \<Rightarrow> int" where
  "js_last_from sub str 0 = (if prefix sub str then 0 else -1)"
| "js_last_from sub str (Suc k) =
     (if prefix sub (drop (Suc k) str) then int (Suc k) else js_last_from sub str k)"

definition js_lastIndexOf :: "string \<Rightarrow> string \<Rightarrow> int" where
  "js_lastIndexOf sub str = js_last_from sub str (length str)"

text \<open>
  \<^verbatim>\<open>parseInt(s, 10)\<close> and \<^verbatim>\<open>parseInt(s, 16)\<close> on the strings \<^verbatim>\<open>toInt\<close> passes them; \<open>None\<close> is
  \<^verbatim>\<open>NaN\<close>, the result when there is no digit.
\<close>

definition is_digit :: "char \<Rightarrow> bool" where
  "is_digit c \<longleftrightarrow> CHR ''0'' \<le> c \<and> c \<le> CHR ''9''"

definition is_hex :: "char \<Rightarrow> bool" where
  "is_hex c \<longleftrightarrow> is_digit c \<or> CHR ''A'' \<le> c \<and> c \<le> CHR ''F'' \<or> CHR ''a'' \<le> c \<and> c \<le> CHR ''f''"

definition digit_value :: "char \<Rightarrow> int" where
  "digit_value c =
     (if is_digit c then of_char c - 48
      else if c \<le> CHR ''F'' then of_char c - 55 else of_char c - 87)"

definition digits_value :: "int \<Rightarrow> string \<Rightarrow> int option" where
  "digits_value base ds =
     (if ds = [] then None else Some (foldl (\<lambda>n d. base * n + digit_value d) 0 ds))"

definition parseInt10 :: "string \<Rightarrow> int option" where
  "parseInt10 s =
     (case s of
        [] \<Rightarrow> None
      | c # cs \<Rightarrow>
          if c = CHR ''-'' then map_option uminus (digits_value 10 (takeWhile is_digit cs))
          else if c = CHR ''+'' then digits_value 10 (takeWhile is_digit cs)
          else digits_value 10 (takeWhile is_digit s))"

definition parseInt16 :: "string \<Rightarrow> int option" where
  "parseInt16 s = digits_value 16 (takeWhile is_hex (drop 2 s))"

subsection \<open>The functions of the file\<close>

definition NString_isEmpty :: "string \<Rightarrow> bool" where
  "NString_isEmpty str = (length str = 0)"

definition NString_cons :: "char \<Rightarrow> string \<Rightarrow> string" where
  "NString_cons chr str = [chr] @ str"

definition NString_uncons :: "string \<Rightarrow> (char \<times> string) option" where
  "NString_uncons str =
     (case js_nth str 0 of
        Some c \<Rightarrow> Some (c, js_slice 1 (int (length str)) str)
      | None \<Rightarrow> None)"

definition NString_append :: "string \<Rightarrow> string \<Rightarrow> string" where
  "NString_append a b = a @ b"

definition NString_concat :: "string list \<Rightarrow> string" where
  "NString_concat strs = js_join [] (toArray strs)"

definition NString_length :: "string \<Rightarrow> int" where
  "NString_length str = int (length str)"

definition NString_map :: "(char \<Rightarrow> char) \<Rightarrow> string \<Rightarrow> string" where
  "NString_map f str = js_join [] (map (\<lambda>c. [f (hd c)]) (js_split [] str))"

definition NString_filter :: "(char \<Rightarrow> bool) \<Rightarrow> string \<Rightarrow> string" where
  "NString_filter pred str = js_join [] (filter (pred \<circ> hd) (js_split [] str))"

definition NString_reverse :: "string \<Rightarrow> string" where
  "NString_reverse str = js_join [] (rev (js_split [] str))"

definition NString_foldl :: "(char \<Rightarrow> 'b \<Rightarrow> 'b) \<Rightarrow> 'b \<Rightarrow> string \<Rightarrow> 'b" where
  "NString_foldl f b str = fold f str b"

definition NString_foldr :: "(char \<Rightarrow> 'b \<Rightarrow> 'b) \<Rightarrow> 'b \<Rightarrow> string \<Rightarrow> 'b" where
  "NString_foldr f b str = foldr f str b"

definition NString_split :: "string \<Rightarrow> string \<Rightarrow> string list" where
  "NString_split sep str = fromArray (js_split sep str)"

definition NString_join :: "string \<Rightarrow> string list \<Rightarrow> string" where
  "NString_join sep strs = js_join sep (toArray strs)"

lemma toInt32_le: "0 \<le> n \<Longrightarrow> toInt32 n \<le> n"
  using zmod_le_nonneg_dividend [of n "2 ^ 32"] by (auto simp: toInt32_def Let_def)

lemma js_shr_1_less: "0 < n \<Longrightarrow> js_shr n 1 < n"
  using toInt32_le [of n] zdiv_mono1 [of "toInt32 n" n 2] by (simp add: js_shr_def)

function repeat_loop :: "string \<Rightarrow> int \<Rightarrow> string \<Rightarrow> string" where
  "repeat_loop result n str =
     (if n > 0
      then repeat_loop (if toInt32 n mod 2 = 1 then result @ str else result) (js_shr n 1) (str @ str)
      else result)"
  by pat_completeness auto
termination
  by (relation "measure (\<lambda>(r, n, s). nat n)") (auto dest: js_shr_1_less)

declare repeat_loop.simps [simp del]

definition NString_repeat :: "int \<Rightarrow> string \<Rightarrow> string" where
  "NString_repeat n str = repeat_loop [] n str"

definition NString_slice :: "int \<Rightarrow> int \<Rightarrow> string \<Rightarrow> string" where
  "NString_slice start end str = js_slice start end str"

definition NString_left :: "int \<Rightarrow> string \<Rightarrow> string" where
  "NString_left n str = (if n < 1 then [] else js_slice 0 n str)"

definition NString_right :: "int \<Rightarrow> string \<Rightarrow> string" where
  "NString_right n str = (if n < 1 then [] else js_slice (- n) (int (length str)) str)"

definition NString_dropLeft :: "int \<Rightarrow> string \<Rightarrow> string" where
  "NString_dropLeft n str = (if n < 1 then str else js_slice n (int (length str)) str)"

definition NString_dropRight :: "int \<Rightarrow> string \<Rightarrow> string" where
  "NString_dropRight n str = (if n < 1 then str else js_slice 0 (- n) str)"

text \<open>\<open>half\<close> is the rational \<open>d / 2\<close>: rounded up for the left side, truncated by \<^verbatim>\<open>| 0\<close> for the right.\<close>

definition NString_pad :: "int \<Rightarrow> char \<Rightarrow> string \<Rightarrow> string" where
  "NString_pad n chr str =
     (let d = n - int (length str) in
      NString_repeat ((d + 1) div 2) [chr] @ str @ NString_repeat (toInt32 (d sdiv 2)) [chr])"

definition NString_padRight :: "int \<Rightarrow> char \<Rightarrow> string \<Rightarrow> string" where
  "NString_padRight n chr str = str @ NString_repeat (n - int (length str)) [chr]"

definition NString_padLeft :: "int \<Rightarrow> char \<Rightarrow> string \<Rightarrow> string" where
  "NString_padLeft n chr str = NString_repeat (n - int (length str)) [chr] @ str"

definition NString_trim :: "string \<Rightarrow> string" where
  "NString_trim str = js_trim str"

definition NString_trimLeft :: "string \<Rightarrow> string" where
  "NString_trimLeft str = js_trimLeft str"

definition NString_trimRight :: "string \<Rightarrow> string" where
  "NString_trimRight str = js_trimRight str"

definition NString_words :: "string \<Rightarrow> string list" where
  "NString_words str = fromArray (js_split_spaces [] (js_trim str))"

definition NString_lines :: "string \<Rightarrow> string list" where
  "NString_lines str = fromArray (js_split_lines [] str)"

definition NString_any :: "(char \<Rightarrow> bool) \<Rightarrow> string \<Rightarrow> bool" where
  "NString_any pred str = list_ex pred (rev str)"

definition NString_all :: "(char \<Rightarrow> bool) \<Rightarrow> string \<Rightarrow> bool" where
  "NString_all pred str = list_all pred (rev str)"

definition NString_contains :: "string \<Rightarrow> string \<Rightarrow> bool" where
  "NString_contains sub str = (js_indexOf sub str 0 > -1)"

definition NString_startsWith :: "string \<Rightarrow> string \<Rightarrow> bool" where
  "NString_startsWith sub str = (js_indexOf sub str 0 = 0)"

definition NString_endsWith :: "string \<Rightarrow> string \<Rightarrow> bool" where
  "NString_endsWith sub str =
     (length str \<ge> length sub \<and>
      js_lastIndexOf sub str = int (length str) - int (length sub))"

lemma js_index_from_ge: "js_index_from sub pos rest = -1 \<or> int pos \<le> js_index_from sub pos rest"
  by (induction sub pos rest rule: js_index_from.induct) auto

lemma js_index_from_bound:
  "js_index_from sub pos rest = -1 \<or>
   js_index_from sub pos rest + int (length sub) \<le> int (pos + length rest)"
  by (induction sub pos rest rule: js_index_from.induct) (auto dest: prefix_length_le)

function indexes_loop :: "string \<Rightarrow> string \<Rightarrow> nat \<Rightarrow> int list" where
  "indexes_loop sub str i =
     (if sub = [] \<or> length str < i then []
      else
        let j = js_indexOf sub str i in
        if j > -1 then j # indexes_loop sub str (nat j + length sub) else [])"
  by pat_completeness auto
termination
proof (relation "measure (\<lambda>(sub, str, i). Suc (length str) - i)", goal_cases)
  case (2 sub str i j)
  then show ?case
    using js_index_from_ge [of sub i "drop i str"] js_index_from_bound [of sub i "drop i str"]
    by (cases sub) (auto simp: js_indexOf_def)
qed simp

declare indexes_loop.simps [simp del]

definition NString_indexes :: "string \<Rightarrow> string \<Rightarrow> int list" where
  "NString_indexes sub str =
     (if length sub < 1 then [] else fromArray (indexes_loop sub str 0))"

definition intErr :: "string \<Rightarrow> (string, 'a) elm_result" where
  "intErr s = Err (''could not convert string '' @ [CHR 0x27] @ s @ [CHR 0x27] @ '' to an Int'')"

definition NString_toInt :: "string \<Rightarrow> (string, int option) elm_result" where
  "NString_toInt s =
     (case s of
        [] \<Rightarrow> intErr s
      | c # cs \<Rightarrow>
          if c = CHR ''0'' \<and> js_nth s 1 = Some (CHR ''x'') then
            if list_all is_hex (drop 2 s) then Ok (parseInt16 s) else intErr s
          else if c > CHR ''9'' \<or> c < CHR ''0'' \<and> c \<noteq> CHR ''-'' \<and> c \<noteq> CHR ''+'' then intErr s
          else if list_all is_digit cs then Ok (parseInt10 s) else intErr s)"

definition NString_toList :: "string \<Rightarrow> char list" where
  "NString_toList str = fromArray (map hd (js_split [] str))"

definition NString_fromList :: "char list \<Rightarrow> string" where
  "NString_fromList chars = js_join [] (map (\<lambda>c. [c]) (toArray chars))"

subsection \<open>Properties\<close>

lemma js_split_ne [simp]: "js_split_loop sep cur s \<noteq> []"
  by (induction sep cur s rule: js_split_loop.induct) auto

lemma js_join_Cons: "ss \<noteq> [] \<Longrightarrow> js_join sep (s # ss) = s @ sep @ js_join sep ss"
  by (cases ss) auto

lemma js_join_split_loop: "js_join sep (js_split_loop sep cur s) = rev cur @ s"
proof (induction sep cur s rule: js_split_loop.induct)
  case (2 sep cur c cs)
  then show ?case by (auto simp: js_join_Cons prefix_def)
qed simp

lemma js_join_Nil [simp]: "js_join [] ss = concat ss"
  by (induction "[] :: string" ss rule: js_join.induct) auto

lemma concat_singletons [simp]: "concat (map (\<lambda>c. [c]) s) = s"
  by (induction s) auto

lemma js_join_split [simp]: "js_join sep (js_split sep s) = s"
  by (auto simp: js_split_def js_join_split_loop)

lemma NString_split_eq [elm_simps]: "NString_split sep s = js_split sep s"
  by (simp add: NString_split_def elm_simps)

lemma NString_join_eq [elm_simps]: "NString_join sep ss = js_join sep ss"
  by (simp add: NString_join_def elm_simps)

text \<open>Splitting at a single character cuts exactly at its occurrences.\<close>

lemma js_split_loop_piece:
  "c \<notin> set s \<Longrightarrow> js_split_loop [c] cur (s @ c # t) = (rev cur @ s) # js_split_loop [c] [] t"
  "c \<notin> set s \<Longrightarrow> js_split_loop [c] cur s = [rev cur @ s]"
  by (induction s arbitrary: cur) auto

lemma js_split_join_char:
  assumes "ss \<noteq> []" "\<forall>s \<in> set ss. c \<notin> set s"
  shows "js_split [c] (js_join [c] ss) = ss"
  using assms
proof (induction "[c]" ss rule: js_join.induct)
  case (3 s t ts)
  then show ?case by (simp add: js_split_def js_split_loop_piece)
qed (auto simp: js_split_def js_split_loop_piece)

lemma NString_repeat_loop:
  "0 \<le> n \<Longrightarrow> n < 2 ^ 31 \<Longrightarrow> repeat_loop r n s = r @ concat (replicate (nat n) s)"
proof (induction r n s rule: repeat_loop.induct)
  case (1 r n s)
  show ?case
  proof (cases "n = 0")
    case False
    then have n: "0 < n" "n < 2 ^ 31" using "1.prems" by simp_all
    have id: "toInt32 n = n" using n by (intro toInt32_id) auto
    have shr: "js_shr n 1 = n div 2" by (simp add: js_shr_def id)
    have two: "concat (replicate k (s @ s)) = concat (replicate (2 * k) s)" for k
      by (induction k) auto
    have nat_n: "nat n = (if n mod 2 = 1 then Suc (2 * nat (n div 2)) else 2 * nat (n div 2))"
    proof -
      define q where "q = n div 2"
      have "n = 2 * q + n mod 2" "0 \<le> q" "n mod 2 = 0 \<or> n mod 2 = 1" using n(1) by (auto simp: q_def)
      then show ?thesis unfolding q_def [symmetric] by auto
    qed
    have comm: "concat (replicate k s) @ s = s @ concat (replicate k s)" for k
      by (induction k) auto
    show ?thesis
      using "1.IH" [OF n(1)] n id shr
      by (subst repeat_loop.simps) (auto simp: two nat_n)
  qed (simp add: repeat_loop.simps)
qed

lemma NString_repeat_eq: "n < 2 ^ 31 \<Longrightarrow> NString_repeat n s = concat (replicate (nat n) s)"
  using NString_repeat_loop [of n "[]" s] repeat_loop.simps [of "[]" n s]
  by (cases "n < 0") (auto simp: NString_repeat_def)

lemma js_index_from_0: "js_index_from sub pos rest = int pos \<longleftrightarrow> prefix sub rest"
proof (cases rest)
  case (Cons c cs)
  then show ?thesis using js_index_from_ge [of sub "Suc pos" cs] by auto
qed auto

lemma js_index_from_sublist: "js_index_from sub pos rest > -1 \<longleftrightarrow> sublist sub rest"
  by (induction sub pos rest rule: js_index_from.induct) (auto simp: sublist_Cons_right)

lemma js_last_from_le: "js_last_from sub str k \<le> int k"
  by (induction k) auto

lemma prefix_drop_suffix:
  "length sub \<le> length str \<Longrightarrow> prefix sub (drop (length str - length sub) str) \<longleftrightarrow> suffix sub str"
  by (auto simp: suffix_def prefix_def) (metis append_Nil2 append_take_drop_id append_eq_append_conv
    diff_diff_cancel length_append length_drop add_diff_cancel_left' list.size(3) length_0_conv)

lemma js_last_from_suffix:
  assumes "length sub \<le> length str" "length str - length sub \<le> k" "k \<le> length str"
  shows "js_last_from sub str k = int (length str) - int (length sub) \<longleftrightarrow> suffix sub str"
  using assms
proof (induction k)
  case 0
  then show ?case using prefix_drop_suffix [OF assms(1)] by (auto simp: of_nat_diff [symmetric])
next
  case (Suc k)
  show ?case
  proof (cases "Suc k = length str - length sub")
    case True
    then have "int (length str) - int (length sub) = int (Suc k)" using assms(1) by simp
    moreover have "prefix sub (drop (Suc k) str) \<longleftrightarrow> suffix sub str"
      unfolding True by (rule prefix_drop_suffix [OF assms(1)])
    ultimately show ?thesis using js_last_from_le [of sub str k] by simp
  next
    case False
    moreover have "prefix sub (drop (Suc k) str) \<Longrightarrow> length sub \<le> length str - Suc k"
      by (drule prefix_length_le) simp
    ultimately show ?thesis using Suc by auto
  qed
qed

text \<open>Numbers as \<^verbatim>\<open>toString\<close> prints them are read back by \<^verbatim>\<open>toInt\<close>.\<close>

lemma digit_char_code: "d < 10 \<Longrightarrow> (of_char (digit_char d) :: nat) = 48 + d"
  by (simp add: digit_char_def)

lemma digit_char_props [simp]:
  assumes "d < 10"
  shows "is_digit (digit_char d)" "digit_value (digit_char d) = int d"
    "digit_char d \<noteq> CHR ''-''" "digit_char d \<noteq> CHR ''+''"
proof -
  have "of_char (digit_char d) = int (48 + d)"
    using digit_char_code [OF assms] by (metis of_char_def of_nat_of_char)
  then show dig: "is_digit (digit_char d)" and "digit_value (digit_char d) = int d"
    using assms digit_char_code [OF assms] by (auto simp: is_digit_def digit_value_def less_eq_char_def)
  show "digit_char d \<noteq> CHR ''-''" "digit_char d \<noteq> CHR ''+''"
    using digit_char_code [OF assms] by auto
qed

lemma show_nat_digits: "list_all is_digit (show_nat n)" "show_nat n \<noteq> []"
  by (induction n rule: show_nat.induct; subst show_nat.simps; simp)+

lemma show_nat_value:
  "foldl (\<lambda>n d. 10 * n + digit_value d) 0 (show_nat n) = int n"
proof (induction n rule: show_nat.induct)
  case (1 n)
  show ?case
  proof (cases "n < 10")
    case False
    then show ?thesis using 1 by (subst show_nat.simps) (simp add: zdiv_int zmod_int)
  qed (simp add: show_nat.simps)
qed

lemma takeWhile_digits: "list_all is_digit s \<Longrightarrow> takeWhile is_digit s = s"
  by (simp add: list_all_iff takeWhile_eq_all_conv)

lemma show_nat_not_hex: "js_nth (show_nat n) 1 \<noteq> Some (CHR ''x'')"
proof
  assume "js_nth (show_nat n) 1 = Some (CHR ''x'')"
  then have "CHR ''x'' \<in> set (show_nat n)" by (rule js_nth_in_set)
  then show False using show_nat_digits(1) [of n] by (auto simp: list_all_iff is_digit_def less_eq_char_def)
qed

lemma toInt_show_nat: "NString_toInt (show_nat n) = Ok (Some (int n))"
proof -
  obtain c cs where s: "show_nat n = c # cs" using show_nat_digits(2) [of n] by (cases "show_nat n") auto
  have d: "list_all is_digit (c # cs)" using show_nat_digits(1) [of n] s by simp
  have c: "\<not> CHR ''9'' < c" "\<not> c < CHR ''0''" "c \<noteq> CHR ''-''" "c \<noteq> CHR ''+''"
    using d by (auto simp: is_digit_def less_eq_char_def less_char_def)
  have "parseInt10 (c # cs) = Some (int n)"
    using d c show_nat_value [of n] by (simp add: parseInt10_def digits_value_def takeWhile_digits s)
  then show ?thesis
    using d c show_nat_not_hex [of n] by (simp add: NString_toInt_def s)
qed

lemma toInt_show_neg: "NString_toInt (CHR ''-'' # show_nat n) = Ok (Some (- int n))"
proof -
  have "digits_value 10 (takeWhile is_digit (show_nat n)) = Some (int n)"
    using show_nat_digits [of n] show_nat_value [of n] by (simp add: digits_value_def takeWhile_digits)
  then show ?thesis
    using show_nat_digits(1) [of n] by (simp add: NString_toInt_def parseInt10_def less_char_def)
qed

text \<open>
  Joining what a split cut apart gives the string back, for every separator, the empty one
  included.
\<close>

theorem String_join_split: "NString_join sep (NString_split sep str) = str"
  by (simp add: elm_simps)

text \<open>
  Splitting a joined list gives the list back when the separator is one character that does
  not occur in the pieces.
\<close>

theorem String_split_join:
  assumes "strs \<noteq> []" "\<forall>s \<in> set strs. c \<notin> set s"
  shows "NString_split [c] (NString_join [c] strs) = strs"
  using js_split_join_char [OF assms] by (simp add: elm_simps)

theorem String_split_join_witness:
  "NString_split '','' (NString_join '','' [''ab'', [], ''c'']) = [''ab'', [], ''c'']"
  by (rule String_split_join) simp_all

text \<open>
  The doubling loop of \<^verbatim>\<open>repeat\<close> computes the \<open>n\<close>-fold repetition, also for negative counts,
  as long as the count fits 32 bits.
\<close>

theorem String_repeat_correct:
  assumes "n < 2 ^ 31"
  shows "NString_repeat n str = concat (replicate (nat n) str)"
  using assms by (rule NString_repeat_eq)

theorem String_repeat_correct_witness: "NString_repeat 3 ''ab'' = concat (replicate (nat 3) ''ab'')"
  by (rule String_repeat_correct) simp

text \<open>
  The tests by index computation are the mathematical notions: \<^verbatim>\<open>startsWith\<close> is the prefix
  relation, \<^verbatim>\<open>contains\<close> the sublist relation and \<^verbatim>\<open>endsWith\<close> the suffix relation.
\<close>

theorem String_search_correct:
  "NString_startsWith sub str = prefix sub str \<and> NString_contains sub str = sublist sub str \<and>
   NString_endsWith sub str = suffix sub str"
  using js_index_from_0 [of sub 0 str] js_index_from_sublist [of sub 0 str]
    js_last_from_suffix [of sub str "length str"] suffix_length_le [of sub str]
  by (auto simp: NString_startsWith_def NString_contains_def NString_endsWith_def js_indexOf_def
      js_lastIndexOf_def)

text \<open>
  \<^verbatim>\<open>toInt\<close> reads back every integer in the decimal notation \<^verbatim>\<open>toString\<close> prints, within the
  range where numbers are exact.
\<close>

theorem String_toInt_show:
  assumes "\<bar>i\<bar> < 2 ^ 53"
  shows "NString_toInt (show_int i) = Ok (Some i)"
  using toInt_show_nat [of "nat i"] toInt_show_neg [of "nat (- i)"] by (simp add: show_int_def)

theorem String_toInt_show_witness: "NString_toInt (show_int (- 42)) = Ok (Some (- 42))"
  by (rule String_toInt_show) simp

text \<open>
  A sign without digits and a bare hexadecimal prefix pass the checks of \<^verbatim>\<open>toInt\<close>, which then
  answers \<^verbatim>\<open>Ok NaN\<close>.
\<close>

theorem String_toInt_NaN:
  "NString_toInt ''-'' = Ok None \<and> NString_toInt ''+'' = Ok None \<and> NString_toInt ''0x'' = Ok None"
  by (simp add: NString_toInt_def parseInt10_def parseInt16_def digits_value_def js_nth_def less_char_def)

end
