(* ===== verification/Elm_Bitwise.thy ===== *)
theory Elm_Bitwise
  imports Elm_Array "HOL-Library.Word"
begin

text \<open>
  Bitwise operations (\<^verbatim>\<open>Native/Bitwise.js\<close>). Every operator of JavaScript first takes its
  operands to 32 bits and reads the result as a signed number (\<^verbatim>\<open>>>>\<close>: as an unsigned one); a
  shift uses the offset modulo 32. Operands are numbers holding integers.
\<close>

unbundle bit_operations_syntax

definition int32 :: "int \<Rightarrow> 32 word" where
  "int32 a = word_of_int a"

definition Bitwise_and :: "int \<Rightarrow> int \<Rightarrow> int" where
  "Bitwise_and a b = sint (int32 a AND int32 b)"

definition Bitwise_or :: "int \<Rightarrow> int \<Rightarrow> int" where
  "Bitwise_or a b = sint (int32 a OR int32 b)"

definition Bitwise_xor :: "int \<Rightarrow> int \<Rightarrow> int" where
  "Bitwise_xor a b = sint (int32 a XOR int32 b)"

definition Bitwise_complement :: "int \<Rightarrow> int" where
  "Bitwise_complement a = sint (NOT (int32 a))"

definition shift_count :: "int \<Rightarrow> nat" where
  "shift_count offset = unat (int32 offset AND 31)"

definition shiftLeftBy :: "int \<Rightarrow> int \<Rightarrow> int" where
  "shiftLeftBy offset a = sint (push_bit (shift_count offset) (int32 a))"

definition shiftRightBy :: "int \<Rightarrow> int \<Rightarrow> int" where
  "shiftRightBy offset a = sint (signed_drop_bit (shift_count offset) (int32 a))"

definition shiftRightZfBy :: "int \<Rightarrow> int \<Rightarrow> int" where
  "shiftRightZfBy offset a = uint (drop_bit (shift_count offset) (int32 a))"

subsection \<open>Arithmetic meaning\<close>

lemma sint_int32: "sint (int32 a) = toInt32 a"
proof -
  have "sint (int32 a) = (a + 2 ^ 31) mod 2 ^ 32 - 2 ^ 31"
    by (simp add: int32_def signed_of_int signed_take_bit_eq_take_bit_shift take_bit_eq_mod)
  also have "(a + 2 ^ 31) mod 2 ^ 32 = (a mod 2 ^ 32 + 2 ^ 31) mod 2 ^ 32"
    by (simp add: mod_add_left_eq)
  also have "\<dots> - 2 ^ 31 = toInt32 a"
  proof (cases "a mod 2 ^ 32 < 2 ^ 31")
    case True
    then show ?thesis
      by (simp add: toInt32_def)
  next
    case False
    have "a mod 2 ^ 32 < 2 ^ 32"
      by simp
    with False have "(a mod 2 ^ 32 + 2 ^ 31) mod 2 ^ 32 = a mod 2 ^ 32 + 2 ^ 31 - 2 ^ 32"
      by (subst minus_mod_self2 [symmetric], intro mod_pos_pos_trivial) auto
    with False show ?thesis
      by (simp add: toInt32_def)
  qed
  finally show ?thesis .
qed

lemma toInt32_bounds: "- (2 ^ 31) \<le> toInt32 a" "toInt32 a < 2 ^ 31"
proof -
  have "0 \<le> a mod 4294967296" "a mod 4294967296 < 4294967296"
    by simp_all
  then show "- (2 ^ 31) \<le> toInt32 a" "toInt32 a < 2 ^ 31"
    unfolding toInt32_def Let_def by (simp_all split: if_split) linarith+
qed

lemma uint_int32: "uint (int32 a) = a mod 2 ^ 32"
  by (simp add: int32_def unsigned_of_int take_bit_eq_mod)

lemma shift_count_eq: "shift_count offset = nat (offset mod 32)"
proof -
  have "(31 :: 32 word) = mask 5"
    by (simp add: mask_eq_exp_minus_1)
  then have "uint (int32 offset AND 31) = offset mod 32"
    by (simp only: take_bit_eq_mask [symmetric] unsigned_take_bit_eq uint_int32)
      (simp add: take_bit_eq_mod mod_mod_cancel)
  then show ?thesis
    by (simp add: shift_count_def flip: nat_uint_eq)
qed

lemma Bitwise_and_mask:
  assumes "k < 32"
  shows "Bitwise_and a (2 ^ k - 1) = a mod 2 ^ k"
proof -
  have "int32 a AND int32 (2 ^ k - 1) = take_bit k (int32 a)"
    by (simp add: int32_def take_bit_eq_mask mask_eq_exp_minus_1)
  also have "\<dots> = int32 (take_bit k a)"
    by (rule bit_word_eqI) (auto simp: int32_def bit_simps)
  finally have "Bitwise_and a (2 ^ k - 1) = toInt32 (a mod 2 ^ k)"
    by (simp add: Bitwise_and_def sint_int32 take_bit_eq_mod)
  also have "\<dots> = a mod 2 ^ k"
  proof -
    have "(2::int) ^ k \<le> 2 ^ 31"
      using assms by (intro power_increasing) auto
    then have "a mod 2 ^ k < 2 ^ 31"
      by (rule order_less_le_trans [rotated]) simp
    then show ?thesis
      by (simp add: toInt32_def)
  qed
  finally show ?thesis .
qed

lemma Bitwise_meaning:
  "Bitwise_complement a = - toInt32 a - 1"
  "shiftLeftBy offset a = toInt32 (a * 2 ^ nat (offset mod 32))"
  "shiftRightBy offset a = toInt32 a div 2 ^ nat (offset mod 32)"
  "shiftRightZfBy offset a = (a mod 2 ^ 32) div 2 ^ nat (offset mod 32)"
proof -
  show "Bitwise_complement a = - toInt32 a - 1"
    using toInt32_bounds [of a]
    by (simp add: Bitwise_complement_def signed_not_eq sint_int32 not_int_def signed_take_bit_int_eq_self)
  have "push_bit n (int32 a) = int32 (a * 2 ^ n)" for n
    by (simp add: int32_def push_bit_eq_mult)
  then show "shiftLeftBy offset a = toInt32 (a * 2 ^ nat (offset mod 32))"
    by (simp add: shiftLeftBy_def shift_count_eq sint_int32)
  show "shiftRightBy offset a = toInt32 a div 2 ^ nat (offset mod 32)"
    by (simp add: shiftRightBy_def shift_count_eq sint_signed_drop_bit_eq sint_int32 drop_bit_eq_div)
  show "shiftRightZfBy offset a = (a mod 2 ^ 32) div 2 ^ nat (offset mod 32)"
    by (simp only: shiftRightZfBy_def shift_count_eq unsigned_drop_bit_eq uint_int32)
      (simp add: drop_bit_eq_div take_bit_eq_mod)
qed


text \<open>
  The operators on numbers: complement, and the shifts with the offset taken modulo 32 as
  division or multiplication that wraps to 32 bits.
\<close>

theorem Bitwise_arithmetic:
  "Bitwise_complement a = - toInt32 a - 1 \<and>
   shiftLeftBy offset a = toInt32 (a * 2 ^ nat (offset mod 32)) \<and>
   shiftRightBy offset a = toInt32 a div 2 ^ nat (offset mod 32) \<and>
   shiftRightZfBy offset a = (a mod 2 ^ 32) div 2 ^ nat (offset mod 32)"
  by (simp only: Bitwise_meaning simp_thms)

end
