(* ===== verification/Elm_Regex.thy ===== *)
theory Elm_Regex
  imports Elm_String
begin

text \<open>
  Regular expressions (\<^verbatim>\<open>Native/Regex.js\<close>). The first part models the \<^verbatim>\<open>RegExp\<close> objects of
  JavaScript as far as the patterns of the program need them: the pattern grammar (literals,
  identity escapes, \<^verbatim>\<open>\s \S \w \W \d \D \n \r \t \f \v\<close>, \<^verbatim>\<open>.\<close>, character classes, capturing
  groups, alternatives, \<^verbatim>\<open>^\<close>, \<^verbatim>\<open>$\<close> and the quantifiers with their lazy variants), the
  backtracking matcher, and an object with its mutable \<^verbatim>\<open>lastIndex\<close>. A pattern that the
  constructor refuses gives \<open>Inl rx_syntax\<close>; a pattern with a construct outside this list
  (look-ahead, back references, \<^verbatim>\<open>\b\<close>, numeric escapes) gives \<open>Inl Undefined\<close>, for which the
  model says nothing. The second part models the functions of the file.
\<close>

subsection \<open>Patterns\<close>

datatype rx_item =
    RRange char char
  | RSpace bool
  | RWord bool
  | RDigit bool

text \<open>
  \<open>RSet neg items\<close> is one character in (or, for \<open>neg\<close>, outside) the items; \<open>RRep r mn mx greedy\<close>
  repeats \<open>r\<close> from \<open>mn\<close> to \<open>mx\<close> times.
\<close>

datatype rx =
    REmpty
  | RSet bool "rx_item list"
  | RBol
  | REol
  | RSeq rx rx
  | RAlt rx rx
  | RGroup nat rx
  | RRep rx nat "nat option" bool

definition rx_syntax :: js_error where
  "rx_syntax = JsError ''SyntaxError''"

abbreviation rx_char :: "char \<Rightarrow> rx" where
  "rx_char c \<equiv> RSet False [RRange c c]"

definition rx_dot :: rx where
  "rx_dot = RSet True [RRange (CHR 0x0A) (CHR 0x0A), RRange (CHR 0x0D) (CHR 0x0D)]"

definition is_word :: "char \<Rightarrow> bool" where
  "is_word c \<longleftrightarrow>
     c = CHR ''_'' \<or> is_digit c \<or>
     (\<exists>(lo, hi) \<in> set [(CHR ''A'', CHR ''Z''), (CHR ''a'', CHR ''z'')]. lo \<le> c \<and> c \<le> hi)"

text \<open>The character after a backslash; \<open>None\<close> for an escape the model does not cover.\<close>

definition rx_escape :: "char \<Rightarrow> rx_item option" where
  "rx_escape c =
     (if c = CHR ''s'' then Some (RSpace True)
      else if c = CHR ''S'' then Some (RSpace False)
      else if c = CHR ''w'' then Some (RWord True)
      else if c = CHR ''W'' then Some (RWord False)
      else if c = CHR ''d'' then Some (RDigit True)
      else if c = CHR ''D'' then Some (RDigit False)
      else if c = CHR ''n'' then Some (RRange (CHR 0x0A) (CHR 0x0A))
      else if c = CHR ''r'' then Some (RRange (CHR 0x0D) (CHR 0x0D))
      else if c = CHR ''t'' then Some (RRange (CHR 0x09) (CHR 0x09))
      else if c = CHR ''v'' then Some (RRange (CHR 0x0B) (CHR 0x0B))
      else if c = CHR ''f'' then Some (RRange (CHR 0x0C) (CHR 0x0C))
      else if is_word c \<and> c \<noteq> CHR ''_'' then None
      else Some (RRange c c))"

text \<open>One member of a character class, and the rest of the pattern.\<close>

fun class_atom :: "string \<Rightarrow> (rx_item \<times> string) result" where
  "class_atom [] = Inl rx_syntax"
| "class_atom (c # cs) =
     (if c = CHR 0x5C then
        case cs of
          [] \<Rightarrow> Inl rx_syntax
        | d # ds \<Rightarrow>
            (case rx_escape d of None \<Rightarrow> Inl Undefined | Some a \<Rightarrow> Inr (a, ds))
      else Inr (RRange c c, cs))"

lemma class_atom_shorter: "class_atom s = Inr (a, t) \<Longrightarrow> length t < length s"
  by (cases s) (auto split: if_splits list.splits option.splits)

text \<open>
  A range between two single characters; a range whose bounds are classes such as \<^verbatim>\<open>\s\<close> stands
  for its bounds and the hyphen.
\<close>

definition class_range :: "rx_item \<Rightarrow> rx_item \<Rightarrow> rx_item list result" where
  "class_range a b =
     (case (a, b) of
        (RRange x _, RRange y _) \<Rightarrow> if x \<le> y then Inr [RRange x y] else Inl rx_syntax
      | _ \<Rightarrow> Inr [a, b, RRange (CHR ''-'') (CHR ''-'')])"

function class_items :: "string \<Rightarrow> (rx_item list \<times> string) result" where
  "class_items s =
     (if s \<noteq> [] \<and> hd s = CHR 0x5D then Inr ([], tl s)
      else
        bindE (class_atom s) (\<lambda>(a, t).
          if 2 \<le> length t \<and> hd t = CHR ''-'' \<and> t ! 1 \<noteq> CHR 0x5D then
            bindE (class_atom (tl t)) (\<lambda>(b, u).
            bindE (class_range a b) (\<lambda>items.
            bindE (class_items u) (\<lambda>(more, v). Inr (items @ more, v))))
          else bindE (class_items t) (\<lambda>(more, v). Inr (a # more, v))))"
  by pat_completeness auto
termination
proof (relation "measure length", goal_cases)
  case (2 s p a t q b u items)
  then have "length u < length (tl t)" "length t < length s"
    by (auto dest: class_atom_shorter)
  then show ?case
    by simp
qed (auto dest: class_atom_shorter)

declare class_items.simps [simp del]

text \<open>A character class after its opening bracket.\<close>

definition rx_class :: "string \<Rightarrow> (rx \<times> string) result" where
  "rx_class s =
     (if s \<noteq> [] \<and> hd s = CHR ''^'' then bindE (class_items (tl s)) (\<lambda>(is, t). Inr (RSet True is, t))
      else bindE (class_items s) (\<lambda>(is, t). Inr (RSet False is, t)))"

text \<open>
  The bounds of a quantifier after its opening brace; when they are not well formed the brace
  is an ordinary character.
\<close>

definition digits_nat :: "string \<Rightarrow> nat" where
  "digits_nat s = foldl (\<lambda>n c. 10 * n + nat (digit_value c)) 0 s"

definition rx_braces :: "string \<Rightarrow> (nat \<times> nat option \<times> string) option" where
  "rx_braces s =
     (let ds = takeWhile is_digit s; t = dropWhile is_digit s in
      if ds = [] \<or> t = [] then None
      else if hd t = CHR ''}'' then Some (digits_nat ds, Some (digits_nat ds), tl t)
      else if hd t = CHR '','' then
        let es = takeWhile is_digit (tl t); u = dropWhile is_digit (tl t) in
        if u \<noteq> [] \<and> hd u = CHR ''}''
        then Some (digits_nat ds, if es = [] then None else Some (digits_nat es), tl u)
        else None
      else None)"

subsection \<open>The pattern parser\<close>

datatype rx_token =
    TAtom rx
  | TAnchor rx
  | TOpen
  | TClose
  | TBar
  | TQuant nat "nat option" bool
  | TError js_error

text \<open>A question mark after a quantifier makes it lazy.\<close>

definition rx_quant :: "nat \<Rightarrow> nat option \<Rightarrow> string \<Rightarrow> rx_token \<times> string" where
  "rx_quant mn mx s =
     (if s \<noteq> [] \<and> hd s = CHR ''?'' then (TQuant mn mx False, tl s) else (TQuant mn mx True, s))"

definition rx_token :: "char \<Rightarrow> string \<Rightarrow> rx_token \<times> string" where
  "rx_token c s =
     (if c = CHR 0x5C then
        (case s of
           [] \<Rightarrow> (TError rx_syntax, [])
         | d # ds \<Rightarrow>
             (case rx_escape d of
                None \<Rightarrow> (TError Undefined, ds)
              | Some a \<Rightarrow> (TAtom (RSet False [a]), ds)))
      else if c = CHR ''('' then
        if s \<noteq> [] \<and> hd s = CHR ''?'' then (TError Undefined, s) else (TOpen, s)
      else if c = CHR '')'' then (TClose, s)
      else if c = CHR ''|'' then (TBar, s)
      else if c = CHR ''['' then
        (case rx_class s of Inl e \<Rightarrow> (TError e, []) | Inr (r, t) \<Rightarrow> (TAtom r, t))
      else if c = CHR ''^'' then (TAnchor RBol, s)
      else if c = CHR ''$'' then (TAnchor REol, s)
      else if c = CHR ''.'' then (TAtom rx_dot, s)
      else if c = CHR ''*'' then rx_quant 0 None s
      else if c = CHR ''+'' then rx_quant 1 None s
      else if c = CHR ''?'' then rx_quant 0 (Some 1) s
      else if c = CHR ''{'' then
        (case rx_braces s of
           None \<Rightarrow> (TAtom (rx_char c), s)
         | Some (mn, mx, t) \<Rightarrow>
             if (case mx of None \<Rightarrow> False | Some m \<Rightarrow> m < mn) then (TError rx_syntax, t)
             else rx_quant mn mx t)
      else (TAtom (rx_char c), s))"


lemma class_items_shorter: "class_items s = Inr (is, t) \<Longrightarrow> length t < length s"
proof (induction s arbitrary: "is" t rule: class_items.induct)
  case (1 s)
  show ?case
  proof (cases "s \<noteq> [] \<and> hd s = CHR 0x5D")
    case True
    with "1.prems" show ?thesis
      by (cases s) (auto simp: class_items.simps)
  next
    case False
    with "1.prems" obtain a u where a: "class_atom s = Inr (a, u)"
      by (auto simp: class_items.simps [of s] bindE_eq_Inr split: if_splits)
    show ?thesis
    proof (cases "2 \<le> length u \<and> hd u = CHR ''-'' \<and> u ! 1 \<noteq> CHR 0x5D")
      case True
      with "1.prems" False a obtain b v items more where b: "class_atom (tl u) = Inr (b, v)"
        and items: "class_range a b = Inr items" and more: "class_items v = Inr (more, t)"
        by (auto simp: class_items.simps [of s] bindE_eq_Inr)
      have "length t < length v"
        using "1.IH"(1) [OF False a refl True b refl items more] .
      with class_atom_shorter [OF a] class_atom_shorter [OF b] show ?thesis
        by simp
    next
      case nr: False
      with "1.prems" False a obtain more where more: "class_items u = Inr (more, t)"
        by (auto simp: class_items.simps [of s] bindE_eq_Inr)
      have "length t < length u"
        using "1.IH"(2) [OF False a refl nr more] .
      with class_atom_shorter [OF a] show ?thesis
        by simp
    qed
  qed
qed

lemma rx_class_shorter: "rx_class s = Inr (r, t) \<Longrightarrow> length t \<le> length s"
  by (cases s) (auto simp: rx_class_def bindE_eq_Inr dest!: class_items_shorter split: if_splits)

lemma rx_quant_shorter: "rx_quant mn mx s = (tk, t) \<Longrightarrow> length t \<le> length s"
  by (auto simp: rx_quant_def split: if_splits)

lemma rx_braces_shorter: "rx_braces s = Some (mn, mx, t) \<Longrightarrow> length t \<le> length s"
  using length_dropWhile_le [of is_digit s]
    length_dropWhile_le [of is_digit "tl (dropWhile is_digit s)"]
  by (auto simp: rx_braces_def Let_def split: if_splits)

lemma rx_token_shorter: "rx_token c s = (tk, t) \<Longrightarrow> length t \<le> length s"
  by (auto simp: rx_token_def dest: rx_class_shorter rx_quant_shorter
      dest!: rx_braces_shorter order_trans [OF rx_quant_shorter]
      split: if_splits list.splits option.splits sum.splits prod.splits)

function rx_tokens :: "string \<Rightarrow> rx_token list" where
  "rx_tokens [] = []"
| "rx_tokens (c # cs) = (let (tk, t) = rx_token c cs in tk # rx_tokens t)"
  by pat_completeness auto
termination
  by (relation "measure length") (auto simp: less_Suc_eq_le dest!: rx_token_shorter [OF sym])

fun seq_rx :: "rx list \<Rightarrow> rx" where
  "seq_rx [] = REmpty"
| "seq_rx (r # rs) = RSeq r (seq_rx rs)"

fun alts_rx :: "rx list \<Rightarrow> rx" where
  "alts_rx [] = REmpty"
| "alts_rx [r] = r"
| "alts_rx (r # s # rs) = RAlt r (alts_rx (s # rs))"

text \<open>
  The parser: \<open>n\<close> groups have been opened, \<open>st\<close> holds the number and the surroundings of the
  open ones, \<open>alts\<close> the finished alternatives and \<open>seq\<close> the terms of the current one, both
  reversed; \<open>q\<close> tells whether the last term may take a quantifier.
\<close>

type_synonym rx_stack = "(nat \<times> rx list \<times> rx list) list"

fun rx_parse :: "nat \<Rightarrow> rx_stack \<Rightarrow> rx list \<Rightarrow> rx list \<Rightarrow> bool \<Rightarrow> rx_token list \<Rightarrow> (rx \<times> nat) result" where
  "rx_parse n st alts seq q [] =
     (if st = [] then Inr (alts_rx (rev (seq_rx (rev seq) # alts)), n) else Inl rx_syntax)"
| "rx_parse n st alts seq q (tk # tks) =
     (case tk of
        TAtom r \<Rightarrow> rx_parse n st alts (r # seq) True tks
      | TAnchor r \<Rightarrow> rx_parse n st alts (r # seq) False tks
      | TOpen \<Rightarrow> rx_parse (Suc n) ((n, alts, seq) # st) [] [] False tks
      | TClose \<Rightarrow>
          (case st of
             [] \<Rightarrow> Inl rx_syntax
           | (k, alts', seq') # st' \<Rightarrow>
               rx_parse n st' alts' (RGroup k (alts_rx (rev (seq_rx (rev seq) # alts))) # seq')
                 True tks)
      | TBar \<Rightarrow> rx_parse n st (seq_rx (rev seq) # alts) [] False tks
      | TQuant mn mx g \<Rightarrow>
          if q then rx_parse n st alts (RRep (hd seq) mn mx g # tl seq) False tks
          else Inl rx_syntax
      | TError e \<Rightarrow> Inl e)"

definition rx_of :: "string \<Rightarrow> (rx \<times> nat) result" where
  "rx_of raw = rx_parse 0 [] [] [] False (rx_tokens raw)"

subsection \<open>The backtracking matcher\<close>

record rx_state =
  rx_pos :: nat
  rx_rest :: string
  rx_caps :: "string option list"

text \<open>
  Letters that differ in case, below 256: \<^verbatim>\<open>i\<close> makes the matcher compare characters up to this.
\<close>

definition swap_case :: "char \<Rightarrow> char" where
  "swap_case c =
     (let n = (of_char c :: nat) in
      if 65 \<le> n \<and> n \<le> 90 \<or> 192 \<le> n \<and> n \<le> 222 \<and> n \<noteq> 215 then char_of (n + 32)
      else if 97 \<le> n \<and> n \<le> 122 \<or> 224 \<le> n \<and> n \<le> 254 \<and> n \<noteq> 247 then char_of (n - 32)
      else c)"

fun in_item :: "char \<Rightarrow> rx_item \<Rightarrow> bool" where
  "in_item c (RRange a b) \<longleftrightarrow> a \<le> c \<and> c \<le> b"
| "in_item c (RSpace yes) \<longleftrightarrow> js_space c = yes"
| "in_item c (RWord yes) \<longleftrightarrow> is_word c = yes"
| "in_item c (RDigit yes) \<longleftrightarrow> is_digit c = yes"

definition in_set :: "bool \<Rightarrow> bool \<Rightarrow> rx_item list \<Rightarrow> char \<Rightarrow> bool" where
  "in_set ic neg items c \<longleftrightarrow>
     (list_ex (in_item c) items \<or> ic \<and> list_ex (in_item (swap_case c)) items) \<noteq> neg"

fun rx_groups :: "rx \<Rightarrow> nat list" where
  "rx_groups (RSeq r s) = rx_groups r @ rx_groups s"
| "rx_groups (RAlt r s) = rx_groups r @ rx_groups s"
| "rx_groups (RGroup k r) = k # rx_groups r"
| "rx_groups (RRep r mn mx g) = rx_groups r"
| "rx_groups _ = []"

definition clear_caps :: "nat list \<Rightarrow> rx_state \<Rightarrow> rx_state" where
  "clear_caps ks x = x\<lparr>rx_caps := foldl (\<lambda>cs k. cs[k := None]) (rx_caps x) ks\<rparr>"

text \<open>
  The results of a matcher are listed in the order in which backtracking reaches them: the
  first element is the match the engine commits to. A repetition beyond the minimum that
  consumes nothing is refused.
\<close>

function rx_repeat ::
  "(rx_state \<Rightarrow> rx_state list) \<Rightarrow> nat \<Rightarrow> nat option \<Rightarrow> bool \<Rightarrow> rx_state \<Rightarrow> rx_state list" where
  "rx_repeat m mn mx greedy x =
     (if mx = Some 0 then [x]
      else
        let more =
          concat (map (\<lambda>y. if mn = 0 \<and> length (rx_rest x) \<le> length (rx_rest y) then []
                           else rx_repeat m (mn - 1) (map_option (\<lambda>k. k - 1) mx) greedy y) (m x))
        in if mn \<noteq> 0 then more else if greedy then more @ [x] else x # more)"
  by pat_completeness auto
termination
  by (relation "measures [\<lambda>(m, mn, mx, g, x). mn, \<lambda>(m, mn, mx, g, x). length (rx_rest x)]") auto

declare rx_repeat.simps [simp del]

fun rx_match :: "bool \<Rightarrow> rx \<Rightarrow> rx_state \<Rightarrow> rx_state list" where
  "rx_match ic REmpty x = [x]"
| "rx_match ic (RSet neg items) x =
     (case rx_rest x of
        [] \<Rightarrow> []
      | c # cs \<Rightarrow> if in_set ic neg items c then [x\<lparr>rx_pos := Suc (rx_pos x), rx_rest := cs\<rparr>] else [])"
| "rx_match ic RBol x = (if rx_pos x = 0 then [x] else [])"
| "rx_match ic REol x = (if rx_rest x = [] then [x] else [])"
| "rx_match ic (RSeq r s) x = concat (map (rx_match ic s) (rx_match ic r x))"
| "rx_match ic (RAlt r s) x = rx_match ic r x @ rx_match ic s x"
| "rx_match ic (RGroup k r) x =
     map (\<lambda>y. y\<lparr>rx_caps := (rx_caps y)[k := Some (take (rx_pos y - rx_pos x) (rx_rest x))]\<rparr>) (rx_match ic r x)"
| "rx_match ic (RRep r mn mx greedy) x =
     rx_repeat (\<lambda>y. rx_match ic r (clear_caps (rx_groups r) y)) mn mx greedy x"

text \<open>Every result lies ahead: the matcher consumes a prefix of the rest of the input.\<close>

definition ahead :: "rx_state \<Rightarrow> rx_state \<Rightarrow> bool" where
  "ahead x y \<longleftrightarrow>
     (\<exists>u. rx_rest x = u @ rx_rest y \<and> rx_pos y = rx_pos x + length u \<and> length (rx_caps y) = length (rx_caps x))"

lemma ahead_refl [simp]: "ahead x x"
  by (simp add: ahead_def)

lemma ahead_trans: "ahead x y \<Longrightarrow> ahead y z \<Longrightarrow> ahead x z"
  by (auto simp: ahead_def)

lemma length_clear: "length (foldl (\<lambda>cs k. cs[k := None]) cs ks) = length cs"
  by (induction ks arbitrary: cs) simp_all

lemma ahead_clear [simp]: "ahead (clear_caps ks x) y \<longleftrightarrow> ahead x y"
  by (simp add: ahead_def clear_caps_def length_clear)

lemma rx_repeat_ahead:
  "y \<in> set (rx_repeat m mn mx g x) \<Longrightarrow> \<forall>x. \<forall>y \<in> set (m x). ahead x y \<Longrightarrow> ahead x y"
proof (induction m mn mx g x arbitrary: y rule: rx_repeat.induct)
  case (1 m mn mx g x)
  show ?case
  proof (cases "y = x")
    case False
    with "1.prems"(1) obtain z where mx: "mx \<noteq> Some 0" and z: "z \<in> set (m x)"
      and nz: "\<not> (mn = 0 \<and> length (rx_rest x) \<le> length (rx_rest z))"
      and y: "y \<in> set (rx_repeat m (mn - 1) (map_option (\<lambda>k. k - 1) mx) g z)"
      by (auto simp: rx_repeat.simps [of m mn] Let_def split: if_splits)
    have "ahead z y"
      by (rule "1.IH" [OF mx z nz y "1.prems"(2)])
    with z "1.prems"(2) show ?thesis
      using ahead_trans by blast
  qed simp
qed

lemma rx_match_ahead: "y \<in> set (rx_match ic r x) \<Longrightarrow> ahead x y"
proof (induction r arbitrary: x y)
  case (RSet neg items)
  then show ?case
    by (cases "rx_rest x") (auto simp: ahead_def split: if_splits)
next
  case (RSeq r s)
  then show ?case
    by simp (blast intro: ahead_trans)
next
  case (RGroup k r)
  then show ?case
    by (fastforce simp: ahead_def)
next
  case (RRep r mn mx g)
  show ?case
  proof (rule rx_repeat_ahead)
    show "y \<in> set (rx_repeat (\<lambda>y. rx_match ic r (clear_caps (rx_groups r) y)) mn mx g x)"
      using RRep.prems by simp
    show "\<forall>x. \<forall>y \<in> set (rx_match ic r (clear_caps (rx_groups r) x)). ahead x y"
      using RRep.IH by fastforce
  qed
qed (auto split: if_splits)

subsection \<open>RegExp objects\<close>

text \<open>
  A regular expression is an object with a mutable \<^verbatim>\<open>lastIndex\<close>; both constructors of the file
  set the flag \<^verbatim>\<open>g\<close>. \<open>js_exec\<close> is \<^verbatim>\<open>RegExp.prototype.exec\<close>: it looks for the first position at
  or after \<^verbatim>\<open>lastIndex\<close> where the pattern matches, and moves \<^verbatim>\<open>lastIndex\<close> to the end of the match,
  or back to 0.
\<close>

record regexp =
  ignoreCase :: bool
  re_prog :: rx
  re_groups :: nat
  lastIndex :: nat

record exec_result =
  er_index :: nat
  er_match :: string
  er_subs :: "string option list"

fun rx_scan :: "bool \<Rightarrow> rx \<Rightarrow> nat \<Rightarrow> nat \<Rightarrow> string \<Rightarrow> exec_result option" where
  "rx_scan ic r n i [] =
     (case rx_match ic r \<lparr>rx_pos = i, rx_rest = [], rx_caps = replicate n None\<rparr> of
        y # _ \<Rightarrow> Some \<lparr>er_index = i, er_match = [], er_subs = rx_caps y\<rparr>
      | [] \<Rightarrow> None)"
| "rx_scan ic r n i (c # cs) =
     (case rx_match ic r \<lparr>rx_pos = i, rx_rest = c # cs, rx_caps = replicate n None\<rparr> of
        y # _ \<Rightarrow> Some \<lparr>er_index = i, er_match = take (rx_pos y - i) (c # cs), er_subs = rx_caps y\<rparr>
      | [] \<Rightarrow> rx_scan ic r n (Suc i) cs)"

definition js_exec :: "regexp \<Rightarrow> string \<Rightarrow> exec_result option \<times> regexp" where
  "js_exec re str =
     (if length str < lastIndex re then (None, re\<lparr>lastIndex := 0\<rparr>)
      else
        case rx_scan (ignoreCase re) (re_prog re) (re_groups re) (lastIndex re) (drop (lastIndex re) str) of
          None \<Rightarrow> (None, re\<lparr>lastIndex := 0\<rparr>)
        | Some r \<Rightarrow> (Some r, re\<lparr>lastIndex := er_index r + length (er_match r)\<rparr>))"

text \<open>The result of \<^verbatim>\<open>exec\<close> describes a substring of the input at or after \<^verbatim>\<open>lastIndex\<close>.\<close>

definition match_at :: "string \<Rightarrow> exec_result \<Rightarrow> bool" where
  "match_at str r \<longleftrightarrow>
     er_index r + length (er_match r) \<le> length str \<and>
     er_match r = take (length (er_match r)) (drop (er_index r) str)"

lemma rx_match_Cons:
  assumes "rx_match ic r \<lparr>rx_pos = i, rx_rest = s, rx_caps = replicate n None\<rparr> = y # ys"
  shows "i \<le> rx_pos y \<and> rx_pos y \<le> i + length s \<and> rx_rest y = drop (rx_pos y - i) s \<and> length (rx_caps y) = n"
  using rx_match_ahead [of y ic r "\<lparr>rx_pos = i, rx_rest = s, rx_caps = replicate n None\<rparr>"] assms
  by (auto simp: ahead_def)

lemma rx_scan_at:
  "rx_scan ic r n i s = Some res \<Longrightarrow> s = drop i str \<Longrightarrow> i \<le> length str \<Longrightarrow>
   i \<le> er_index res \<and> match_at str res \<and> length (er_subs res) = n"
proof (induction ic r n i s rule: rx_scan.induct)
  case (1 ic r n i)
  then show ?case
    by (auto simp: match_at_def dest: rx_match_Cons split: list.splits)
next
  case (2 ic r n i c cs)
  have cs: "cs = drop (Suc i) str" "i < length str"
    using "2.prems" by (auto simp: drop_Suc tl_drop [symmetric] dest: sym)
      (metis drop_eq_Nil leI list.discI)
  show ?case
  proof (cases "rx_match ic r \<lparr>rx_pos = i, rx_rest = c # cs, rx_caps = replicate n None\<rparr>")
    case Nil
    with "2.prems"(1) have "rx_scan ic r n (Suc i) cs = Some res"
      by simp
    from "2.IH" [OF Nil this cs(1)] cs(2) show ?thesis
      by simp
  next
    case (Cons y ys)
    with "2.prems"(1)
    have "res = \<lparr>er_index = i, er_match = take (rx_pos y - i) (c # cs), er_subs = rx_caps y\<rparr>"
      by simp
    with rx_match_Cons [OF Cons] "2.prems"(2,3) show ?thesis
      by (auto simp: match_at_def min_def simp del: take_Suc_Cons)
  qed
qed

lemma js_exec_Some:
  assumes "js_exec re str = (Some r, re')"
  shows "lastIndex re \<le> er_index r" "match_at str r" "length (er_subs r) = re_groups re"
    and "re' = re\<lparr>lastIndex := er_index r + length (er_match r)\<rparr>" "lastIndex re \<le> length str"
    and "lastIndex re' \<le> length str" "lastIndex re \<le> lastIndex re'"
  using assms rx_scan_at [of "ignoreCase re" "re_prog re" "re_groups re" "lastIndex re" _ r str]
  by (auto simp: js_exec_def match_at_def split: if_splits option.splits)

lemma js_exec_None: "js_exec re str = (None, re') \<Longrightarrow> re' = re\<lparr>lastIndex := 0\<rparr>"
  by (auto simp: js_exec_def split: if_splits option.splits)

text \<open>
  \<open>js_all\<close> is the loop that \<^verbatim>\<open>String.prototype.match\<close> and \<^verbatim>\<open>String.prototype.replace\<close> run for a
  global expression: \<^verbatim>\<open>exec\<close> until it fails, stepping over an empty match.
\<close>

function js_all :: "regexp \<Rightarrow> string \<Rightarrow> exec_result list \<times> regexp" where
  "js_all re str =
     (case js_exec re str of
        (None, re') \<Rightarrow> ([], re')
      | (Some r, re') \<Rightarrow>
          let (rs, re'') =
            js_all (if er_match r = [] then re'\<lparr>lastIndex := Suc (lastIndex re')\<rparr> else re') str
          in (r # rs, re''))"
  by pat_completeness auto
termination
proof (relation "measure (\<lambda>(re, str). Suc (length str) - lastIndex re)", goal_cases)
  case (2 re str ro re' r)
  then have ex: "js_exec re str = (Some r, re')"
    by (metis)
  show ?case
    using js_exec_Some [OF ex] by (cases "er_match r") auto
qed simp

declare js_all.simps [simp del]


subsection \<open>The functions of the file\<close>

datatype how_many = All | AtMost int

text \<open>\<^verbatim>\<open>n.ctor === 'All' ? Infinity : n._0\<close>; \<open>None\<close> is \<^verbatim>\<open>Infinity\<close>.\<close>

fun limit :: "how_many \<Rightarrow> int option" where
  "limit All = None"
| "limit (AtMost n) = Some n"

fun below :: "int \<Rightarrow> int option \<Rightarrow> bool" where
  "below k None \<longleftrightarrow> True"
| "below k (Some n) \<longleftrightarrow> k < n"

record rx_found =
  fd_match :: string
  fd_submatches :: "string option list"
  fd_index :: int
  fd_number :: int

definition escape_char :: "char \<Rightarrow> string" where
  "escape_char c =
     (if c \<in> {CHR ''-'', CHR ''/'', CHR 0x5C, CHR ''^'', CHR ''$'', CHR ''*'', CHR ''+'', CHR ''?'',
              CHR ''.'', CHR ''('', CHR '')'', CHR ''|'', CHR ''['', CHR 0x5D, CHR ''{'', CHR ''}''}
      then [CHR 0x5C, c] else [c])"

definition escape :: "string \<Rightarrow> string" where
  "escape str = concat (map escape_char str)"

definition regex :: "string \<Rightarrow> regexp result" where
  "regex raw =
     bindE (rx_of raw) (\<lambda>(r, n).
       Inr \<lparr>ignoreCase = False, re_prog = r, re_groups = n, lastIndex = 0\<rparr>)"

definition caseInsensitive :: "regexp \<Rightarrow> regexp" where
  "caseInsensitive re =
     \<lparr>ignoreCase = True, re_prog = re_prog re, re_groups = re_groups re, lastIndex = 0\<rparr>"

definition Regex_contains :: "regexp \<Rightarrow> string \<Rightarrow> bool \<times> regexp" where
  "Regex_contains re str =
     (let (rs, re') = js_all (re\<lparr>lastIndex := 0\<rparr>) str in (rs \<noteq> [], re'))"

definition found :: "int \<Rightarrow> exec_result \<Rightarrow> rx_found" where
  "found number r =
     \<lparr>fd_match = er_match r, fd_submatches = fromArray (er_subs r),
      fd_index = int (er_index r), fd_number = number\<rparr>"

text \<open>The loop of \<^verbatim>\<open>find\<close>; \<open>prev\<close> is \<^verbatim>\<open>prevLastIndex\<close>.\<close>

function find_loop ::
  "int option \<Rightarrow> int \<Rightarrow> int \<Rightarrow> regexp \<Rightarrow> string \<Rightarrow> rx_found list \<times> regexp" where
  "find_loop n number prev re str =
     (if \<not> below number n then ([], re)
      else
        case js_exec re str of
          (None, re') \<Rightarrow> ([], re')
        | (Some r, re') \<Rightarrow>
            if prev = int (lastIndex re') then ([], re')
            else
              let (out, re'') = find_loop n (number + 1) (int (lastIndex re')) re' str in
              (found (number + 1) r # out, re''))"
  by pat_completeness auto
termination
proof (relation "measures [\<lambda>(n, k, p, re, str). Suc (length str) - lastIndex re,
    \<lambda>(n, k, p, re, str). if p = int (lastIndex re) then 0 else 1]", goal_cases)
  case (2 n number prev re str ro re' r)
  then have ex: "js_exec re str = (Some r, re')"
    by metis
  show ?case
    using js_exec_Some [OF ex] "2"(4) by auto
qed simp

declare find_loop.simps [simp del]

definition Regex_find :: "how_many \<Rightarrow> regexp \<Rightarrow> string \<Rightarrow> rx_found list \<times> regexp" where
  "Regex_find n re str =
     (let (out, re') = find_loop (limit n) 0 (-1) re str in
      (fromArray out, re'\<lparr>lastIndex := lastIndex re\<rparr>))"

definition jsReplacer ::
  "int option \<Rightarrow> (rx_found \<Rightarrow> string) \<Rightarrow> int \<Rightarrow> exec_result \<Rightarrow> string" where
  "jsReplacer n replacer count r =
     (if \<not> below count n then er_match r else replacer (found (count + 1) r))"

text \<open>
  \<^verbatim>\<open>String.prototype.replace\<close> with a function: the results of \<open>js_all\<close> are replaced from left to
  right; \<open>next\<close> is the end of what has been copied.
\<close>

fun replace_loop ::
  "int option \<Rightarrow> (rx_found \<Rightarrow> string) \<Rightarrow> string \<Rightarrow> int \<Rightarrow> nat \<Rightarrow> exec_result list \<Rightarrow> string" where
  "replace_loop n replacer str count nxt [] = drop nxt str"
| "replace_loop n replacer str count nxt (r # rs) =
     (if nxt \<le> er_index r
      then take (er_index r - nxt) (drop nxt str) @ jsReplacer n replacer count r @
        replace_loop n replacer str (count + 1) (er_index r + length (er_match r)) rs
      else replace_loop n replacer str (count + 1) nxt rs)"

definition Regex_replace ::
  "how_many \<Rightarrow> regexp \<Rightarrow> (rx_found \<Rightarrow> string) \<Rightarrow> string \<Rightarrow> string \<times> regexp" where
  "Regex_replace n re replacer str =
     (let (rs, re') = js_all (re\<lparr>lastIndex := 0\<rparr>) str in
      (replace_loop (limit n) replacer str 0 0 rs, re'))"


text \<open>
  \<^verbatim>\<open>str.split(re)\<close>: \<open>p\<close> is the start of the current piece and \<open>q\<close> the position where a match is
  tried. The captures of a match follow the piece before it; a group that took no part in the
  match contributes \<^verbatim>\<open>undefined\<close>, which is \<open>None\<close>.
\<close>

function js_split_re :: "regexp \<Rightarrow> string \<Rightarrow> nat \<Rightarrow> nat \<Rightarrow> string option list" where
  "js_split_re re str p q =
     (if length str \<le> q then [Some (drop p str)]
      else
        case rx_match (ignoreCase re) (re_prog re)
               \<lparr>rx_pos = q, rx_rest = drop q str, rx_caps = replicate (re_groups re) None\<rparr> of
          [] \<Rightarrow> js_split_re re str p (Suc q)
        | y # ys \<Rightarrow>
            if rx_pos y = p then js_split_re re str p (Suc q)
            else Some (take (q - p) (drop p str)) # rx_caps y @ js_split_re re str (rx_pos y) (rx_pos y))"
  by pat_completeness auto
termination
proof (relation "measures [\<lambda>(re, str, p, q). length str - q, \<lambda>(re, str, p, q). if p = q then 0 else 1]",
    goal_cases)
  case (4 re str p q y ys)
  then show ?case
    using rx_match_Cons [OF "4"(2)] by auto
qed auto

declare js_split_re.simps [simp del]

text \<open>
  The loop \<^verbatim>\<open>while (n--)\<close> of \<^verbatim>\<open>split\<close>. It need not end: for a negative \<open>n\<close> it runs until
  \<^verbatim>\<open>exec\<close> fails.
\<close>

partial_function (option) split_loop ::
  "int \<Rightarrow> nat \<Rightarrow> regexp \<Rightarrow> string \<Rightarrow> (string list \<times> regexp) option" where
  "split_loop n start re str =
     (if n = 0 then Some ([js_slice (int start) (int (length str)) str], re)
      else
        case js_exec re str of
          (None, re') \<Rightarrow> Some ([js_slice (int start) (int (length str)) str], re')
        | (Some r, re') \<Rightarrow>
            Option.bind (split_loop (n - 1) (lastIndex re') re' str) (\<lambda>(out, re'').
              Some (js_slice (int start) (int (er_index r)) str # out, re'')))"

definition Regex_split ::
  "how_many \<Rightarrow> regexp \<Rightarrow> string \<Rightarrow> (string option list \<times> regexp) option" where
  "Regex_split n re str =
     (case limit n of
        None \<Rightarrow>
          Some (fromArray
            (if str = [] then
               if rx_match (ignoreCase re) (re_prog re)
                    \<lparr>rx_pos = 0, rx_rest = [], rx_caps = replicate (re_groups re) None\<rparr> \<noteq> [] then []
               else [Some str]
             else js_split_re re str 0 0), re)
      | Some k \<Rightarrow>
          Option.bind (split_loop k (lastIndex re) re str) (\<lambda>(out, re').
            Some (fromArray (map Some out), re'\<lparr>lastIndex := lastIndex re\<rparr>)))"

end
