(* ===== verification/Elm_Regex_Correct.thy ===== *)
theory Elm_Regex_Correct
  imports Elm_Regex
begin

text \<open>
  What the functions of \<^verbatim>\<open>Native/Regex.js\<close> compute. The patterns the program uses match a
  prefix of the remaining input that does not depend on where they start; the locale
  \<open>token_regex\<close> states this for a regular expression and the length of its match, and gives
  \<^verbatim>\<open>replace\<close> as a walk over the string, \<open>subst_tokens\<close>. It is interpreted for escaped literals,
  for single characters and for runs of characters.
\<close>

subsection \<open>Literal patterns\<close>

lemma escape_simps [simp]:
  "escape [] = []" "escape (c # s) = escape_char c @ escape s" "escape (s @ t) = escape s @ escape t"
  by (simp_all add: escape_def)

lemma rx_tokens_escape_char: "rx_tokens (escape_char c @ t) = TAtom (rx_char c) # rx_tokens t"
  by (auto simp: escape_char_def rx_token_def rx_escape_def is_word_def is_digit_def less_eq_char_def)

lemma rx_tokens_escape: "rx_tokens (escape s @ t) = map (\<lambda>c. TAtom (rx_char c)) s @ rx_tokens t"
  by (induction s) (simp_all add: rx_tokens_escape_char)

lemma rx_parse_atoms:
  "rx_parse n st alts seq q (map (\<lambda>c. TAtom (f c)) s @ tks) =
   rx_parse n st alts (rev (map f s) @ seq) (q \<or> s \<noteq> []) tks"
  by (induction s arbitrary: seq q) simp_all

lemma rx_of_escape: "rx_of (escape s) = Inr (seq_rx (map rx_char s), 0)"
  using rx_tokens_escape [of s "[]"] rx_parse_atoms [of 0 "[]" "[]" "[]" False rx_char s "[]"]
  by (simp add: rx_of_def)

text \<open>\<open>adv j x\<close> is the state after reading \<open>j\<close> characters.\<close>

definition adv :: "nat \<Rightarrow> rx_state \<Rightarrow> rx_state" where
  "adv j x = x\<lparr>rx_pos := rx_pos x + j, rx_rest := drop j (rx_rest x)\<rparr>"

lemma adv_sel [simp]: "rx_pos (adv j x) = rx_pos x + j" "rx_rest (adv j x) = drop j (rx_rest x)" "rx_caps (adv j x) = rx_caps x"
  by (simp_all add: adv_def)

lemma adv_0 [simp]: "adv 0 x = x"
  by (simp add: adv_def)

lemma adv_adv [simp]: "adv j (adv k x) = adv (k + j) x"
  by (simp add: adv_def add.commute add.left_commute)

lemma rx_match_set:
  "rx_match ic (RSet neg items) x =
   (if rx_rest x \<noteq> [] \<and> in_set ic neg items (hd (rx_rest x)) then [adv 1 x] else [])"
  by (cases "rx_rest x") (simp_all add: adv_def)

lemma in_set_char [simp]: "in_set False False [RRange c c] d \<longleftrightarrow> d = c"
  by (auto simp: in_set_def)

lemma rx_match_literal:
  "rx_match False (seq_rx (map rx_char s)) x = (if prefix s (rx_rest x) then [adv (length s) x] else [])"
proof (induction s arbitrary: x)
  case (Cons c s)
  then show ?case
    by (cases "rx_rest x") (auto simp: rx_match_set simp del: rx_match.simps(2))
qed simp

subsection \<open>Replacing the tokens of a string\<close>

function subst_tokens :: "(string \<Rightarrow> nat option) \<Rightarrow> (string \<Rightarrow> string) \<Rightarrow> string \<Rightarrow> string" where
  "subst_tokens m g [] = []"
| "subst_tokens m g (c # cs) =
     (case m (c # cs) of
        Some (Suc k) \<Rightarrow> g (take (Suc k) (c # cs)) @ subst_tokens m g (drop (Suc k) (c # cs))
      | _ \<Rightarrow> c # subst_tokens m g cs)"
  by pat_completeness auto
termination
  by (relation "measure (\<lambda>(m, g, s). length s)") auto

locale token_regex =
  fixes re :: regexp and m :: "string \<Rightarrow> nat option"
  assumes token_None: "m s = None \<Longrightarrow>
      rx_match (ignoreCase re) (re_prog re) \<lparr>rx_pos = i, rx_rest = s, rx_caps = replicate (re_groups re) None\<rparr> = []"
    and token_Some: "m s = Some k \<Longrightarrow>
      (\<exists>y ys. rx_match (ignoreCase re) (re_prog re)
        \<lparr>rx_pos = i, rx_rest = s, rx_caps = replicate (re_groups re) None\<rparr> = y # ys \<and> rx_pos y = i + k)"
    and token_pos: "m s = Some k \<Longrightarrow> 0 < k \<and> k \<le> length s"
begin

lemma token_Nil: "m [] = None"
  using token_pos [of "[]"] by (cases "m []") auto

lemma exec_skip:
  assumes "m (drop i str) = None" "i < length str"
  shows "js_exec (re\<lparr>lastIndex := i\<rparr>) str = js_exec (re\<lparr>lastIndex := Suc i\<rparr>) str"
proof -
  have d: "drop i str = str ! i # drop (Suc i) str"
    using assms(2) by (rule Cons_nth_drop_Suc [symmetric])
  have "rx_scan (ignoreCase re) (re_prog re) (re_groups re) i (drop i str) =
    rx_scan (ignoreCase re) (re_prog re) (re_groups re) (Suc i) (drop (Suc i) str)"
    using token_None [OF assms(1), of i] unfolding d by simp
  then show ?thesis
    using assms(2) by (simp add: js_exec_def split: option.split)
qed

lemma exec_end: "js_exec (re\<lparr>lastIndex := length str\<rparr>) str = (None, re\<lparr>lastIndex := 0\<rparr>)"
  using token_None [OF token_Nil] by (simp add: js_exec_def)

lemma exec_hit:
  assumes "m (drop i str) = Some k" "i < length str"
  shows "\<exists>r. js_exec (re\<lparr>lastIndex := i\<rparr>) str = (Some r, re\<lparr>lastIndex := i + k\<rparr>) \<and>
    er_index r = i \<and> er_match r = take k (drop i str)"
proof -
  have d: "drop i str = str ! i # drop (Suc i) str"
    using assms(2) by (rule Cons_nth_drop_Suc [symmetric])
  obtain y ys where y: "rx_match (ignoreCase re) (re_prog re)
      \<lparr>rx_pos = i, rx_rest = drop i str, rx_caps = replicate (re_groups re) None\<rparr> = y # ys" "rx_pos y = i + k"
    using token_Some [OF assms(1), of i] by blast
  have "rx_scan (ignoreCase re) (re_prog re) (re_groups re) i (drop i str) =
    Some \<lparr>er_index = i, er_match = take k (drop i str), er_subs = rx_caps y\<rparr>"
    using y unfolding d by simp
  then show ?thesis
    using assms(2) token_pos [OF assms(1)] by (simp add: js_exec_def)
qed

lemma all_skip:
  "m (drop i str) = None \<Longrightarrow> i < length str \<Longrightarrow>
   js_all (re\<lparr>lastIndex := i\<rparr>) str = js_all (re\<lparr>lastIndex := Suc i\<rparr>) str"
  by (subst (1 2) js_all.simps) (simp only: exec_skip)

lemma all_end: "js_all (re\<lparr>lastIndex := length str\<rparr>) str = ([], re\<lparr>lastIndex := 0\<rparr>)"
  by (subst js_all.simps) (simp add: exec_end)

lemma all_hit:
  assumes "m (drop i str) = Some k" "i < length str"
  shows "\<exists>r. fst (js_all (re\<lparr>lastIndex := i\<rparr>) str) = r # fst (js_all (re\<lparr>lastIndex := i + k\<rparr>) str) \<and>
    er_index r = i \<and> er_match r = take k (drop i str)"
proof -
  obtain r where r: "js_exec (re\<lparr>lastIndex := i\<rparr>) str = (Some r, re\<lparr>lastIndex := i + k\<rparr>)"
    "er_index r = i" "er_match r = take k (drop i str)"
    using exec_hit [OF assms] by blast
  have "er_match r \<noteq> []"
    using r(3) token_pos [OF assms(1)] assms(2) by auto
  with r show ?thesis
    by (subst js_all.simps) (simp split: prod.splits)
qed

lemma replace_walk:
  assumes "nxt \<le> i" "i \<le> length str"
  shows "replace_loop None (\<lambda>x. g (fd_match x)) str count nxt (fst (js_all (re\<lparr>lastIndex := i\<rparr>) str)) =
    take (i - nxt) (drop nxt str) @ subst_tokens m g (drop i str)"
  using assms
proof (induction "length str - i" arbitrary: i nxt count rule: less_induct)
  case less
  show ?case
  proof (cases "i = length str")
    case True
    then show ?thesis
      using less.prems by (simp add: all_end)
  next
    case False
    then have i: "i < length str" and d: "drop i str = str ! i # drop (Suc i) str"
      using less.prems by (simp_all add: Cons_nth_drop_Suc)
    show ?thesis
    proof (cases "m (drop i str)")
      case None
      have "take (Suc i - nxt) (drop nxt str) = take (i - nxt) (drop nxt str) @ [str ! i]"
        using less.prems i by (simp add: Suc_diff_le take_Suc_conv_app_nth)
      with less.hyps [of "Suc i" nxt] less.prems i None show ?thesis
        by (simp add: all_skip) (simp add: d)
    next
      case (Some k)
      then obtain k' where k: "k = Suc k'" "i + k \<le> length str"
        using token_pos [OF Some] i by (cases k) auto
      obtain r where r: "fst (js_all (re\<lparr>lastIndex := i\<rparr>) str) = r # fst (js_all (re\<lparr>lastIndex := i + k\<rparr>) str)"
        "er_index r = i" "er_match r = take k (drop i str)"
        using all_hit [OF Some i] by blast
      have "subst_tokens m g (drop i str) = g (take k (drop i str)) @ subst_tokens m g (drop (i + k) str)"
        using Some k by (simp add: d add.commute [of i])
      with less.hyps [of "i + k" "i + k"] less.prems k r show ?thesis
        by (simp add: jsReplacer_def found_def)
    qed
  qed
qed

lemma replace_all:
  "fst (Regex_replace All re (\<lambda>x. g (fd_match x)) str) = subst_tokens m g str"
  using replace_walk [of 0 0 str g 0] by (simp add: Regex_replace_def case_prod_beta)

end


subsection \<open>Runs of characters\<close>

text \<open>How often a set of characters can be repeated at the start of a string.\<close>

definition run_length :: "(char \<Rightarrow> bool) \<Rightarrow> nat option \<Rightarrow> string \<Rightarrow> nat" where
  "run_length P mx s =
     (let k = length (takeWhile P s) in case mx of None \<Rightarrow> k | Some b \<Rightarrow> min k b)"

lemma run_length_Nil [simp]: "run_length P mx [] = 0"
  by (simp add: run_length_def split: option.split)

lemma run_length_Cons:
  "run_length P mx (c # cs) =
   (if P c \<and> mx \<noteq> Some 0 then Suc (run_length P (map_option (\<lambda>k. k - 1) mx) cs) else 0)"
  by (cases mx) (auto simp: run_length_def Let_def min_def)

lemma upt_Suc_map: "map f [Suc m..<Suc n] = map (\<lambda>j. f (Suc j)) [m..<n]"
  by (simp add: map_Suc_upt [symmetric] comp_def del: upt_Suc)

lemma upt_0_Suc: "[0..<Suc n] = 0 # [Suc 0..<Suc n]"
  by (simp add: upt_conv_Cons del: upt_Suc)

lemma rx_repeat_run:
  assumes "\<And>x. f x = (if rx_rest x \<noteq> [] \<and> P (hd (rx_rest x)) then [adv 1 x] else [])"
    and "\<And>b. mx = Some b \<Longrightarrow> mn \<le> b"
  shows "rx_repeat f mn mx g x =
    map (\<lambda>j. adv j x) ((if g then rev else id) [mn..<Suc (run_length P mx (rx_rest x))])"
  using assms(2)
proof (induction "rx_rest x" arbitrary: x mn mx)
  case Nil
  then show ?case
    by (subst rx_repeat.simps) (auto simp: assms(1) Let_def)
next
  case (Cons c cs)
  have r: "rx_rest x = c # cs"
    using Cons.hyps(2) by simp
  have IH: "rx_repeat f (mn - 1) (map_option (\<lambda>k. k - 1) mx) g (adv 1 x) =
    map (\<lambda>j. adv (Suc j) x) ((if g then rev else id)
      [mn - 1..<Suc (run_length P (map_option (\<lambda>k. k - 1) mx) cs)])"
  proof -
    have "mn - 1 \<le> b" if "map_option (\<lambda>k. k - 1) mx = Some b" for b
      using that Cons.prems by (auto simp: diff_le_mono)
    with Cons.hyps(1) [of "adv 1 x" "map_option (\<lambda>k. k - 1) mx" "mn - 1"] r show ?thesis
      by (simp del: upt_Suc)
  qed
  show ?case
  proof (cases "P c \<and> mx \<noteq> Some 0")
    case False
    then show ?thesis
      using Cons.prems by (subst rx_repeat.simps) (auto simp: assms(1) r run_length_Cons)
  next
    case True
    with IH show ?thesis
      by (subst rx_repeat.simps, cases mn)
        (simp_all add: assms(1) r run_length_Cons rev_map [symmetric] upt_Suc_map upt_0_Suc del: upt_Suc)
  qed
qed

lemma rx_match_run:
  assumes "\<And>b. mx = Some b \<Longrightarrow> mn \<le> b"
  shows "rx_match ic (RRep (RSet neg items) mn mx g) x =
    map (\<lambda>j. adv j x)
      ((if g then rev else id) [mn..<Suc (run_length (in_set ic neg items) mx (rx_rest x))])"
proof -
  have "rx_match ic (RRep (RSet neg items) mn mx g) x = rx_repeat (rx_match ic (RSet neg items)) mn mx g x"
    by (simp add: clear_caps_def del: rx_match.simps(2))
  also have "\<dots> = map (\<lambda>j. adv j x)
      ((if g then rev else id) [mn..<Suc (run_length (in_set ic neg items) mx (rx_rest x))])"
    using assms by (rule rx_repeat_run [OF rx_match_set])
  finally show ?thesis .
qed

lemma rx_match_run_unbounded:
  "rx_match ic (RRep (RSet neg items) mn None g) x =
   map (\<lambda>j. adv j x)
     ((if g then rev else id) [mn..<Suc (run_length (in_set ic neg items) None (rx_rest x))])"
  by (rule rx_match_run) simp

lemma rx_match_REmpty [simp]: "concat (map (rx_match ic REmpty) ys) = ys"
  by (induction ys) simp_all

lemma rx_match_REmpty_comp [simp]: "concat (map (rx_match ic REmpty \<circ> f) ys) = map f ys"
  by (induction ys) simp_all

declare rx_match.simps(2,8) [simp del]
declare rx_match_set [simp]

subsection \<open>The patterns of the program\<close>

abbreviation rx_global :: "rx \<Rightarrow> nat \<Rightarrow> regexp" where
  "rx_global r n \<equiv> \<lparr>ignoreCase = False, re_prog = r, re_groups = n, lastIndex = 0\<rparr>"

lemma regex_escape: "regex (escape s) = Inr (rx_global (seq_rx (map rx_char s)) 0)"
  by (simp add: regex_def rx_of_escape)

definition literal_token :: "string \<Rightarrow> string \<Rightarrow> nat option" where
  "literal_token p s = (if prefix p s then Some (length p) else None)"

interpretation literal: token_regex "rx_global (seq_rx (map rx_char (c # p))) 0" "literal_token (c # p)"
  for c p
  by unfold_locales
    (auto simp: literal_token_def rx_match_literal split: if_splits dest: prefix_length_le
      simp del: list.map seq_rx.simps)

definition char_token :: "(char \<Rightarrow> bool) \<Rightarrow> string \<Rightarrow> nat option" where
  "char_token P s = (if s \<noteq> [] \<and> P (hd s) then Some 1 else None)"

interpretation chars: token_regex "rx_global (seq_rx [RSet neg items]) 0" "char_token (in_set False neg items)"
  for neg items
  by unfold_locales (auto simp: char_token_def Suc_le_eq split: if_splits)

text \<open>A run of at least \<open>n\<close> characters.\<close>

definition run_token :: "nat \<Rightarrow> (char \<Rightarrow> bool) \<Rightarrow> string \<Rightarrow> nat option" where
  "run_token n P s =
     (let k = length (takeWhile P s) in if 0 < k \<and> n \<le> k then Some k else None)"


lemma run_token_eq:
  "run_token n P s = (if 0 < run_length P None s \<and> n \<le> run_length P None s then Some (run_length P None s) else None)"
  by (simp add: run_token_def run_length_def)

lemma run_length_le: "run_length P mx s \<le> length s"
  using length_takeWhile_le [of P s] by (auto simp: run_length_def Let_def split: option.split)

interpretation run1: token_regex "rx_global (seq_rx [RRep (RSet neg items) 1 None True]) 0"
  "run_token 1 (in_set False neg items)" for neg items
proof (unfold_locales, goal_cases)
  case (1 s i)
  then show ?case
    by (auto simp: rx_match_run_unbounded run_token_eq split: if_splits)
next
  case (2 s k i)
  then have "0 < k" "run_length (in_set False neg items) None s = k"
    by (auto simp: run_token_eq split: if_splits)
  then show ?case
    by (simp add: rx_match_run_unbounded Suc_le_eq)
next
  case (3 s k)
  then show ?case
    using run_length_le by (auto simp: run_token_eq split: if_splits)
qed

interpretation run2: token_regex "rx_global (seq_rx [RSet neg items, RRep (RSet neg items) 1 None True]) 0"
  "run_token 2 (in_set False neg items)" for neg items
proof (unfold_locales, goal_cases)
  case (1 s i)
  then show ?case
    by (cases s) (auto simp: rx_match_run_unbounded run_token_eq run_length_Cons split: if_splits)
next
  case (2 s k i)
  then obtain c cs where s: "s = c # cs" "in_set False neg items c" "2 \<le> k"
    "run_length (in_set False neg items) None cs = k - 1"
    by (cases s) (auto simp: run_token_eq run_length_Cons split: if_splits)
  then show ?case
    by (auto simp: rx_match_run_unbounded numeral_2_eq_2 le_Suc_ex dest!: le_Suc_ex)
next
  case (3 s k)
  then show ?case
    using run_length_le by (auto simp: run_token_eq split: if_splits)
qed

subsection \<open>What the walk computes\<close>

lemma subst_literal:
  "p \<noteq> [] \<Longrightarrow> rev cur @ subst_tokens (literal_token p) (\<lambda>_. sub) s = js_join sub (js_split_loop p cur s)"
proof (induction p cur s rule: js_split_loop.induct)
  case (2 p cur c cs)
  show ?case
  proof (cases "prefix p (c # cs)")
    case True
    then obtain k where "length p = Suc k"
      using "2.prems" by (cases p) auto
    with True 2 show ?thesis
      by (simp add: literal_token_def js_join_Cons)
  next
    case False
    with 2 show ?thesis
      by (simp add: literal_token_def)
  qed
qed simp

lemma subst_chars:
  "subst_tokens (char_token P) g s = concat (map (\<lambda>c. if P c then g [c] else [c]) s)"
  by (induction s) (auto simp: char_token_def)

subsection \<open>Matches are ordered\<close>

fun ordered :: "string \<Rightarrow> nat \<Rightarrow> exec_result list \<Rightarrow> bool" where
  "ordered str lo [] \<longleftrightarrow> True"
| "ordered str lo (r # rs) \<longleftrightarrow>
     lo \<le> er_index r \<and> match_at str r \<and> ordered str (er_index r + length (er_match r)) rs"

lemma ordered_mono: "ordered str hi rs \<Longrightarrow> lo \<le> hi \<Longrightarrow> ordered str lo rs"
  by (cases rs) auto

lemma js_all_ordered: "ordered str (lastIndex re) (fst (js_all re str))"
proof (induction re str rule: js_all.induct)
  case (1 re str)
  show ?case
  proof (cases "js_exec re str")
    case (Pair ro re')
    show ?thesis
    proof (cases ro)
      case None
      with Pair show ?thesis
        by (simp add: js_all.simps [of re])
    next
      case (Some r)
      define re2 where "re2 = (if er_match r = [] then re'\<lparr>lastIndex := Suc (lastIndex re')\<rparr> else re')"
      have ex: "js_exec re str = (Some r, re')"
        using Pair Some by simp
      have "ordered str (lastIndex re2) (fst (js_all re2 str))"
        using "1.IH" [OF ex [symmetric]] by (simp add: re2_def)
      then have "ordered str (er_index r + length (er_match r)) (fst (js_all re2 str))"
        by (rule ordered_mono) (simp add: re2_def js_exec_Some(4) [OF ex])
      moreover have "fst (js_all re str) = r # fst (js_all re2 str)"
        by (subst js_all.simps) (simp add: ex re2_def case_prod_beta)
      ultimately show ?thesis
        using js_exec_Some(1,2) [OF ex] by simp
    qed
  qed
qed

lemma js_all_lastIndex: "snd (js_all re str) = re\<lparr>lastIndex := 0\<rparr>"
proof (induction re str rule: js_all.induct)
  case (1 re str)
  show ?case
  proof (cases "js_exec re str")
    case (Pair ro re')
    with 1 show ?thesis
      by (cases ro) (auto simp: js_all.simps [of re] case_prod_beta dest!: js_exec_None dest: js_exec_Some(4))
  qed
qed


lemma replace_loop_id:
  "\<forall>r \<in> set rs. match_at str r \<Longrightarrow> replace_loop n fd_match str count nxt rs = drop nxt str"
proof (induction rs arbitrary: count nxt)
  case (Cons r rs)
  show ?case
  proof (cases "nxt \<le> er_index r")
    case True
    have m: "er_match r = take (length (er_match r)) (drop (er_index r) str)"
      using Cons.prems by (simp add: match_at_def)
    have "drop nxt str = take (er_index r - nxt) (drop nxt str) @ drop (er_index r) str"
      using True append_take_drop_id [of "er_index r - nxt" "drop nxt str"] by simp
    also have "drop (er_index r) str = er_match r @ drop (er_index r + length (er_match r)) str"
      using append_take_drop_id [of "length (er_match r)" "drop (er_index r) str"] m
      by (simp add: add.commute)
    finally show ?thesis
      using Cons True by (simp add: jsReplacer_def found_def)
  next
    case False
    with Cons show ?thesis
      by simp
  qed
qed simp

lemma ordered_match_at: "ordered str lo rs \<Longrightarrow> r \<in> set rs \<Longrightarrow> match_at str r"
  by (induction rs arbitrary: lo) auto

text \<open>The matches that \<^verbatim>\<open>find\<close> reports, numbered from \<open>k + 1\<close>.\<close>

lemma find_loop_ordered:
  "\<exists>rs. fst (find_loop n k prev re str) = map (\<lambda>(j, r). found (k + 1 + int j) r) (enumerate 0 rs) \<and>
    ordered str (lastIndex re) rs"
proof (induction n k prev re str rule: find_loop.induct)
  case (1 n k prev re str)
  show ?case
  proof (cases "\<exists>r re'. below k n \<and> js_exec re str = (Some r, re') \<and> prev \<noteq> int (lastIndex re')")
    case False
    then have "fst (find_loop n k prev re str) = []"
      by (subst find_loop.simps) (auto split: option.splits prod.splits)
    then show ?thesis
      by (auto intro: exI [of _ "[]"])
  next
    case True
    then obtain r re' where ex: "js_exec re str = (Some r, re')"
      and b: "\<not> \<not> below k n" "prev \<noteq> int (lastIndex re')"
      by blast
    obtain rs where rs: "fst (find_loop n (k + 1) (int (lastIndex re')) re' str) =
        map (\<lambda>(j, r). found (k + 1 + 1 + int j) r) (enumerate 0 rs)" "ordered str (lastIndex re') rs"
      using "1.IH" [OF b(1) ex [symmetric] refl b(2)] by blast
    have "fst (find_loop n k prev re str) = found (k + 1) r # fst (find_loop n (k + 1) (int (lastIndex re')) re' str)"
      using b by (subst find_loop.simps) (simp add: ex case_prod_beta)
    also have "\<dots> = map (\<lambda>(j, r). found (k + 1 + int j) r) (enumerate 0 (r # rs))"
      unfolding rs(1) by (simp add: enumerate_Suc_eq comp_def case_prod_beta algebra_simps)
    finally show ?thesis
      using js_exec_Some [OF ex] rs(2) by (intro exI [of _ "r # rs"]) simp
  qed
qed

lemma find_loop_regexp: "snd (find_loop n k prev re str)\<lparr>lastIndex := i\<rparr> = re\<lparr>lastIndex := i\<rparr>"
proof (induction n k prev re str rule: find_loop.induct)
  case (1 n k prev re str)
  show ?case
  proof (cases "\<exists>r re'. below k n \<and> js_exec re str = (Some r, re') \<and> prev \<noteq> int (lastIndex re')")
    case False
    then show ?thesis
      by (subst find_loop.simps) (auto dest: js_exec_None js_exec_Some(4) split: option.splits prod.splits)
  next
    case True
    then obtain r re' where ex: "js_exec re str = (Some r, re')"
      and b: "\<not> \<not> below k n" "prev \<noteq> int (lastIndex re')"
      by blast
    from "1.IH" [OF b(1) ex [symmetric] refl b(2)] show ?thesis
      using b by (subst find_loop.simps) (simp add: ex case_prod_beta js_exec_Some(4) [OF ex])
  qed
qed

lemma find_loop_limit: "length (fst (find_loop (Some m) k prev re str)) \<le> nat (m - k)"
proof (induction "Some m" k prev re str rule: find_loop.induct)
  case (1 k prev re str)
  then show ?case
    by (subst find_loop.simps) (fastforce split: option.splits prod.splits)
qed

lemma rx_scan_index: "rx_scan ic r n i s = Some res \<Longrightarrow> i \<le> er_index res"
  by (induction ic r n i s rule: rx_scan.induct) (fastforce split: list.splits)+

lemma rx_scan_restart:
  "rx_scan ic r n i s = Some res \<Longrightarrow> rx_scan ic r n (er_index res) (drop (er_index res - i) s) = Some res"
proof (induction ic r n i s rule: rx_scan.induct)
  case (2 ic r n i c cs)
  show ?case
  proof (cases "rx_match ic r \<lparr>rx_pos = i, rx_rest = c # cs, rx_caps = replicate n None\<rparr>")
    case Nil
    with "2.prems" have sc: "rx_scan ic r n (Suc i) cs = Some res"
      by simp
    with rx_scan_index [OF this] "2.IH" [OF Nil] show ?thesis
      by (simp add: drop_Cons' )
  next
    case (Cons y ys)
    with "2.prems" show ?thesis
      by auto
  qed
qed (auto split: list.splits)

text \<open>\<^verbatim>\<open>exec\<close> after an empty match finds the same match again.\<close>

lemma js_exec_again:
  assumes "js_exec re str = (Some r, re')" "er_match r = []"
  shows "js_exec re' str = (Some r, re')"
proof -
  have li: "lastIndex re \<le> length str" and i: "lastIndex re \<le> er_index r" "er_index r \<le> length str"
    and re': "re' = re\<lparr>lastIndex := er_index r\<rparr>"
    using js_exec_Some [OF assms(1)] assms(2) by auto
  have "rx_scan (ignoreCase re) (re_prog re) (re_groups re) (lastIndex re) (drop (lastIndex re) str) = Some r"
    using assms(1) li by (auto simp: js_exec_def split: option.splits)
  from rx_scan_restart [OF this] i show ?thesis
    by (simp add: js_exec_def re' assms(2))
qed

lemma find_loop_empty_last:
  "Suc j < length (fst (find_loop n k prev re str)) \<Longrightarrow> fd_match (fst (find_loop n k prev re str) ! j) \<noteq> []"
proof (induction n k prev re str arbitrary: j rule: find_loop.induct)
  case (1 n k prev re str)
  have "fst (find_loop n k prev re str) \<noteq> []"
    using "1.prems" by auto
  then obtain r re' where ex: "js_exec re str = (Some r, re')"
    and b: "\<not> \<not> below k n" "prev \<noteq> int (lastIndex re')"
    by (subst (asm) find_loop.simps) (auto split: if_splits option.splits prod.splits)
  have out: "fst (find_loop n k prev re str) = found (k + 1) r # fst (find_loop n (k + 1) (int (lastIndex re')) re' str)"
    using b by (subst find_loop.simps) (simp add: ex case_prod_beta)
  show ?case
  proof (cases j)
    case 0
    have False if "er_match r = []"
      using "1.prems" 0 unfolding out
      by (subst (asm) find_loop.simps) (simp add: js_exec_again [OF ex that])
    with 0 show ?thesis
      by (auto simp: out found_def)
  next
    case (Suc i)
    with "1.IH" [OF b(1) ex [symmetric] refl b(2), of i] "1.prems" show ?thesis
      by (simp add: out)
  qed
qed


subsection \<open>Splitting\<close>

lemma literal_exec_match:
  "rx_scan False (seq_rx (map rx_char p)) n i s = Some r \<Longrightarrow> er_match r = p"
  by (induction False "seq_rx (map rx_char p)" n i s rule: rx_scan.induct)
    (auto simp: rx_match_literal split: if_splits list.splits elim!: prefixE simp del: prefix_Cons)

lemma split_loop_join:
  assumes "re_prog re = seq_rx (map rx_char p)" "\<not> ignoreCase re" "start \<le> length str" "0 \<le> k"
    "lastIndex re = start"
  shows "\<exists>out re'. split_loop k start re str = Some (out, re') \<and> js_join p out = drop start str \<and>
    out \<noteq> [] \<and> length out \<le> Suc (nat k) \<and> re'\<lparr>lastIndex := i\<rparr> = re\<lparr>lastIndex := i\<rparr>"
  using assms
proof (induction "nat k" arbitrary: k start re)
  case 0
  then show ?case
    by (subst split_loop.simps) simp
next
  case (Suc m)
  show ?case
  proof (cases "js_exec re str")
    case (Pair ro re')
    show ?thesis
    proof (cases ro)
      case None
      with Pair Suc.prems Suc.hyps(2) js_exec_None [of re str re'] show ?thesis
        by (subst split_loop.simps) simp
    next
      case (Some r)
      with Pair have ex: "js_exec re str = (Some r, re')"
        by simp
      note r = js_exec_Some [OF ex]
      have "er_match r = p"
        using ex Suc.prems r(5) by (auto simp: js_exec_def split: option.splits dest: literal_exec_match)
      moreover obtain out re'' where out: "split_loop (k - 1) (lastIndex re') re' str = Some (out, re'')"
        "js_join p out = drop (lastIndex re') str" "out \<noteq> []" "length out \<le> Suc (nat (k - 1))"
        "re''\<lparr>lastIndex := i\<rparr> = re'\<lparr>lastIndex := i\<rparr>"
      proof -
        have "\<exists>out re''. split_loop (k - 1) (lastIndex re') re' str = Some (out, re'') \<and>
          js_join p out = drop (lastIndex re') str \<and> out \<noteq> [] \<and> length out \<le> Suc (nat (k - 1)) \<and>
          re''\<lparr>lastIndex := i\<rparr> = re'\<lparr>lastIndex := i\<rparr>"
          by (rule Suc.hyps(1)) (use Suc.hyps(2) Suc.prems r in auto)
        then show ?thesis
          using that by blast
      qed
      moreover have "take (er_index r - start) (drop start str) @ er_match r @ drop (er_index r + length (er_match r)) str
        = drop start str"
        using replace_loop_id [of "[r]" str None 0 start] r(1,2) Suc.prems(5)
        by (simp add: jsReplacer_def found_def)
      ultimately show ?thesis
        using Suc.prems Suc.hyps(2) r by (subst split_loop.simps) (auto simp: ex js_join_Cons)
    qed
  qed
qed

lemma split_re_literal:
  assumes "p \<noteq> []" "a \<le> b" "b \<le> length str"
  shows "js_split_re (rx_global (seq_rx (map rx_char p)) 0) str a b =
    map Some (js_split_loop p (rev (take (b - a) (drop a str))) (drop b str))"
  using assms(2,3)
proof (induction "length str - b" arbitrary: a b rule: less_induct)
  case less
  show ?case
  proof (cases "b = length str")
    case True
    with less.prems show ?thesis
      by (subst js_split_re.simps) simp
  next
    case False
    then have b: "b < length str" and d: "drop b str = str ! b # drop (Suc b) str"
      using less.prems by (simp_all add: Cons_nth_drop_Suc)
    show ?thesis
    proof (cases "prefix p (drop b str)")
      case True
      then have le: "b + length p \<le> length str" "0 < length p"
        using b assms(1) by (auto dest!: prefix_length_le)
      have "js_split_re (rx_global (seq_rx (map rx_char p)) 0) str (b + length p) (b + length p) =
        map Some (js_split_loop p [] (drop (b + length p) str))"
        using less.hyps [of "b + length p" "b + length p"] b le
        by (simp add: diff_less_mono2 del: length_greater_0_conv)
      with less.prems b True assms(1) show ?thesis
        by (subst js_split_re.simps, subst d, subst js_split_loop.simps)
          (auto simp: rx_match_literal d [symmetric] add.commute)
    next
      case False
      have "take (Suc b - a) (drop a str) = take (b - a) (drop a str) @ [str ! b]"
        using less.prems b by (simp add: Suc_diff_le take_Suc_conv_app_nth)
      with less.hyps [of "Suc b" a] less.prems b False show ?thesis
        by (subst js_split_re.simps, subst d, subst js_split_loop.simps)
          (auto simp: rx_match_literal d [symmetric])
    qed
  qed
qed

lemma split_loop_Some:
  assumes "split_loop n start re str = Some y"
  shows "n < 0 \<longrightarrow> (\<forall>r. js_exec re str \<noteq> (Some r, re))"
proof (rule split_loop.raw_induct
    [where P = "\<lambda>n start re str y. n < 0 \<longrightarrow> (\<forall>r. js_exec re str \<noteq> (Some r, re))", OF _ assms])
  fix sl and n :: int and start re str y
  assume IH: "\<And>n start re str y. sl n start re str = Some y \<Longrightarrow>
      n < 0 \<longrightarrow> (\<forall>r. js_exec re str \<noteq> (Some r, re))"
    and eq: "(if n = 0 then Some ([js_slice (int start) (int (length str)) str], re)
      else
        case js_exec re str of
          (None, re') \<Rightarrow> Some ([js_slice (int start) (int (length str)) str], re')
        | (Some r, re') \<Rightarrow>
            Option.bind (sl (n - 1) (lastIndex re') re' str) (\<lambda>(out, re'').
              Some (js_slice (int start) (int (er_index r)) str # out, re''))) = Some y"
  show "n < 0 \<longrightarrow> (\<forall>r. js_exec re str \<noteq> (Some r, re))"
  proof (intro impI allI notI)
    fix r
    assume n: "n < 0" and ex: "js_exec re str = (Some r, re)"
    obtain y' where "sl (n - 1) (lastIndex re) re str = Some y'"
      using eq n unfolding ex by (cases "sl (n - 1) (lastIndex re) re str") (auto split: if_splits)
    with IH [of "n - 1" "lastIndex re" re str y'] n ex show False
      by simp
  qed
qed

lemma split_loop_diverges:
  "js_exec re str = (Some r, re) \<Longrightarrow> n < 0 \<Longrightarrow> split_loop n start re str = None"
  using split_loop_Some by (cases "split_loop n start re str") auto


subsection \<open>Properties of the file\<close>

lemma js_all_literal_nonempty:
  "fst (js_all (rx_global (seq_rx (map rx_char s)) 0) str) \<noteq> [] \<longleftrightarrow> sublist s str"
proof -
  have sc: "rx_scan False (seq_rx (map rx_char s)) 0 i t = None \<longleftrightarrow> \<not> sublist s t" for i t
    by (induction t arbitrary: i) (auto simp: rx_match_literal sublist_Cons_right split: list.splits)
  have "fst (js_all (rx_global (seq_rx (map rx_char s)) 0) str) = [] \<longleftrightarrow>
    rx_scan False (seq_rx (map rx_char s)) 0 0 str = None"
    by (subst js_all.simps) (auto simp: js_exec_def case_prod_beta split: option.splits)
  with sc [of 0 str] show ?thesis
    by simp
qed

text \<open>
  An escaped string is a valid pattern, and it matches exactly that string: \<^verbatim>\<open>contains\<close> finds it
  where it is a substring.
\<close>

theorem Regex_escape_correct:
  "\<exists>re. regex (escape s) = Inr re \<and> (fst (Regex_contains re str) \<longleftrightarrow> sublist s str)"
  using js_all_literal_nonempty [of s str]
  by (intro exI [of _ "rx_global (seq_rx (map rx_char s)) 0"])
    (simp add: regex_escape Regex_contains_def case_prod_beta)

text \<open>
  What \<^verbatim>\<open>find\<close> reports: the matches are substrings of the input at the indices given, from left
  to right and without overlap, numbered from 1, and at most as many as asked for; the regular
  expression is left as it was.
\<close>

fun found_ordered :: "string \<Rightarrow> int \<Rightarrow> rx_found list \<Rightarrow> bool" where
  "found_ordered str lo [] \<longleftrightarrow> True"
| "found_ordered str lo (m # ms) \<longleftrightarrow>
     lo \<le> fd_index m \<and> fd_index m + int (length (fd_match m)) \<le> int (length str) \<and>
     fd_match m = take (length (fd_match m)) (drop (nat (fd_index m)) str) \<and>
     found_ordered str (fd_index m + int (length (fd_match m))) ms"

lemma found_ordered_map:
  "ordered str lo rs \<Longrightarrow>
   found_ordered str (int lo) (map (\<lambda>(j, r). found (k + int j) r) (enumerate i rs))"
  by (induction rs arbitrary: lo i) (auto simp: match_at_def found_def simp flip: of_nat_add)

theorem Regex_find_sound:
  "snd (Regex_find n re str) = re \<and>
   found_ordered str (int (lastIndex re)) (fst (Regex_find n re str)) \<and>
   map fd_number (fst (Regex_find n re str)) = map int [1..<Suc (length (fst (Regex_find n re str)))] \<and>
   (\<forall>k. n = AtMost k \<longrightarrow> length (fst (Regex_find n re str)) \<le> nat k)"
proof -
  obtain rs where rs: "fst (find_loop (limit n) 0 (- 1) re str) =
      map (\<lambda>(j, r). found (0 + 1 + int j) r) (enumerate 0 rs)" "ordered str (lastIndex re) rs"
    using find_loop_ordered by blast
  have "map fd_number (map (\<lambda>(j, r). found (1 + int j) r) (enumerate 0 rs)) = map int [1..<Suc (length rs)]"
    by (rule nth_equalityI) (simp_all add: found_def nth_enumerate_eq del: upt_Suc)
  with rs found_ordered_map [OF rs(2), of 1 0] find_loop_limit [of _ 0 "- 1" re str]
    find_loop_regexp [where n = "limit n" and k = 0 and prev = "- 1" and re = re and str = str
      and i = "lastIndex re"]
  show ?thesis
    by (auto simp: Regex_find_def case_prod_beta elm_simps simp del: upt_Suc)
qed

text \<open>
  An empty match ends the search: \<^verbatim>\<open>find\<close> reports nothing after the first empty match.
\<close>

theorem Regex_find_empty_last:
  "\<forall>j. Suc j < length (fst (Regex_find n re str)) \<longrightarrow> fd_match (fst (Regex_find n re str) ! j) \<noteq> []"
  using find_loop_empty_last [of _ "limit n" 0 "-1" re str]
  by (simp add: Regex_find_def case_prod_beta elm_simps)

text \<open>
  Replacing every match by itself gives the string back, whatever the pattern and the limit.
\<close>

theorem Regex_replace_identity:
  "Regex_replace n re fd_match str = (str, re\<lparr>lastIndex := 0\<rparr>)"
  using replace_loop_id [of "fst (js_all (re\<lparr>lastIndex := 0\<rparr>) str)" str "limit n" 0 0]
    js_all_ordered [of str "re\<lparr>lastIndex := 0\<rparr>"] js_all_lastIndex [of "re\<lparr>lastIndex := 0\<rparr>" str]
  by (simp add: Regex_replace_def case_prod_beta ordered_match_at)

text \<open>
  Splitting at a literal: with \<^verbatim>\<open>All\<close> the pieces are those of \<^verbatim>\<open>String.split\<close>; with \<^verbatim>\<open>AtMost k\<close>
  there are at most \<open>k + 1\<close>, and joining them with the literal gives the string back. This is claim C33.
\<close>

theorem Regex_split_literal:
  assumes "p \<noteq> []" and "0 \<le> k"
  shows "\<exists>re pieces. regex (escape p) = Inr re \<and>
    Regex_split All re str = Some (map Some (NString_split p str), re) \<and>
    Regex_split (AtMost k) re str = Some (map Some pieces, re) \<and>
    NString_join p pieces = str \<and> length pieces \<le> Suc (nat k)"
proof -
  let ?re = "rx_global (seq_rx (map rx_char p)) 0"
  obtain out re' where out: "split_loop k 0 ?re str = Some (out, re')" "js_join p out = str"
    "length out \<le> Suc (nat k)" "re'\<lparr>lastIndex := 0\<rparr> = ?re"
    using split_loop_join [of ?re p 0 str k 0] assms(2) by auto
  have "\<not> prefix p []"
    using assms(1) by simp
  with assms out split_re_literal [of p 0 0 str] show ?thesis
    by (intro exI [of _ ?re] exI [of _ out])
      (auto simp: regex_escape Regex_split_def rx_match_literal js_split_def elm_simps)
qed

theorem Regex_split_literal_witness:
  "\<exists>re pieces. regex (escape ''.'') = Inr re \<and>
    Regex_split All re ''a.b.c'' = Some (map Some (NString_split ''.'' ''a.b.c''), re) \<and>
    Regex_split (AtMost 1) re ''a.b.c'' = Some (map Some pieces, re) \<and>
    NString_join ''.'' pieces = ''a.b.c'' \<and> length pieces \<le> Suc (nat 1)"
  using Regex_split_literal [of "''.''" 1 "''a.b.c''"] by simp


lemma exec_empty_pattern:
  "js_exec (rx_global REmpty 0) str =
   (Some \<lparr>er_index = 0, er_match = [], er_subs = []\<rparr>, rx_global REmpty 0)"
  by (cases str) (simp_all add: js_exec_def)

lemma split_loop_empty:
  "split_loop (int k) 0 (rx_global REmpty 0) str = Some (replicate k [] @ [str], rx_global REmpty 0)"
proof (induction k)
  case 0
  show ?case
    by (subst split_loop.simps) (simp add: js_slice_prefix)
next
  case (Suc k)
  have "js_slice 0 0 str = []"
    by (simp add: js_slice_prefix)
  with Suc show ?case
    by (subst split_loop.simps) (simp add: exec_empty_pattern)
qed

lemma split_re_empty:
  "p \<le> length str \<Longrightarrow> js_split_re (rx_global REmpty 0) str p (Suc p) =
   (if drop p str = [] then [Some []] else map (\<lambda>c. Some [c]) (drop p str))"
proof (induction "length str - p" arbitrary: p)
  case 0
  then show ?case
    by (subst js_split_re.simps) simp
next
  case (Suc m)
  then have d: "drop p str = str ! p # drop (Suc p) str"
    by (simp add: Cons_nth_drop_Suc)
  show ?case
  proof (cases "Suc p = length str")
    case True
    then show ?thesis
      by (subst js_split_re.simps) (simp add: d)
  next
    case False
    then have lt: "Suc p < length str"
      using Suc.hyps(2) by simp
    then have "js_split_re (rx_global REmpty 0) str (Suc p) (Suc p) = js_split_re (rx_global REmpty 0) str (Suc p) (Suc (Suc p))"
      by (subst js_split_re.simps) simp
    moreover have "js_split_re (rx_global REmpty 0) str (Suc p) (Suc (Suc p)) = map (\<lambda>c. Some [c]) (drop (Suc p) str)"
      using Suc.hyps(1) [of "Suc p"] Suc.hyps(2) lt by simp
    ultimately show ?thesis
      using lt by (subst js_split_re.simps) (simp add: d)
  qed
qed

text \<open>
  Splitting at the empty pattern: \<^verbatim>\<open>All\<close> gives the characters of the string, but \<^verbatim>\<open>AtMost k\<close> gives
  \<open>k\<close> empty strings and the whole string, and a negative limit never returns.
\<close>

theorem Regex_split_empty_pattern:
  "\<exists>re. regex [] = Inr re \<and>
    Regex_split All re str = Some (map (\<lambda>c. Some [c]) str, re) \<and>
    Regex_split (AtMost (int k)) re str = Some (map Some (replicate k [] @ [str]), re) \<and>
    Regex_split (AtMost (- int (Suc k))) re str = None"
proof -
  have "js_split_re (rx_global REmpty 0) str 0 0 = map (\<lambda>c. Some [c]) str" if "str \<noteq> []"
    using that split_re_empty [of 0 str] by (subst js_split_re.simps) simp
  moreover have "split_loop (- int (Suc k)) 0 (rx_global REmpty 0) str = None"
    by (rule split_loop_diverges [OF exec_empty_pattern]) simp
  ultimately show ?thesis
    by (intro exI [of _ "rx_global REmpty 0"])
      (auto simp: regex_def rx_of_def Regex_split_def split_loop_empty elm_simps)
qed

end
