(* ===== verification/Elm_Utils.thy ===== *)
theory Elm_Utils
  imports Elm_String "HOL-Library.List_Lexorder"
begin

text \<open>
  \<^verbatim>\<open>Native/Utils.js\<close>: structured comparison, list append, and the escaping of strings by
  \<^verbatim>\<open>toString\<close>. The comparison of lists and tuples is parameterised by the comparison of their
  elements, which is how the recursive calls of \<^verbatim>\<open>cmp\<close> are typed in Elm.
\<close>

subsection \<open>Comparison of lists and tuples\<close>

text \<open>The \<^verbatim>\<open>while\<close> loop of \<^verbatim>\<open>cmp\<close> over two lists, and the branch after it.\<close>

fun cmp_list :: "('a \<Rightarrow> 'a \<Rightarrow> int) \<Rightarrow> 'a list \<Rightarrow> 'a list \<Rightarrow> int" where
  "cmp_list c (x # xs) (y # ys) = (let r = c x y in if r \<noteq> 0 then r else cmp_list c xs ys)"
| "cmp_list c [] [] = 0"
| "cmp_list c [] (_ # _) = -1"
| "cmp_list c (_ # _) [] = 1"

text \<open>
  The nested conditionals over the fields of a tuple; the argument holds the comparison results
  of the fields in order. A seventh field that is reached throws.
\<close>

definition tuple_error :: js_error where
  "tuple_error = JsError ''Comparison error: cannot compare tuples with more than 6 elements.''"

definition cmp_tuple :: "int list \<Rightarrow> int result" where
  "cmp_tuple ords =
     (case dropWhile (\<lambda>r. r = 0) (take 6 ords) of
        r # _ \<Rightarrow> Inr r
      | [] \<Rightarrow> if length ords \<ge> 7 then Inl tuple_error else Inr 0)"

definition cmp_pair :: "('a \<Rightarrow> 'a \<Rightarrow> int) \<Rightarrow> ('b \<Rightarrow> 'b \<Rightarrow> int) \<Rightarrow> 'a \<times> 'b \<Rightarrow> 'a \<times> 'b \<Rightarrow> int" where
  "cmp_pair c d x y =
     (case cmp_tuple [c (fst x) (fst y), d (snd x) (snd y)] of Inr r \<Rightarrow> r | Inl _ \<Rightarrow> 0)"

text \<open>
  The contract of a three-way comparison, which is what \<^verbatim>\<open>Dict\<close>, \<^verbatim>\<open>List.sort\<close> and the
  operators of \<^verbatim>\<open>Basics\<close> rely on: the sign decides a linear order.
\<close>

locale comparable =
  fixes c :: "'a \<Rightarrow> 'a \<Rightarrow> int"
  assumes range: "c x y \<in> {-1, 0, 1}"
    and zero_eq: "c x y = 0 \<longleftrightarrow> x = y"
    and flip: "c y x = - c x y"
    and trans: "c x y = -1 \<Longrightarrow> c y z = -1 \<Longrightarrow> c x z = -1"
begin

lemma refl [simp]: "c x x = 0"
  by (simp add: zero_eq)

lemma total: "c x y = -1 \<or> x = y \<or> c y x = -1"
  using range [of x y] zero_eq [of x y] flip [of x y] by auto

lemma list_zero_eq: "cmp_list c xs ys = 0 \<longleftrightarrow> xs = ys"
proof (induction xs arbitrary: ys)
  case (Cons x xs)
  then show ?case by (cases ys) (auto simp: Let_def zero_eq)
next
  case Nil
  then show ?case by (cases ys) auto
qed

lemma list_range: "cmp_list c xs ys \<in> {-1, 0, 1}"
proof (induction xs arbitrary: ys)
  case (Cons x xs)
  then show ?case using range [of x "hd ys"] by (cases ys) (auto simp: Let_def)
next
  case Nil
  then show ?case by (cases ys) auto
qed

lemma list_flip: "cmp_list c ys xs = - cmp_list c xs ys"
proof (induction xs arbitrary: ys)
  case (Cons x xs)
  then show ?case using flip [of "hd ys" x] by (cases ys) (auto simp: Let_def)
next
  case Nil
  then show ?case by (cases ys) auto
qed

lemma list_trans: "cmp_list c xs ys = -1 \<Longrightarrow> cmp_list c ys zs = -1 \<Longrightarrow> cmp_list c xs zs = -1"
proof (induction xs arbitrary: ys zs)
  case Nil
  then show ?case by (cases ys; cases zs) auto
next
  case (Cons x xs)
  then obtain y ys' where ys: "ys = y # ys'" by (cases ys) auto
  then obtain z zs' where zs: "zs = z # zs'" using Cons.prems(2) by (cases zs) auto
  consider "x = y" "y = z" | "x = y" "c y z = -1" | "c x y = -1" "y = z" | "c x y = -1" "c y z = -1"
    using Cons.prems by (fastforce simp: ys zs Let_def zero_eq split: if_splits)
  then show ?case using Cons by cases (auto simp: ys zs Let_def dest: trans)
qed

end

lemma cmp_pair_eq: "cmp_pair c d x y = (if c (fst x) (fst y) \<noteq> 0 then c (fst x) (fst y) else d (snd x) (snd y))"
  by (simp add: cmp_pair_def cmp_tuple_def)

locale comparable_pair = l: comparable c + r: comparable d
  for c :: "'a \<Rightarrow> 'a \<Rightarrow> int" and d :: "'b \<Rightarrow> 'b \<Rightarrow> int"
begin

lemma pair_trans:
  assumes "cmp_pair c d x y = -1" "cmp_pair c d y z = -1"
  shows "cmp_pair c d x z = -1"
proof -
  consider "fst x = fst y" "fst y = fst z" | "fst x = fst y" "c (fst y) (fst z) = -1"
    | "c (fst x) (fst y) = -1" "fst y = fst z" | "c (fst x) (fst y) = -1" "c (fst y) (fst z) = -1"
    using assms by (fastforce simp: cmp_pair_eq l.zero_eq split: if_splits)
  then show ?thesis using assms
    by cases (auto simp: cmp_pair_eq dest: l.trans r.trans)
qed

end

sublocale comparable_pair \<subseteq> pair: comparable "cmp_pair c d"
proof unfold_locales
  show "cmp_pair c d x y \<in> {-1, 0, 1}" for x y
    using l.range [of "fst x" "fst y"] r.range [of "snd x" "snd y"] by (auto simp: cmp_pair_eq)
  show "cmp_pair c d x y = 0 \<longleftrightarrow> x = y" for x y
    by (auto simp: cmp_pair_eq l.zero_eq r.zero_eq prod_eq_iff)
  show "cmp_pair c d y x = - cmp_pair c d x y" for x y
    using l.flip [of "fst y" "fst x"] r.flip [of "snd y" "snd x"] by (auto simp: cmp_pair_eq)
qed (rule pair_trans)

interpretation prim: comparable "cmp :: 'a::linorder \<Rightarrow> 'a \<Rightarrow> int"
  by unfold_locales (auto simp: cmp_def split: if_splits)

interpretation prim_list: comparable "cmp_list (cmp :: 'a::linorder \<Rightarrow> 'a \<Rightarrow> int)"
  by unfold_locales (rule prim.list_range prim.list_zero_eq prim.list_flip prim.list_trans; assumption)+

interpretation prim_pair:
  comparable_pair "cmp :: 'a::linorder \<Rightarrow> 'a \<Rightarrow> int" "cmp :: 'b::linorder \<Rightarrow> 'b \<Rightarrow> int"
  by unfold_locales

text \<open>
  Comparing lists elementwise, as the runtime does, decides the lexicographic order: on every
  comparable element type the loop agrees with the order Elm documents.
\<close>

theorem cmp_list_lexicographic:
  "cmp_list cmp xs ys = (if xs = ys then 0 else if xs < ys then -1 else 1)"
proof (induction xs arbitrary: ys)
  case (Cons x xs)
  show ?case
  proof (cases ys)
    case (Cons y ys')
    then show ?thesis using Cons.IH [of ys'] by (auto simp: cmp_def Let_def)
  qed simp
next
  case Nil
  then show ?case by (cases ys) auto
qed

text \<open>
  Comparison of pairs of comparables is a linear order in the sense the dictionaries need: it
  is antisymmetric, transitive, and zero exactly on equal pairs.
\<close>

theorem cmp_pair_linear:
  "(cmp_pair cmp cmp x y = 0 \<longleftrightarrow> x = y) \<and> cmp_pair cmp cmp y x = - cmp_pair cmp cmp x y \<and>
   (cmp_pair cmp cmp x y = -1 \<and> cmp_pair cmp cmp y z = -1 \<longrightarrow> cmp_pair cmp cmp x z = -1)"
  by (intro conjI impI prim_pair.pair.zero_eq prim_pair.pair.flip) (erule conjE, rule prim_pair.pair.trans)

theorem cmp_pair_linear_witness:
  "cmp_pair cmp cmp (1::int, 2::int) (1, 3) = -1 \<and> cmp_pair cmp cmp (1::int, 3::int) (2, 0) = -1 \<and>
   cmp_pair cmp cmp (1::int, 2::int) (2, 0) = -1"
  using cmp_pair_linear [of "(1::int, 2::int)" "(1, 3)" "(2, 0)"]
  by (simp add: cmp_pair_eq cmp_def)

subsection \<open>Lists and crashes\<close>

text \<open>The loop of \<^verbatim>\<open>append\<close> that copies the first list; \<open>root\<close> is the copy so far.\<close>

fun append_loop :: "'a list \<Rightarrow> 'a list \<Rightarrow> 'a list" where
  "append_loop root [] = root"
| "append_loop root (x # xs) = append_loop (root @ [x]) xs"

definition Utils_append :: "'a list \<Rightarrow> 'a list \<Rightarrow> 'a list" where
  "Utils_append xs ys = (case xs of [] \<Rightarrow> ys | x # xs \<Rightarrow> append_loop [x] xs @ ys)"

lemma append_loop_eq: "append_loop root xs = root @ xs"
  by (induction root xs rule: append_loop.induct) auto

lemma Utils_append_eq [elm_simps]: "Utils_append xs ys = xs @ ys"
  by (simp add: Utils_append_def append_loop_eq split: list.split)

record region =
  start_line :: int
  end_line :: int

definition regionToString :: "region \<Rightarrow> string" where
  "regionToString region =
     (if start_line region = end_line region then ''on line '' @ show_int (start_line region)
      else ''between lines '' @ show_int (start_line region) @ '' and '' @ show_int (end_line region))"

definition newline :: string where
  "newline = [CHR 0x0A]"

definition Utils_crash :: "string \<Rightarrow> region \<Rightarrow> string \<Rightarrow> 'a result" where
  "Utils_crash moduleName region message =
     Inl (JsError (''Ran into a `Debug.crash` in module `'' @ moduleName @ ''` '' @
       regionToString region @ newline @ ''The message provided by the code author is:'' @ newline @
       newline @ ''    '' @ message))"

text \<open>\<open>value\<close> is the offending value as \<^verbatim>\<open>toString\<close> prints it.\<close>

definition Utils_crashCase :: "string \<Rightarrow> region \<Rightarrow> string \<Rightarrow> string \<Rightarrow> 'a result" where
  "Utils_crashCase moduleName region value message =
     Inl (JsError (''Ran into a `Debug.crash` in module `'' @ moduleName @ ''`'' @ newline @ newline @
       ''This was caused by the `case` expression '' @ regionToString region @ ''.'' @ newline @
       ''One of the branches ended with a crash and the following value got through:'' @
       newline @ newline @ ''    '' @ value @ newline @ newline @
       ''The message provided by the code author is:'' @ newline @ newline @ ''    '' @ message))"

subsection \<open>Escaping\<close>

definition js_replaceAll :: "char \<Rightarrow> string \<Rightarrow> string \<Rightarrow> string" where
  "js_replaceAll c r s = concat (map (\<lambda>x. if x = c then r else [x]) s)"

abbreviation (input) backslash :: char where "backslash \<equiv> CHR 0x5C"

abbreviation (input) dquote :: char where "dquote \<equiv> CHR 0x22"

abbreviation (input) squote :: char where "squote \<equiv> CHR 0x27"

definition addSlashes :: "string \<Rightarrow> bool \<Rightarrow> string" where
  "addSlashes str isChar =
     (let s = js_replaceAll (CHR 0x00) [backslash, CHR ''0'']
           (js_replaceAll (CHR 0x0B) [backslash, CHR ''v'']
             (js_replaceAll (CHR 0x0D) [backslash, CHR ''r'']
               (js_replaceAll (CHR 0x09) [backslash, CHR ''t'']
                 (js_replaceAll (CHR 0x0A) [backslash, CHR ''n'']
                   (js_replaceAll backslash [backslash, backslash] str)))))
      in if isChar then js_replaceAll squote [backslash, squote] s
         else js_replaceAll dquote [backslash, dquote] s)"

text \<open>The branches of \<^verbatim>\<open>toString\<close> for strings, characters, numbers and booleans.\<close>

definition toString_string :: "string \<Rightarrow> string" where
  "toString_string v = [dquote] @ addSlashes v False @ [dquote]"

definition toString_char :: "char \<Rightarrow> string" where
  "toString_char v = [squote] @ addSlashes [v] True @ [squote]"

definition toString_number :: "int \<Rightarrow> string" where
  "toString_number v = show_int v"

definition toString_bool :: "bool \<Rightarrow> string" where
  "toString_bool v = (if v then ''True'' else ''False'')"

text \<open>Reading an escaped string back, the specification of the escapes.\<close>

fun unescape :: "string \<Rightarrow> string" where
  "unescape [] = []"
| "unescape [c] = [c]"
| "unescape (c # d # cs) =
     (if c = backslash then
        (if d = CHR ''n'' then CHR 0x0A else if d = CHR ''t'' then CHR 0x09
         else if d = CHR ''r'' then CHR 0x0D else if d = CHR ''v'' then CHR 0x0B
         else if d = CHR ''0'' then CHR 0x00 else d) # unescape cs
      else c # unescape (d # cs))"

lemma js_replaceAll_simps [simp]:
  "js_replaceAll c r [] = []"
  "js_replaceAll c r (x # s) = (if x = c then r else [x]) @ js_replaceAll c r s"
  "js_replaceAll c r (s @ t) = js_replaceAll c r s @ js_replaceAll c r t"
  by (simp_all add: js_replaceAll_def)

lemma addSlashes_append: "addSlashes (s @ t) b = addSlashes s b @ addSlashes t b"
  unfolding addSlashes_def Let_def js_replaceAll_simps(3) by simp

lemma addSlashes_Cons: "addSlashes (x # s) b = addSlashes [x] b @ addSlashes s b"
  using addSlashes_append [of "[x]" s] by simp

lemma addSlashes_Nil [simp]: "addSlashes [] b = []"
  by (simp add: addSlashes_def)

text \<open>The escape of a single character, the composition of the replacements.\<close>

lemma addSlashes_char:
  "addSlashes [x] b =
     (if x = backslash then [backslash, backslash]
      else if x = CHR 0x0A then [backslash, CHR ''n''] else if x = CHR 0x09 then [backslash, CHR ''t'']
      else if x = CHR 0x0D then [backslash, CHR ''r''] else if x = CHR 0x0B then [backslash, CHR ''v'']
      else if x = CHR 0x00 then [backslash, CHR ''0'']
      else if x = (if b then squote else dquote) then [backslash, x] else [x])"
  unfolding addSlashes_def Let_def by (cases b) simp_all

lemma unescape_other: "c \<noteq> backslash \<Longrightarrow> unescape (c # cs) = c # unescape cs"
  by (cases cs) auto

lemma unescape_addSlashes_char: "unescape (addSlashes [x] b @ t) = x # unescape t"
  by (simp add: addSlashes_char unescape_other)

lemma unescape_addSlashes: "unescape (addSlashes s b) = s"
proof (induction s)
  case (Cons x s)
  then show ?case using unescape_addSlashes_char [of x b "addSlashes s b"]
    by (simp add: addSlashes_Cons [of x s])
qed simp

text \<open>Characters that need no escape.\<close>

definition plain :: "char \<Rightarrow> bool" where
  "plain c \<longleftrightarrow> c \<noteq> backslash \<and> c \<noteq> dquote \<and> c \<notin> set [CHR 0x00, CHR 0x09, CHR 0x0A, CHR 0x0B, CHR 0x0D]"

lemma addSlashes_plain: "list_all plain s \<Longrightarrow> addSlashes s False = s"
proof (induction s)
  case (Cons x s)
  then show ?case by (simp add: addSlashes_Cons [of x s] addSlashes_char plain_def)
qed simp

lemma toString_string_inj: "toString_string s = toString_string t \<Longrightarrow> s = t"
  by (metis append_same_eq same_append_eq toString_string_def unescape_addSlashes)

text \<open>
  What \<^verbatim>\<open>toString\<close> prints for a string or a character can be read back: escaping loses nothing,
  so different strings print differently.
\<close>

theorem addSlashes_reversible:
  "unescape (addSlashes str isChar) = str \<and> (toString_string s = toString_string t \<longleftrightarrow> s = t)"
  using unescape_addSlashes toString_string_inj by blast

end
