(* ===== verification/Elm_StringExtra.thy ===== *)
theory Elm_StringExtra
  imports Elm_Regex_Correct Elm_Utils Elm_Bitwise
begin

text \<open>
  The module \<^verbatim>\<open>String.Extra\<close> of \<^verbatim>\<open>dist/Main.js\<close>. A function that builds a regular expression may
  throw and returns a \<open>result\<close>; the patterns are the strings of the source, with the backslash
  written as \<open>bsl\<close>. \<^verbatim>\<open>toUpperCase\<close> and \<^verbatim>\<open>toLowerCase\<close>, the Unicode tables of the engine, are the
  parameters \<open>up\<close> and \<open>lo\<close>. \<^verbatim>\<open>toCodePoints\<close> and \<^verbatim>\<open>fromCodePoints\<close> work on strings given by their
  UTF-16 code units. \<^verbatim>\<open>breaker\<close> need not terminate and has an \<open>option\<close> result.
\<close>

abbreviation bsl :: string where
  "bsl \<equiv> [CHR 0x5C]"

subsection \<open>Accents\<close>

definition accent_matches :: "(string \<times> string) list" where
  "accent_matches =
     [(''['' @ [CHR 0xE0] @ ''-'' @ [CHR 0xE6] @ '']'', ''a''),
      (''['' @ [CHR 0xC0] @ ''-'' @ [CHR 0xC6] @ '']'', ''A''),
      ([CHR 0xE7], ''c''),
      ([CHR 0xC7], ''C''),
      (''['' @ [CHR 0xE8] @ ''-'' @ [CHR 0xEB] @ '']'', ''e''),
      (''['' @ [CHR 0xC8] @ ''-'' @ [CHR 0xCB] @ '']'', ''E''),
      (''['' @ [CHR 0xEC] @ ''-'' @ [CHR 0xEF] @ '']'', ''i''),
      (''['' @ [CHR 0xCC] @ ''-'' @ [CHR 0xCF] @ '']'', ''I''),
      ([CHR 0xF1], ''n''),
      ([CHR 0xD1], ''N''),
      (''['' @ [CHR 0xF2] @ ''-'' @ [CHR 0xF6] @ '']'', ''o''),
      (''['' @ [CHR 0xD2] @ ''-'' @ [CHR 0xD6] @ '']'', ''O''),
      (''['' @ [CHR 0xF9] @ ''-'' @ [CHR 0xFC] @ '']'', ''u''),
      (''['' @ [CHR 0xD9] @ ''-'' @ [CHR 0xDC] @ '']'', ''U''),
      ([CHR 0xFD], ''y''),
      ([CHR 0xFF], ''y''),
      ([CHR 0xDD], ''Y'')]"

text \<open>\<^verbatim>\<open>List.map\<close> of a function that may throw.\<close>

fun map_result :: "('a \<Rightarrow> 'b result) \<Rightarrow> 'a list \<Rightarrow> 'b list result" where
  "map_result f [] = Inr []"
| "map_result f (x # xs) = bindE (f x) (\<lambda>y. bindE (map_result f xs) (\<lambda>ys. Inr (y # ys)))"

definition accentRegex :: "(regexp \<times> string) list result" where
  "accentRegex = map_result (\<lambda>(raw, by). bindE (regex raw) (\<lambda>re. Inr (re, by))) accent_matches"

definition do_regex_to_remove_acents :: "regexp \<times> string \<Rightarrow> string \<Rightarrow> string" where
  "do_regex_to_remove_acents = (\<lambda>(re, by) str. fst (Regex_replace All re (\<lambda>_. by) str))"

definition removeAccents :: "string \<Rightarrow> string result" where
  "removeAccents str =
     (if NString_isEmpty str then Inr str
      else bindE accentRegex (\<lambda>res. Inr (List_foldl do_regex_to_remove_acents str res)))"

definition nonEmpty :: "string \<Rightarrow> string option" where
  "nonEmpty str = (if NString_isEmpty str then None else Some str)"

subsection \<open>Code points\<close>

definition replacementCodePoint :: int where
  "replacementCodePoint = 65533"

fun combineAndReverse :: "int list \<Rightarrow> int list \<Rightarrow> int list" where
  "combineAndReverse [] accumulated = accumulated"
| "combineAndReverse (u # rest) accumulated =
     (if cmp u 0 > -1 \<and> cmp u 55295 < 1 then combineAndReverse rest (u # accumulated)
      else if cmp u 55296 > -1 \<and> cmp u 56319 < 1 then
        (case rest of
           [] \<Rightarrow> replacementCodePoint # accumulated
         | v # rest' \<Rightarrow>
             if cmp v 56320 > -1 \<and> cmp v 57343 < 1
             then combineAndReverse rest' (((65536 + (u - 55296) * 1024) + (v - 56320)) # accumulated)
             else combineAndReverse rest (replacementCodePoint # accumulated))
      else if cmp u 57344 > -1 \<and> cmp u 65535 < 1 then combineAndReverse rest (u # accumulated)
      else combineAndReverse rest (replacementCodePoint # accumulated))"

definition toCodePoints :: "int list \<Rightarrow> int list" where
  "toCodePoints allCodeUnits = List_reverse (combineAndReverse allCodeUnits [])"

fun splitAndReverse :: "int list \<Rightarrow> int list \<Rightarrow> int list" where
  "splitAndReverse [] accumulated = accumulated"
| "splitAndReverse (p # rest) accumulated =
     (if cmp p 0 > -1 \<and> cmp p 55295 < 1 then splitAndReverse rest (p # accumulated)
      else if cmp p 65536 > -1 \<and> cmp p 1114111 < 1 then
        let subtracted = p - 65536;
            leading = shiftRightBy 10 subtracted + 55296;
            trailing = Bitwise_and subtracted 1023 + 56320
        in splitAndReverse rest (trailing # leading # accumulated)
      else if cmp p 57344 > -1 \<and> cmp p 65535 < 1 then splitAndReverse rest (p # accumulated)
      else splitAndReverse rest (replacementCodePoint # accumulated))"

definition fromCodePoints :: "int list \<Rightarrow> int list" where
  "fromCodePoints allCodePoints = List_reverse (splitAndReverse allCodePoints [])"

definition Extra_fromInt :: "int \<Rightarrow> string" where
  "Extra_fromInt = show_int"

subsection \<open>Searching\<close>

definition leftOfBack :: "string \<Rightarrow> string \<Rightarrow> string" where
  "leftOfBack pattern str =
     Maybe_withDefault [] (Maybe_map (\<lambda>i. NString_left i str)
       (List_head (List_reverse (NString_indexes pattern str))))"

definition rightOfBack :: "string \<Rightarrow> string \<Rightarrow> string" where
  "rightOfBack pattern str =
     Maybe_withDefault [] (Maybe_map (\<lambda>i. NString_dropLeft (NString_length pattern + i) str)
       (List_head (List_reverse (NString_indexes pattern str))))"

fun firstResultHelp :: "'a \<Rightarrow> 'a option list \<Rightarrow> 'a" where
  "firstResultHelp dflt [] = dflt"
| "firstResultHelp dflt (Some x # rest) = x"
| "firstResultHelp dflt (None # rest) = firstResultHelp dflt rest"

definition firstResult :: "string option list \<Rightarrow> string" where
  "firstResult xs = firstResultHelp [] xs"

definition leftOf :: "string \<Rightarrow> string \<Rightarrow> string result" where
  "leftOf pattern str =
     bindE (regex (''^(.*?)'' @ escape pattern)) (\<lambda>re.
       Inr (NString_join [] (List_map (\<lambda>m. firstResult (fd_submatches m))
         (fst (Regex_find (AtMost 1) re str)))))"

definition rightOf :: "string \<Rightarrow> string \<Rightarrow> string result" where
  "rightOf pattern str =
     bindE (regex (escape pattern @ ''(.*)$'')) (\<lambda>re.
       Inr (NString_join [] (List_map (\<lambda>m. firstResult (fd_submatches m))
         (fst (Regex_find (AtMost 1) re str)))))"

definition pluralize :: "string \<Rightarrow> string \<Rightarrow> int \<Rightarrow> string" where
  "pluralize singular plural count =
     (if count = 1 then ''1 '' @ singular else show_int count @ '' '' @ plural)"

definition stripTags :: "string \<Rightarrow> string result" where
  "stripTags str =
     bindE (regex (''<'' @ bsl @ ''/?[^>]+>'')) (\<lambda>re.
       Inr (fst (Regex_replace All re (Basics_always []) str)))"


subsection \<open>Sentences\<close>

fun toSentenceHelper :: "string \<Rightarrow> string \<Rightarrow> string list \<Rightarrow> string" where
  "toSentenceHelper lastPart sentence [] = sentence"
| "toSentenceHelper lastPart sentence [x] = sentence @ lastPart @ x"
| "toSentenceHelper lastPart sentence (x # y # xs) =
     toSentenceHelper lastPart (sentence @ '', '' @ x) (y # xs)"

fun toSentenceBaseCase :: "string list \<Rightarrow> string" where
  "toSentenceBaseCase [x] = x"
| "toSentenceBaseCase [x, y] = x @ '' and '' @ y"
| "toSentenceBaseCase _ = []"

fun toSentenceOxford :: "string list \<Rightarrow> string" where
  "toSentenceOxford (x # y # z # zs) = toSentenceHelper '', and '' (x @ '', '' @ y) (z # zs)"
| "toSentenceOxford xs = toSentenceBaseCase xs"

fun toSentence :: "string list \<Rightarrow> string" where
  "toSentence (x # y # z # zs) = toSentenceHelper '' and '' (x @ '', '' @ y) (z # zs)"
| "toSentence xs = toSentenceBaseCase xs"

subsection \<open>Truncating, counting, indentation\<close>

definition ellipsisWith :: "int \<Rightarrow> string \<Rightarrow> string \<Rightarrow> string" where
  "ellipsisWith howLong app str =
     (if cmp (NString_length str) howLong < 1 then str
      else NString_left (howLong - NString_length app) str @ app)"

definition ellipsis :: "int \<Rightarrow> string \<Rightarrow> string" where
  "ellipsis howLong str = ellipsisWith howLong ''...'' str"

definition countOccurrences :: "string \<Rightarrow> string \<Rightarrow> int" where
  "countOccurrences needle haystack =
     (if NString_length needle = 0 \<or> NString_length haystack = 0 then 0
      else List_length (NString_indexes needle haystack))"

definition isNotWhitespace :: "char \<Rightarrow> bool" where
  "isNotWhitespace c \<longleftrightarrow> c \<noteq> CHR '' '' \<and> c \<noteq> CHR 0x09"

lemma NString_uncons_eq:
  "NString_uncons s = (case s of [] \<Rightarrow> None | c # cs \<Rightarrow> Some (c, cs))"
  using js_slice_int [of 1 "length s" s]
  by (cases s) (simp_all add: NString_uncons_def js_nth_def)

function countLeadingWhitespace :: "int \<Rightarrow> string \<Rightarrow> int" where
  "countLeadingWhitespace count line =
     (case NString_uncons line of
        None \<Rightarrow> count
      | Some (c, rest) \<Rightarrow>
          if c = CHR '' '' then countLeadingWhitespace (count + 1) rest
          else if c = CHR 0x09 then countLeadingWhitespace (count + 1) rest
          else count)"
  by pat_completeness auto
termination
  by (relation "measure (\<lambda>(count, line). length line)")
    (auto simp: NString_uncons_eq split: list.splits)

declare countLeadingWhitespace.simps [simp del]

definition unindent :: "string \<Rightarrow> string" where
  "unindent multilineSting =
     (let lines = NString_lines multilineSting;
          minLead = Maybe_withDefault 0 (List_minimum (List_map (countLeadingWhitespace 0)
            (List_filter (NString_any isNotWhitespace) lines)))
      in NString_join [CHR 0x0A] (List_map (NString_dropLeft minLead) lines))"

subsection \<open>Cases and separators\<close>

definition dasherize :: "(string \<Rightarrow> string) \<Rightarrow> string \<Rightarrow> string result" where
  "dasherize lo str =
     bindE (regex ''([A-Z])'') (\<lambda>upper.
     bindE (regex (''[_-'' @ bsl @ ''s]+'')) (\<lambda>seps.
       Inr (lo (fst (Regex_replace All seps (Basics_always ''-'')
         (fst (Regex_replace All upper (\<lambda>m. NString_append ''-'' (fd_match m)) (NString_trim str))))))))"

definition underscored :: "(string \<Rightarrow> string) \<Rightarrow> string \<Rightarrow> string result" where
  "underscored lo str =
     bindE (regex (''([a-z'' @ bsl @ ''d])([A-Z]+)'')) (\<lambda>humps.
     bindE (regex (''[_-'' @ bsl @ ''s]+'')) (\<lambda>seps.
       Inr (lo (fst (Regex_replace All seps (Basics_always ''_'')
         (fst (Regex_replace All humps
           (\<lambda>m. NString_join ''_'' (List_filterMap (\<lambda>x. x) (fd_submatches m)))
           (NString_trim str))))))))"

definition unsurround :: "string \<Rightarrow> string \<Rightarrow> string" where
  "unsurround wrap str =
     (if NString_startsWith wrap str \<and> NString_endsWith wrap str
      then NString_dropRight (NString_length wrap) (NString_dropLeft (NString_length wrap) str)
      else str)"

definition unquote :: "string \<Rightarrow> string" where
  "unquote str = unsurround [CHR 0x22] str"

definition surround :: "string \<Rightarrow> string \<Rightarrow> string" where
  "surround wrap str = wrap @ str @ wrap"

definition Extra_quote :: "string \<Rightarrow> string" where
  "Extra_quote str = surround [CHR 0x22] str"

definition camelize :: "(string \<Rightarrow> string) \<Rightarrow> string \<Rightarrow> string result" where
  "camelize up str =
     bindE (regex (''[-_'' @ bsl @ ''s]+(.)?'')) (\<lambda>re.
       Inr (fst (Regex_replace All re
         (\<lambda>m. case fd_submatches m of Some x # _ \<Rightarrow> up x | _ \<Rightarrow> []) (NString_trim str))))"

definition isBlank :: "string \<Rightarrow> bool result" where
  "isBlank str =
     bindE (regex (''^'' @ bsl @ ''s*$'')) (\<lambda>re. Inr (fst (Regex_contains re str)))"

definition clean :: "string \<Rightarrow> string result" where
  "clean str =
     bindE (regex (bsl @ ''s'' @ bsl @ ''s+'')) (\<lambda>re.
       Inr (NString_trim (fst (Regex_replace All re (Basics_always '' '') str))))"

subsection \<open>Breaking lines\<close>

definition softBreakRegexp :: "int \<Rightarrow> regexp result" where
  "softBreakRegexp width =
     regex (''.{1,'' @ show_int width @ ''}('' @ bsl @ ''s+|$)|'' @ bsl @ ''S+?('' @ bsl @ ''s+|$)'')"

definition softEllipsis :: "int \<Rightarrow> string \<Rightarrow> string result" where
  "softEllipsis howLong str =
     (if cmp (NString_length str) howLong < 1 then Inr str
      else
        bindE (regex (''(['' @ bsl @ ''.,;:'' @ bsl @ ''s])+$'')) (\<lambda>tail.
        bindE (softBreakRegexp howLong) (\<lambda>re.
          Inr (NString_append
            (fst (Regex_replace All tail (Basics_always [])
              (NString_join [] (List_map fd_match (fst (Regex_find (AtMost 1) re str))))))
            ''...''))))"

definition softBreak :: "int \<Rightarrow> string \<Rightarrow> string list result" where
  "softBreak width str =
     (if cmp width 0 < 1 then Inr []
      else bindE (softBreakRegexp width) (\<lambda>re. Inr (List_map fd_match (fst (Regex_find All re str)))))"

definition softWrapWith :: "int \<Rightarrow> string \<Rightarrow> string \<Rightarrow> string result" where
  "softWrapWith width separator str =
     bindE (softBreak width str) (\<lambda>parts. Inr (NString_join separator parts))"

definition softWrap :: "int \<Rightarrow> string \<Rightarrow> string result" where
  "softWrap width str = softWrapWith width [CHR 0x0A] str"

partial_function (option) breaker :: "int \<Rightarrow> string \<Rightarrow> string list \<Rightarrow> string list option" where
  "breaker width str acc =
     (if str = [] then Some (List_reverse acc)
      else breaker width (NString_dropLeft width str) (NString_slice 0 width str # acc))"

declare breaker.simps [code]

definition Extra_break :: "int \<Rightarrow> string \<Rightarrow> string list option" where
  "Extra_break width str =
     (if width = 0 \<or> str = [] then Some [str] else breaker width str [])"

definition wrapWith :: "int \<Rightarrow> string \<Rightarrow> string \<Rightarrow> string option" where
  "wrapWith width separator str = map_option (NString_join separator) (Extra_break width str)"

definition Extra_wrap :: "int \<Rightarrow> string \<Rightarrow> string option" where
  "Extra_wrap width str = wrapWith width [CHR 0x0A] str"

subsection \<open>Replacing\<close>

definition replaceSlice :: "string \<Rightarrow> int \<Rightarrow> int \<Rightarrow> string \<Rightarrow> string" where
  "replaceSlice substitution start stop str =
     NString_slice 0 start str @ substitution @ NString_slice stop (NString_length str) str"

definition insertAt :: "string \<Rightarrow> int \<Rightarrow> string \<Rightarrow> string" where
  "insertAt ins position str = replaceSlice ins position position str"

definition Extra_replace :: "string \<Rightarrow> string \<Rightarrow> string \<Rightarrow> string result" where
  "Extra_replace search substitution str =
     bindE (regex (escape search)) (\<lambda>re. Inr (fst (Regex_replace All re (\<lambda>_. substitution) str)))"

definition changeCase :: "(char \<Rightarrow> string) \<Rightarrow> string \<Rightarrow> string" where
  "changeCase mutator word =
     Maybe_withDefault [] (Maybe_map (\<lambda>(c, rest). mutator c @ rest) (NString_uncons word))"

definition toSentenceCase :: "(string \<Rightarrow> string) \<Rightarrow> string \<Rightarrow> string" where
  "toSentenceCase up word = changeCase (\<lambda>c. up [c]) word"

definition toTitleCase :: "(string \<Rightarrow> string) \<Rightarrow> string \<Rightarrow> string result" where
  "toTitleCase up ws =
     bindE (regex (bsl @ ''w+'')) (\<lambda>words.
     bindE (regex (''^([a-z])|'' @ bsl @ ''s+([a-z])'')) (\<lambda>starts.
       Inr (fst (Regex_replace All starts
         (\<lambda>m. fst (Regex_replace All words (\<lambda>w. toSentenceCase up (fd_match w)) (fd_match m))) ws))))"

definition classify :: "(string \<Rightarrow> string) \<Rightarrow> string \<Rightarrow> string result" where
  "classify up str =
     bindE (regex (''['' @ bsl @ ''W_]'')) (\<lambda>re.
     bindE (camelize up (fst (Regex_replace All re (Basics_always '' '') str))) (\<lambda>camel.
     bindE (Extra_replace '' '' [] camel) (\<lambda>packed.
       Inr (toSentenceCase up packed))))"

definition humanize :: "(string \<Rightarrow> string) \<Rightarrow> (string \<Rightarrow> string) \<Rightarrow> string \<Rightarrow> string result" where
  "humanize up lo str =
     bindE (regex ''[A-Z]'') (\<lambda>upper.
     bindE (regex (''_id$|[-_'' @ bsl @ ''s]+'')) (\<lambda>seps.
       Inr (toSentenceCase up (lo (NString_trim (fst (Regex_replace All seps (Basics_always '' '')
         (fst (Regex_replace All upper (\<lambda>m. NString_append ''-'' (fd_match m)) str)))))))))"

definition decapitalize :: "(string \<Rightarrow> string) \<Rightarrow> string \<Rightarrow> string" where
  "decapitalize lo word = changeCase (\<lambda>c. lo [c]) word"

end
