(* ===== verification/Elm_StringExtra_Correct.thy ===== *)
theory Elm_StringExtra_Correct
  imports Elm_StringExtra
begin

text \<open>
  What the functions of \<^verbatim>\<open>String.Extra\<close> compute. Those that replace a pattern go through the
  interpretations of \<open>token_regex\<close>; the searches go through the backtracking order of the
  matcher; the rest is arithmetic on slices.
\<close>

lemmas regex_simps = regex_def rx_of_def rx_token_def rx_escape_def is_word_def is_digit_def
  rx_class_def class_items.simps class_range_def rx_quant_def less_eq_char_def rx_syntax_def

subsection \<open>Replacement\<close>

lemma all_empty_pattern:
  "i \<le> length str \<Longrightarrow> fst (js_all ((rx_global REmpty 0)\<lparr>lastIndex := i\<rparr>) str) =
   map (\<lambda>j. \<lparr>er_index = j, er_match = [], er_subs = []\<rparr>) [i..<Suc (length str)]"
proof (induction "length str - i" arbitrary: i)
  case 0
  then show ?case
    by (subst js_all.simps, subst js_all.simps) (simp add: js_exec_def)
next
  case (Suc n)
  then have i: "i < length str" and d: "drop i str = str ! i # drop (Suc i) str"
    by (simp_all add: Cons_nth_drop_Suc)
  have "js_exec ((rx_global REmpty 0)\<lparr>lastIndex := i\<rparr>) str =
    (Some \<lparr>er_index = i, er_match = [], er_subs = []\<rparr>, (rx_global REmpty 0)\<lparr>lastIndex := i\<rparr>)"
    using i by (simp add: js_exec_def d)
  with Suc.hyps(1) [of "Suc i"] Suc.hyps(2) i show ?case
    by (subst js_all.simps) (simp add: case_prod_beta upt_conv_Cons del: upt_Suc)
qed

lemma replace_empty_pattern:
  "nxt \<le> i \<Longrightarrow> i \<le> length str \<Longrightarrow> replace_loop None (\<lambda>_. sub) str count nxt
     (map (\<lambda>j. \<lparr>er_index = j, er_match = [], er_subs = []\<rparr>) [i..<Suc (length str)]) =
   take (i - nxt) (drop nxt str) @ sub @ concat (map (\<lambda>c. c # sub) (drop i str))"
proof (induction "length str - i" arbitrary: i nxt count)
  case 0
  then show ?case
    by (simp add: jsReplacer_def)
next
  case (Suc n)
  then have i: "i < length str" and d: "drop i str = str ! i # drop (Suc i) str"
    by (simp_all add: Cons_nth_drop_Suc)
  have "take (Suc i - i) (drop i str) = [str ! i]"
    by (simp add: d)
  with Suc.hyps(1) [of "Suc i" i "count + 1"] Suc.hyps(2) Suc.prems i show ?case
    by (simp add: upt_conv_Cons [of i] jsReplacer_def d del: upt_Suc)
qed


subsection \<open>White space\<close>

lemma in_set_space [simp]: "in_set False False [RSpace True] = js_space"
  by (auto simp: in_set_def fun_eq_iff)

lemma regex_two_spaces:
  "regex (bsl @ ''s'' @ bsl @ ''s+'') =
   Inr (rx_global (seq_rx [RSet False [RSpace True], RRep (RSet False [RSpace True]) 1 None True]) 0)"
  by (simp add: regex_simps)

lemma regex_blank:
  "regex (''^'' @ bsl @ ''s*$'') =
   Inr (rx_global (seq_rx [RBol, RRep (RSet False [RSpace True]) 0 None True, REol]) 0)"
  by (simp add: regex_simps)


lemma run_length_all: "run_length P None s = length s \<longleftrightarrow> list_all P s"
  by (induction s) (auto simp: run_length_Cons)

text \<open>A pattern that starts with \<^verbatim>\<open>^\<close> matches at the start or not at all.\<close>

lemma scan_anchored:
  "rx_scan ic (RSeq RBol r) n 0 s =
   (case rx_match ic r \<lparr>rx_pos = 0, rx_rest = s, rx_caps = replicate n None\<rparr> of
      y # _ \<Rightarrow> Some \<lparr>er_index = 0, er_match = take (rx_pos y) s, er_subs = rx_caps y\<rparr>
    | [] \<Rightarrow> None)"
proof -
  have "rx_scan ic (RSeq RBol r) n (Suc i) t = None" for i t
    by (induction t arbitrary: i) simp_all
  then show ?thesis
    by (cases s) (auto split: list.split)
qed

text \<open>\<^verbatim>\<open>isBlank\<close> recognises the strings of white space.\<close>

theorem Extra_isBlank_correct: "isBlank str = Inr (list_all js_space str)"
proof -
  let ?r = "seq_rx [RRep (RSet False [RSpace True]) 0 None True, REol]"
  have m: "rx_match False ?r \<lparr>rx_pos = 0, rx_rest = s, rx_caps = []\<rparr> \<noteq> [] \<longleftrightarrow> list_all js_space s" for s
    using run_length_all [of js_space s] run_length_le [of js_space None s]
    by (auto simp: rx_match_run_unbounded concat_eq_Nil_conv)
  have "rx_scan False (RSeq RBol ?r) 0 0 str = None \<longleftrightarrow> \<not> list_all js_space str"
    using m [of str] by (auto simp add: scan_anchored split: list.splits simp del: seq_rx.simps)
  then have "fst (js_all (rx_global (RSeq RBol ?r) 0) str) \<noteq> [] \<longleftrightarrow> list_all js_space str"
    by (subst js_all.simps) (auto simp: js_exec_def case_prod_beta split: option.splits)
  then show ?thesis
    by (simp only: isBlank_def regex_blank bindE_Inr) (simp add: Regex_contains_def case_prod_beta)
qed

definition no_double_space :: "string \<Rightarrow> bool" where
  "no_double_space s \<longleftrightarrow> successively (\<lambda>a b. \<not> (js_space a \<and> js_space b)) s"

abbreviation squeeze :: "string \<Rightarrow> string" where
  "squeeze \<equiv> subst_tokens (run_token 2 js_space) (\<lambda>_. '' '')"

lemma squeeze_eq:
  "squeeze (c # cs) =
   (if js_space c \<and> cs \<noteq> [] \<and> js_space (hd cs) then CHR '' '' # squeeze (dropWhile js_space cs)
    else c # squeeze cs)"
proof (cases "js_space c \<and> cs \<noteq> [] \<and> js_space (hd cs)")
  case True
  then obtain d ds where cs: "cs = d # ds" "js_space c" "js_space d"
    by (cases cs) auto
  have "drop (length (takeWhile js_space ds)) ds = dropWhile js_space ds"
    by (simp add: dropWhile_eq_drop)
  with cs show ?thesis
    by (simp add: run_token_def)
next
  case False
  then have "run_token 2 js_space (c # cs) = None"
    by (cases cs) (auto simp: run_token_def Let_def)
  with False show ?thesis
    by auto
qed

lemma squeeze_props:
  "no_double_space (squeeze s) \<and> (squeeze s = [] \<longleftrightarrow> s = []) \<and>
   (s \<noteq> [] \<longrightarrow> js_space (hd (squeeze s)) = js_space (hd s)) \<and>
   filter (\<lambda>c. \<not> js_space c) (squeeze s) = filter (\<lambda>c. \<not> js_space c) s"
proof (induction "length s" arbitrary: s rule: less_induct)
  case less
  show ?case
  proof (cases s)
    case Nil
    then show ?thesis
      by (simp add: no_double_space_def)
  next
    case (Cons c cs)
    show ?thesis
    proof (cases "js_space c \<and> cs \<noteq> [] \<and> js_space (hd cs)")
      case True
      let ?t = "dropWhile js_space cs"
      have len: "length ?t < length s"
        using Cons by (simp add: less_Suc_eq_le length_dropWhile_le)
      have t: "?t \<noteq> [] \<Longrightarrow> \<not> js_space (hd ?t)"
        by (rule hd_dropWhile)
      have f: "filter (\<lambda>c. \<not> js_space c) ?t = filter (\<lambda>c. \<not> js_space c) cs"
        by (induction cs) auto
      have sp: "js_space (CHR '' '')"
        by (simp add: js_space_def)
      from less.hyps [OF len] t f True show ?thesis
        by (auto simp: Cons squeeze_eq no_double_space_def successively_Cons sp simp del: subst_tokens.simps(2))
    next
      case False
      with less.hyps [of cs] show ?thesis
        by (auto simp: Cons squeeze_eq no_double_space_def successively_Cons simp del: subst_tokens.simps(2))
    qed
  qed
qed

lemma no_double_dropWhile: "no_double_space s \<Longrightarrow> no_double_space (dropWhile P s)"
  by (induction s) (auto simp: no_double_space_def successively_Cons)

lemma no_double_rev: "no_double_space (rev s) \<longleftrightarrow> no_double_space s"
proof -
  have "(\<lambda>a b. \<not> (js_space b \<and> js_space a)) = (\<lambda>a b. \<not> (js_space a \<and> js_space b))"
    by auto
  then show ?thesis
    by (simp only: no_double_space_def successively_rev)
qed

lemma no_double_trim: "no_double_space s \<Longrightarrow> no_double_space (js_trim s)"
  by (simp add: js_trim_def js_trimLeft_def js_trimRight_def no_double_dropWhile no_double_rev)

lemma trim_ends:
  "js_trim s \<noteq> [] \<Longrightarrow> \<not> js_space (hd (js_trim s)) \<and> \<not> js_space (last (js_trim s))"
proof -
  assume ne: "js_trim s \<noteq> []"
  define t where "t = dropWhile js_space s"
  have tr: "js_trim s = rev (dropWhile js_space (rev t))"
    by (simp add: js_trim_def js_trimLeft_def js_trimRight_def t_def)
  then have "\<not> js_space (last (js_trim s))"
    using ne hd_dropWhile [of js_space "rev t"] by (simp add: last_rev)
  moreover have "\<not> js_space (hd (js_trim s))"
  proof -
    obtain u where u: "t = js_trim s @ u"
      using takeWhile_dropWhile_id [of js_space "rev t"] unfolding tr
      by (metis rev_append rev_rev_ident)
    with ne have "hd (js_trim s) = hd t"
      by simp
    moreover have "t \<noteq> []"
      using u ne by auto
    ultimately show ?thesis
      using hd_dropWhile [of js_space s] by (simp add: t_def)
  qed
  ultimately show ?thesis
    by simp
qed

lemma trim_filter: "filter (\<lambda>c. \<not> js_space c) (js_trim s) = filter (\<lambda>c. \<not> js_space c) s"
proof -
  have d: "filter (\<lambda>c. \<not> js_space c) (dropWhile js_space t) = filter (\<lambda>c. \<not> js_space c) t" for t
    by (induction t) auto
  show ?thesis
    by (simp add: js_trim_def js_trimLeft_def js_trimRight_def d rev_filter [symmetric])
qed

text \<open>
  \<^verbatim>\<open>clean\<close> keeps the other characters in order, leaves no two white-space characters in a row
  and none at the ends.
\<close>

theorem Extra_clean_correct:
  "\<exists>r. clean str = Inr r \<and> no_double_space r \<and>
     (r = [] \<or> \<not> js_space (hd r) \<and> \<not> js_space (last r)) \<and>
     filter (\<lambda>c. \<not> js_space c) r = filter (\<lambda>c. \<not> js_space c) str"
proof -
  have "clean str = Inr (js_trim (squeeze str))"
    using run2.replace_all [of False "[RSpace True]" "\<lambda>_. '' ''" str]
    unfolding clean_def regex_two_spaces
    by (simp add: NString_trim_def Basics_always_def [abs_def] del: seq_rx.simps)
  with squeeze_props [of str] show ?thesis
    using trim_ends no_double_trim trim_filter by auto
qed


subsection \<open>The sides of a pattern\<close>

definition not_newline :: "char \<Rightarrow> bool" where
  "not_newline c \<longleftrightarrow> c \<noteq> CHR 0x0A \<and> c \<noteq> CHR 0x0D"

lemma in_set_dot [simp]:
  "in_set False True [RRange (CHR 0x0A) (CHR 0x0A), RRange (CHR 0x0D) (CHR 0x0D)] = not_newline"
  by (auto simp: in_set_def not_newline_def fun_eq_iff)

lemma find_one:
  "fst (Regex_find (AtMost 1) (rx_global r n) str) =
   (case rx_scan False r n 0 str of None \<Rightarrow> [] | Some res \<Rightarrow> [found 1 res])"
proof -
  have "find_loop (Some 1) 1 prev re str = ([], re)" for prev re
    by (subst find_loop.simps) simp
  then show ?thesis
    by (auto simp: Regex_find_def find_loop.simps [of "Some 1" 0] js_exec_def case_prod_beta elm_simps
        split: option.splits)
qed

lemma find_filter: "find P xs = (case filter P xs of [] \<Rightarrow> None | x # _ \<Rightarrow> Some x)"
  by (induction xs) simp_all

lemma find_map_Suc: "find P (map Suc xs) = map_option Suc (find (\<lambda>j. P (Suc j)) xs)"
  by (induction xs) simp_all

lemma find_upt_Suc: "find P [0..<Suc n] = (if P 0 then Some 0 else map_option Suc (find (\<lambda>j. P (Suc j)) [0..<n]))"
  by (simp add: upt_0_Suc map_Suc_upt [symmetric] find_map_Suc del: upt_Suc)

lemma js_index_find:
  "js_index_from p k s =
   (case find (\<lambda>j. prefix p (drop j s)) [0..<Suc (length s)] of None \<Rightarrow> -1 | Some j \<Rightarrow> int (k + j))"
proof (induction s arbitrary: k)
  case Nil
  then show ?case
    by simp
next
  case (Cons c cs)
  show ?case
    by (subst js_index_from.simps, subst find_upt_Suc)
      (auto simp: Cons.IH simp del: upt_Suc split: option.splits)
qed

lemma regex_leftOf:
  "regex (''^(.*?)'' @ escape p) =
   Inr (rx_global (RSeq RBol (RSeq (RGroup 0 (RSeq (RRep rx_dot 0 None False) REmpty))
     (seq_rx (map rx_char p)))) 1)"
  using rx_tokens_escape [of p "[]"]
    rx_parse_atoms [of 1 "[]" "[]" "[RGroup 0 (RSeq (RRep rx_dot 0 None False) REmpty), RBol]" True rx_char p "[]"]
  by (simp add: regex_simps)

lemma concat_map_if: "concat (map (\<lambda>j. if Q j then [g j] else []) xs) = map g (filter Q xs)"
  by (induction xs) simp_all

lemma rx_match_leftOf:
  "rx_match False (RSeq (RGroup 0 (RSeq (RRep rx_dot 0 None False) REmpty)) (seq_rx (map rx_char p)))
     \<lparr>rx_pos = 0, rx_rest = s, rx_caps = [None]\<rparr> =
   map (\<lambda>j. \<lparr>rx_pos = j + length p, rx_rest = drop (j + length p) s, rx_caps = [Some (take j s)]\<rparr>)
     (filter (\<lambda>j. prefix p (drop j s)) [0..<Suc (run_length not_newline None s)])"
  by (simp add: rx_dot_def rx_match_run_unbounded rx_match_literal comp_def adv_def concat_map_if add.commute
      del: upt_Suc)

lemma run_length_prefix: "j \<le> length s \<Longrightarrow> j \<le> run_length P None s \<longleftrightarrow> list_all P (take j s)"
proof (induction s arbitrary: j)
  case (Cons c s)
  then show ?case
    by (cases j) (auto simp: run_length_Cons)
qed simp

text \<open>
  \<^verbatim>\<open>leftOf\<close> gives the text before the first occurrence of the pattern, when no line break stands
  before that occurrence, and the empty string otherwise.
\<close>

theorem Extra_leftOf_correct:
  "leftOf pattern str =
   Inr (let i = js_indexOf pattern str 0 in
        if 0 \<le> i \<and> list_all not_newline (take (nat i) str) then take (nat i) str else [])"
proof -
  let ?Q = "\<lambda>j. prefix pattern (drop j str)"
  let ?k = "run_length not_newline None str"
  have k: "?k \<le> length str"
    by (rule run_length_le)
  then have "[0..<Suc (length str)] = [0..<Suc ?k] @ [Suc ?k..<Suc (length str)]"
    using upt_add_eq_append [of 0 "Suc ?k" "length str - ?k"] by (simp del: upt_Suc)
  then have f: "filter ?Q [0..<Suc (length str)] = filter ?Q [0..<Suc ?k] @ filter ?Q [Suc ?k..<Suc (length str)]"
    by simp
  have l: "leftOf pattern str = Inr (case filter ?Q [0..<Suc ?k] of [] \<Rightarrow> [] | j # _ \<Rightarrow> take j str)"
    unfolding leftOf_def regex_leftOf
    by (simp add: find_one scan_anchored rx_match_leftOf found_def firstResult_def elm_simps
        del: upt_Suc rx_match.simps split: list.split)
  have i: "js_indexOf pattern str 0 =
      (case filter ?Q [0..<Suc (length str)] of [] \<Rightarrow> -1 | j # _ \<Rightarrow> int j)"
    by (simp add: js_indexOf_def js_index_find find_filter del: upt_Suc split: list.split)
  show ?thesis
  proof (cases "filter ?Q [0..<Suc ?k]")
    case Nil
    have "\<not> list_all not_newline (take j str)" if "filter ?Q [Suc ?k..<Suc (length str)] = j # js" for j js
    proof -
      have "j \<in> set (filter ?Q [Suc ?k..<Suc (length str)])"
        by (simp only: that list.set_intros)
      then show ?thesis
        using run_length_prefix [of j str not_newline] by auto
    qed
    with Nil show ?thesis
      by (auto simp add: l i f Let_def simp del: upt_Suc split: list.split)
  next
    case (Cons j js)
    then have "j \<in> set (filter ?Q [0..<Suc ?k])"
      by simp
    then have "list_all not_newline (take j str)"
      using run_length_prefix [of j str not_newline] k by (auto simp del: upt_Suc)
    with Cons show ?thesis
      by (simp add: l i f Let_def del: upt_Suc)
  qed
qed


lemma regex_rightOf:
  "regex (escape p @ ''(.*)$'') =
   Inr (rx_global (seq_rx (map rx_char p @ [RGroup 0 (RSeq (RRep rx_dot 0 None True) REmpty), REol])) 1)"
  using rx_tokens_escape [of p "''(.*)$''"] rx_parse_atoms [of 0 "[]" "[]" "[]" False rx_char p]
  by (simp add: regex_simps)

lemma rx_match_seq_append:
  "rx_match ic (seq_rx (rs @ ts)) x = concat (map (rx_match ic (seq_rx ts)) (rx_match ic (seq_rx rs) x))"
proof (induction rs arbitrary: x)
  case (Cons r rs)
  have "concat (map (\<lambda>y. concat (map f (g y))) ys) = concat (map f (concat (map g ys)))"
    for f :: "rx_state \<Rightarrow> rx_state list" and g ys
    by (induction ys) simp_all
  moreover have "rx_match ic (seq_rx (rs @ ts)) =
      (\<lambda>x. concat (map (rx_match ic (seq_rx ts)) (rx_match ic (seq_rx rs) x)))"
    using Cons.IH by (rule ext)
  ultimately show ?case
    by simp
qed simp

lemma rx_match_rightOf:
  "rx_match False (seq_rx (map rx_char p @ [RGroup 0 (RSeq (RRep rx_dot 0 None True) REmpty), REol]))
     \<lparr>rx_pos = i, rx_rest = s, rx_caps = [None]\<rparr> =
   (if prefix p s \<and> list_all not_newline (drop (length p) s)
    then [\<lparr>rx_pos = i + length s, rx_rest = [], rx_caps = [Some (drop (length p) s)]\<rparr>] else [])"
proof (cases "prefix p s")
  case True
  define t where "t = drop (length p) s"
  define k where "k = run_length not_newline None t"
  have s: "length s = length p + length t"
    using True by (auto simp: t_def prefix_def)
  have k: "k \<le> length t"
    by (simp add: k_def run_length_le)
  have e: "rx_match False (RSeq REol REmpty) = (\<lambda>y. if rx_rest y = [] then [y] else [])"
    by (rule ext) simp
  have "filter (\<lambda>j. length t \<le> j) (rev [0..<Suc k]) = (if k = length t then [k] else [])"
    using k by (auto simp: filter_empty_conv)
  moreover have "k = length t \<longleftrightarrow> list_all not_newline t"
    by (simp add: k_def run_length_all)
  ultimately show ?thesis
    using True s
    by (auto simp: rx_match_seq_append rx_match_literal rx_dot_def rx_match_run_unbounded comp_def
        concat_map_if e k_def [symmetric] t_def [symmetric] adv_def simp del: upt_Suc)
next
  case False
  then show ?thesis
    by (simp add: rx_match_seq_append rx_match_literal)
qed

text \<open>
  \<^verbatim>\<open>rightOf\<close> gives the text after the first occurrence of the pattern that has no line break
  after it, and the empty string when there is none.
\<close>

theorem Extra_rightOf_correct:
  "rightOf pattern str =
   Inr (case find (\<lambda>i. prefix pattern (drop i str) \<and>
                      list_all not_newline (drop (i + length pattern) str)) [0..<Suc (length str)] of
          None \<Rightarrow> []
        | Some i \<Rightarrow> drop (i + length pattern) str)"
proof -
  let ?r = "seq_rx (map rx_char pattern @ [RGroup 0 (RSeq (RRep rx_dot 0 None True) REmpty), REol])"
  let ?P = "\<lambda>s i. prefix pattern (drop i s) \<and> list_all not_newline (drop (i + length pattern) s)"
  have sc: "rx_scan False ?r (Suc 0) k s = (case find (?P s) [0..<Suc (length s)] of
      None \<Rightarrow> None
    | Some i \<Rightarrow> Some \<lparr>er_index = k + i, er_match = drop i s, er_subs = [Some (drop (i + length pattern) s)]\<rparr>)" for k s
  proof (induction s arbitrary: k)
    case Nil
    then show ?case
      by (simp add: rx_match_rightOf [where s = "[]"])
  next
    case (Cons c cs)
    show ?case
      by (subst rx_scan.simps, subst find_upt_Suc)
        (auto simp: rx_match_rightOf Cons.IH simp del: upt_Suc split: option.splits)
  qed
  show ?thesis
    unfolding rightOf_def regex_rightOf
    by (simp add: find_one sc found_def firstResult_def elm_simps del: upt_Suc split: option.split)
qed


subsection \<open>Accents\<close>

definition accent_table :: "(char \<times> char \<times> char) list" where
  "accent_table =
     [(CHR 0xE0, CHR 0xE6, CHR ''a''), (CHR 0xC0, CHR 0xC6, CHR ''A''),
      (CHR 0xE7, CHR 0xE7, CHR ''c''), (CHR 0xC7, CHR 0xC7, CHR ''C''),
      (CHR 0xE8, CHR 0xEB, CHR ''e''), (CHR 0xC8, CHR 0xCB, CHR ''E''),
      (CHR 0xEC, CHR 0xEF, CHR ''i''), (CHR 0xCC, CHR 0xCF, CHR ''I''),
      (CHR 0xF1, CHR 0xF1, CHR ''n''), (CHR 0xD1, CHR 0xD1, CHR ''N''),
      (CHR 0xF2, CHR 0xF6, CHR ''o''), (CHR 0xD2, CHR 0xD6, CHR ''O''),
      (CHR 0xF9, CHR 0xFC, CHR ''u''), (CHR 0xD9, CHR 0xDC, CHR ''U''),
      (CHR 0xFD, CHR 0xFD, CHR ''y''), (CHR 0xFF, CHR 0xFF, CHR ''y''),
      (CHR 0xDD, CHR 0xDD, CHR ''Y'')]"

definition without_accent :: "char \<Rightarrow> char" where
  "without_accent c =
     (case find (\<lambda>(a, b, d). a \<le> c \<and> c \<le> b) accent_table of None \<Rightarrow> c | Some (a, b, d) \<Rightarrow> d)"

lemma accentRegex_eq:
  "accentRegex = Inr (map (\<lambda>(a, b, d). (rx_global (seq_rx [RSet False [RRange a b]]) 0, [d])) accent_table)"
  by (simp add: accentRegex_def accent_matches_def accent_table_def regex_simps)

lemma do_regex_eq:
  "do_regex_to_remove_acents (rx_global (seq_rx [RSet False [RRange a b]]) 0, [d]) str =
   map (\<lambda>c. if a \<le> c \<and> c \<le> b then d else c) str"
proof -
  have "do_regex_to_remove_acents (rx_global (seq_rx [RSet False [RRange a b]]) 0, [d]) str =
    concat (map (\<lambda>c. if in_set False False [RRange a b] c then [d] else [c]) str)"
    using chars.replace_all [of False "[RRange a b]" "\<lambda>_. [d]" str]
    by (simp add: do_regex_to_remove_acents_def subst_chars del: seq_rx.simps)
  also have "\<dots> = map (\<lambda>c. if a \<le> c \<and> c \<le> b then d else c) str"
    by (induction str) (simp_all add: in_set_def)
  finally show ?thesis .
qed

lemma foldl_accents:
  "List_foldl do_regex_to_remove_acents str
     (map (\<lambda>(a, b, d). (rx_global (seq_rx [RSet False [RRange a b]]) 0, [d])) table) =
   map (\<lambda>c. foldl (\<lambda>c (a, b, d). if a \<le> c \<and> c \<le> b then d else c) c table) str"
  by (induction table arbitrary: str) (auto simp: do_regex_eq simp del: seq_rx.simps)

lemma foldl_table:
  fixes c :: char
  assumes "\<forall>(a, b, d) \<in> set table. \<forall>(a', b', d') \<in> set table. \<not> (a' \<le> d \<and> d \<le> b')"
  shows "foldl (\<lambda>c (a, b, d). if a \<le> c \<and> c \<le> b then d else c) c table =
    (case find (\<lambda>(a, b, d). a \<le> c \<and> c \<le> b) table of None \<Rightarrow> c | Some (a, b, d) \<Rightarrow> d)"
  using assms
proof (induction table)
  case (Cons e table)
  have none: "foldl (\<lambda>c (a, b, d). if a \<le> c \<and> c \<le> b then d else c) d t = d"
    if "\<forall>(a, b, d') \<in> set t. \<not> (a \<le> d \<and> d \<le> b)" for d :: char and t
    using that by (induction t) auto
  obtain a b d where e: "e = (a, b, d)"
    by (cases e)
  have "\<forall>(a', b', d') \<in> set table. \<not> (a' \<le> d \<and> d \<le> b')"
    using Cons.prems by (auto simp: e)
  moreover have "\<forall>(a, b, d) \<in> set table. \<forall>(a', b', d') \<in> set table. \<not> (a' \<le> d \<and> d \<le> b')"
    using Cons.prems by fastforce
  ultimately show ?case
    using Cons.IH none [of table d] by (simp add: e)
qed simp

text \<open>\<^verbatim>\<open>removeAccents\<close> replaces each accented letter by its base letter and keeps the rest.\<close>

theorem Extra_removeAccents_correct: "removeAccents str = Inr (map without_accent str)"
proof -
  have "\<forall>(a, b, d) \<in> set accent_table. \<forall>(a', b', d') \<in> set accent_table. \<not> (a' \<le> d \<and> d \<le> b')"
    by (simp add: accent_table_def less_eq_char_def)
  from foldl_table [OF this] show ?thesis
    by (simp add: removeAccents_def accentRegex_eq foldl_accents without_accent_def [abs_def]
        NString_isEmpty_def del: seq_rx.simps)
qed


subsection \<open>Code points\<close>

definition code_point :: "int \<Rightarrow> bool" where
  "code_point p \<longleftrightarrow> 0 \<le> p \<and> p \<le> 1114111 \<and> \<not> (55296 \<le> p \<and> p \<le> 57343)"

definition utf16 :: "int \<Rightarrow> int list" where
  "utf16 p =
     (if \<not> code_point p then [replacementCodePoint]
      else if p < 65536 then [p]
      else [(p - 65536) div 1024 + 55296, (p - 65536) mod 1024 + 56320])"

lemma cmp_ge [simp]: "- 1 < cmp x y \<longleftrightarrow> y \<le> x"
  by (auto simp: cmp_def)

lemma split_surrogates:
  assumes "0 \<le> q" "q < 1048576"
  shows "shiftRightBy 10 q = q div 1024" "Bitwise_and q 1023 = q mod 1024"
proof -
  have "toInt32 q = q"
    using assms by (simp add: toInt32_def)
  then show "shiftRightBy 10 q = q div 1024"
    by (simp add: Bitwise_meaning)
  show "Bitwise_and q 1023 = q mod 1024"
    using Bitwise_and_mask [of 10 q] by simp
qed

lemma splitAndReverse_eq: "splitAndReverse ps acc = rev (concat (map utf16 ps)) @ acc"
  by (induction ps arbitrary: acc)
    (auto simp: utf16_def code_point_def Let_def split_surrogates)

lemma fromCodePoints_eq: "fromCodePoints ps = concat (map utf16 ps)"
  by (simp add: fromCodePoints_def splitAndReverse_eq elm_simps)

lemma combine_utf16:
  "combineAndReverse (utf16 p @ us) acc =
   combineAndReverse us ((if code_point p then p else replacementCodePoint) # acc)"
proof (cases "code_point p \<and> 65536 \<le> p")
  case True
  define h l where "h = (p - 65536) div 1024" and "l = (p - 65536) mod 1024"
  have "0 \<le> h" "h \<le> 1023"
    using True by (auto simp: h_def code_point_def pos_imp_zdiv_nonneg_iff div_less_iff_less_mult zless_imp_add1_zle
        intro!: zdiv_mono1 [of _ "1048575" 1024, simplified])
  moreover have "0 \<le> l" "l < 1024"
    by (simp_all add: l_def)
  moreover have "p = 65536 + h * 1024 + l"
    by (simp add: h_def l_def)
  moreover have "utf16 p = [h + 55296, l + 56320]"
    using True by (simp add: utf16_def h_def l_def)
  ultimately show ?thesis
    using True by simp
next
  case False
  then show ?thesis
    by (auto simp: utf16_def code_point_def replacementCodePoint_def)
qed

lemma combine_valid:
  "list_all code_point acc \<Longrightarrow> list_all code_point (combineAndReverse us acc)"
  by (induction us acc rule: combineAndReverse.induct)
    (auto simp: code_point_def replacementCodePoint_def split: list.split)

text \<open>
  Code points survive the way to UTF-16 and back, except that what is no code point becomes
  U+FFFD; \<^verbatim>\<open>toCodePoints\<close> gives code points whatever the code units are; and on the strings that
  \<^verbatim>\<open>fromCodePoints\<close> gives, the other way round is the identity, too. This is claim C34.
\<close>

theorem Extra_codePoints_roundtrip:
  "toCodePoints (fromCodePoints ps) = map (\<lambda>p. if code_point p then p else replacementCodePoint) ps \<and>
   list_all code_point (toCodePoints us) \<and>
   fromCodePoints (toCodePoints (fromCodePoints ps)) = fromCodePoints ps"
proof -
  have "combineAndReverse (concat (map utf16 ps)) acc =
    rev (map (\<lambda>p. if code_point p then p else replacementCodePoint) ps) @ acc" for acc
    by (induction ps arbitrary: acc) (simp_all add: combine_utf16)
  then have r: "toCodePoints (fromCodePoints ps) =
      map (\<lambda>p. if code_point p then p else replacementCodePoint) ps"
    by (simp add: toCodePoints_def fromCodePoints_eq elm_simps)
  have "utf16 (if code_point p then p else replacementCodePoint) = utf16 p" for p
    by (simp add: utf16_def code_point_def replacementCodePoint_def)
  then have "fromCodePoints (toCodePoints (fromCodePoints ps)) = fromCodePoints ps"
    by (simp only: r) (simp add: fromCodePoints_eq comp_def)
  with r combine_valid [of "[]" us] show ?thesis
    by (simp add: toCodePoints_def elm_simps)
qed

subsection \<open>Breaking, truncating, inserting\<close>

lemma breaker_pieces:
  assumes "0 < width"
  shows "\<exists>ps. breaker width str acc = Some (rev acc @ ps) \<and> concat ps = str \<and>
    (\<forall>p \<in> set ps. p \<noteq> [] \<and> int (length p) \<le> width) \<and> (\<forall>p \<in> set (butlast ps). int (length p) = width)"
proof (induction "length str" arbitrary: str acc rule: less_induct)
  case less
  show ?case
  proof (cases "str = []")
    case True
    then show ?thesis
      by (subst breaker.simps) (simp add: elm_simps)
  next
    case False
    define n where "n = nat width"
    have n: "width = int n" "0 < n"
      using assms by (auto simp: n_def)
    have d: "NString_dropLeft (int n) str = drop n str"
      using js_slice_int [of n "length str" str] n by (simp add: NString_dropLeft_def)
    have t: "NString_slice 0 (int n) str = take n str"
      using n by (simp add: NString_slice_def js_slice_prefix)
    obtain ps where ps: "breaker width (drop n str) (take n str # acc) = Some (rev (take n str # acc) @ ps)"
      "concat ps = drop n str" "\<forall>p \<in> set ps. p \<noteq> [] \<and> int (length p) \<le> width"
      "\<forall>p \<in> set (butlast ps). int (length p) = width"
      using less.hyps [of "drop n str" "take n str # acc"] False n by auto
    have "n \<le> length str" if "ps \<noteq> []"
    proof -
      have "drop n str \<noteq> []"
        using that ps(2,3) by (cases ps) auto
      then show ?thesis
        by simp
    qed
    with ps False n show ?thesis
      by (intro exI [of _ "take n str # ps"], subst breaker.simps) (auto simp: d t min_def)
  qed
qed

lemma breaker_Some:
  assumes "breaker width str acc = Some y"
  shows "width < 0 \<longrightarrow> str = []"
proof (rule breaker.raw_induct [where P = "\<lambda>width str acc y. width < 0 \<longrightarrow> str = []", OF _ assms])
  fix br and width :: int and str acc y
  assume IH: "\<And>width str acc y. br width str acc = Some y \<Longrightarrow> width < 0 \<longrightarrow> str = []"
    and "(if str = [] then Some (List_reverse acc)
      else br width (NString_dropLeft width str) (NString_slice 0 width str # acc)) = Some y"
  then show "width < 0 \<longrightarrow> str = []"
    by (auto simp: NString_dropLeft_def split: if_splits)
qed

text \<open>
  \<^verbatim>\<open>break\<close> with a positive width cuts the string into pieces of that width, the last of which may
  be shorter; with a negative width it never returns.
\<close>

theorem Extra_break_correct:
  assumes "0 < width"
  shows "\<exists>ps. Extra_break width str = Some ps \<and> concat ps = str \<and>
    (\<forall>p \<in> set ps. int (length p) \<le> width) \<and> (\<forall>p \<in> set (butlast ps). int (length p) = width)"
  using breaker_pieces [OF assms, of str "[]"] assms
  by (cases "str = []") (auto simp: Extra_break_def)

theorem Extra_break_correct_witness:
  "\<exists>ps. Extra_break 7 ''My very long text'' = Some ps \<and> concat ps = ''My very long text'' \<and>
    (\<forall>p \<in> set ps. int (length p) \<le> 7) \<and> (\<forall>p \<in> set (butlast ps). int (length p) = 7)"
  using Extra_break_correct [of 7 "''My very long text''"] by simp

text \<open>With a negative width, \<^verbatim>\<open>break\<close>, \<^verbatim>\<open>wrapWith\<close> and \<^verbatim>\<open>wrap\<close> do not return. This is claim C35.
\<close>

theorem Extra_break_diverges:
  assumes "width < 0" and "str \<noteq> []"
  shows "Extra_break width str = None \<and> wrapWith width separator str = None \<and> Extra_wrap width str = None"
proof -
  have "breaker width str [] = None"
    using assms breaker_Some [of width str "[]"] by (cases "breaker width str []") auto
  with assms show ?thesis
    by (simp add: Extra_break_def wrapWith_def Extra_wrap_def)
qed

theorem Extra_break_diverges_witness:
  "Extra_break (- 1) ''abc'' = None \<and> wrapWith (- 1) '', '' ''abc'' = None \<and> Extra_wrap (- 1) ''abc'' = None"
  using Extra_break_diverges [of "- 1" "''abc''" "'', ''"] by simp

text \<open>
  A truncated string is a prefix followed by the ellipsis. Its length is the requested one, but
  never less than the length of the ellipsis.
\<close>

theorem Extra_ellipsis_length:
  "if int (length str) \<le> howLong then ellipsisWith howLong app str = str
   else (\<exists>k. ellipsisWith howLong app str = take k str @ app) \<and>
     int (length (ellipsisWith howLong app str)) = max howLong (int (length app))"
proof (cases "int (length str) \<le> howLong")
  case False
  define k where "k = nat (howLong - int (length app))"
  have "ellipsisWith howLong app str = take k str @ app"
    using False by (auto simp: ellipsisWith_def NString_length_def NString_left_def js_slice_prefix k_def)
  moreover have "k \<le> length str"
    using False by (simp add: k_def)
  then have "int (length (take k str @ app)) = max howLong (int (length app))"
    by (simp add: k_def)
  ultimately show ?thesis
    using False by auto
qed (simp add: ellipsisWith_def NString_length_def)

lemma NString_dropLeft_nat: "NString_dropLeft (int n) s = drop n s"
  using js_slice_int [of n "length s" s] by (cases n) (simp_all add: NString_dropLeft_def)

lemma NString_dropRight_nat: "NString_dropRight (int n) s = take (length s - n) s"
proof (cases "n = 0")
  case False
  have "nat (int (length s) + - int n) = length s - n"
    by simp
  with False show ?thesis
    by (simp add: NString_dropRight_def js_slice_def js_clip_def del: add_uminus_conv_diff)
qed (simp add: NString_dropRight_def)

text \<open>Removing what \<^verbatim>\<open>surround\<close> added gives the string back.\<close>

theorem Extra_unsurround_surround: "unsurround wrap (surround wrap str) = str \<and> unquote (Extra_quote str) = str"
proof -
  have "unsurround w (surround w s) = s" for w s
  proof -
    have "NString_startsWith w (w @ s @ w)"
      using js_index_from_0 [of w 0 "w @ s @ w"] by (simp add: NString_startsWith_def js_indexOf_def)
    moreover have "NString_endsWith w (w @ s @ w)"
      using js_last_from_suffix [of w "w @ s @ w" "length (w @ s @ w)"]
      by (auto simp: NString_endsWith_def js_lastIndexOf_def suffix_def)
    ultimately show ?thesis
      by (simp add: unsurround_def surround_def NString_length_def NString_dropLeft_nat NString_dropRight_nat)
  qed
  then show ?thesis
    by (simp add: unquote_def Extra_quote_def)
qed


text \<open>
  Replacing a slice keeps what stands before its start and from its end on; inserting at an
  index keeps everything.
\<close>

theorem Extra_replaceSlice_correct:
  assumes "i \<le> j" and "j \<le> length str"
  shows "replaceSlice sub (int i) (int j) str = take i str @ sub @ drop j str \<and>
    insertAt sub (int i) str = take i str @ sub @ drop i str"
  using js_slice_int [of j "length str" str] js_slice_int [of i "length str" str]
  by (simp add: replaceSlice_def insertAt_def NString_slice_def NString_length_def js_slice_prefix)

theorem Extra_replaceSlice_correct_witness:
  "replaceSlice ''under'' (int 7) (int 9) ''snakes on a plane'' = take 7 ''snakes on a plane'' @ ''under'' @ drop 9 ''snakes on a plane'' \<and>
    insertAt ''under'' (int 7) ''snakes on a plane'' = take 7 ''snakes on a plane'' @ ''under'' @ drop 7 ''snakes on a plane''"
  using Extra_replaceSlice_correct [of 7 9 "''snakes on a plane''" "''under''"] by simp

subsection \<open>Soft breaks\<close>

lemma rx_tokens_digits:
  "list_all is_digit ds \<Longrightarrow> rx_tokens (ds @ t) = map (\<lambda>c. TAtom (rx_char c)) ds @ rx_tokens t"
proof (induction ds)
  case (Cons d ds)
  then have "d \<notin> {CHR 0x5C, CHR ''('', CHR '')'', CHR ''|'', CHR ''['', CHR ''^'', CHR ''$'', CHR ''.'',
      CHR ''*'', CHR ''+'', CHR ''?'', CHR ''{''}"
    by (auto simp: is_digit_def less_eq_char_def)
  then have "rx_token d (ds @ t) = (TAtom (rx_char d), ds @ t)"
    by (simp add: rx_token_def)
  with Cons show ?case
    by simp
qed simp

lemma digits_nat_show: "digits_nat (show_nat n) = n"
proof -
  have "int (foldl (\<lambda>n c. 10 * n + nat (digit_value c)) k ds) = foldl (\<lambda>n d. 10 * n + digit_value d) (int k) ds"
    if "list_all is_digit ds" for k ds
    using that
  proof (induction ds arbitrary: k)
    case (Cons d ds)
    have "48 \<le> (of_char d :: nat)"
      using Cons.prems by (simp add: is_digit_def less_eq_char_def)
    moreover have "(of_char d :: int) = int (of_char d)"
      by (rule of_nat_of_char [symmetric])
    ultimately have "0 \<le> digit_value d"
      using Cons.prems by (simp add: digit_value_def)
    with Cons show ?case
      by simp
  qed simp
  from this [of "show_nat n" 0] show ?thesis
    using show_nat_digits(1) [of n] show_nat_value [of n] by (simp add: digits_nat_def)
qed

abbreviation soft_tail :: string where
  "soft_tail \<equiv> ''('' @ bsl @ ''s+|$)|'' @ bsl @ ''S+?('' @ bsl @ ''s+|$)''"

lemma takeWhile_show:
  "takeWhile is_digit (show_nat n @ CHR ''}'' # t) = show_nat n"
  "dropWhile is_digit (show_nat n @ CHR ''}'' # t) = CHR ''}'' # t"
  using show_nat_digits(1) [of n]
  by (simp_all add: takeWhile_append dropWhile_append list_all_iff is_digit_def less_eq_char_def)

lemma rx_braces_nat:
  "rx_braces (''1,'' @ show_nat n @ ''}'' @ t) = Some (1, Some n, t)"
  using show_nat_digits(2) [of n] takeWhile_show [of n t]
  by (simp add: rx_braces_def digits_nat_show Let_def)
    (simp add: is_digit_def less_eq_char_def digits_nat_def digit_value_def)


lemma softBreakRegexp_nat:
  "softBreakRegexp (int n) =
   (if n = 0 then Inl rx_syntax
    else Inr (rx_global (RAlt
      (seq_rx [RRep rx_dot 1 (Some n) True,
        RGroup 0 (RAlt (seq_rx [RRep (RSet False [RSpace True]) 1 None True]) (seq_rx [REol]))])
      (seq_rx [RRep (RSet False [RSpace False]) 1 None False,
        RGroup 1 (RAlt (seq_rx [RRep (RSet False [RSpace True]) 1 None True]) (seq_rx [REol]))])) 2))"
proof (cases "n = 0")
  case True
  then show ?thesis
    using rx_braces_nat [of 0 soft_tail]
    by (simp add: softBreakRegexp_def show_int_def) (simp add: regex_simps)
next
  case False
  then show ?thesis
    using rx_braces_nat [of n soft_tail]
    by (simp add: softBreakRegexp_def show_int_def) (simp add: regex_simps numeral_2_eq_2)
qed

lemma softBreakRegexp_neg: "\<exists>re. softBreakRegexp (- int (Suc n)) = Inr re"
proof -
  have sh: "show_int (- int (Suc n)) = CHR ''-'' # show_nat (Suc n)"
    by (simp add: show_int_def del: of_nat_Suc)
  have "rx_braces (''1,-'' @ show_nat (Suc n) @ ''}'' @ soft_tail) = None"
    by (simp add: rx_braces_def is_digit_def less_eq_char_def Let_def)
  then show ?thesis
    using rx_tokens_digits [OF show_nat_digits(1), of "Suc n" "''}'' @ soft_tail"]
      rx_parse_atoms [where f = rx_char and s = "show_nat (Suc n)"]
    by (simp add: softBreakRegexp_def sh del: of_nat_Suc) (simp add: regex_simps)
qed


text \<open>
  \<^verbatim>\<open>softEllipsis\<close> throws a \<^verbatim>\<open>SyntaxError\<close> for the length 0 and a non-empty string, because it
  builds the pattern \<^verbatim>\<open>.{1,0}\<close>, and throws in no other case; \<^verbatim>\<open>softBreak\<close> never throws.
\<close>

theorem Extra_softEllipsis_throws:
  "(softEllipsis howLong str = Inl rx_syntax) = (howLong = 0 \<and> str \<noteq> []) \<and>
   (\<exists>r. softEllipsis howLong str = Inr r) = (howLong \<noteq> 0 \<or> str = []) \<and>
   (\<exists>ps. softBreak howLong str = Inr ps)"
proof -
  have re: "\<exists>re. softBreakRegexp w = Inr re" if "w \<noteq> 0" for w
    using that softBreakRegexp_nat [of "nat w"] softBreakRegexp_neg [of "nat (- w - 1)"]
    by (cases "w < 0") auto
  have tail: "\<exists>t. regex (''(['' @ bsl @ ''.,;:'' @ bsl @ ''s])+$'') = Inr t"
    by (simp add: regex_simps)
  obtain t where t: "regex (''(['' @ bsl @ ''.,;:'' @ bsl @ ''s])+$'') = Inr t"
    using tail by blast
  show ?thesis
  proof (cases "howLong = 0")
    case True
    have "softBreakRegexp 0 = Inl rx_syntax"
      using softBreakRegexp_nat [of 0] by simp
    with True show ?thesis
      unfolding softEllipsis_def softBreak_def t by (simp add: NString_length_def)
  next
    case False
    then obtain r where r: "softBreakRegexp howLong = Inr r"
      using re by blast
    with False show ?thesis
      unfolding softEllipsis_def softBreak_def t by simp
  qed
qed


subsection \<open>Occurrences\<close>

lemma js_split_by_index:
  assumes "p \<noteq> []"
  shows "js_split_loop p cur s =
    (case find (\<lambda>j. prefix p (drop j s)) [0..<Suc (length s)] of
       None \<Rightarrow> [rev cur @ s]
     | Some d \<Rightarrow> (rev cur @ take d s) # js_split_loop p [] (drop (d + length p) s))"
proof (induction s arbitrary: cur)
  case Nil
  with assms show ?case
    by simp
next
  case (Cons c cs)
  show ?case
  proof (cases "prefix p (c # cs)")
    case True
    with assms show ?thesis
      by (subst find_upt_Suc) simp
  next
    case False
    with Cons show ?thesis
      by (subst find_upt_Suc) (auto simp del: upt_Suc split: option.split)
  qed
qed

lemma indexes_loop_props:
  assumes "p \<noteq> []"
  shows "i \<le> length str \<Longrightarrow> Suc (length (indexes_loop p str i)) = length (js_split_loop p [] (drop i str)) \<and>
    (\<forall>j \<in> set (indexes_loop p str i). 0 \<le> j \<and> prefix p (drop (nat j) str))"
proof (induction "length str - i" arbitrary: i rule: less_induct)
  case less
  let ?f = "find (\<lambda>j. prefix p (drop j (drop i str))) [0..<Suc (length (drop i str))]"
  have idx: "js_indexOf p str i = (case ?f of None \<Rightarrow> -1 | Some d \<Rightarrow> int (i + d))"
    by (simp add: js_indexOf_def js_index_find)
  show ?case
  proof (cases ?f)
    case None
    then have "indexes_loop p str i = []"
      by (subst indexes_loop.simps) (simp add: idx del: upt_Suc)
    with None show ?thesis
      by (subst js_split_by_index [OF assms]) (simp del: upt_Suc)
  next
    case (Some d)
    then have pre: "prefix p (drop (i + d) str)"
      by (auto simp: find_Some_iff add.commute simp del: upt_Suc)
    then have le: "i + d + length p \<le> length str"
      using assms by (auto dest!: prefix_length_le) (cases "i + d \<le> length str"; cases p; simp)
    have "0 < length p"
      using assms by simp
    then have "length str - (i + d + length p) < length str - i"
      using le by linarith
    from less.hyps [OF this] le Some pre less.prems assms show ?thesis
      by (subst (1 2) indexes_loop.simps, subst js_split_by_index [OF assms])
        (simp add: idx add.commute add.left_commute nat_add_distrib del: upt_Suc)
  qed
qed

text \<open>
  \<^verbatim>\<open>countOccurrences\<close> counts what \<^verbatim>\<open>split\<close> cuts at: one less than the number of pieces.
\<close>

theorem Extra_countOccurrences_correct:
  "countOccurrences needle haystack =
   (if needle = [] \<or> haystack = [] then 0 else int (length (NString_split needle haystack)) - 1)"
  using indexes_loop_props [of needle 0 haystack]
  by (auto simp: countOccurrences_def NString_length_def NString_indexes_def elm_simps js_split_def)

text \<open>
  \<^verbatim>\<open>leftOfBack\<close> and \<^verbatim>\<open>rightOfBack\<close> cut the string at an occurrence of the pattern; without one,
  both are empty.
\<close>

theorem Extra_back_sides:
  "if NString_indexes pattern str = [] then leftOfBack pattern str = [] \<and> rightOfBack pattern str = []
   else leftOfBack pattern str @ pattern @ rightOfBack pattern str = str"
proof (cases "NString_indexes pattern str = []")
  case True
  then show ?thesis
    by (simp add: leftOfBack_def rightOfBack_def Maybe_withDefault_def Maybe_map_def List_head_def elm_simps)
next
  case False
  define j where "j = last (NString_indexes pattern str)"
  have "pattern \<noteq> []"
    using False by (auto simp: NString_indexes_def elm_simps)
  moreover have "j \<in> set (NString_indexes pattern str)"
    using False by (simp add: j_def)
  ultimately have "0 \<le> j" and "prefix pattern (drop (nat j) str)"
    using indexes_loop_props [of pattern 0 str] by (auto simp: NString_indexes_def elm_simps split: if_splits)
  then obtain n where j: "j = int n" and n: "prefix pattern (drop n str)"
    by (metis int_nat_eq)
  obtain t where t: "drop n str = pattern @ t"
    using n by (auto elim: prefixE)
  have h: "List_head (List_reverse (NString_indexes pattern str)) = Some (int n)"
    using False j by (cases "NString_indexes pattern str" rule: rev_cases) (simp_all add: List_head_def j_def elm_simps)
  have "leftOfBack pattern str = take n str"
    by (simp add: leftOfBack_def h Maybe_withDefault_def Maybe_map_def NString_left_def js_slice_prefix)
  moreover have "rightOfBack pattern str = t"
    using NString_dropLeft_nat [of "length pattern + n" str] t
    by (simp add: rightOfBack_def h Maybe_withDefault_def Maybe_map_def NString_length_def
        drop_drop [symmetric] del: drop_drop)
  ultimately show ?thesis
    using False t append_take_drop_id [of n str] by simp
qed

end
