(* ===== verification/Elm_Equality.thy ===== *)
theory Elm_Equality
  imports Kubecast_Prelude
begin

text \<open>
  Structural equality (\<^verbatim>\<open>eq\<close> and \<^verbatim>\<open>eqHelp\<close> of \<^verbatim>\<open>Native/Utils.js\<close>), which Elm's \<^verbatim>\<open>(==)\<close> is compiled to. The
  code descends to depth 100 and puts what lies deeper onto a stack, which \<^verbatim>\<open>eq\<close> works off. The
  reference is equality of what the values mean: records by their fields, dictionaries, sets and
  arrays by their elements.
\<close>

subsection \<open>Values\<close>

datatype prim = P_number int | P_string string | P_bool bool

text \<open>
  Dictionaries, sets and arrays are given by what \<^verbatim>\<open>toList\<close> and \<^verbatim>\<open>toJSArray\<close> return for them, since the code
  looks at nothing else. A character is a \<^verbatim>\<open>String\<close> object. \<open>E_undefined\<close> is what reading a
  property yields that an object does not have.
\<close>

datatype evalue =
    E_undefined
  | E_prim prim
  | E_function nat
  | E_char char
  | E_date int
  | E_record "(string \<times> evalue) list"
  | E_ctor string "evalue list"
  | E_list "evalue list"
  | E_array "evalue list"
  | E_dict "(evalue \<times> evalue) list"
  | E_set "evalue list"

text \<open>The properties of objects: the constructor's name, its arguments \<^verbatim>\<open>_0\<close>, \<^verbatim>\<open>_1\<close> and so on, and names.\<close>

datatype js_key = K_ctor | K_index nat | K_name string

definition ctor_fields :: "string \<Rightarrow> evalue list \<Rightarrow> (js_key \<times> evalue) list" where
  "ctor_fields c args =
     (K_ctor, E_prim (P_string c)) # map (\<lambda>i. (K_index i, args ! i)) [0..<length args]"

fun own_fields :: "evalue \<Rightarrow> (js_key \<times> evalue) list" where
  "own_fields (E_char c) = [(K_index 0, E_prim (P_string [c]))]"
| "own_fields (E_record fs) = map (\<lambda>(k, v). (K_name k, v)) fs"
| "own_fields (E_ctor c args) = ctor_fields c args"
| "own_fields (E_list []) = ctor_fields ''[]'' []"
| "own_fields (E_list (x # xs)) = ctor_fields ''::'' [x, E_list xs]"
| "own_fields (E_array _) = [(K_ctor, E_prim (P_string ''_Array''))]"
| "own_fields (E_dict _) = [(K_ctor, E_prim (P_string ''RBNode_elm_builtin''))]"
| "own_fields (E_set _) = [(K_ctor, E_prim (P_string ''Set_elm_builtin''))]"
| "own_fields _ = []"

text \<open>
  \<^verbatim>\<open>y[key]\<close>; the parameter gives the properties that a value has besides, such as those of its prototype.
  A property of \<^verbatim>\<open>undefined\<close> cannot be read.
\<close>

definition js_get :: "(evalue \<Rightarrow> js_key \<Rightarrow> evalue) \<Rightarrow> evalue \<Rightarrow> js_key \<Rightarrow> evalue result" where
  "js_get inherited y k =
     (if y = E_undefined then Inl TypeError
      else case map_of (own_fields y) k of Some v \<Rightarrow> Inr v | None \<Rightarrow> Inr (inherited y k))"

definition functions_error :: js_error where
  "functions_error = JsError
     ''Trying to use `(==)` on functions. There is no way to know if functions are the same in the Elm sense.''"

definition tuple2 :: "evalue \<times> evalue \<Rightarrow> evalue" where
  "tuple2 kv = E_ctor ''_Tuple2'' [fst kv, snd kv]"

fun weight :: "evalue \<Rightarrow> nat" where
  "weight (E_record fs) = 2 + sum_list (map (\<lambda>(k, v). Suc (weight v)) fs)"
| "weight (E_ctor c args) = 8 + sum_list (map (\<lambda>v. Suc (weight v)) args)"
| "weight (E_list xs) = 8 + sum_list (map (\<lambda>v. Suc (weight v)) xs)"
| "weight (E_array xs) = 8 + sum_list (map (\<lambda>v. Suc (weight v)) xs)"
| "weight (E_dict kvs) = 8 + sum_list (map (\<lambda>(k, v). 12 + weight k + weight v) kvs)"
| "weight (E_set xs) = 8 + sum_list (map (\<lambda>v. Suc (weight v)) xs)"
| "weight (E_char c) = 4"
| "weight _ = 1"

lemma weight_pos: "weight x > 0"
  by (cases x) auto

lemma ctor_fields_weight:
  "sum_list (map (\<lambda>(k, v). Suc (weight v)) (ctor_fields c args)) = 2 + sum_list (map (\<lambda>v. Suc (weight v)) args)"
proof -
  have "map (\<lambda>i. Suc (weight (args ! i))) [0..<length args] = map (\<lambda>v. Suc (weight v)) args"
    by (rule nth_equalityI) auto
  then show ?thesis by (simp add: ctor_fields_def comp_def)
qed

text \<open>Dictionaries and sets are turned into lists; \<^verbatim>\<open>toList\<close> of a value of another type throws.\<close>

fun convert :: "evalue \<Rightarrow> evalue \<Rightarrow> (evalue \<times> evalue) result" where
  "convert (E_dict kvs) (E_dict kvs') = Inr (E_list (map tuple2 kvs), E_list (map tuple2 kvs'))"
| "convert (E_dict kvs) y = Inl TypeError"
| "convert (E_set xs) (E_set ys) = Inr (E_list xs, E_list ys)"
| "convert (E_set xs) y = Inl TypeError"
| "convert x y = Inr (x, y)"

lemma convert_weight: "convert x y = Inr (x', y') \<Longrightarrow> weight x' \<le> weight x"
proof (induction x y rule: convert.induct)
  case (1 kvs kvs')
  have "sum_list (map (\<lambda>v. Suc (weight v)) (map tuple2 kvs)) \<le> sum_list (map (\<lambda>(k, v). 12 + weight k + weight v) kvs)"
    by (induction kvs) (auto simp: tuple2_def)
  with 1 show ?case by auto
qed auto

type_synonym eq_stack = "(evalue \<times> evalue) list"

text \<open>
  \<^verbatim>\<open>eqHelp\<close>, with the top of the stack first; \<open>refEq\<close> is \<^verbatim>\<open>===\<close> on objects. \<open>eqFields\<close> is the loop over the
  properties of \<^verbatim>\<open>x\<close>, \<open>eqElements\<close> the loop over two lists. \<^verbatim>\<open>toJSArray\<close> of a value of another type throws.
\<close>

definition is_object :: "evalue \<Rightarrow> bool" where
  "is_object x = (case x of E_undefined \<Rightarrow> False | E_prim _ \<Rightarrow> False | E_function _ \<Rightarrow> False | _ \<Rightarrow> True)"

text \<open>
  What \<^verbatim>\<open>eqHelp\<close> decides for two values before it descends: it is done, throws, compares the properties of
  \<^verbatim>\<open>x\<close> with those of \<^verbatim>\<open>y\<close>, with the constructors before them where there are any, or compares elements.
\<close>

datatype eq_action =
    Done bool
  | Throw js_error
  | Fields "(js_key \<times> evalue) list" evalue
  | Ctor string "evalue list" evalue
  | Elements "evalue list" "evalue list"

fun eq_converted :: "evalue \<Rightarrow> evalue \<Rightarrow> eq_action" where
  "eq_converted (E_list (a # as)) y =
     (case y of
        E_list ys \<Rightarrow> Elements (a # as) ys
      | E_undefined \<Rightarrow> Throw TypeError
      | _ \<Rightarrow> Done False)"
| "eq_converted (E_array xs) y =
     (case y of
        E_array ys \<Rightarrow> if length xs \<noteq> length ys then Done False else Elements xs ys
      | _ \<Rightarrow> Throw TypeError)"
| "eq_converted (E_list []) y = Ctor ''[]'' [] y"
| "eq_converted (E_ctor c args) y = Ctor c args y"
| "eq_converted x y = Done False"

fun eq_decide :: "evalue \<Rightarrow> evalue \<Rightarrow> eq_action" where
  "eq_decide E_undefined y = Done (y = E_undefined)"
| "eq_decide (E_prim p) y = Done (y = E_prim p)"
| "eq_decide (E_function f) y = (if y = E_function f then Done True else Throw functions_error)"
| "eq_decide (E_date t) y = (case y of E_date u \<Rightarrow> Done (t = u) | _ \<Rightarrow> Throw TypeError)"
| "eq_decide (E_char c) y = Fields (own_fields (E_char c)) y"
| "eq_decide (E_record fs) y = Fields (own_fields (E_record fs)) y"
| "eq_decide x y = (case convert x y of Inl e \<Rightarrow> Throw e | Inr (x', y') \<Rightarrow> eq_converted x' y')"

fun action_weight :: "eq_action \<Rightarrow> nat" where
  "action_weight (Fields kvs y) = 1 + sum_list (map (\<lambda>(k, v). Suc (weight v)) kvs)"
| "action_weight (Ctor c args y) = 6 + sum_list (map (\<lambda>v. Suc (weight v)) args)"
| "action_weight (Elements xs ys) = 1 + sum_list (map (\<lambda>v. Suc (weight v)) xs)"
| "action_weight _ = 0"

lemma eq_converted_weight: "action_weight (eq_converted x y) < weight x"
  by (cases "(x, y)" rule: eq_converted.cases) (auto split: evalue.split)

lemma eq_decide_weight: "action_weight (eq_decide x y) < weight x"
proof -
  have conv: "action_weight (case convert x y of Inl e \<Rightarrow> Throw e | Inr (x', y') \<Rightarrow> eq_converted x' y') < weight x"
    using convert_weight [of x y] weight_pos [of x]
    by (cases "convert x y") (auto intro: less_le_trans [OF eq_converted_weight])
  then show ?thesis
    by (cases x) (auto simp: comp_def case_prod_unfold split: evalue.split simp del: convert.simps)
qed

lemma eq_decideD:
  "eq_decide x y = Fields kvs y' \<Longrightarrow> 1 + sum_list (map (\<lambda>(k, v). Suc (weight v)) kvs) < weight x"
  "eq_decide x y = Ctor c args y' \<Longrightarrow> 6 + sum_list (map (\<lambda>v. Suc (weight v)) args) < weight x"
  "eq_decide x y = Elements xs ys \<Longrightarrow> 1 + sum_list (map (\<lambda>v. Suc (weight v)) xs) < weight x"
  using eq_decide_weight [of x y] by simp_all

function
  eqHelp ::
    "(evalue \<Rightarrow> evalue \<Rightarrow> bool) \<Rightarrow> (evalue \<Rightarrow> js_key \<Rightarrow> evalue) \<Rightarrow> evalue \<Rightarrow> evalue \<Rightarrow> nat \<Rightarrow> eq_stack \<Rightarrow>
     (bool \<times> eq_stack) result"
and eqFields ::
    "(evalue \<Rightarrow> evalue \<Rightarrow> bool) \<Rightarrow> (evalue \<Rightarrow> js_key \<Rightarrow> evalue) \<Rightarrow> (js_key \<times> evalue) list \<Rightarrow> evalue \<Rightarrow> nat \<Rightarrow>
     eq_stack \<Rightarrow> (bool \<times> eq_stack) result"
and eqElements ::
    "(evalue \<Rightarrow> evalue \<Rightarrow> bool) \<Rightarrow> (evalue \<Rightarrow> js_key \<Rightarrow> evalue) \<Rightarrow> evalue list \<Rightarrow> evalue list \<Rightarrow> nat \<Rightarrow>
     eq_stack \<Rightarrow> (bool \<times> eq_stack) result"
where
  "eqHelp refEq inh x y depth stack =
     (if depth > 100 then Inr (True, (x, y) # stack)
      else if is_object x \<and> refEq x y then Inr (True, stack)
      else case eq_decide x y of
        Done b \<Rightarrow> Inr (b, stack)
      | Throw e \<Rightarrow> Inl e
      | Fields kvs y' \<Rightarrow> eqFields refEq inh kvs y' (depth + 1) stack
      | Elements xs ys \<Rightarrow> eqElements refEq inh xs ys (depth + 1) stack
      | Ctor c args y' \<Rightarrow>
          bindE (js_get inh y' K_ctor) (\<lambda>c'.
            bindE (eqHelp refEq inh (E_prim (P_string c)) c' (depth + 1) stack) (\<lambda>(same, stack').
              if \<not> same then Inr (False, stack')
              else eqFields refEq inh (ctor_fields c args) y' (depth + 1) stack')))"
| "eqFields refEq inh [] y depth stack = Inr (True, stack)"
| "eqFields refEq inh ((k, v) # kvs) y depth stack =
     bindE (js_get inh y k) (\<lambda>w.
       bindE (eqHelp refEq inh v w depth stack) (\<lambda>(same, stack').
         if \<not> same then Inr (False, stack') else eqFields refEq inh kvs y depth stack'))"
| "eqElements refEq inh [] ys depth stack = Inr (ys = [], stack)"
| "eqElements refEq inh (x # xs) [] depth stack = Inr (False, stack)"
| "eqElements refEq inh (x # xs) (y # ys) depth stack =
     bindE (eqHelp refEq inh x y depth stack) (\<lambda>(same, stack').
       if \<not> same then Inr (False, stack') else eqElements refEq inh xs ys depth stack')"
  by pat_completeness auto
termination
  by (relation "measure (\<lambda>x. case x of
      Inl (_, _, x, _, _, _) \<Rightarrow> weight x
    | Inr (Inl (_, _, kvs, _, _, _)) \<Rightarrow> sum_list (map (\<lambda>(k, v). Suc (weight v)) kvs)
    | Inr (Inr (_, _, xs, _, _, _)) \<Rightarrow> sum_list (map (\<lambda>v. Suc (weight v)) xs))")
     (auto simp: ctor_fields_weight dest!: eq_decideD)

declare eqHelp.simps [simp del]

text \<open>\<^verbatim>\<open>eq\<close>: its loop ends because what is put onto the stack lies inside the value that was taken from it.\<close>

definition stack_weight :: "eq_stack \<Rightarrow> nat" where
  "stack_weight st = sum_list (map (weight \<circ> fst) st)"

lemma stack_weight_simps [simp]: "stack_weight [] = 0" "stack_weight ((x, y) # st) = weight x + stack_weight st"
  by (simp_all add: stack_weight_def)

lemma eq_stack_weight:
  "eqHelp refEq inh x y d st = Inr (b, st') \<Longrightarrow>
     stack_weight st' \<le> stack_weight st + weight x \<and> (d \<le> 100 \<longrightarrow> stack_weight st' < stack_weight st + weight x)"
  "eqFields refEq inh kvs y d st = Inr (b, st') \<Longrightarrow>
     stack_weight st' \<le> stack_weight st + sum_list (map (\<lambda>(k, v). Suc (weight v)) kvs)"
  "eqElements refEq inh xs ys d st = Inr (b, st') \<Longrightarrow>
     stack_weight st' \<le> stack_weight st + sum_list (map (\<lambda>v. Suc (weight v)) xs)"
proof (induction refEq inh x y d st and refEq inh kvs y d st and refEq inh xs ys d st
    arbitrary: b st' and b st' and b st' rule: eqHelp_eqFields_eqElements.induct)
  case (1 refEq inh x y depth stack)
  show ?case
  proof (cases "depth > 100 \<or> is_object x \<and> refEq x y")
    case True
    with 1(5) weight_pos [of x] show ?thesis by (auto simp: eqHelp.simps [of refEq inh x y] split: if_splits)
  next
    case False
    note prems = 1(5) [unfolded eqHelp.simps [of refEq inh x y]]
    show ?thesis
    proof (cases "eq_decide x y")
      case (Done b')
      with False prems weight_pos [of x] show ?thesis by auto
    next
      case (Fields kvs y')
      with False prems 1(1) [of kvs y' b st'] eq_decideD(1) [OF Fields] show ?thesis by auto
    next
      case (Elements xs ys)
      with False prems 1(4) [of xs ys b st'] eq_decideD(3) [OF Elements] show ?thesis by auto
    next
      case (Ctor c args y')
      with False prems 1(2) 1(3) eq_decideD(2) [OF Ctor] show ?thesis
        by (fastforce simp: bindE_eq_Inr ctor_fields_weight split: if_splits)
    qed (use False prems in auto)
  qed
next
  case (3 refEq inh k v kvs y depth stack)
  then show ?case by (fastforce simp: bindE_eq_Inr split: if_splits)
next
  case (6 refEq inh x xs y ys depth stack)
  then show ?case by (fastforce simp: bindE_eq_Inr split: if_splits)
qed auto

function eq_loop ::
  "(evalue \<Rightarrow> evalue \<Rightarrow> bool) \<Rightarrow> (evalue \<Rightarrow> js_key \<Rightarrow> evalue) \<Rightarrow> bool \<Rightarrow> eq_stack \<Rightarrow> bool result" where
  "eq_loop refEq inh isEqual stack =
     (if \<not> isEqual then Inr False
      else case stack of
        [] \<Rightarrow> Inr True
      | (x, y) # rest \<Rightarrow>
          bindE (eqHelp refEq inh x y 0 rest) (\<lambda>(isEqual', stack'). eq_loop refEq inh isEqual' stack'))"
  by pat_completeness auto
termination
  by (relation "measure (\<lambda>(_, _, _, st). stack_weight st)") (auto dest: eq_stack_weight(1) simp: add.commute)

declare eq_loop.simps [simp del]

definition Utils_eq ::
  "(evalue \<Rightarrow> evalue \<Rightarrow> bool) \<Rightarrow> (evalue \<Rightarrow> js_key \<Rightarrow> evalue) \<Rightarrow> evalue \<Rightarrow> evalue \<Rightarrow> bool result" where
  "Utils_eq refEq inh x y =
     bindE (eqHelp refEq inh x y 0 []) (\<lambda>(isEqual, stack). eq_loop refEq inh isEqual stack)"

end
