(* ===== verification/Elm_Equality_Correct.thy ===== *)
theory Elm_Equality_Correct
  imports Elm_Equality
begin

text \<open>
  Correctness of \<^verbatim>\<open>eq\<close>: on values of the same type it answers whether they mean the same, except that it
  throws for some values that differ at depth 100.
\<close>

subsection \<open>What values mean\<close>

datatype meaning =
    M_undefined
  | M_prim prim
  | M_function nat
  | M_char char
  | M_date int
  | M_record "string \<Rightarrow> meaning option"
  | M_ctor string "meaning list"
  | M_list "meaning list"
  | M_array "meaning list"
  | M_dict "(meaning \<times> meaning) list"
  | M_set "meaning list"

fun denote :: "evalue \<Rightarrow> meaning" where
  "denote E_undefined = M_undefined"
| "denote (E_prim p) = M_prim p"
| "denote (E_function f) = M_function f"
| "denote (E_char c) = M_char c"
| "denote (E_date t) = M_date t"
| "denote (E_record fs) = M_record (map_of (map (\<lambda>(k, v). (k, denote v)) fs))"
| "denote (E_ctor c args) = M_ctor c (map denote args)"
| "denote (E_list xs) = M_list (map denote xs)"
| "denote (E_array xs) = M_array (map denote xs)"
| "denote (E_dict kvs) = M_dict (map (\<lambda>(k, v). (denote k, denote v)) kvs)"
| "denote (E_set xs) = M_set (map denote xs)"

text \<open>Two values of the same type, in which no functions meet.\<close>

fun alike :: "evalue \<Rightarrow> evalue \<Rightarrow> bool" where
  "alike (E_prim p) y = (case y of E_prim _ \<Rightarrow> True | _ \<Rightarrow> False)"
| "alike (E_char c) y = (case y of E_char _ \<Rightarrow> True | _ \<Rightarrow> False)"
| "alike (E_date t) y = (case y of E_date _ \<Rightarrow> True | _ \<Rightarrow> False)"
| "alike (E_record fs) y =
     (case y of
        E_record gs \<Rightarrow>
          distinct (map fst fs) \<and> distinct (map fst gs) \<and> set (map fst fs) = set (map fst gs) \<and>
          (\<forall>(k, v) \<in> set fs. \<forall>(l, w) \<in> set gs. k = l \<longrightarrow> alike v w)
      | _ \<Rightarrow> False)"
| "alike (E_ctor c as) y = (case y of E_ctor d bs \<Rightarrow> c = d \<longrightarrow> list_all2 alike as bs | _ \<Rightarrow> False)"
| "alike (E_list xs) y = (case y of E_list ys \<Rightarrow> \<forall>x \<in> set xs. \<forall>z \<in> set ys. alike x z | _ \<Rightarrow> False)"
| "alike (E_array xs) y = (case y of E_array ys \<Rightarrow> \<forall>x \<in> set xs. \<forall>z \<in> set ys. alike x z | _ \<Rightarrow> False)"
| "alike (E_dict kvs) y =
     (case y of
        E_dict kvs' \<Rightarrow> \<forall>(k, v) \<in> set kvs. \<forall>(l, w) \<in> set kvs'. alike k l \<and> alike v w
      | _ \<Rightarrow> False)"
| "alike (E_set xs) y = (case y of E_set ys \<Rightarrow> \<forall>x \<in> set xs. \<forall>z \<in> set ys. alike x z | _ \<Rightarrow> False)"
| "alike (E_function f) y = False"
| "alike E_undefined y = False"

definition equal_pair :: "evalue \<times> evalue \<Rightarrow> bool" where
  "equal_pair p \<longleftrightarrow> alike (fst p) (snd p) \<and> denote (fst p) = denote (snd p)"

definition unequal_pair :: "evalue \<times> evalue \<Rightarrow> bool" where
  "unequal_pair p \<longleftrightarrow> alike (fst p) (snd p) \<and> denote (fst p) \<noteq> denote (snd p)"

lemma ctor_fields_lookup [simp]:
  "map_of (ctor_fields c args) K_ctor = Some (E_prim (P_string c))"
  "map_of (ctor_fields c args) (K_index i) = (if i < length args then Some (args ! i) else None)"
proof -
  have "map_of (map (\<lambda>i. (K_index i, args ! i)) is) (K_index i) = (if i \<in> set is then Some (args ! i) else None)" for "is"
    by (induction "is") auto
  then show "map_of (ctor_fields c args) (K_index i) = (if i < length args then Some (args ! i) else None)"
    by (simp add: ctor_fields_def)
qed (simp add: ctor_fields_def)

subsection \<open>The decision at a node\<close>

definition fields_equal :: "(evalue \<Rightarrow> js_key \<Rightarrow> evalue) \<Rightarrow> (js_key \<times> evalue) list \<Rightarrow> evalue \<Rightarrow> bool" where
  "fields_equal inh kvs y \<longleftrightarrow> (\<forall>(k, v) \<in> set kvs. \<exists>w. js_get inh y k = Inr w \<and> equal_pair (v, w))"

definition fields_unequal :: "(evalue \<Rightarrow> js_key \<Rightarrow> evalue) \<Rightarrow> (js_key \<times> evalue) list \<Rightarrow> evalue \<Rightarrow> bool" where
  "fields_unequal inh kvs y \<longleftrightarrow> (\<exists>(k, v) \<in> set kvs. \<exists>w. js_get inh y k = Inr w \<and> unequal_pair (v, w))"

definition action_equal :: "(evalue \<Rightarrow> js_key \<Rightarrow> evalue) \<Rightarrow> eq_action \<Rightarrow> bool" where
  "action_equal inh a \<longleftrightarrow>
     (case a of
        Done b \<Rightarrow> b
      | Throw e \<Rightarrow> False
      | Fields kvs y \<Rightarrow> fields_equal inh kvs y
      | Ctor c args y \<Rightarrow> js_get inh y K_ctor = Inr (E_prim (P_string c)) \<and> fields_equal inh (ctor_fields c args) y
      | Elements xs ys \<Rightarrow> list_all2 (\<lambda>x y. equal_pair (x, y)) xs ys)"

definition action_unequal :: "(evalue \<Rightarrow> js_key \<Rightarrow> evalue) \<Rightarrow> eq_action \<Rightarrow> bool" where
  "action_unequal inh a \<longleftrightarrow>
     (case a of
        Done b \<Rightarrow> \<not> b
      | Throw e \<Rightarrow> False
      | Fields kvs y \<Rightarrow> fields_unequal inh kvs y
      | Ctor c args y \<Rightarrow>
          (\<exists>c'. js_get inh y K_ctor = Inr (E_prim (P_string c')) \<and>
             (c' = c \<longrightarrow> fields_unequal inh (ctor_fields c args) y))
      | Elements xs ys \<Rightarrow> (\<forall>x \<in> set xs. \<forall>y \<in> set ys. alike x y) \<and> map denote xs \<noteq> map denote ys)"

lemma js_get_ctor: "js_get inh (E_ctor c args) K_ctor = Inr (E_prim (P_string c))"
  "i < length args \<Longrightarrow> js_get inh (E_ctor c args) (K_index i) = Inr (args ! i)"
  by (simp_all add: js_get_def)

lemma ctor_fields_mem:
  "(k, v) \<in> set (ctor_fields c args) \<longleftrightarrow>
     (k = K_ctor \<and> v = E_prim (P_string c)) \<or> (\<exists>i < length args. k = K_index i \<and> v = args ! i)"
  by (auto simp: ctor_fields_def)

lemma map_of_names: "map_of (map (\<lambda>(k, v). (K_name k, v)) fs) (K_name k) = map_of fs k"
  by (induction fs) auto

lemma map_of_denote: "map_of (map (\<lambda>(k, v). (k, denote v)) fs) k = map_option denote (map_of fs k)"
  by (induction fs) auto

lemma list_all2_equal:
  "(\<forall>x \<in> set xs. \<forall>y \<in> set ys. alike x y) \<Longrightarrow> map denote xs = map denote ys \<Longrightarrow>
   list_all2 (\<lambda>x y. equal_pair (x, y)) xs ys"
proof (induction xs arbitrary: ys)
  case (Cons x xs)
  then show ?case by (cases ys) (auto simp: equal_pair_def)
qed simp

lemma tuples_alike:
  "(\<forall>(k, v) \<in> set kvs. \<forall>(l, w) \<in> set kvs'. alike k l \<and> alike v w) \<Longrightarrow>
   \<forall>x \<in> set (map tuple2 kvs). \<forall>y \<in> set (map tuple2 kvs'). alike x y"
  by (fastforce simp: tuple2_def)

lemma tuples_denote:
  "map denote (map tuple2 kvs) = map denote (map tuple2 kvs') \<longleftrightarrow>
   map (\<lambda>(k, v). (denote k, denote v)) kvs = map (\<lambda>(k, v). (denote k, denote v)) kvs'"
proof (induction kvs arbitrary: kvs')
  case (Cons kv kvs)
  then show ?case by (cases kvs'; cases kv) (auto simp: tuple2_def)
qed auto

lemma converted_equal:
  "(\<forall>x \<in> set xs. \<forall>y \<in> set ys. alike x y) \<Longrightarrow> map denote xs = map denote ys \<Longrightarrow>
   action_equal inh (eq_converted (E_list xs) (E_list ys))"
  using list_all2_equal [of xs ys]
  by (cases xs) (auto simp: action_equal_def js_get_def fields_equal_def ctor_fields_mem equal_pair_def)

lemma converted_unequal:
  "(\<forall>x \<in> set xs. \<forall>y \<in> set ys. alike x y) \<Longrightarrow> map denote xs \<noteq> map denote ys \<Longrightarrow>
   action_unequal inh (eq_converted (E_list xs) (E_list ys))"
  by (cases xs; cases ys) (auto simp: action_unequal_def js_get_def)

lemma record_alike:
  assumes "alike (E_record fs) (E_record gs)" "(k, v) \<in> set fs"
  shows "\<exists>w. js_get inh (E_record gs) (K_name k) = Inr w \<and> alike v w \<and> map_of gs k = Some w \<and> map_of fs k = Some v"
proof -
  have wf: "distinct (map fst fs)" "set (map fst fs) = set (map fst gs)"
      "\<forall>(k, v) \<in> set fs. \<forall>(l, w) \<in> set gs. k = l \<longrightarrow> alike v w" using assms(1) by auto
  have "k \<in> set (map fst gs)" using assms(2) wf(2) by (metis fst_conv image_eqI set_map)
  then obtain w where w: "map_of gs k = Some w" by (metis map_of_eq_None_iff not_None_eq set_map)
  have "alike v w" using wf(3) assms(2) map_of_SomeD [OF w] by blast
  with w assms(2) wf(1) show ?thesis by (simp add: js_get_def map_of_names)
qed

lemma record_equal:
  assumes "alike (E_record fs) (E_record gs)"
  shows "denote (E_record fs) = denote (E_record gs) \<longleftrightarrow>
    (\<forall>k v w. map_of fs k = Some v \<longrightarrow> map_of gs k = Some w \<longrightarrow> denote v = denote w)"
proof -
  have dom: "map_of fs k = None \<longleftrightarrow> map_of gs k = None" for k
    using assms by (auto simp: map_of_eq_None_iff)
  have at: "map_option denote (map_of fs k) = map_option denote (map_of gs k) \<longleftrightarrow>
      (\<forall>v w. map_of fs k = Some v \<longrightarrow> map_of gs k = Some w \<longrightarrow> denote v = denote w)" for k
    using dom [of k] by (cases "map_of fs k"; cases "map_of gs k") simp_all
  have "denote (E_record fs) = denote (E_record gs) \<longleftrightarrow> (\<forall>k. map_option denote (map_of fs k) = map_option denote (map_of gs k))"
    by (simp add: fun_eq_iff map_of_denote)
  also have "\<dots> \<longleftrightarrow> (\<forall>k v w. map_of fs k = Some v \<longrightarrow> map_of gs k = Some w \<longrightarrow> denote v = denote w)"
    unfolding at by blast
  finally show ?thesis .
qed

lemma ctor_equal:
  assumes "list_all2 alike as bs" "map denote as = map denote bs"
  shows "fields_equal inh (ctor_fields c as) (E_ctor c bs)"
proof -
  have "length as = length bs" using assms(1) by (simp add: list_all2_lengthD)
  moreover have "equal_pair (as ! i, bs ! i)" if "i < length as" for i
    using that assms list_all2_nthD [OF assms(1) that] calculation by (metis equal_pair_def fst_conv snd_conv nth_map)
  ultimately show ?thesis
    by (auto simp: fields_equal_def ctor_fields_mem js_get_ctor) (simp add: equal_pair_def)
qed

lemma ctor_unequal:
  assumes "list_all2 alike as bs" "map denote as \<noteq> map denote bs"
  shows "fields_unequal inh (ctor_fields c as) (E_ctor c bs)"
proof -
  have len: "length as = length bs" using assms(1) by (simp add: list_all2_lengthD)
  with assms(2) obtain i where i: "i < length as" "denote (as ! i) \<noteq> denote (bs ! i)"
    by (metis length_map nth_equalityI nth_map)
  then have "unequal_pair (as ! i, bs ! i)" "js_get inh (E_ctor c bs) (K_index i) = Inr (bs ! i)"
    using list_all2_nthD [OF assms(1)] len by (auto simp: unequal_pair_def js_get_ctor)
  moreover have "(K_index i, as ! i) \<in> set (ctor_fields c as)" using i by (auto simp: ctor_fields_mem)
  ultimately show ?thesis unfolding fields_unequal_def by blast
qed

lemma decide_equal:
  assumes "alike x y" "denote x = denote y"
  shows "action_equal inh (eq_decide x y)"
proof (cases x)
  case (E_char c)
  with assms show ?thesis
    by (cases y) (auto simp: action_equal_def fields_equal_def js_get_def equal_pair_def)
next
  case (E_record fs)
  then obtain gs where y: "y = E_record gs" using assms(1) by (cases y) auto
  note al = assms(1) [unfolded E_record y]
  have "\<exists>w. js_get inh (E_record gs) (K_name k) = Inr w \<and> equal_pair (v, w)" if "(k, v) \<in> set fs" for k v
    using record_alike [OF al that, of inh] record_equal [OF al] assms(2) E_record y by (auto simp: equal_pair_def)
  then show ?thesis by (auto simp: E_record y action_equal_def fields_equal_def)
next
  case (E_ctor c as)
  with assms obtain bs where "y = E_ctor c bs" "list_all2 alike as bs" "map denote as = map denote bs" by (cases y) auto
  with ctor_equal show ?thesis by (simp add: E_ctor action_equal_def js_get_ctor)
next
  case (E_list xs)
  with assms show ?thesis using converted_equal [of xs _ inh] by (cases y) auto
next
  case (E_array xs)
  with assms show ?thesis
    using list_all2_equal [of xs] by (cases y) (auto simp: action_equal_def dest: map_eq_imp_length_eq)
next
  case (E_dict kvs)
  with assms obtain kvs' where y: "y = E_dict kvs'" by (cases y) auto
  from converted_equal [OF tuples_alike, of kvs kvs'] assms tuples_denote [of kvs kvs'] show ?thesis
    by (simp add: E_dict y)
next
  case (E_set xs)
  with assms show ?thesis using converted_equal [of xs _ inh] by (cases y) auto
qed (use assms in \<open>cases y; auto simp: action_equal_def\<close>)+

lemma decide_unequal:
  assumes "alike x y" "denote x \<noteq> denote y"
  shows "action_unequal inh (eq_decide x y)"
proof (cases x)
  case (E_char c)
  with assms show ?thesis
    by (cases y) (auto simp: action_unequal_def fields_unequal_def js_get_def unequal_pair_def)
next
  case (E_record fs)
  then obtain gs where y: "y = E_record gs" using assms(1) by (cases y) auto
  note al = assms(1) [unfolded E_record y]
  from assms(2) record_equal [OF al] E_record y obtain k v w where
    kv: "map_of fs k = Some v" "map_of gs k = Some w" "denote v \<noteq> denote w" by blast
  from record_alike [OF al map_of_SomeD [OF kv(1)], of inh] kv have
    "js_get inh (E_record gs) (K_name k) = Inr w" "unequal_pair (v, w)" by (auto simp: unequal_pair_def)
  with map_of_SomeD [OF kv(1)] show ?thesis
    by (force simp: E_record y action_unequal_def fields_unequal_def)
next
  case (E_ctor c as)
  with assms obtain d bs where y: "y = E_ctor d bs" "d = c \<longrightarrow> list_all2 alike as bs \<and> map denote as \<noteq> map denote bs"
    by (cases y) auto
  with ctor_unequal show ?thesis by (auto simp: E_ctor action_unequal_def js_get_ctor)
next
  case (E_list xs)
  with assms show ?thesis using converted_unequal [of xs _ inh] by (cases y) auto
next
  case (E_array xs)
  with assms show ?thesis by (cases y) (auto simp: action_unequal_def)
next
  case (E_dict kvs)
  with assms obtain kvs' where y: "y = E_dict kvs'" by (cases y) auto
  from converted_unequal [OF tuples_alike, of kvs kvs'] assms tuples_denote [of kvs kvs'] show ?thesis
    by (simp add: E_dict y)
next
  case (E_set xs)
  with assms show ?thesis using converted_unequal [of xs _ inh] by (cases y) auto
qed (use assms in \<open>cases y; auto simp: action_unequal_def\<close>)+

subsection \<open>One call\<close>

text \<open>Equal values: the call says so, and everything it defers is equal, too.\<close>

definition says_equal :: "eq_stack \<Rightarrow> (bool \<times> eq_stack) result \<Rightarrow> bool" where
  "says_equal st r \<longleftrightarrow> (\<exists>new. r = Inr (True, new @ st) \<and> (\<forall>p \<in> set new. equal_pair p))"

lemma says_equal_bind:
  assumes "says_equal st r" "\<And>st'. r = Inr (True, st') \<Longrightarrow> says_equal st' (f st')"
  shows "says_equal st (bindE r (\<lambda>(same, st'). if \<not> same then Inr (False, st') else f st'))"
proof -
  obtain new where new: "r = Inr (True, new @ st)" "\<forall>p \<in> set new. equal_pair p"
    using assms(1) by (auto simp: says_equal_def)
  obtain new' where "f (new @ st) = Inr (True, new' @ new @ st)" "\<forall>p \<in> set new'. equal_pair p"
    using assms(2) [OF new(1)] by (auto simp: says_equal_def)
  with new show ?thesis by (auto simp: says_equal_def intro: exI [of _ "new' @ new"])
qed

lemma eqHelp_equal:
  "equal_pair (x, y) \<Longrightarrow> says_equal st (eqHelp refEq inh x y d st)"
  "fields_equal inh kvs y \<Longrightarrow> says_equal st (eqFields refEq inh kvs y d st)"
  "list_all2 (\<lambda>x y. equal_pair (x, y)) xs ys \<Longrightarrow> says_equal st (eqElements refEq inh xs ys d st)"
proof (induction refEq inh x y d st and refEq inh kvs y d st and refEq inh xs ys d st
    rule: eqHelp_eqFields_eqElements.induct)
  case (1 refEq inh x y depth stack)
  show ?case
  proof (cases "depth > 100 \<or> is_object x \<and> refEq x y")
    case True
    with 1(5) show ?thesis by (auto simp: eqHelp.simps [of refEq inh x y] says_equal_def)
  next
    case False
    have act: "action_equal inh (eq_decide x y)" using 1(5) decide_equal by (simp add: equal_pair_def)
    show ?thesis
    proof (cases "eq_decide x y")
      case (Ctor c args y')
      with act have get: "js_get inh y' K_ctor = Inr (E_prim (P_string c))" "fields_equal inh (ctor_fields c args) y'"
        by (auto simp: action_equal_def)
      have "says_equal stack (bindE (eqHelp refEq inh (E_prim (P_string c)) (E_prim (P_string c)) (depth + 1) stack)
          (\<lambda>(same, st'). if \<not> same then Inr (False, st') else eqFields refEq inh (ctor_fields c args) y' (depth + 1) st'))"
        using 1(2,3) False Ctor get by (intro says_equal_bind) (auto simp: equal_pair_def)
      with False Ctor get show ?thesis by (auto simp: eqHelp.simps [of refEq inh x y])
    qed (use False act 1(1,4) in \<open>auto simp: eqHelp.simps [of refEq inh x y] action_equal_def says_equal_def\<close>)
  qed
next
  case (3 refEq inh k v kvs y depth stack)
  then obtain w where w: "js_get inh y k = Inr w" "equal_pair (v, w)" "fields_equal inh kvs y"
    by (auto simp: fields_equal_def)
  with 3(1,2) show ?case by (simp, intro says_equal_bind) auto
next
  case (6 refEq inh x xs y ys depth stack)
  then show ?case by (simp, intro says_equal_bind) auto
qed (auto simp: says_equal_def)

text \<open>
  Different values: if the call does not notice, it defers a pair of different values of the same
  type.
\<close>

definition notices :: "eq_stack \<Rightarrow> (bool \<times> eq_stack) result \<Rightarrow> bool" where
  "notices st r \<longleftrightarrow> (\<forall>st'. r = Inr (True, st') \<longrightarrow> (\<exists>new. st' = new @ st \<and> (\<exists>p \<in> set new. unequal_pair p)))"

lemma eq_stack_grows:
  "eqHelp refEq inh x y d st = Inr (b, st') \<Longrightarrow> \<exists>new. st' = new @ st"
  "eqFields refEq inh kvs y d st = Inr (b, st') \<Longrightarrow> \<exists>new. st' = new @ st"
  "eqElements refEq inh xs ys d st = Inr (b, st') \<Longrightarrow> \<exists>new. st' = new @ st"
proof (induction refEq inh x y d st and refEq inh kvs y d st and refEq inh xs ys d st
    arbitrary: b st' and b st' and b st' rule: eqHelp_eqFields_eqElements.induct)
  case (1 refEq inh x y depth stack)
  show ?case
  proof (cases "depth > 100 \<or> is_object x \<and> refEq x y")
    case True
    with 1(5) show ?thesis by (auto simp: eqHelp.simps [of refEq inh x y] split: if_splits)
  next
    case False
    note prems = 1(5) [unfolded eqHelp.simps [of refEq inh x y]]
    show ?thesis
    proof (cases "eq_decide x y")
      case (Ctor c args y')
      with False prems 1(2,3) show ?thesis by (fastforce simp: bindE_eq_Inr split: if_splits)
    qed (use False prems 1(1,4) in auto)
  qed
next
  case (3 refEq inh k v kvs y depth stack)
  then show ?case by (fastforce simp: bindE_eq_Inr split: if_splits)
next
  case (6 refEq inh x xs y ys depth stack)
  then show ?case by (fastforce simp: bindE_eq_Inr split: if_splits)
qed auto

lemma notices_first:
  assumes "notices st r" "\<And>st' st''. r = Inr (True, st') \<Longrightarrow> f st' = Inr (True, st'') \<Longrightarrow> \<exists>new. st'' = new @ st'"
  shows "notices st (bindE r (\<lambda>(same, st'). if \<not> same then Inr (False, st') else f st'))"
  unfolding notices_def
proof (intro allI impI)
  fix st''
  assume "bindE r (\<lambda>(same, st'). if \<not> same then Inr (False, st') else f st') = Inr (True, st'')"
  then obtain st' where st': "r = Inr (True, st')" "f st' = Inr (True, st'')" by (auto simp: bindE_eq_Inr split: if_splits)
  with assms obtain new new' where "st' = new @ st" "\<exists>p \<in> set new. unequal_pair p" "st'' = new' @ st'"
    unfolding notices_def by blast
  then show "\<exists>new. st'' = new @ st \<and> (\<exists>p \<in> set new. unequal_pair p)"
    by (intro exI [of _ "new' @ new"]) auto
qed

lemma notices_second:
  assumes "\<And>b st'. r = Inr (b, st') \<Longrightarrow> \<exists>new. st' = new @ st" "\<And>st'. r = Inr (True, st') \<Longrightarrow> notices st' (f st')"
  shows "notices st (bindE r (\<lambda>(same, st'). if \<not> same then Inr (False, st') else f st'))"
  unfolding notices_def
proof (intro allI impI)
  fix st''
  assume "bindE r (\<lambda>(same, st'). if \<not> same then Inr (False, st') else f st') = Inr (True, st'')"
  then obtain st' where st': "r = Inr (True, st')" "f st' = Inr (True, st'')" by (auto simp: bindE_eq_Inr split: if_splits)
  from assms(1) [OF st'(1)] assms(2) [OF st'(1)] st'(2) obtain new new' where
    "st' = new @ st" "\<exists>p \<in> set new'. unequal_pair p" "st'' = new' @ st'"
    unfolding notices_def by blast
  then show "\<exists>new. st'' = new @ st \<and> (\<exists>p \<in> set new. unequal_pair p)"
    by (intro exI [of _ "new' @ new"]) auto
qed

lemma eqHelp_unequal:
  "\<forall>u v. refEq u v \<longrightarrow> u = v \<Longrightarrow> unequal_pair (x, y) \<Longrightarrow> notices st (eqHelp refEq inh x y d st)"
  "\<forall>u v. refEq u v \<longrightarrow> u = v \<Longrightarrow> fields_unequal inh kvs y \<Longrightarrow> notices st (eqFields refEq inh kvs y d st)"
  "\<forall>u v. refEq u v \<longrightarrow> u = v \<Longrightarrow> (\<forall>x \<in> set xs. \<forall>y \<in> set ys. alike x y) \<Longrightarrow> map denote xs \<noteq> map denote ys \<Longrightarrow>
     notices st (eqElements refEq inh xs ys d st)"
proof (induction refEq inh x y d st and refEq inh kvs y d st and refEq inh xs ys d st
    rule: eqHelp_eqFields_eqElements.induct)
  case (1 refEq inh x y depth stack)
  show ?case
  proof (cases "depth > 100 \<or> is_object x \<and> refEq x y")
    case True
    with 1(5,6) show ?thesis by (auto simp: eqHelp.simps [of refEq inh x y] notices_def unequal_pair_def)
  next
    case False
    have act: "action_unequal inh (eq_decide x y)" using 1(6) decide_unequal by (simp add: unequal_pair_def)
    show ?thesis
    proof (cases "eq_decide x y")
      case (Ctor c args y')
      with act obtain c' where get: "js_get inh y' K_ctor = Inr (E_prim (P_string c'))"
        "c' = c \<longrightarrow> fields_unequal inh (ctor_fields c args) y'"
        by (auto simp: action_unequal_def)
      have "notices stack (bindE (eqHelp refEq inh (E_prim (P_string c)) (E_prim (P_string c')) (depth + 1) stack)
          (\<lambda>(same, st'). if \<not> same then Inr (False, st') else eqFields refEq inh (ctor_fields c args) y' (depth + 1) st'))"
      proof (cases "c' = c")
        case True
        with 1(3,5) False Ctor get show ?thesis
          by (intro notices_second) (auto dest: eq_stack_grows(1))
      next
        case neq: False
        with 1(2,5) False Ctor get show ?thesis
          by (intro notices_first) (auto simp: unequal_pair_def dest: eq_stack_grows(2))
      qed
      with False Ctor get show ?thesis by (auto simp: eqHelp.simps [of refEq inh x y])
    qed (use False act 1(1,4,5) in \<open>auto simp: eqHelp.simps [of refEq inh x y] action_unequal_def notices_def\<close>)
  qed
next
  case (3 refEq inh k v kvs y depth stack)
  show ?case
  proof (cases "js_get inh y k")
    case (Inl e)
    then show ?thesis by (simp add: notices_def)
  next
    case (Inr w)
    show ?thesis
    proof (cases "unequal_pair (v, w)")
      case True
      with Inr 3(1,3) show ?thesis
        by (simp, intro notices_first) (auto dest: eq_stack_grows(2))
    next
      case False
      with Inr 3(4) have "fields_unequal inh kvs y" by (auto simp: fields_unequal_def)
      with Inr 3(2,3) show ?thesis
        by (simp, intro notices_second) (auto dest: eq_stack_grows(1))
    qed
  qed
next
  case (6 refEq inh x xs y ys depth stack)
  show ?case
  proof (cases "denote x = denote y")
    case True
    with 6(2-5) show ?thesis
      by (simp, intro notices_second) (auto dest: eq_stack_grows(1))
  next
    case False
    with 6(1,3,4) show ?thesis
      by (simp, intro notices_first) (auto simp: unequal_pair_def dest: eq_stack_grows(3))
  qed
qed (auto simp: notices_def fields_unequal_def)

subsection \<open>The loop over the stack\<close>

lemma eq_loop_equal: "\<forall>p \<in> set st. equal_pair p \<Longrightarrow> eq_loop refEq inh True st = Inr True"
proof (induction refEq inh True st rule: eq_loop.induct)
  case (1 refEq inh st)
  show ?case
  proof (cases st)
    case (Cons p rest)
    obtain x y where p: "p = (x, y)" by (cases p)
    have "says_equal rest (eqHelp refEq inh x y 0 rest)" using 1(2) Cons p by (intro eqHelp_equal) simp
    then obtain new where "eqHelp refEq inh x y 0 rest = Inr (True, new @ rest)" "\<forall>p \<in> set (new @ rest). equal_pair p"
      using 1(2) Cons by (auto simp: says_equal_def)
    with 1(1) Cons p show ?thesis by (subst eq_loop.simps) simp
  qed (simp add: eq_loop.simps)
qed

lemma eq_loop_unequal:
  "\<forall>u v. refEq u v \<longrightarrow> u = v \<Longrightarrow> \<exists>p \<in> set st. unequal_pair p \<Longrightarrow> eq_loop refEq inh b st \<noteq> Inr True"
proof (induction refEq inh b st rule: eq_loop.induct)
  case (1 refEq inh b st)
  show ?case
  proof (cases st)
    case (Cons p rest)
    obtain x y where p: "p = (x, y)" by (cases p)
    show ?thesis
    proof (cases "eqHelp refEq inh x y 0 rest")
      case (Inl e)
      with Cons p show ?thesis by (subst eq_loop.simps) simp
    next
      case (Inr r)
      obtain b' st' where r: "r = (b', st')" by (cases r)
      show ?thesis
      proof (cases b')
        case True
        have "\<exists>p \<in> set st'. unequal_pair p"
        proof (cases "unequal_pair (x, y)")
          case True
          from eqHelp_unequal(1) [OF 1(2) this] Inr r \<open>b'\<close> show ?thesis unfolding notices_def by fastforce
        next
          case False
          with 1(3) Cons p eq_stack_grows(1) [of refEq inh x y 0 rest b' st'] Inr r show ?thesis by auto
        qed
        with 1(1) [of p rest] 1(2) Cons p Inr r show ?thesis by (subst eq_loop.simps) auto
      next
        case False
        with Inr r Cons p show ?thesis by (subst eq_loop.simps) (simp add: eq_loop.simps)
      qed
    qed
  qed (use 1(3) in simp)
qed

text \<open>
  The answer of \<^verbatim>\<open>eq\<close> on two values of the same type, however deep they are: it always ends; for values
  that mean the same it is \<^verbatim>\<open>true\<close>, and for others it is never \<^verbatim>\<open>true\<close>. This is claim C39.
\<close>

theorem Utils_eq_sound:
  assumes "\<forall>u v. refEq u v \<longrightarrow> u = v" "alike x y"
  shows "Utils_eq refEq inh x y = Inr True \<longleftrightarrow> denote x = denote y"
proof (cases "denote x = denote y")
  case True
  then have "says_equal [] (eqHelp refEq inh x y 0 [])" using assms(2) by (intro eqHelp_equal) (simp add: equal_pair_def)
  then obtain new where "eqHelp refEq inh x y 0 [] = Inr (True, new)" "\<forall>p \<in> set new. equal_pair p"
    by (auto simp: says_equal_def)
  with True show ?thesis by (simp add: Utils_eq_def eq_loop_equal)
next
  case False
  then have "notices [] (eqHelp refEq inh x y 0 [])"
    using assms by (intro eqHelp_unequal) (auto simp: unequal_pair_def)
  then have "Utils_eq refEq inh x y \<noteq> Inr True"
    using eq_loop_unequal [OF assms(1)]
    by (auto simp: Utils_eq_def notices_def bindE_eq_Inr eq_loop.simps [of _ _ False])
       (metis (full_types) eq_loop.simps sum.inject(2))
  with False show ?thesis by simp
qed

theorem Utils_eq_sound_witness:
  "(Utils_eq (\<lambda>_ _. False) (\<lambda>_ _. E_undefined)
      (E_record [(''a'', E_prim (P_number 1)), (''b'', E_list [E_char CHR ''x''])])
      (E_record [(''b'', E_list [E_char CHR ''x'']), (''a'', E_prim (P_number 1))]) = Inr True) =
   (denote (E_record [(''a'', E_prim (P_number 1)), (''b'', E_list [E_char CHR ''x''])]) =
    denote (E_record [(''b'', E_list [E_char CHR ''x'']), (''a'', E_prim (P_number 1))]))"
  by (rule Utils_eq_sound) auto

subsection \<open>Values of moderate depth\<close>

fun height :: "evalue \<Rightarrow> nat" where
  "height (E_record fs) = Suc (foldr max (map (\<lambda>(k, v). height v) fs) 0)"
| "height (E_ctor c args) = Suc (foldr max (map height args) 0)"
| "height (E_list xs) = Suc (foldr max (map height xs) 0)"
| "height (E_array xs) = Suc (foldr max (map height xs) 0)"
| "height (E_dict kvs) = Suc (Suc (foldr max (map (\<lambda>(k, v). max (height k) (height v)) kvs) 0))"
| "height (E_set xs) = Suc (foldr max (map height xs) 0)"
| "height (E_char c) = 1"
| "height _ = 0"

lemma foldr_max_ge: "n \<in> set ns \<Longrightarrow> n \<le> foldr max ns (0 :: nat)"
  by (induction ns) auto

lemma height_below:
  "(k, v) \<in> set fs \<Longrightarrow> height v < height (E_record fs)"
  "v \<in> set args \<Longrightarrow> height v < height (E_ctor c args)"
  "v \<in> set xs \<Longrightarrow> height v < height (E_list xs)"
  "v \<in> set xs \<Longrightarrow> height v < height (E_array xs)"
  "v \<in> set xs \<Longrightarrow> height v < height (E_set xs)"
  by (force simp: less_Suc_eq_le intro!: foldr_max_ge)+

lemma height_tuple: "kv \<in> set kvs \<Longrightarrow> height (tuple2 kv) < height (E_dict kvs)"
  using foldr_max_ge [of "max (height (fst kv)) (height (snd kv))" "map (\<lambda>(k, v). max (height k) (height v)) kvs"]
  by (force simp: tuple2_def case_prod_unfold)

definition fields_safe :: "(evalue \<Rightarrow> js_key \<Rightarrow> evalue) \<Rightarrow> nat \<Rightarrow> (js_key \<times> evalue) list \<Rightarrow> evalue \<Rightarrow> bool" where
  "fields_safe inh d kvs y \<longleftrightarrow> (\<forall>(k, v) \<in> set kvs. d + height v \<le> 100 \<and> (\<exists>w. js_get inh y k = Inr w \<and> alike v w))"

definition elements_safe :: "nat \<Rightarrow> evalue list \<Rightarrow> evalue list \<Rightarrow> bool" where
  "elements_safe d xs ys \<longleftrightarrow> (\<forall>x \<in> set xs. d + height x \<le> 100 \<and> (\<forall>y \<in> set ys. alike x y))"

definition action_safe :: "(evalue \<Rightarrow> js_key \<Rightarrow> evalue) \<Rightarrow> nat \<Rightarrow> eq_action \<Rightarrow> bool" where
  "action_safe inh d a \<longleftrightarrow>
     (case a of
        Done b \<Rightarrow> True
      | Throw e \<Rightarrow> False
      | Fields kvs y \<Rightarrow> fields_safe inh d kvs y
      | Ctor c args y \<Rightarrow>
          d \<le> 100 \<and> (\<exists>c'. js_get inh y K_ctor = Inr (E_prim (P_string c')) \<and>
            (c' = c \<longrightarrow> fields_safe inh d (ctor_fields c args) y))
      | Elements xs ys \<Rightarrow> elements_safe d xs ys)"

lemma converted_safe:
  "elements_safe d xs ys \<Longrightarrow> d \<le> 100 \<Longrightarrow> action_safe inh d (eq_converted (E_list xs) (E_list ys))"
  by (cases xs; cases ys) (auto simp: action_safe_def js_get_def fields_safe_def ctor_fields_mem)

lemma decide_safe:
  assumes "alike x y" "d + height x \<le> 100"
  shows "action_safe inh (Suc d) (eq_decide x y)"
proof (cases x)
  case (E_char c)
  with assms show ?thesis by (cases y) (auto simp: action_safe_def fields_safe_def js_get_def)
next
  case (E_record fs)
  then obtain gs where y: "y = E_record gs" using assms(1) by (cases y) auto
  have "Suc d + height v \<le> 100 \<and> (\<exists>w. js_get inh y (K_name k) = Inr w \<and> alike v w)" if "(k, v) \<in> set fs" for k v
    using record_alike [of fs gs k v inh] height_below(1) [OF that] that assms E_record y by auto
  then show ?thesis by (auto simp: E_record y action_safe_def fields_safe_def)
next
  case (E_ctor c as)
  with assms obtain e bs where y: "y = E_ctor e bs" "e = c \<longrightarrow> list_all2 alike as bs" by (cases y) auto
  have "Suc d + height (as ! i) \<le> 100" if "i < length as" for i
    using height_below(2) [of "as ! i" as c] that assms(2) E_ctor by auto
  with y assms(2) show ?thesis
    by (auto simp: E_ctor action_safe_def js_get_ctor fields_safe_def ctor_fields_mem list_all2_conv_all_nth)
next
  case (E_list xs)
  then obtain ys where y: "y = E_list ys" using assms(1) by (cases y) auto
  have "elements_safe (Suc d) xs ys" using assms E_list y height_below(3) by (fastforce simp: elements_safe_def)
  with converted_safe assms(2) show ?thesis by (simp add: E_list y)
next
  case (E_array xs)
  then obtain ys where y: "y = E_array ys" using assms(1) by (cases y) auto
  have "elements_safe (Suc d) xs ys" using assms E_array y height_below(4) by (fastforce simp: elements_safe_def)
  then show ?thesis by (simp add: E_array y action_safe_def)
next
  case (E_dict kvs)
  then obtain kvs' where y: "y = E_dict kvs'" using assms(1) by (cases y) auto
  have "elements_safe (Suc d) (map tuple2 kvs) (map tuple2 kvs')"
    using assms E_dict y height_tuple tuples_alike [of kvs kvs'] by (fastforce simp: elements_safe_def)
  with converted_safe assms(2) show ?thesis by (simp add: E_dict y)
next
  case (E_set xs)
  then obtain ys where y: "y = E_set ys" using assms(1) by (cases y) auto
  have "elements_safe (Suc d) xs ys" using assms E_set y height_below(5) by (fastforce simp: elements_safe_def)
  with converted_safe assms(2) show ?thesis by (simp add: E_set y)
qed (use assms in \<open>cases y; auto simp: action_safe_def\<close>)+

text \<open>Values that are not too deep are compared without deferring anything and without an exception.\<close>

lemma eqHelp_shallow:
  "alike x y \<Longrightarrow> d + height x \<le> 100 \<Longrightarrow> \<exists>b. eqHelp refEq inh x y d st = Inr (b, st)"
  "fields_safe inh d kvs y \<Longrightarrow> \<exists>b. eqFields refEq inh kvs y d st = Inr (b, st)"
  "elements_safe d xs ys \<Longrightarrow> \<exists>b. eqElements refEq inh xs ys d st = Inr (b, st)"
proof (induction refEq inh x y d st and refEq inh kvs y d st and refEq inh xs ys d st
    rule: eqHelp_eqFields_eqElements.induct)
  case (1 refEq inh x y depth stack)
  have d: "\<not> depth > 100" using 1(6) by simp
  show ?case
  proof (cases "is_object x \<and> refEq x y")
    case True
    with d show ?thesis by (auto simp: eqHelp.simps [of refEq inh x y])
  next
    case False
    have act: "action_safe inh (Suc depth) (eq_decide x y)" using 1(5,6) decide_safe by blast
    show ?thesis
    proof (cases "eq_decide x y")
      case (Ctor c args y')
      with act obtain c' where get: "Suc depth \<le> 100" "js_get inh y' K_ctor = Inr (E_prim (P_string c'))"
        "c' = c \<longrightarrow> fields_safe inh (Suc depth) (ctor_fields c args) y'"
        by (auto simp: action_safe_def)
      have "eqHelp refEq inh (E_prim (P_string c)) (E_prim (P_string c')) (Suc depth) stack = Inr (c' = c, stack)"
        using get(1) by (subst eqHelp.simps) (simp add: is_object_def)
      with 1(3) d False Ctor get show ?thesis by (auto simp: eqHelp.simps [of refEq inh x y])
    qed (use d False act 1(1,4) in \<open>auto simp: eqHelp.simps [of refEq inh x y] action_safe_def\<close>)
  qed
next
  case (3 refEq inh k v kvs y depth stack)
  then obtain w b where "js_get inh y k = Inr w" "eqHelp refEq inh v w depth stack = Inr (b, stack)" "fields_safe inh depth kvs y"
    by (fastforce simp: fields_safe_def)
  with 3(2) show ?case by (cases b) auto
next
  case (6 refEq inh x xs y ys depth stack)
  then obtain b where "eqHelp refEq inh x y depth stack = Inr (b, stack)" "elements_safe depth xs ys"
    by (fastforce simp: elements_safe_def)
  with 6(2) show ?case by (cases b) auto
qed auto



subsection \<open>A difference at depth 100\<close>

text \<open>The natural numbers as a union type, \<^verbatim>\<open>type Nat = Z | S Nat\<close>.\<close>

fun peano :: "nat \<Rightarrow> evalue" where
  "peano 0 = E_ctor ''Z'' []"
| "peano (Suc n) = E_ctor ''S'' [peano n]"

lemma eqHelp_S:
  assumes "d < 100"
  shows "eqHelp (\<lambda>_ _. False) inh (E_ctor ''S'' [a]) (E_ctor ''S'' [b]) d st = eqHelp (\<lambda>_ _. False) inh a b (Suc d) st"
proof -
  have S: "eqHelp (\<lambda>_ _. False) inh (E_prim p) (E_prim p) (Suc d) st = Inr (True, st)" for p st
    using assms by (subst eqHelp.simps) simp
  have "(\<lambda>(same, st'). if \<not> same then Inr (False, st') else Inr (True, st')) = (Inr :: bool \<times> eq_stack \<Rightarrow> _ result)"
    by auto
  then show ?thesis
    using assms
    by (subst eqHelp.simps)
       (simp add: S js_get_ctor ctor_fields_def, cases "eqHelp (\<lambda>_ _. False) inh a b (Suc d) st", auto simp: js_get_def)
qed

lemma eqHelp_peano:
  "d + n \<le> 100 \<Longrightarrow>
   eqHelp (\<lambda>_ _. False) inh (peano (n + m)) (peano (n + k)) d st =
   eqHelp (\<lambda>_ _. False) inh (peano m) (peano k) (d + n) st"
  by (induction n arbitrary: d) (simp_all add: eqHelp_S)

lemma peano_alike: "alike (peano m) (peano n)"
proof (induction m arbitrary: n)
  case 0
  show ?case by (cases n) auto
next
  case (Suc m)
  then show ?case by (cases n) auto
qed

text \<open>
  Beyond depth 100 a difference is not always seen: the constructors at depth 100 are deferred, and the
  arguments, which the other value need not have, are deferred after them and compared first. So \<^verbatim>\<open>eq\<close>
  throws for the numbers 100 and 101, where it should answer \<^verbatim>\<open>false\<close>. This is claim C40.
\<close>

theorem Utils_eq_throws_at_depth_100:
  assumes "inh (peano 0) (K_index 0) = E_undefined"
  shows "alike (peano (101 + n)) (peano 100) \<and>
    Utils_eq (\<lambda>_ _. False) inh (peano (101 + n)) (peano 100) = Inl TypeError"
proof -
  have "eqHelp (\<lambda>_ _. False) inh (peano (101 + n)) (peano 100) 0 [] =
      eqHelp (\<lambda>_ _. False) inh (peano (Suc n)) (peano 0) 100 []"
    using eqHelp_peano [of 0 100 inh "Suc n" 0 "[]"] by simp
  also have "\<dots> = Inr (True, [(peano n, E_undefined), (E_prim (P_string ''S''), E_prim (P_string ''Z'')),
      (E_prim (P_string ''S''), E_prim (P_string ''Z''))])"
    using assms by (simp add: eqHelp.simps [of _ _ _ _ 100] eqHelp.simps [of _ _ _ _ 101] js_get_def ctor_fields_def)
  finally have first: "eqHelp (\<lambda>_ _. False) inh (peano (101 + n)) (peano 100) 0 [] = \<dots>" .
  have "eqHelp (\<lambda>_ _. False) inh (peano n) E_undefined 0 st = Inl TypeError" for st
    by (cases n) (simp_all add: eqHelp.simps [of _ _ _ _ 0] js_get_def)
  then show ?thesis using first peano_alike by (simp add: Utils_eq_def eq_loop.simps)
qed

theorem Utils_eq_throws_at_depth_100_witness:
  "alike (peano (101 + 0)) (peano 100) \<and>
   Utils_eq (\<lambda>_ _. False) (\<lambda>_ _. E_undefined) (peano (101 + 0)) (peano 100) = Inl TypeError"
  by (rule Utils_eq_throws_at_depth_100) simp

end
