(* ===== verification/Elm_ToString.thy ===== *)
theory Elm_ToString
  imports Elm_Utils Elm_String Elm_Equality_Correct
begin

text \<open>
  \<^verbatim>\<open>toString\<close> of \<^verbatim>\<open>Native.Utils\<close> on the values of \<^verbatim>\<open>Elm_Equality\<close>. What it prints is unambiguous: different
  values of one type are printed differently.
\<close>

subsection \<open>Printing\<close>

text \<open>The arguments of a constructor are put into parentheses where needed.\<close>

definition parenless :: "string \<Rightarrow> bool" where
  "parenless str =
     (case str of
        [] \<Rightarrow> True
      | c0 # _ \<Rightarrow> c0 = CHR ''{'' \<or> c0 = CHR ''('' \<or> c0 = CHR ''<'' \<or> c0 = dquote \<or> CHR '' '' \<notin> set str)"

definition paren :: "string \<Rightarrow> string" where
  "paren str = (if parenless str then str else ''('' @ str @ '')'')"

definition printCtor :: "string \<Rightarrow> string list \<Rightarrow> string" where
  "printCtor ctor strs =
     (if take 5 ctor = ''_Tupl'' then ''('' @ js_join '','' strs @ '')''
      else if take 5 ctor = ''_Task'' then ''<task>''
      else if ctor = ''<decoder>'' then ''<decoder>''
      else ctor @ concat (map (\<lambda>str. '' '' @ paren str) strs))"

definition printList :: "string list \<Rightarrow> string" where
  "printList strs = ''['' @ js_join '','' strs @ '']''"

definition printRecord :: "string list \<Rightarrow> string list \<Rightarrow> string" where
  "printRecord keys strs =
     (if keys = [] then ''{}''
      else ''{ '' @ js_join '', '' (map2 (\<lambda>k str. k @ '' = '' @ str) keys strs) @ '' }'')"

definition js_truthy :: "evalue \<Rightarrow> bool" where
  "js_truthy v = (v \<notin> {E_undefined, E_prim (P_bool False), E_prim (P_number 0), E_prim (P_string [])})"

text \<open>
  A constructor is one of Elm, a task or a decoder; the other objects of the runtime with a \<^verbatim>\<open>ctor\<close> have constructors
  of their own in \<^verbatim>\<open>Elm_Equality\<close>. A record with a field \<^verbatim>\<open>ctor\<close> is taken for a constructor: the field has to be a string or a character, which
  have the method \<^verbatim>\<open>substring\<close>. The names that the code uses for its own objects lead to functions that
  expect these objects; \<open>internal\<close> stands for what they do with a record.
\<close>

definition ctor_name :: "evalue \<Rightarrow> string option" where
  "ctor_name v = (case v of E_prim (P_string s) \<Rightarrow> Some s | E_char c \<Rightarrow> Some [c] | _ \<Rightarrow> None)"

definition internal_names :: "string list" where
  "internal_names =
     [''_Array'', ''_Process'', ''::'', ''[]'', ''Set_elm_builtin'', ''RBNode_elm_builtin'', ''RBEmpty_elm_builtin'']"

text \<open>The keys of a dictionary are comparable, so that printing them cannot throw.\<close>

lemma fields_size:
  "size_list size (map snd (filter P fs)) \<le> size_list (size_prod (\<lambda>_. 0) size) fs"
  by (induction fs) (auto simp: comp_def)

function (sequential) toString ::
  "(int \<Rightarrow> string) \<Rightarrow> ((string \<times> evalue) list \<Rightarrow> string result) \<Rightarrow> evalue \<Rightarrow> string result"
and toStrings ::
  "(int \<Rightarrow> string) \<Rightarrow> ((string \<times> evalue) list \<Rightarrow> string result) \<Rightarrow> evalue list \<Rightarrow> string list result"
where
  "toString date internal (E_function f) = Inr ''<function>''"
| "toString date internal (E_prim p) =
     Inr (case p of P_bool b \<Rightarrow> toString_bool b | P_number n \<Rightarrow> toString_number n | P_string s \<Rightarrow> toString_string s)"
| "toString date internal (E_char c) = Inr (toString_char c)"
| "toString date internal E_undefined = Inr ''<internal structure>''"
| "toString date internal (E_date t) = Inr (''<'' @ date t @ ''>'')"
| "toString date internal (E_list xs) = bindE (toStrings date internal xs) (\<lambda>strs. Inr (printList strs))"
| "toString date internal (E_array xs) =
     bindE (toStrings date internal xs) (\<lambda>strs. Inr (''Array.fromList '' @ printList strs))"
| "toString date internal (E_set xs) =
     bindE (toStrings date internal xs) (\<lambda>strs. Inr (''Set.fromList '' @ printList strs))"
| "toString date internal (E_dict kvs) =
     bindE (toStrings date internal (map fst kvs)) (\<lambda>ks.
     bindE (toStrings date internal (map snd kvs)) (\<lambda>vs.
       Inr (''Dict.fromList '' @ printList (map2 (\<lambda>k v. printCtor ''_Tuple2'' [k, v]) ks vs))))"
| "toString date internal (E_ctor c args) =
     bindE (toStrings date internal args) (\<lambda>strs. Inr (printCtor c strs))"
| "toString date internal (E_record fs) =
     (case map_of fs ''ctor'' of
        Some v \<Rightarrow>
          (case ctor_name v of
             None \<Rightarrow> Inl TypeError
           | Some name \<Rightarrow>
               if name \<in> set internal_names then internal fs
               else bindE (toStrings date internal (map snd (filter (\<lambda>kv. fst kv \<noteq> ''ctor'') fs))) (\<lambda>strs.
                      Inr (printCtor name strs)))
      | None \<Rightarrow>
          (case map_of fs ''elm_web_socket'' of
             Some w \<Rightarrow>
               if js_truthy w then Inr ''<websocket>''
               else bindE (toStrings date internal (map snd fs)) (\<lambda>strs. Inr (printRecord (map fst fs) strs))
           | None \<Rightarrow> bindE (toStrings date internal (map snd fs)) (\<lambda>strs. Inr (printRecord (map fst fs) strs))))"
| "toStrings date internal [] = Inr []"
| "toStrings date internal (x # xs) =
     bindE (toString date internal x) (\<lambda>str. bindE (toStrings date internal xs) (\<lambda>strs. Inr (str # strs)))"
  by pat_completeness auto
termination
proof (relation "measure (\<lambda>x. case x of Inl (_, _, v) \<Rightarrow> size v | Inr (_, _, vs) \<Rightarrow> size_list size vs)", goal_cases)
  case (10 date internal fs a name)
  show ?case using fields_size [of "\<lambda>kv. fst kv \<noteq> ''ctor''" fs] by (simp add: less_Suc_eq_le)
qed (auto simp: less_Suc_eq_le termination_simp)


lemma js_join_concat [simp]: "js_join sep (s # ss) = s @ concat (map (\<lambda>t. sep @ t) ss)"
  by (induction sep ss arbitrary: s rule: js_join.induct) auto

declare js_join.simps(3) [simp del]

subsection \<open>Values that are printed alike\<close>

text \<open>
  The values of Elm without functions and dates. The names of fields and constructors are those of Elm; a record
  has each field once, and none named \<^verbatim>\<open>ctor\<close> or \<^verbatim>\<open>elm_web_socket\<close>.
\<close>

definition name_char :: "char \<Rightarrow> bool" where
  "name_char c \<longleftrightarrow> c \<notin> set [CHR '' '', CHR '','', CHR ''('', CHR '')'', CHR ''['', CHR '']'', CHR ''{'', CHR ''}'', CHR ''<'', dquote, squote]"

definition field_name :: "string \<Rightarrow> bool" where
  "field_name k \<longleftrightarrow> k \<noteq> ''ctor'' \<and> k \<noteq> ''elm_web_socket''"

definition is_tuple :: "string \<Rightarrow> bool" where
  "is_tuple c \<longleftrightarrow> take 5 c = ''_Tupl''"

definition user_ctor :: "string \<Rightarrow> bool" where
  "user_ctor c \<longleftrightarrow> c \<noteq> [] \<and> list_all name_char c \<and> take 5 c \<noteq> ''_Task'' \<and> take 5 c \<noteq> ''_Tupl'' \<and>
     c \<notin> set internal_names"

fun printable :: "evalue \<Rightarrow> bool" where
  "printable (E_prim p) = True"
| "printable (E_char c) = True"
| "printable (E_record fs) =
     (distinct (map fst fs) \<and> (\<forall>kv \<in> set fs. field_name (fst kv) \<and> printable (snd kv)))"
| "printable (E_ctor c args) = ((is_tuple c \<or> user_ctor c) \<and> (\<forall>x \<in> set args. printable x))"
| "printable (E_list xs) = (\<forall>x \<in> set xs. printable x)"
| "printable (E_array xs) = (\<forall>x \<in> set xs. printable x)"
| "printable (E_set xs) = (\<forall>x \<in> set xs. printable x)"
| "printable (E_dict kvs) = (\<forall>kv \<in> set kvs. printable (fst kv) \<and> printable (snd kv))"
| "printable _ = False"

text \<open>Two such values are of one type, and their records have their fields in the same order.\<close>

fun same_type :: "evalue \<Rightarrow> evalue \<Rightarrow> bool" where
  "same_type (E_prim p) y =
     (case (p, y) of
        (P_number _, E_prim (P_number _)) \<Rightarrow> True
      | (P_string _, E_prim (P_string _)) \<Rightarrow> True
      | (P_bool _, E_prim (P_bool _)) \<Rightarrow> True
      | _ \<Rightarrow> False)"
| "same_type (E_char c) y = (case y of E_char _ \<Rightarrow> True | _ \<Rightarrow> False)"
| "same_type (E_record fs) y =
     (case y of
        E_record gs \<Rightarrow> map fst fs = map fst gs \<and> list_all2 same_type (map snd fs) (map snd gs)
      | _ \<Rightarrow> False)"
| "same_type (E_ctor c as) y =
     (case y of
        E_ctor d bs \<Rightarrow> (is_tuple c \<or> is_tuple d \<longrightarrow> c = d) \<and> (c = d \<longrightarrow> list_all2 same_type as bs)
      | _ \<Rightarrow> False)"
| "same_type (E_list xs) y = (case y of E_list ys \<Rightarrow> \<forall>x \<in> set xs. \<forall>z \<in> set ys. same_type x z | _ \<Rightarrow> False)"
| "same_type (E_array xs) y = (case y of E_array ys \<Rightarrow> \<forall>x \<in> set xs. \<forall>z \<in> set ys. same_type x z | _ \<Rightarrow> False)"
| "same_type (E_set xs) y = (case y of E_set ys \<Rightarrow> \<forall>x \<in> set xs. \<forall>z \<in> set ys. same_type x z | _ \<Rightarrow> False)"
| "same_type (E_dict kvs) y =
     (case y of
        E_dict kvs' \<Rightarrow> \<forall>kv \<in> set kvs. \<forall>lw \<in> set kvs'. same_type (fst kv) (fst lw) \<and> same_type (snd kv) (snd lw)
      | _ \<Rightarrow> False)"
| "same_type _ y = False"

text \<open>What is printed for such a value.\<close>

fun print :: "evalue \<Rightarrow> string" where
  "print (E_prim p) =
     (case p of P_bool b \<Rightarrow> toString_bool b | P_number n \<Rightarrow> toString_number n | P_string s \<Rightarrow> toString_string s)"
| "print (E_char c) = toString_char c"
| "print (E_record fs) = printRecord (map fst fs) (map print (map snd fs))"
| "print (E_ctor c args) = printCtor c (map print args)"
| "print (E_list xs) = printList (map print xs)"
| "print (E_array xs) = ''Array.fromList '' @ printList (map print xs)"
| "print (E_set xs) = ''Set.fromList '' @ printList (map print xs)"
| "print (E_dict kvs) =
     ''Dict.fromList '' @ printList (map (\<lambda>kv. printCtor ''_Tuple2'' [print (fst kv), print (snd kv)]) kvs)"
| "print _ = []"

subsection \<open>Unambiguous texts\<close>

text \<open>What may follow a printed value, and two texts that cannot be confused when something follows.\<close>

definition stop :: "string \<Rightarrow> bool" where
  "stop r \<longleftrightarrow> r = [] \<or> hd r \<in> {CHR '' '', CHR '','', CHR '')'', CHR '']''}"

definition apart :: "string \<Rightarrow> string \<Rightarrow> bool" where
  "apart u v \<longleftrightarrow> (\<forall>r r'. stop r \<longrightarrow> stop r' \<longrightarrow> u @ r = v @ r' \<longrightarrow> u = v)"

lemma apartD: "apart u v \<Longrightarrow> u @ r = v @ r' \<Longrightarrow> stop r \<Longrightarrow> stop r' \<Longrightarrow> u = v \<and> r = r'"
  unfolding apart_def by blast

lemma stop_simps [simp]:
  "stop []" "stop (CHR '' '' # r)" "stop (CHR '','' # r)" "stop (CHR '')'' # r)" "stop (CHR '']'' # r)"
  by (simp_all add: stop_def)

lemma span_unique:
  assumes "list_all P u" "list_all P v" "r = [] \<or> \<not> P (hd r)" "r' = [] \<or> \<not> P (hd r')" "u @ r = v @ r'"
  shows "u = v"
proof -
  have "takeWhile P (w @ t) = w" if "list_all P w" "t = [] \<or> \<not> P (hd t)" for w t
    using that by (induction w) (auto simp: takeWhile_eq_Nil_iff)
  from this [OF assms(1,3)] this [OF assms(2,4)] assms(5) show ?thesis by simp
qed

lemma addSlashes_hd: "\<exists>h u. addSlashes (y # t) b = h # u \<and> h \<noteq> (if b then squote else dquote)"
  by (subst addSlashes_Cons) (auto simp: addSlashes_char)

lemma slashes_unique:
  assumes "addSlashes s b @ q # r = addSlashes t b @ q # r'" "q = (if b then squote else dquote)"
  shows "s = t"
  using assms(1)
proof (induction s arbitrary: t)
  case Nil
  then show ?case using assms(2) addSlashes_hd [of "hd t" "tl t" b] by (cases t) auto
next
  case (Cons x s)
  show ?case
  proof (cases t)
    case Nil
    with Cons.prems assms(2) addSlashes_hd [of x s b] show ?thesis by auto
  next
    case t: (Cons y t')
    have eq: "addSlashes [x] b @ addSlashes s b @ q # r = addSlashes [y] b @ addSlashes t' b @ q # r'"
      using Cons.prems t addSlashes_Cons [of x s] addSlashes_Cons [of y t'] by simp
    then have "x = y" by (metis list.inject unescape_addSlashes_char)
    with eq Cons.IH t show ?thesis by simp
  qed
qed

lemma apart_string: "apart (toString_string s) (toString_string t)"
  using slashes_unique [of s False dquote _ t] by (auto simp: apart_def toString_string_def)

lemma apart_char: "apart (toString_char c) (toString_char d)"
  using slashes_unique [of "[c]" True squote _ "[d]"] by (auto simp: apart_def toString_char_def)

lemma apart_bool: "apart (toString_bool a) (toString_bool b)"
  by (auto simp: apart_def toString_bool_def)

definition number_char :: "char \<Rightarrow> bool" where
  "number_char c \<longleftrightarrow> is_digit c \<or> c = CHR ''-''"

lemma show_int_chars: "list_all number_char (show_int n)" "show_int n \<noteq> []"
  using show_nat_digits(1) [of "nat n"] show_nat_digits(1) [of "nat (- n)"] show_nat_digits(2) [of "nat n"]
  by (auto simp: show_int_def number_char_def list_all_iff)

lemma stop_number: "stop r \<Longrightarrow> r = [] \<or> \<not> number_char (hd r)"
  by (auto simp: stop_def number_char_def is_digit_def)

lemma apart_number: "apart (toString_number m) (toString_number n)"
  unfolding apart_def toString_number_def
  using span_unique [OF show_int_chars(1) show_int_chars(1) stop_number stop_number] by blast

lemma show_nat_inj:
  assumes "show_nat m = show_nat n"
  shows "m = n"
proof -
  have "NString_toInt (show_nat m) = NString_toInt (show_nat n)" by (simp only: assms)
  then show ?thesis by (simp only: toInt_show_nat elm_result.inject option.inject of_nat_eq_iff)
qed

lemma show_nat_positive: "show_nat n \<noteq> CHR ''-'' # w" "CHR ''-'' # w \<noteq> show_nat n"
proof -
  have "\<not> is_digit (CHR ''-'')" by (simp add: is_digit_def)
  then show "show_nat n \<noteq> CHR ''-'' # w" using show_nat_digits(1) [of n] by (metis list.pred_inject(2))
  then show "CHR ''-'' # w \<noteq> show_nat n" by metis
qed

lemma toString_number_inj:
  assumes "toString_number m = toString_number n"
  shows "m = n"
proof -
  have "m < 0 \<longleftrightarrow> n < 0" using assms by (auto simp: toString_number_def show_int_def show_nat_positive split: if_splits)
  with assms have "nat m = nat n \<and> nat (- m) = nat (- n)"
    by (cases "m < 0") (auto simp: toString_number_def show_int_def dest: show_nat_inj)
  then show ?thesis by linarith
qed

text \<open>Sequences of texts with separators.\<close>

lemma separated_unique:
  assumes "list_all2 apart us vs" "sep \<noteq> []" "stop sep" "stop r" "stop r'"
    "concat (map (\<lambda>t. sep @ t) us) @ r = concat (map (\<lambda>t. sep @ t) vs) @ r'"
  shows "us = vs"
  using assms(1,6)
proof (induction us vs rule: list_all2_induct)
  case (Cons u us v vs)
  have st: "stop (concat (map (\<lambda>t. sep @ t) ws) @ t)" if "stop t" for ws t
    using that assms(2,3) by (cases ws) (auto simp: stop_def)
  have "u = v \<and> concat (map (\<lambda>t. sep @ t) us) @ r = concat (map (\<lambda>t. sep @ t) vs) @ r'"
    using apartD [OF Cons.hyps(1) _ st [OF assms(4)] st [OF assms(5)], of us vs] Cons.prems by simp
  with Cons.IH show ?case by simp
qed simp

lemma join_unique:
  assumes "list_all2 apart us vs" "sep \<noteq> []" "stop sep" "stop r" "stop r'" "js_join sep us @ r = js_join sep vs @ r'"
  shows "us = vs"
proof (cases us)
  case Nil
  with assms(1) show ?thesis by simp
next
  case (Cons u us')
  then obtain v vs' where v: "vs = v # vs'" "apart u v" "list_all2 apart us' vs'"
    using assms(1) by (auto simp: list_all2_Cons1)
  have st: "stop (concat (map (\<lambda>t. sep @ t) ws) @ t)" if "stop t" for ws t
    using that assms(2,3) by (cases ws) (auto simp: stop_def)
  have "u = v \<and> concat (map (\<lambda>t. sep @ t) us') @ r = concat (map (\<lambda>t. sep @ t) vs') @ r'"
    using apartD [OF v(2) _ st [OF assms(4)] st [OF assms(5)], of us' vs'] assms(6) Cons v(1) by simp
  with separated_unique [OF v(3) assms(2-5)] Cons v(1) show ?thesis by simp
qed

definition begins :: "string \<Rightarrow> bool" where
  "begins u \<longleftrightarrow> u \<noteq> [] \<and> hd u \<noteq> CHR '']''"

lemma list_rest_unique:
  assumes "\<forall>u \<in> set us. \<forall>v \<in> set vs. apart u v" "sep \<noteq> []" "stop sep" "hd sep \<noteq> CHR '']''"
    "concat (map (\<lambda>t. sep @ t) us) @ '']'' @ r = concat (map (\<lambda>t. sep @ t) vs) @ '']'' @ r'"
  shows "us = vs"
  using assms(1,5)
proof (induction us arbitrary: vs)
  case Nil
  then show ?case using assms(2,4) by (cases vs; cases sep) auto
next
  case (Cons u us)
  then obtain v vs' where v: "vs = v # vs'" using assms(2,4) by (cases vs; cases sep) auto
  have st: "stop (concat (map (\<lambda>t. sep @ t) ws) @ '']'' @ t)" for ws t
    using assms(2,3) by (cases ws) (auto simp: stop_def)
  have "u = v \<and> concat (map (\<lambda>t. sep @ t) us) @ '']'' @ r = concat (map (\<lambda>t. sep @ t) vs') @ '']'' @ r'"
    using apartD [of u v, OF _ _ st [of us r] st [of vs' r']] Cons.prems v by simp
  with Cons.IH [of vs'] Cons.prems(1) v show ?case by simp
qed

lemma list_unique:
  assumes "\<forall>u \<in> set us. \<forall>v \<in> set vs. apart u v" "\<forall>u \<in> set us \<union> set vs. begins u" "printList us @ r = printList vs @ r'"
  shows "us = vs"
proof (cases us)
  case Nil
  with assms(2,3) show ?thesis by (cases vs; cases "hd vs") (auto simp: printList_def begins_def)
next
  case (Cons u us')
  with assms(2,3) obtain v vs' where v: "vs = v # vs'" by (cases vs; cases u) (auto simp: printList_def begins_def)
  define sep where "sep = '',''"
  have sep: "sep \<noteq> []" "stop sep" "hd sep \<noteq> CHR '']''" by (simp_all add: sep_def)
  have st: "stop (concat (map (\<lambda>t. sep @ t) ws) @ '']'' @ t)" for ws t
    using sep by (cases ws) (auto simp: stop_def)
  have "u @ concat (map (\<lambda>t. sep @ t) us') @ '']'' @ r = v @ concat (map (\<lambda>t. sep @ t) vs') @ '']'' @ r'"
    using assms(3) unfolding Cons v printList_def sep_def [symmetric] by simp
  from apartD [OF _ this st st] assms(1) Cons v
  have "u = v \<and> concat (map (\<lambda>t. sep @ t) us') @ '']'' @ r = concat (map (\<lambda>t. sep @ t) vs') @ '']'' @ r'" by simp
  moreover from this have "us' = vs'"
    using list_rest_unique [of us' vs' sep r r'] sep assms(1) Cons v by simp
  ultimately show ?thesis using Cons v by simp
qed

lemma paren_same:
  assumes "paren u @ r = paren v @ r'" "u \<noteq> []" "v \<noteq> []" "hd u = CHR ''('' \<longleftrightarrow> hd v = CHR ''(''"
  shows "parenless u = parenless v"
proof -
  have open_: "parenless w" if "hd w = CHR ''(''" "w \<noteq> []" for w using that by (cases w) (auto simp: parenless_def)
  have clash: "parenless w" if "paren w @ t = w' @ t'" "hd w = CHR ''('' \<longleftrightarrow> hd w' = CHR ''(''" "w \<noteq> []" "w' \<noteq> []"
    for w w' t t'
  proof (rule ccontr)
    assume n: "\<not> parenless w"
    with that(1) have "hd (w' @ t') = CHR ''(''" by (metis append_Cons list.sel(1) paren_def append_assoc)
    with that(2-4) open_ [of w] n show False by simp
  qed
  show ?thesis using clash [of u r v r'] clash [of v r' u r] assms by (auto simp: paren_def)
qed

lemma paren_apart:
  assumes "apart u v" "u \<noteq> []" "v \<noteq> []" "hd u = CHR ''('' \<longleftrightarrow> hd v = CHR ''(''"
  shows "apart (paren u) (paren v)"
proof -
  have "paren u = paren v" if eq: "paren u @ r = paren v @ r'" and st: "stop r" "stop r'" for r r'
    using paren_same [OF eq assms(2-4)] eq apartD [OF assms(1) _ st] apartD [OF assms(1), of "'')'' @ r" "'')'' @ r'"]
    by (auto simp: paren_def split: if_splits)
  then show ?thesis unfolding apart_def by blast
qed

lemma paren_inj:
  assumes "paren u = paren v" "u \<noteq> []" "v \<noteq> []" "hd u = CHR ''('' \<longleftrightarrow> hd v = CHR ''(''"
  shows "u = v"
  using paren_same [of u "[]" v "[]"] assms by (auto simp: paren_def split: if_splits)

subsection \<open>Printed values are unambiguous\<close>

text \<open>How a printed value begins.\<close>

lemma is_tuple_begin: "is_tuple c \<Longrightarrow> printCtor c strs = ''('' @ js_join '','' strs @ '')''"
  by (simp add: is_tuple_def printCtor_def)

lemma user_ctor_print:
  assumes "user_ctor c" "c \<noteq> ''<decoder>''"
  shows "printCtor c strs = c @ concat (map (\<lambda>str. '' '' @ paren str) strs)"
  using assms by (simp add: user_ctor_def printCtor_def)

lemma user_ctor_chars:
  assumes "user_ctor c"
  shows "list_all name_char c" "c \<noteq> []" "c \<noteq> ''<decoder>''"
  using assms by (auto simp: user_ctor_def name_char_def)

lemma show_int_hd: "hd (show_int n) \<noteq> CHR '']'' \<and> hd (show_int n) \<noteq> CHR ''(''"
  using show_int_chars [of n] by (cases "show_int n") (auto simp: number_char_def is_digit_def)

lemma user_ctor_begins: "user_ctor c \<Longrightarrow> begins (printCtor c strs) \<and> hd (printCtor c strs) \<noteq> CHR ''(''"
  using user_ctor_chars [of c] user_ctor_print [of c strs] by (cases c) (auto simp: begins_def name_char_def)

lemma tuple_begins: "is_tuple c \<Longrightarrow> begins (printCtor c strs) \<and> hd (printCtor c strs) = CHR ''(''"
  by (simp add: is_tuple_begin begins_def)

lemma print_begins: "printable x \<Longrightarrow> begins (print x)"
proof (cases x)
  case (E_prim p)
  then show ?thesis
    using show_int_hd show_int_chars(2)
    by (cases p) (auto simp: begins_def toString_bool_def toString_number_def toString_string_def)
next
  case (E_ctor c as)
  then show "printable x \<Longrightarrow> ?thesis" using user_ctor_begins tuple_begins by auto
qed (auto simp: begins_def toString_char_def printList_def printRecord_def)

lemma print_tuple: "printable x \<Longrightarrow> hd (print x) = CHR ''('' \<longleftrightarrow> (\<exists>c as. x = E_ctor c as \<and> is_tuple c)"
proof (cases x)
  case (E_prim p)
  then show ?thesis
    using show_int_hd by (cases p) (auto simp: toString_bool_def toString_number_def toString_string_def)
next
  case (E_ctor c as)
  assume p: "printable x"
  show ?thesis
  proof (cases "is_tuple c")
    case True
    with E_ctor tuple_begins [of c] show ?thesis by simp
  next
    case False
    with E_ctor p user_ctor_begins [of c] show ?thesis by simp
  qed
qed (auto simp: toString_char_def printList_def printRecord_def)

lemma print_parens:
  assumes "printable x" "printable y" "same_type x y"
  shows "hd (print x) = CHR ''('' \<longleftrightarrow> hd (print y) = CHR ''(''"
proof -
  have "\<exists>d bs. y = E_ctor d bs \<and> is_tuple d" if "x = E_ctor c as" "is_tuple c" for c as
    using that assms(3) by (cases y) simp_all
  moreover have "\<exists>c as. x = E_ctor c as \<and> is_tuple c" if "y = E_ctor d bs" "is_tuple d" for d bs
  proof (cases x)
    case (E_prim p)
    with that assms(3) show ?thesis by (cases p) simp_all
  qed (use that assms(3) in simp_all)
  ultimately show ?thesis unfolding print_tuple [OF assms(1)] print_tuple [OF assms(2)] by blast
qed

definition distinguished :: "evalue \<Rightarrow> evalue \<Rightarrow> bool" where
  "distinguished x y \<longleftrightarrow> apart (print x) (print y) \<and> (print x = print y \<longrightarrow> x = y)"

lemma distinguished_all2:
  "list_all2 distinguished xs ys \<Longrightarrow> list_all2 apart (map print xs) (map print ys) \<and> (map print xs = map print ys \<longrightarrow> xs = ys)"
  by (induction rule: list_all2_induct) (auto simp: distinguished_def)

lemma distinguished_lists:
  assumes "\<forall>x \<in> set xs. \<forall>y \<in> set ys. distinguished x y" "\<forall>x \<in> set xs. printable x" "\<forall>y \<in> set ys. printable y"
    "printList (map print xs) @ r = printList (map print ys) @ r'"
  shows "xs = ys"
proof -
  have "map print xs = map print ys"
    using assms print_begins by (intro list_unique [OF _ _ assms(4)]) (auto simp: distinguished_def)
  then show ?thesis using assms(1)
  proof (induction xs arbitrary: ys)
    case (Cons x xs)
    then show ?case by (cases ys) (auto simp: distinguished_def)
  qed simp
qed

lemma distinguished_args:
  assumes "list_all2 distinguished xs ys" "list_all2 same_type xs ys" "\<forall>x \<in> set xs. printable x" "\<forall>y \<in> set ys. printable y"
    "stop r" "stop r'"
    "concat (map (\<lambda>str. '' '' @ paren str) (map print xs)) @ r = concat (map (\<lambda>str. '' '' @ paren str) (map print ys)) @ r'"
  shows "xs = ys"
proof -
  have one: "apart (paren (print x)) (paren (print y))" if "distinguished x y" "same_type x y" "printable x" "printable y" for x y
    using paren_apart [of "print x" "print y"] print_parens [OF that(3,4,2)] print_begins that
    by (auto simp: distinguished_def begins_def)
  have "list_all2 apart (map (paren \<circ> print) xs) (map (paren \<circ> print) ys)"
    using assms(1-4) one by (auto simp: list_all2_conv_all_nth)
  then have eq: "map (paren \<circ> print) xs = map (paren \<circ> print) ys"
    using separated_unique [of "map (paren \<circ> print) xs" "map (paren \<circ> print) ys" "'' ''" r r'] assms(5-7)
    by (simp add: comp_def)
  have "x = y" if "distinguished x y" "same_type x y" "printable x" "printable y" "paren (print x) = paren (print y)" for x y
    using paren_inj [of "print x" "print y"] print_parens [OF that(3,4,2)] print_begins that
    by (auto simp: distinguished_def begins_def)
  then show ?thesis using eq assms(1-4) by (auto simp: list_all2_conv_all_nth list_eq_iff_nth_eq)
qed

lemma printed_records:
  assumes "list_all2 distinguished (map snd fs) (map snd gs)" "map fst fs = map fst gs" "stop r" "stop r'"
    "printRecord (map fst fs) (map print (map snd fs)) @ r = printRecord (map fst gs) (map print (map snd gs)) @ r'"
  shows "fs = gs"
proof (cases "fs = []")
  case True
  with assms(2) show ?thesis by simp
next
  case False
  let ?t = "map2 (\<lambda>k str. k @ '' = '' @ str)"
  let ?us = "?t (map fst fs) (map print (map snd fs))" and ?vs = "?t (map fst gs) (map print (map snd gs))"
  have len: "length fs = length gs" using assms(2) by (metis length_map)
  have key: "fst (fs ! i) = fst (gs ! i)" if "i < length gs" for i using assms(2) that len by (metis nth_map)
  have ap: "apart (k @ '' = '' @ u) (k @ '' = '' @ v)" if "apart u v" for k u v using that by (simp add: apart_def)
  have "list_all2 apart ?us ?vs"
    unfolding list_all2_conv_all_nth
  proof (intro conjI allI impI)
    fix i assume "i < length ?us"
    with assms(1) len key [of i] ap show "apart (?us ! i) (?vs ! i)"
      by (simp add: list_all2_conv_all_nth distinguished_def)
  qed (simp add: len)
  moreover have "js_join '', '' ?us @ '' }'' @ r = js_join '', '' ?vs @ '' }'' @ r'"
  proof -
    have ne: "map fst fs \<noteq> []" "map fst gs \<noteq> []" using False len by auto
    show ?thesis
      using assms(5) unfolding printRecord_def if_not_P [OF ne(1)] if_not_P [OF ne(2)]
      by (simp only: append_assoc same_append_eq)
  qed
  ultimately have us: "?us = ?vs" by (intro join_unique [where sep = "'', ''"]) (simp_all add: stop_def)
  have "map snd fs = map snd gs"
  proof (rule nth_equalityI)
    fix m assume m: "m < length (map snd fs)"
    have "?us ! m = ?vs ! m" using us by simp
    then have "print (snd (fs ! m)) = print (snd (gs ! m))"
      using m len key [of m] by simp
    with m assms(1) show "map snd fs ! m = map snd gs ! m" by (auto simp: list_all2_conv_all_nth distinguished_def)
  qed (use assms(1) in \<open>simp add: list_all2_conv_all_nth\<close>)
  with assms(2) show ?thesis by (metis zip_map_fst_snd)
qed

text \<open>A pair of a dictionary is printed as a tuple.\<close>

lemma print_pair: "printCtor ''_Tuple2'' [print k, print v] = print (tuple2 (k, v))"
  by (simp add: tuple2_def)

lemma is_tuple2: "is_tuple ''_Tuple2''"
  by (simp add: is_tuple_def)

lemma printed_tuples:
  assumes "list_all2 distinguished as bs" "is_tuple c" "print (E_ctor c as) @ r = print (E_ctor c bs) @ r'"
  shows "as = bs"
proof -
  have "js_join '','' (map print as) @ '')'' @ r = js_join '','' (map print bs) @ '')'' @ r'"
    using assms(2,3) by (simp add: is_tuple_begin)
  then show ?thesis
    using join_unique [of "map print as" "map print bs" "'',''" "'')'' @ r" "'')'' @ r'"] distinguished_all2 [OF assms(1)] by simp
qed

lemma distinguished_tuple:
  assumes "list_all2 distinguished as bs" "is_tuple c"
  shows "distinguished (E_ctor c as) (E_ctor c bs)"
  using printed_tuples [OF assms] printed_tuples [OF assms, of "[]" "[]"] unfolding distinguished_def apart_def by auto

lemma distinguished_dict:
  assumes "\<forall>kv \<in> set kvs. \<forall>lw \<in> set kvs'. distinguished (fst kv) (fst lw) \<and> distinguished (snd kv) (snd lw)"
    "printable (E_dict kvs)" "printable (E_dict kvs')" "print (E_dict kvs) @ r = print (E_dict kvs') @ r'"
  shows "kvs = kvs'"
proof -
  have p: "print (E_dict l) = ''Dict.fromList '' @ printList (map print (map tuple2 l))" for l
    by (simp add: comp_def tuple2_def)
  have "\<forall>x \<in> set (map tuple2 kvs). \<forall>y \<in> set (map tuple2 kvs'). distinguished x y"
    using assms(1) by (auto simp: tuple2_def intro!: distinguished_tuple is_tuple2)
  moreover have "\<forall>x \<in> set (map tuple2 l). printable x" if "printable (E_dict l)" for l
    using that is_tuple2 by (auto simp: tuple2_def)
  moreover have "printList (map print (map tuple2 kvs)) @ r = printList (map print (map tuple2 kvs')) @ r'"
    using assms(4) unfolding p by simp
  ultimately have "map tuple2 kvs = map tuple2 kvs'" using assms(2,3) by (intro distinguished_lists) blast+
  moreover have "inj tuple2" by (auto simp: inj_def tuple2_def prod_eq_iff)
  ultimately show ?thesis by (simp add: inj_map_eq_map)
qed

lemma printed_ctors:
  assumes "user_ctor c" "user_ctor d" "stop r" "stop r'" "print (E_ctor c as) @ r = print (E_ctor d bs) @ r'"
  shows "c = d \<and> concat (map (\<lambda>str. '' '' @ paren str) (map print as)) @ r =
    concat (map (\<lambda>str. '' '' @ paren str) (map print bs)) @ r'"
proof -
  let ?a = "\<lambda>xs. concat (map (\<lambda>str. '' '' @ paren str) (map print xs))"
  have st: "stop (?a xs @ t)" if "stop t" for xs t using that by (cases xs) auto
  have ends_: "t = [] \<or> \<not> name_char (hd t)" if "stop t" for t using that by (auto simp: stop_def name_char_def)
  have eq: "c @ (?a as @ r) = d @ (?a bs @ r')"
    using assms(5) user_ctor_print [OF assms(1) user_ctor_chars(3) [OF assms(1)]]
      user_ctor_print [OF assms(2) user_ctor_chars(3) [OF assms(2)]] by (simp only: print.simps append_assoc)
  have "c = d"
    using span_unique [OF user_ctor_chars(1) [OF assms(1)] user_ctor_chars(1) [OF assms(2)] ends_ ends_ eq] st assms(3,4)
    by blast
  with eq show ?thesis by simp
qed

lemma distinguished_prim:
  assumes "same_type (E_prim p) y"
  shows "distinguished (E_prim p) y"
proof (cases p)
  case (P_number n)
  then obtain m where "y = E_prim (P_number m)" using assms by (auto split: evalue.splits prim.splits)
  with P_number apart_number toString_number_inj show ?thesis by (auto simp: distinguished_def)
next
  case (P_string t)
  then obtain u where "y = E_prim (P_string u)" using assms by (auto split: evalue.splits prim.splits)
  with P_string apart_string toString_string_inj show ?thesis by (auto simp: distinguished_def)
next
  case (P_bool a)
  then obtain b where "y = E_prim (P_bool b)" using assms by (auto split: evalue.splits prim.splits)
  with P_bool apart_bool show ?thesis by (auto simp: distinguished_def toString_bool_def split: if_splits)
qed

lemma distinguished_char: "distinguished (E_char c) (E_char d)"
proof -
  have "c = d" if "toString_char c = toString_char d"
  proof -
    have "addSlashes [c] True = addSlashes [d] True" using that by (simp add: toString_char_def)
    then have "[c] = [d]" by (metis unescape_addSlashes)
    then show ?thesis by simp
  qed
  then show ?thesis using apart_char by (auto simp: distinguished_def)
qed

lemma distinguishedI:
  "(\<And>r r'. print x @ r = print y @ r' \<Longrightarrow> stop r \<Longrightarrow> stop r' \<Longrightarrow> x = y) \<Longrightarrow> distinguished x y"
  unfolding distinguished_def apart_def by (metis append_Nil2 stop_simps(1))

lemma distinguished_record:
  assumes "map fst fs = map fst gs" "list_all2 distinguished (map snd fs) (map snd gs)"
  shows "distinguished (E_record fs) (E_record gs)"
  using printed_records [OF assms(2,1)] by (intro distinguishedI) simp

lemma distinguished_ctor:
  assumes "printable (E_ctor c as)" "printable (E_ctor d bs)" "same_type (E_ctor c as) (E_ctor d bs)"
    "c = d \<Longrightarrow> list_all2 distinguished as bs"
  shows "distinguished (E_ctor c as) (E_ctor d bs)"
proof (cases "is_tuple c")
  case True
  with assms(3) have "c = d" by simp
  with distinguished_tuple [OF assms(4) True] show ?thesis by simp
next
  case False
  have u: "user_ctor c" "user_ctor d" using False assms(1,2,3) by auto
  show ?thesis
  proof (rule distinguishedI)
    fix r r' assume eq: "print (E_ctor c as) @ r = print (E_ctor d bs) @ r'" and st: "stop r" "stop r'"
    note t = printed_ctors [OF u st eq]
    then have "as = bs"
      using assms by (intro distinguished_args [OF assms(4) _ _ _ st]) simp_all
    with t show "E_ctor c as = E_ctor d bs" by simp
  qed
qed

lemma distinguished_sequences:
  assumes "\<forall>x \<in> set xs. \<forall>y \<in> set ys. distinguished x y" "\<forall>x \<in> set xs. printable x" "\<forall>y \<in> set ys. printable y"
  shows "distinguished (E_list xs) (E_list ys)" "distinguished (E_array xs) (E_array ys)" "distinguished (E_set xs) (E_set ys)"
  using distinguished_lists [OF assms] by (auto intro!: distinguishedI)

theorem print_distinguished: "printable x \<Longrightarrow> printable y \<Longrightarrow> same_type x y \<Longrightarrow> distinguished x y"
proof (induction "size x" arbitrary: x y rule: less_induct)
  case less
  show ?case
  proof (cases x)
    case (E_prim p)
    with less.prems(3) show ?thesis by (simp only: distinguished_prim)
  next
    case (E_char c)
    with less.prems(3) show ?thesis by (auto simp: distinguished_char split: evalue.splits)
  next
    case (E_record fs)
    then obtain gs where y: "y = E_record gs" "map fst fs = map fst gs" "list_all2 same_type (map snd fs) (map snd gs)"
      using less.prems(3) by (auto split: evalue.splits)
    have "distinguished u v" if "u \<in> set (map snd fs)" "v \<in> set (map snd gs)" "same_type u v" for u v
    proof -
      from that(1) obtain k where "(k, u) \<in> set fs" by auto
      from size_list_estimation' [OF this, of "size u" "size_prod (\<lambda>_. 0) size"] E_record have "size u < size x" by simp
      then show ?thesis using that less.hyps less.prems(1,2) E_record y(1) by auto
    qed
    with list.rel_mono_strong [OF y(3)] have "list_all2 distinguished (map snd fs) (map snd gs)" by blast
    with y(1,2) E_record show ?thesis by (simp only: distinguished_record)
  next
    case (E_ctor c as)
    then obtain d bs where y: "y = E_ctor d bs" "c = d \<Longrightarrow> list_all2 same_type as bs"
      using less.prems(3) by (auto split: evalue.splits)
    have "distinguished u v" if "u \<in> set as" "v \<in> set bs" "same_type u v" for u v
      using that less.hyps less.prems(1,2) E_ctor y(1) by (simp add: less_Suc_eq_le size_list_estimation')
    with list.rel_mono_strong [OF y(2)] have "c = d \<Longrightarrow> list_all2 distinguished as bs" by blast
    with distinguished_ctor less.prems E_ctor y(1) show ?thesis by blast
  next
    case (E_dict kvs)
    then obtain kvs' where y: "y = E_dict kvs'" using less.prems(3) by (auto split: evalue.splits)
    have "distinguished (fst kv) (fst lw) \<and> distinguished (snd kv) (snd lw)" if m: "kv \<in> set kvs" "lw \<in> set kvs'" for kv lw
    proof -
      have "size (fst kv) < size x" "size (snd kv) < size x"
        using size_list_estimation' [OF m(1), of "size (fst kv)" "size_prod size size"]
          size_list_estimation' [OF m(1), of "size (snd kv)" "size_prod size size"] E_dict by (cases kv; simp)+
      with m less.hyps less.prems E_dict y show ?thesis by simp
    qed
    with distinguished_dict [of kvs kvs'] less.prems(1,2) E_dict y show ?thesis by (auto intro!: distinguishedI)
  next
    case (E_list xs)
    with less show ?thesis
      by (auto intro!: distinguished_sequences simp: less_Suc_eq_le size_list_estimation' split: evalue.splits)
  next
    case (E_array xs)
    with less show ?thesis
      by (auto intro!: distinguished_sequences simp: less_Suc_eq_le size_list_estimation' split: evalue.splits)
  next
    case (E_set xs)
    with less show ?thesis
      by (auto intro!: distinguished_sequences simp: less_Suc_eq_le size_list_estimation' split: evalue.splits)
  qed (use less.prems in simp_all)
qed

subsection \<open>The code prints these texts\<close>

lemma toStrings_map:
  "\<forall>x \<in> set xs. toString date internal x = Inr (f x) \<Longrightarrow> toStrings date internal xs = Inr (map f xs)"
  by (induction xs) auto

lemma toString_print: "printable x \<Longrightarrow> toString date internal x = Inr (print x)"
proof (induction "size x" arbitrary: x rule: less_induct)
  case less
  have all: "toStrings date internal xs = Inr (map print xs)" if "\<forall>u \<in> set xs. size u < size x \<and> printable u" for xs
    using that less.hyps by (intro toStrings_map) blast
  show ?case
  proof (cases x)
    case (E_record fs)
    have "size (snd kv) < size x" if "kv \<in> set fs" for kv
      using size_list_estimation' [OF that, of "size (snd kv)" "size_prod (\<lambda>_. 0) size"] E_record by (cases kv) simp
    moreover have "map_of fs k = None" if "k = ''ctor'' \<or> k = ''elm_web_socket''" for k
      using that less.prems E_record by (auto simp: map_of_eq_None_iff field_name_def)
    ultimately show ?thesis using all [of "map snd fs"] less.prems E_record by simp
  next
    case (E_dict kvs)
    have "size (fst kv) < size x \<and> size (snd kv) < size x" if "kv \<in> set kvs" for kv
      using size_list_estimation' [OF that, of "size (fst kv)" "size_prod size size"]
        size_list_estimation' [OF that, of "size (snd kv)" "size_prod size size"] E_dict by (cases kv) simp
    moreover have "map2 (\<lambda>k v. printCtor ''_Tuple2'' [k, v]) (map print (map fst kvs)) (map print (map snd kvs)) =
        map (\<lambda>kv. printCtor ''_Tuple2'' [print (fst kv), print (snd kv)]) kvs"
      by (induction kvs) auto
    ultimately show ?thesis using all [of "map fst kvs"] all [of "map snd kvs"] less.prems E_dict by simp
  qed (use all less.prems in \<open>simp_all add: less_Suc_eq_le size_list_estimation'\<close>)
qed



text \<open>
  Values that \<^verbatim>\<open>eq\<close> takes for equal need not be printed alike: \<^verbatim>\<open>toString\<close> prints the fields of a record in the order in
  which they were written, which a type does not fix.
\<close>

lemma Utils_toString_field_order:
  "Utils_eq (\<lambda>_ _. False) inh (E_record [(''a'', E_prim (P_number 1)), (''b'', E_prim (P_number 2))])
      (E_record [(''b'', E_prim (P_number 2)), (''a'', E_prim (P_number 1))]) = Inr True \<and>
    toString date internal (E_record [(''a'', E_prim (P_number 1)), (''b'', E_prim (P_number 2))]) \<noteq>
    toString date internal (E_record [(''b'', E_prim (P_number 2)), (''a'', E_prim (P_number 1))])"
  by (simp add: Utils_eq_def eqHelp.simps is_object_def js_get_def eq_loop.simps printRecord_def toString_number_def)

text \<open>A record with a field \<^verbatim>\<open>ctor\<close> is mistaken for a constructor, or makes \<^verbatim>\<open>toString\<close> throw.\<close>

lemma Utils_toString_ctor_field:
  "toString date internal (E_record [(''ctor'', E_prim (P_number n))]) = Inl TypeError"
  "toString date internal (E_record [(''ctor'', E_prim (P_string ''Nothing''))]) = toString date internal (E_ctor ''Nothing'' [])"
  by (simp_all add: ctor_name_def internal_names_def)

end
