(* ===== verification/Elm_Debugger.thy ===== *)
theory Elm_Debugger
  imports Elm_ToString Elm_Dict_Correct
begin

text \<open>
  What the debugger shows of a value (\<^verbatim>\<open>Native.Debug\<close> of the virtual DOM): the text of a message in the list of
  messages, and the tree of a model that can be opened and closed (\<^verbatim>\<open>Expando\<close>). The trees of different values of
  one type are different.
\<close>

subsection \<open>Messages\<close>

text \<open>
  \<^verbatim>\<open>messageToString\<close>. The argument \<open>dots\<close> is the text of one ellipsis character. A record with a field \<^verbatim>\<open>ctor\<close> is taken
  for a constructor; its field \<^verbatim>\<open>_0\<close> is \<^verbatim>\<open>undefined\<close>.
\<close>

lemma last_size: "args \<noteq> [] \<Longrightarrow> size_list size args \<le> n \<Longrightarrow> size (last args) \<le> n"
  using size_list_estimation' [OF last_in_set, of args "size (last args)" size] by force

lemma last_field_size: "fs \<noteq> [] \<Longrightarrow> size (snd (last fs)) \<le> size_list (size_prod (\<lambda>_. 0) size) fs"
  using size_list_estimation' [OF last_in_set, of fs "size (snd (last fs))" "size_prod (\<lambda>_. 0) size"]
  by (cases "last fs") simp

lemma filtered_size: "size_list (size \<circ> snd) (filter P fs) \<le> size_list (\<lambda>x. Suc (size (snd x))) fs"
  by (induction fs) auto

function (sequential) messageToString :: "string \<Rightarrow> evalue \<Rightarrow> string result" where
  "messageToString dots (E_prim p) =
     Inr (case p of P_bool b \<Rightarrow> toString_bool b | P_number n \<Rightarrow> toString_number n | P_string s \<Rightarrow> toString_string s)"
| "messageToString dots (E_char c) = Inr (toString_char c)"
| "messageToString dots (E_ctor c args) =
     (if take 5 c \<in> {''_Tupl'', ''_Task''} \<or> c = ''<decoder>'' \<or> c \<in> set internal_names then Inr dots
      else case args of
        [] \<Rightarrow> Inr c
      | [x] \<Rightarrow> bindE (messageToString dots x) (\<lambda>str. Inr (c @ '' '' @ str))
      | _ \<Rightarrow> bindE (messageToString dots (last args)) (\<lambda>str. Inr (c @ '' '' @ dots @ '' '' @ str)))"
| "messageToString dots (E_record fs) =
     (case map_of fs ''ctor'' of
        None \<Rightarrow> Inr dots
      | Some v \<Rightarrow>
          (case ctor_name v of
             None \<Rightarrow> Inl TypeError
           | Some c \<Rightarrow>
               if take 5 c \<in> {''_Tupl'', ''_Task''} \<or> c = ''<decoder>'' \<or> c \<in> set internal_names then Inr dots
               else if length fs = 1 then Inr c
               else if length fs = 2 then Inr (c @ '' '' @ dots)
               else bindE (messageToString dots (snd (last fs))) (\<lambda>str. Inr (c @ '' '' @ dots @ '' '' @ str))))"
| "messageToString dots _ = Inr dots"
  by pat_completeness auto
termination
  by (relation "measure (size \<circ> snd)")
    (auto simp: less_Suc_eq_le intro!: last_size last_field_size)

subsection \<open>Trees\<close>

datatype seq_type = ListSeq | SetSeq | ArraySeq

datatype expando =
    Expando_S string
  | Expando_Primitive string
  | Expando_Sequence seq_type bool "expando list"
  | Expando_Dictionary bool "(expando \<times> expando) list"
  | Expando_Record bool "(string, expando) dict"
  | Expando_Constructor "string option" bool "expando list"

fun insert_fields :: "(string \<times> 'v) list \<Rightarrow> (string, 'v) dict \<Rightarrow> (string, 'v) dict result" where
  "insert_fields [] dict = Inr dict"
| "insert_fields ((i, v) # rest) dict = bindE (Dict_insert i v dict) (insert_fields rest)"

definition ctor_expando :: "string \<Rightarrow> expando list \<Rightarrow> expando" where
  "ctor_expando c es =
     (if take 5 c = ''_Task'' then Expando_Primitive ''<task>''
      else if c = ''<decoder>'' then Expando_Primitive c
      else if c = ''_Process'' then Expando_Primitive ''<process>''
      else Expando_Constructor (if take 5 c = ''_Tupl'' then None else Some c) True es)"

text \<open>
  \<^verbatim>\<open>init\<close>. The elements of lists, sets, arrays and dictionaries are converted from the last to the first, the arguments
  of constructors and the fields of records in order.
\<close>

function (sequential) Debug_init ::
  "(int \<Rightarrow> string) \<Rightarrow> ((string \<times> evalue) list \<Rightarrow> expando result) \<Rightarrow> evalue \<Rightarrow> expando result"
and Debug_inits ::
  "(int \<Rightarrow> string) \<Rightarrow> ((string \<times> evalue) list \<Rightarrow> expando result) \<Rightarrow> evalue list \<Rightarrow> expando list result"
and Debug_initConses ::
  "(int \<Rightarrow> string) \<Rightarrow> ((string \<times> evalue) list \<Rightarrow> expando result) \<Rightarrow> evalue list \<Rightarrow> expando list result"
and Debug_initKeyValueConses ::
  "(int \<Rightarrow> string) \<Rightarrow> ((string \<times> evalue) list \<Rightarrow> expando result) \<Rightarrow> (evalue \<times> evalue) list \<Rightarrow>
   (expando \<times> expando) list result"
where
  "Debug_init date internal (E_prim p) =
     Inr (case p of
       P_bool b \<Rightarrow> Expando_Constructor (Some (toString_bool b)) True []
     | P_number n \<Rightarrow> Expando_Primitive (toString_number n)
     | P_string s \<Rightarrow> Expando_S (toString_string s))"
| "Debug_init date internal (E_char c) = Inr (Expando_S (toString_char c))"
| "Debug_init date internal (E_date t) = Inr (Expando_Primitive (''<'' @ date t @ ''>''))"
| "Debug_init date internal (E_list xs) =
     bindE (Debug_initConses date internal xs) (\<lambda>es. Inr (Expando_Sequence ListSeq True es))"
| "Debug_init date internal (E_set xs) =
     bindE (Debug_initConses date internal xs) (\<lambda>es. Inr (Expando_Sequence SetSeq True es))"
| "Debug_init date internal (E_array xs) =
     bindE (Debug_initConses date internal xs) (\<lambda>es. Inr (Expando_Sequence ArraySeq True es))"
| "Debug_init date internal (E_dict kvs) =
     bindE (Debug_initKeyValueConses date internal kvs) (\<lambda>es. Inr (Expando_Dictionary True es))"
| "Debug_init date internal (E_ctor c args) =
     bindE (Debug_inits date internal args) (\<lambda>es. Inr (ctor_expando c es))"
| "Debug_init date internal (E_record fs) =
     (case map_of fs ''ctor'' of
        Some v \<Rightarrow>
          (case ctor_name v of
             None \<Rightarrow> Inl TypeError
           | Some name \<Rightarrow>
               if name \<in> set internal_names then internal fs
               else bindE (Debug_inits date internal (map snd (filter (\<lambda>kv. fst kv \<noteq> ''ctor'') fs))) (\<lambda>es.
                      Inr (ctor_expando name es)))
      | None \<Rightarrow>
          bindE (Debug_inits date internal (map snd fs)) (\<lambda>es.
          bindE (insert_fields (zip (map fst fs) es) Dict_empty) (\<lambda>dict. Inr (Expando_Record True dict))))"
| "Debug_init date internal _ = Inr (Expando_Primitive ''XXX'')"
| "Debug_inits date internal [] = Inr []"
| "Debug_inits date internal (x # xs) =
     bindE (Debug_init date internal x) (\<lambda>e. bindE (Debug_inits date internal xs) (\<lambda>es. Inr (e # es)))"
| "Debug_initConses date internal [] = Inr []"
| "Debug_initConses date internal (x # xs) =
     bindE (Debug_initConses date internal xs) (\<lambda>es. bindE (Debug_init date internal x) (\<lambda>e. Inr (e # es)))"
| "Debug_initKeyValueConses date internal [] = Inr []"
| "Debug_initKeyValueConses date internal (kv # kvs) =
     bindE (Debug_initKeyValueConses date internal kvs) (\<lambda>es.
     bindE (Debug_init date internal (fst kv)) (\<lambda>e.
     bindE (Debug_init date internal (snd kv)) (\<lambda>e'. Inr ((e, e') # es))))"
  by pat_completeness auto
termination
  by (relation "measure (\<lambda>x. case x of Inl (Inl (_, _, v)) \<Rightarrow> size v | Inl (Inr (_, _, vs)) \<Rightarrow> size_list size vs
    | Inr (Inl (_, _, vs)) \<Rightarrow> size_list size vs | Inr (Inr (_, _, kvs)) \<Rightarrow> size_list (size_prod size size) kvs)")
    (auto simp: less_Suc_eq_le termination_simp filtered_size)

subsection \<open>Trees of values\<close>

lemma insert_fields_total:
  assumes "Dict_wf d" "distinct (map fst kvs)"
  shows "\<exists>d'. insert_fields kvs d = Inr d' \<and> Dict_wf d' \<and>
    (\<forall>j. Dict_get j d' = (case map_of kvs j of Some v \<Rightarrow> Some v | None \<Rightarrow> Dict_get j d))"
  using assms
proof (induction kvs arbitrary: d)
  case (Cons kv kvs)
  obtain k v where kv: "kv = (k, v)" by (cases kv)
  obtain d1 where d1: "Dict_insert k v d = Inr d1" "Dict_wf d1"
    "\<forall>j. Dict_get j d1 = (if j = k then Some v else Dict_get j d)"
    using Dict_insert_total [OF Cons.prems(1)] by blast
  obtain d2 where d2: "insert_fields kvs d1 = Inr d2" "Dict_wf d2"
    "\<forall>j. Dict_get j d2 = (case map_of kvs j of Some v \<Rightarrow> Some v | None \<Rightarrow> Dict_get j d1)"
    using Cons.IH [OF d1(2)] Cons.prems(2) by auto
  have "map_of kvs k = None" using Cons.prems(2) kv by (auto simp: map_of_eq_None_iff)
  with d1 d2 kv show ?case by (auto split: option.split)
qed simp

text \<open>The tree of a value of Elm, as a relation; the arguments of \<^verbatim>\<open>init\<close> for dates and wrong objects do not matter.\<close>

definition tree_of :: "evalue \<Rightarrow> expando \<Rightarrow> bool" where
  "tree_of x e \<longleftrightarrow> (\<forall>date internal. Debug_init date internal x = Inr e)"

lemma Debug_inits_eq:
  "list_all2 tree_of xs es \<Longrightarrow> Debug_inits date internal xs = Inr es"
  "list_all2 tree_of xs es \<Longrightarrow> Debug_initConses date internal xs = Inr es"
  by (induction xs es rule: list_all2_induct) (simp_all add: tree_of_def)

lemma Debug_initKeyValueConses_eq:
  "list_all2 (rel_prod tree_of tree_of) kvs es \<Longrightarrow> Debug_initKeyValueConses date internal kvs = Inr es"
  by (induction kvs es rule: list_all2_induct) (auto simp: tree_of_def rel_prod_sel)

lemma tree_of_unique: "tree_of x e \<Longrightarrow> tree_of x e' \<Longrightarrow> e = e'"
  by (simp add: tree_of_def)

lemma trees_of:
  assumes "\<forall>x \<in> set xs. \<exists>e. tree_of x e"
  shows "\<exists>es. list_all2 tree_of xs es"
  using assms by (induction xs) auto

text \<open>Every value of Elm has a tree, built from those of its parts.\<close>

lemma ctor_not_internal:
  assumes "is_tuple c \<or> user_ctor c"
  shows "ctor_expando c es = Expando_Constructor (if is_tuple c then None else Some c) True es"
proof -
  have n: "c \<noteq> x" if "\<not> is_tuple x" "\<not> user_ctor x" for x using that assms by blast
  have "c \<noteq> ''<decoder>''" by (rule n) (simp_all add: is_tuple_def user_ctor_def name_char_def)
  moreover have "c \<noteq> ''_Process''" by (rule n) (simp_all add: is_tuple_def user_ctor_def internal_names_def)
  moreover have "take 5 c \<noteq> ''_Task''" using assms by (elim disjE) (simp_all add: is_tuple_def user_ctor_def)
  ultimately show ?thesis by (simp add: ctor_expando_def is_tuple_def)
qed

lemma tree_of_parts:
  "list_all2 tree_of xs es \<Longrightarrow> tree_of (E_list xs) (Expando_Sequence ListSeq True es)"
  "list_all2 tree_of xs es \<Longrightarrow> tree_of (E_set xs) (Expando_Sequence SetSeq True es)"
  "list_all2 tree_of xs es \<Longrightarrow> tree_of (E_array xs) (Expando_Sequence ArraySeq True es)"
  "list_all2 (rel_prod tree_of tree_of) kvs ps \<Longrightarrow> tree_of (E_dict kvs) (Expando_Dictionary True ps)"
  "list_all2 tree_of xs es \<Longrightarrow> is_tuple c \<or> user_ctor c \<Longrightarrow>
     tree_of (E_ctor c xs) (Expando_Constructor (if is_tuple c then None else Some c) True es)"
  by (simp_all add: tree_of_def Debug_inits_eq Debug_initKeyValueConses_eq ctor_not_internal)

lemma tree_of_record:
  assumes "printable (E_record fs)" "list_all2 tree_of (map snd fs) es"
  shows "\<exists>d. tree_of (E_record fs) (Expando_Record True d) \<and> (\<forall>k. Dict_get k d = map_of (zip (map fst fs) es) k)"
proof -
  have len: "length es = length fs" using list_all2_lengthD [OF assms(2)] by simp
  then have "map fst (zip (map fst fs) es) = map fst fs" by simp
  then obtain d where d: "insert_fields (zip (map fst fs) es) Dict_empty = Inr d"
    "\<forall>j. Dict_get j d = (case map_of (zip (map fst fs) es) j of Some v \<Rightarrow> Some v | None \<Rightarrow> Dict_get j Dict_empty)"
    using insert_fields_total [OF Dict_wf_empty, of "zip (map fst fs) es"] assms(1) by auto
  have "map_of fs ''ctor'' = None" using assms(1) by (auto simp: map_of_eq_None_iff field_name_def)
  with d Debug_inits_eq(1) [OF assms(2)] show ?thesis
    by (intro exI [of _ d]) (auto simp: tree_of_def Dict_empty_def split: option.split)
qed

lemma tree_exists: "printable x \<Longrightarrow> \<exists>e. tree_of x e"
proof (induction "size x" arbitrary: x rule: less_induct)
  case less
  have all: "\<exists>es. list_all2 tree_of xs es" if "\<forall>u \<in> set xs. size u < size x \<and> printable u" for xs
    using that less.hyps by (intro trees_of) blast
  show ?case
  proof (cases x)
    case (E_record fs)
    have "size (snd kv) < size x" if "kv \<in> set fs" for kv
      using size_list_estimation' [OF that, of "size (snd kv)" "size_prod (\<lambda>_. 0) size"] E_record by (cases kv) simp
    then have "\<exists>es. list_all2 tree_of (map snd fs) es" using less.prems E_record by (intro all) auto
    then show ?thesis using tree_of_record less.prems E_record by blast
  next
    case (E_dict kvs)
    have "size (fst kv) < size x \<and> size (snd kv) < size x" if "kv \<in> set kvs" for kv
      using size_list_estimation' [OF that, of "size (fst kv)" "size_prod size size"]
        size_list_estimation' [OF that, of "size (snd kv)" "size_prod size size"] E_dict by (cases kv) simp
    then have "\<exists>es. list_all2 tree_of (map fst kvs) es" "\<exists>es. list_all2 tree_of (map snd kvs) es"
      using less.prems E_dict by (auto intro!: all)
    then obtain es es' where "list_all2 tree_of (map fst kvs) es" "list_all2 tree_of (map snd kvs) es'" by blast
    then have "list_all2 (rel_prod tree_of tree_of) kvs (zip es es')"
      by (auto simp: list_all2_conv_all_nth rel_prod_sel)
    then show ?thesis using tree_of_parts(4) E_dict by blast
  next
    case (E_ctor c xs)
    have "\<exists>es. list_all2 tree_of xs es"
      using less.prems E_ctor by (intro all) (simp add: less_Suc_eq_le size_list_estimation')
    then show ?thesis using tree_of_parts(5) E_ctor less.prems by fastforce
  next
    case (E_list xs)
    have "\<exists>es. list_all2 tree_of xs es"
      using less.prems E_list by (intro all) (simp add: less_Suc_eq_le size_list_estimation')
    then show ?thesis using tree_of_parts(1) E_list by blast
  next
    case (E_set xs)
    have "\<exists>es. list_all2 tree_of xs es"
      using less.prems E_set by (intro all) (simp add: less_Suc_eq_le size_list_estimation')
    then show ?thesis using tree_of_parts(2) E_set by blast
  next
    case (E_array xs)
    have "\<exists>es. list_all2 tree_of xs es"
      using less.prems E_array by (intro all) (simp add: less_Suc_eq_le size_list_estimation')
    then show ?thesis using tree_of_parts(3) E_array by blast
  qed (use less.prems in \<open>simp_all add: tree_of_def [abs_def]\<close>)
qed

subsection \<open>Different values have different trees\<close>

definition told_apart :: "evalue \<Rightarrow> evalue \<Rightarrow> bool" where
  "told_apart x y \<longleftrightarrow> (\<forall>e. tree_of x e \<longrightarrow> tree_of y e \<longrightarrow> x = y)"

lemma told_apart_trees:
  assumes "tree_of x e" "tree_of y e'" "e = e' \<Longrightarrow> x = y"
  shows "told_apart x y"
  using assms tree_of_unique unfolding told_apart_def by metis

lemma same_trees:
  assumes "list_all2 tree_of xs es" "list_all2 tree_of ys es" "list_all2 told_apart xs ys"
  shows "xs = ys"
  using assms by (auto simp: list_all2_conv_all_nth told_apart_def intro!: nth_equalityI)

lemma told_apart_all:
  assumes "\<forall>x \<in> set xs. \<forall>y \<in> set ys. told_apart x y" "list_all2 tree_of xs es" "list_all2 tree_of ys es"
  shows "xs = ys"
proof (rule same_trees [OF assms(2,3)])
  show "list_all2 told_apart xs ys"
    using assms(1) list_all2_lengthD [OF assms(2)] list_all2_lengthD [OF assms(3)] by (auto simp: list_all2_conv_all_nth)
qed

lemma printable_trees: "\<forall>x \<in> set xs. printable x \<Longrightarrow> \<exists>es. list_all2 tree_of xs es"
  using trees_of tree_exists by blast

lemma told_apart_sequences:
  assumes "\<forall>x \<in> set xs. \<forall>y \<in> set ys. told_apart x y" "\<forall>x \<in> set xs. printable x" "\<forall>y \<in> set ys. printable y"
  shows "told_apart (E_list xs) (E_list ys)" "told_apart (E_set xs) (E_set ys)" "told_apart (E_array xs) (E_array ys)"
proof -
  obtain es es' where t: "list_all2 tree_of xs es" "list_all2 tree_of ys es'"
    using printable_trees assms(2,3) by blast
  have "es = es' \<Longrightarrow> xs = ys" using told_apart_all [OF assms(1) t(1)] t(2) by blast
  then show "told_apart (E_list xs) (E_list ys)" "told_apart (E_set xs) (E_set ys)" "told_apart (E_array xs) (E_array ys)"
    using told_apart_trees [OF tree_of_parts(1) [OF t(1)] tree_of_parts(1) [OF t(2)]]
      told_apart_trees [OF tree_of_parts(2) [OF t(1)] tree_of_parts(2) [OF t(2)]]
      told_apart_trees [OF tree_of_parts(3) [OF t(1)] tree_of_parts(3) [OF t(2)]] by simp_all
qed

lemma told_apart_dict:
  assumes "\<forall>kv \<in> set kvs. \<forall>lw \<in> set kvs'. told_apart (fst kv) (fst lw) \<and> told_apart (snd kv) (snd lw)"
    "printable (E_dict kvs)" "printable (E_dict kvs')"
  shows "told_apart (E_dict kvs) (E_dict kvs')"
proof -
  have trees: "\<exists>ps. list_all2 (rel_prod tree_of tree_of) l ps" if "printable (E_dict l)" for l
  proof -
    have v: "\<forall>x \<in> set (map fst l). printable x" "\<forall>x \<in> set (map snd l). printable x" using that by auto
    obtain es es' where "list_all2 tree_of (map fst l) es" "list_all2 tree_of (map snd l) es'"
      using printable_trees [OF v(1)] printable_trees [OF v(2)] by blast
    then have "list_all2 (rel_prod tree_of tree_of) l (zip es es')" by (auto simp: list_all2_conv_all_nth rel_prod_sel)
    then show ?thesis by blast
  qed
  obtain ps ps' where t: "list_all2 (rel_prod tree_of tree_of) kvs ps" "list_all2 (rel_prod tree_of tree_of) kvs' ps'"
    using trees assms(2,3) by blast
  have "kvs = kvs'" if "ps = ps'"
  proof (rule nth_equalityI)
    show "length kvs = length kvs'" using t that by (simp add: list_all2_conv_all_nth)
    fix i assume "i < length kvs"
    then show "kvs ! i = kvs' ! i"
      using t that assms(1) by (auto simp: list_all2_conv_all_nth rel_prod_sel told_apart_def prod_eq_iff)
  qed
  then show ?thesis using told_apart_trees [OF tree_of_parts(4) [OF t(1)] tree_of_parts(4) [OF t(2)]] by simp
qed

lemma told_apart_ctor:
  assumes "printable (E_ctor c as)" "printable (E_ctor d bs)" "same_type (E_ctor c as) (E_ctor d bs)"
    "c = d \<Longrightarrow> list_all2 told_apart as bs"
  shows "told_apart (E_ctor c as) (E_ctor d bs)"
proof -
  obtain es es' where t: "list_all2 tree_of as es" "list_all2 tree_of bs es'"
    using printable_trees assms(1,2) by (metis printable.simps(4))
  have c: "is_tuple c \<or> user_ctor c" "is_tuple d \<or> user_ctor d" using assms(1,2) by simp_all
  show ?thesis
  proof (rule told_apart_trees [OF tree_of_parts(5) [OF t(1) c(1)] tree_of_parts(5) [OF t(2) c(2)]])
    assume "Expando_Constructor (if is_tuple c then None else Some c) True es =
      Expando_Constructor (if is_tuple d then None else Some d) True es'"
    then have "c = d \<and> es = es'" using assms(3) by (auto split: if_splits)
    then show "E_ctor c as = E_ctor d bs" using same_trees t assms(4) by simp
  qed
qed

lemma pairs_eq: "map fst fs = map fst gs \<Longrightarrow> map snd fs = map snd gs \<Longrightarrow> fs = gs"
  by (metis zip_map_fst_snd)

lemma told_apart_record:
  assumes "printable (E_record fs)" "printable (E_record gs)" "map fst fs = map fst gs"
    "list_all2 told_apart (map snd fs) (map snd gs)"
  shows "told_apart (E_record fs) (E_record gs)"
proof -
  have v: "\<forall>x \<in> set (map snd fs). printable x" "\<forall>x \<in> set (map snd gs). printable x" using assms(1,2) by auto
  obtain es es' where t: "list_all2 tree_of (map snd fs) es" "list_all2 tree_of (map snd gs) es'"
    using printable_trees [OF v(1)] printable_trees [OF v(2)] by blast
  obtain d where d: "tree_of (E_record fs) (Expando_Record True d)" "\<forall>k. Dict_get k d = map_of (zip (map fst fs) es) k"
    using tree_of_record [OF assms(1) t(1)] by blast
  obtain d' where d': "tree_of (E_record gs) (Expando_Record True d')" "\<forall>k. Dict_get k d' = map_of (zip (map fst gs) es') k"
    using tree_of_record [OF assms(2) t(2)] by blast
  show ?thesis
  proof (rule told_apart_trees [OF d(1) d'(1)])
    assume "Expando_Record True d = Expando_Record True d'"
    then have m: "map_of (zip (map fst fs) es) k = map_of (zip (map fst fs) es') k" for k
      using d(2) d'(2) assms(3) by simp
    have len: "length es = length (map fst fs)" "length es' = length (map fst fs)"
      using list_all2_lengthD [OF t(1)] list_all2_lengthD [OF t(2)] map_eq_imp_length_eq [OF assms(3)] by simp_all
    have "distinct (map fst fs)" using assms(1) by simp
    moreover have "map_of (zip (map fst fs) es) = map_of (zip (map fst fs) es')" using m by (rule ext)
    ultimately have "es = es'" by (rule map_of_zip_inject [OF len])
    then have "map snd fs = map snd gs" using t(2) by (intro same_trees [OF t(1) _ assms(4)]) simp
    then have "fs = gs" by (rule pairs_eq [OF assms(3)])
    then show "E_record fs = E_record gs" by simp
  qed
qed

lemma told_apart_prim:
  assumes "same_type (E_prim p) y"
  shows "told_apart (E_prim p) y"
proof -
  obtain q where y: "y = E_prim q" using assms by (cases y) (auto split: prim.splits)
  have "p = q" if "tree_of (E_prim p) e" "tree_of (E_prim q) e" for e
  proof (cases p)
    case (P_number m)
    with assms y obtain n where "q = P_number n" by (cases q) simp_all
    with that P_number toString_number_inj show ?thesis by (auto simp: tree_of_def)
  next
    case (P_string s)
    with assms y obtain t where "q = P_string t" by (cases q) simp_all
    with that P_string toString_string_inj show ?thesis by (auto simp: tree_of_def)
  next
    case (P_bool a)
    with assms y obtain b where "q = P_bool b" by (cases q) simp_all
    with that P_bool show ?thesis by (auto simp: tree_of_def toString_bool_def split: if_splits)
  qed
  then show ?thesis unfolding y told_apart_def by blast
qed

lemma told_apart_char: "told_apart (E_char c) (E_char d)"
  using distinguished_char [of c d] by (auto simp: told_apart_def tree_of_def distinguished_def)

lemma trees_told_apart: "printable x \<Longrightarrow> printable y \<Longrightarrow> same_type x y \<Longrightarrow> told_apart x y"
proof (induction "size x" arbitrary: x y rule: less_induct)
  case less
  show ?case
  proof (cases x)
    case (E_prim p)
    with less.prems(3) show ?thesis by (simp only: told_apart_prim)
  next
    case (E_char c)
    with less.prems(3) show ?thesis by (auto simp: told_apart_char split: evalue.splits)
  next
    case (E_record fs)
    then obtain gs where y: "y = E_record gs" "map fst fs = map fst gs" "list_all2 same_type (map snd fs) (map snd gs)"
      using less.prems(3) by (auto split: evalue.splits)
    have "told_apart u v" if "u \<in> set (map snd fs)" "v \<in> set (map snd gs)" "same_type u v" for u v
    proof -
      from that(1) obtain k where "(k, u) \<in> set fs" by auto
      from size_list_estimation' [OF this, of "size u" "size_prod (\<lambda>_. 0) size"] E_record have "size u < size x" by simp
      then show ?thesis using that less.hyps less.prems(1,2) E_record y(1) by auto
    qed
    with list.rel_mono_strong [OF y(3)] have "list_all2 told_apart (map snd fs) (map snd gs)" by blast
    with told_apart_record less.prems(1,2) E_record y(1,2) show ?thesis by blast
  next
    case (E_ctor c as)
    then obtain d bs where y: "y = E_ctor d bs" "c = d \<Longrightarrow> list_all2 same_type as bs"
      using less.prems(3) by (auto split: evalue.splits)
    have "told_apart u v" if "u \<in> set as" "v \<in> set bs" "same_type u v" for u v
      using that less.hyps less.prems(1,2) E_ctor y(1) by (simp add: less_Suc_eq_le size_list_estimation')
    with list.rel_mono_strong [OF y(2)] have "c = d \<Longrightarrow> list_all2 told_apart as bs" by blast
    with told_apart_ctor less.prems E_ctor y(1) show ?thesis by blast
  next
    case (E_dict kvs)
    then obtain kvs' where y: "y = E_dict kvs'" using less.prems(3) by (auto split: evalue.splits)
    have "told_apart (fst kv) (fst lw) \<and> told_apart (snd kv) (snd lw)" if m: "kv \<in> set kvs" "lw \<in> set kvs'" for kv lw
    proof -
      have "size (fst kv) < size x" "size (snd kv) < size x"
        using size_list_estimation' [OF m(1), of "size (fst kv)" "size_prod size size"]
          size_list_estimation' [OF m(1), of "size (snd kv)" "size_prod size size"] E_dict by (cases kv; simp)+
      with m less.hyps less.prems E_dict y show ?thesis by simp
    qed
    with told_apart_dict [of kvs kvs'] less.prems(1,2) E_dict y show ?thesis by simp
  next
    case (E_list xs)
    with less show ?thesis
      by (auto intro!: told_apart_sequences simp: less_Suc_eq_le size_list_estimation' split: evalue.splits)
  next
    case (E_array xs)
    with less show ?thesis
      by (auto intro!: told_apart_sequences simp: less_Suc_eq_le size_list_estimation' split: evalue.splits)
  next
    case (E_set xs)
    with less show ?thesis
      by (auto intro!: told_apart_sequences simp: less_Suc_eq_le size_list_estimation' split: evalue.splits)
  qed (use less.prems in simp_all)
qed

text \<open>
  The debugger loses nothing of a model: \<^verbatim>\<open>init\<close> never throws on values of Elm without functions, and two values of one type
  have the same tree exactly when they are the same.
\<close>

theorem Debug_init_faithful:
  assumes "printable x" "printable y" "same_type x y"
  shows "\<exists>d e. Debug_init date internal x = Inr d \<and> Debug_init date internal y = Inr e \<and> (d = e \<longleftrightarrow> x = y)"
proof -
  obtain d e where "tree_of x d" "tree_of y e" using tree_exists assms(1,2) by blast
  with trees_told_apart [OF assms] tree_of_unique show ?thesis unfolding tree_of_def told_apart_def by blast
qed

theorem Debug_init_faithful_witness:
  "\<exists>d e. Debug_init (\<lambda>_. ''now'') (\<lambda>_. Inl TypeError) (E_record [(''name'', E_prim (P_string ''a'')), (''age'', E_prim (P_number 3))]) = Inr d \<and>
    Debug_init (\<lambda>_. ''now'') (\<lambda>_. Inl TypeError) (E_record [(''name'', E_prim (P_string ''a'')), (''age'', E_prim (P_number 4))]) = Inr e \<and>
    (d = e \<longleftrightarrow> E_record [(''name'', E_prim (P_string ''a'')), (''age'', E_prim (P_number 3))] =
       E_record [(''name'', E_prim (P_string ''a'')), (''age'', E_prim (P_number 4))])"
  by (rule Debug_init_faithful) (simp_all add: field_name_def)

text \<open>
  The text of a message names its constructor: messages with different constructors have different texts, whatever
  their arguments are.
\<close>

lemma messageToString_total: "printable x \<Longrightarrow> \<exists>s. messageToString dots x = Inr s"
proof (induction "size x" arbitrary: x rule: less_induct)
  case less
  show ?case
  proof (cases x)
    case (E_record fs)
    then have "map_of fs ''ctor'' = None" using less.prems by (auto simp: map_of_eq_None_iff field_name_def)
    then show ?thesis using E_record by simp
  next
    case (E_ctor c args)
    have "\<exists>s. messageToString dots (last args) = Inr s" if "args \<noteq> []"
      using that less.prems E_ctor last_size [OF that order_refl] by (intro less.hyps) (simp_all add: less_Suc_eq_le)
    then show ?thesis unfolding E_ctor by (cases args; cases "tl args") auto
  qed simp_all
qed

lemma messageToString_ctor:
  assumes "user_ctor c" "printable (E_ctor c args)"
  shows "\<exists>r. messageToString dots (E_ctor c args) = Inr (c @ r) \<and> (r = [] \<or> hd r = CHR '' '')"
proof -
  have c: "take 5 c \<noteq> ''_Tupl'' \<and> take 5 c \<noteq> ''_Task'' \<and> c \<notin> set internal_names \<and> c \<noteq> ''<decoder>''"
    using assms(1) by (auto simp: user_ctor_def name_char_def)
  have "\<exists>s. messageToString dots (last args) = Inr s" if "args \<noteq> []"
    using that assms(2) by (intro messageToString_total) simp
  with c show ?thesis by (cases args; cases "tl args") auto
qed

subsection \<open>The log\<close>

text \<open>
  \<^verbatim>\<open>Debug.log\<close> returns its value; what it writes goes to the console of the browser. The variable \<^verbatim>\<open>process\<close> that
  the code asks for a \<^verbatim>\<open>stdout\<close> is its own, which is undefined when it is read, so that the global one is never used.
\<close>

definition Debug_log ::
  "(int \<Rightarrow> string) \<Rightarrow> ((string \<times> evalue) list \<Rightarrow> string result) \<Rightarrow> string \<Rightarrow> evalue \<Rightarrow> (string \<times> evalue) result" where
  "Debug_log date internal tag v = bindE (toString date internal v) (\<lambda>str. Inr (tag @ '': '' @ str, v))"

lemma Debug_log_value: "printable v \<Longrightarrow> Debug_log date internal tag v = Inr (tag @ '': '' @ print v, v)"
  by (simp add: Debug_log_def toString_print)

end
