(* ===== verification/Elm_Char.thy ===== *)
theory Elm_Char
  imports Elm_String
begin

text \<open>
  \<^verbatim>\<open>Char\<close> and \<^verbatim>\<open>Native.Char\<close> on the code units below 256, and the functions of \<^verbatim>\<open>Tuple\<close>. The tests of \<^verbatim>\<open>Char\<close> are
  those of the digits that \<^verbatim>\<open>String.toInt\<close> reads.
\<close>

definition Char_toCode :: "char \<Rightarrow> int" where
  "Char_toCode c = of_char c"

definition Char_isBetween :: "char \<Rightarrow> char \<Rightarrow> char \<Rightarrow> bool" where
  "Char_isBetween low high c =
     (let code = Char_toCode c in cmp code (Char_toCode low) > -1 \<and> cmp code (Char_toCode high) < 1)"

definition Char_isUpper :: "char \<Rightarrow> bool" where
  "Char_isUpper = Char_isBetween CHR ''A'' CHR ''Z''"

definition Char_isLower :: "char \<Rightarrow> bool" where
  "Char_isLower = Char_isBetween CHR ''a'' CHR ''z''"

definition Char_isDigit :: "char \<Rightarrow> bool" where
  "Char_isDigit = Char_isBetween CHR ''0'' CHR ''9''"

definition Char_isOctDigit :: "char \<Rightarrow> bool" where
  "Char_isOctDigit = Char_isBetween CHR ''0'' CHR ''7''"

definition Char_isHexDigit :: "char \<Rightarrow> bool" where
  "Char_isHexDigit c =
     (Char_isDigit c \<or> Char_isBetween CHR ''a'' CHR ''f'' c \<or> Char_isBetween CHR ''A'' CHR ''F'' c)"

definition Tuple_mapFirst :: "('a \<Rightarrow> 'b) \<Rightarrow> 'a \<times> 'c \<Rightarrow> 'b \<times> 'c" where
  "Tuple_mapFirst func p = (func (fst p), snd p)"

definition Tuple_mapSecond :: "('b \<Rightarrow> 'c) \<Rightarrow> 'a \<times> 'b \<Rightarrow> 'a \<times> 'c" where
  "Tuple_mapSecond func p = (fst p, func (snd p))"

lemma Char_isBetween_iff: "Char_isBetween low high c \<longleftrightarrow> low \<le> c \<and> c \<le> high"
proof -
  have "(of_char a :: int) \<le> of_char b \<longleftrightarrow> a \<le> b" for a b :: char
    using of_nat_of_char [of a, where 'a = int] of_nat_of_char [of b, where 'a = int]
    unfolding less_eq_char_def by linarith
  moreover have "(of_char a :: int) = of_char b \<longleftrightarrow> a = b" for a b :: char
    using of_nat_of_char [of a, where 'a = int] of_nat_of_char [of b, where 'a = int] by simp
  moreover have "(of_char a :: int) < of_char b \<longleftrightarrow> a < b" for a b :: char
    using of_nat_of_char [of a, where 'a = int] of_nat_of_char [of b, where 'a = int]
    unfolding less_char_def by linarith
  ultimately show ?thesis by (auto simp: Char_isBetween_def Char_toCode_def cmp_def)
qed

text \<open>The tests agree with the digits of \<^verbatim>\<open>toInt\<close>, and no character passes two of the first three.\<close>

lemma Char_isDigit_toInt: "Char_isDigit c \<longleftrightarrow> is_digit c"
  by (simp add: Char_isDigit_def Char_isBetween_iff is_digit_def)

lemma Char_isHexDigit_toInt: "Char_isHexDigit c \<longleftrightarrow> is_hex c"
  by (auto simp: Char_isHexDigit_def Char_isDigit_def Char_isBetween_iff is_hex_def is_digit_def)

lemma Char_isOctDigit_digit: "Char_isOctDigit c \<Longrightarrow> Char_isDigit c \<and> Char_isHexDigit c"
  using order_trans [of c "CHR ''7''" "CHR ''9''"]
  by (simp add: Char_isOctDigit_def Char_isDigit_def Char_isHexDigit_def Char_isBetween_iff)

lemma Char_classes_disjoint:
  "\<not> (Char_isUpper c \<and> Char_isLower c)" "\<not> (Char_isDigit c \<and> (Char_isUpper c \<or> Char_isLower c))"
  by (auto simp: Char_isUpper_def Char_isLower_def Char_isDigit_def Char_isBetween_iff dest: order_trans [of _ c])

lemma Tuple_maps_commute: "Tuple_mapFirst f (Tuple_mapSecond g p) = Tuple_mapSecond g (Tuple_mapFirst f p)"
  by (simp add: Tuple_mapFirst_def Tuple_mapSecond_def)

end
