(* ===== verification/Elm_Http.thy ===== *)
theory Elm_Http
  imports Elm_Dict_Correct Elm_Utils
begin

text \<open>
  Requests over HTTP (\<^verbatim>\<open>Native.Http\<close>): the request is set up on an \<^verbatim>\<open>XMLHttpRequest\<close>, and the events of that object
  become the result of the task. The object is the record \<open>xhr\<close> of what the code has told it; what the browser
  answers is the record \<open>answer\<close>, of which the listeners get one. Whether the browser accepts a URL or a header
  is a parameter.
\<close>

subsection \<open>Requests and responses\<close>

datatype http_body = EmptyBody | StringBody string string | FormDataBody "(string \<times> string) list"

record http_response =
  status_code :: int
  status_message :: string
  resp_headers :: "(string, string) dict"
  resp_url :: string
  resp_body :: string

datatype http_error =
    BadUrl string
  | Timeout
  | NetworkError
  | BadStatus http_response
  | BadPayload string http_response

record 'a http_expect =
  responseType :: string
  responseToResult :: "http_response \<Rightarrow> (string, 'a) elm_result"

record 'a http_request =
  req_method :: string
  req_url :: string
  req_headers :: "(string \<times> string) list"
  req_body :: http_body
  req_expect :: "'a http_expect"
  req_timeout :: "int option"
  req_withCredentials :: bool

record answer =
  ans_status :: int
  ans_statusText :: string
  ans_headers :: "string option"
  ans_responseURL :: string
  ans_response :: string
  ans_responseText :: string

text \<open>The headers are the calls of \<^verbatim>\<open>setRequestHeader\<close>, in order; \<open>None\<close> for what has not been assigned.\<close>

record xhr =
  x_progress :: bool
  x_open :: "(string \<times> string) option"
  x_headers :: "(string \<times> string) list"
  x_responseType :: string
  x_withCredentials :: bool
  x_timeout :: "int option"
  x_sent :: "http_body option"
  x_aborted :: bool

definition new_xhr :: xhr where
  "new_xhr = \<lparr>x_progress = False, x_open = None, x_headers = [], x_responseType = [], x_withCredentials = False,
     x_timeout = None, x_sent = None, x_aborted = False\<rparr>"

subsection \<open>Responses\<close>

text \<open>
  \<^verbatim>\<open>parseHeaders\<close>: the lines are read from the last to the first, and the values of one key are put in front of
  those that are there.
\<close>

definition parseHeader :: "string \<Rightarrow> (string, string) dict \<Rightarrow> (string, string) dict result" where
  "parseHeader headerPair headers =
     (let index = js_indexOf '': '' headerPair 0 in
      if index > 0 then
        let key = take (nat index) headerPair; value = drop (nat index + 2) headerPair
        in Dict_update key (\<lambda>oldValue. case oldValue of Some old \<Rightarrow> Some (value @ '', '' @ old) | None \<Rightarrow> Some value) headers
      else Inr headers)"

fun parseHeaders_loop :: "string list \<Rightarrow> (string, string) dict \<Rightarrow> (string, string) dict result" where
  "parseHeaders_loop [] headers = Inr headers"
| "parseHeaders_loop (headerPair # headerPairs) headers =
     bindE (parseHeaders_loop headerPairs headers) (parseHeader headerPair)"

definition crlf :: string where
  "crlf = [CHR 0x0D, CHR 0x0A]"

definition parseHeaders :: "string option \<Rightarrow> (string, string) dict result" where
  "parseHeaders rawHeaders =
     (case rawHeaders of
        None \<Rightarrow> Inr Dict_empty
      | Some raw \<Rightarrow> if raw = [] then Inr Dict_empty else parseHeaders_loop (js_split crlf raw) Dict_empty)"

definition toResponse :: "answer \<Rightarrow> http_response result" where
  "toResponse a =
     bindE (parseHeaders (ans_headers a)) (\<lambda>headers.
       Inr \<lparr>status_code = ans_status a, status_message = ans_statusText a, resp_headers = headers,
            resp_url = ans_responseURL a, resp_body = ans_response a\<rparr>)"

definition handleResponse ::
  "answer \<Rightarrow> (http_response \<Rightarrow> (string, 'a) elm_result) \<Rightarrow> (http_error, 'a) elm_result result" where
  "handleResponse a f =
     bindE (toResponse a) (\<lambda>response.
       if ans_status a < 200 \<or> 300 \<le> ans_status a
       then Inr (Err (BadStatus (response\<lparr>resp_body := ans_responseText a\<rparr>)))
       else
         (case f response of
            Ok v \<Rightarrow> Inr (Ok v)
          | Err e \<Rightarrow> Inr (Err (BadPayload e (response\<lparr>resp_body := ans_responseText a\<rparr>)))))"

definition expectStringResponse :: "(http_response \<Rightarrow> (string, 'a) elm_result) \<Rightarrow> 'a http_expect" where
  "expectStringResponse f = \<lparr>responseType = ''text'', responseToResult = f\<rparr>"

definition mapExpect :: "('a \<Rightarrow> 'b) \<Rightarrow> 'a http_expect \<Rightarrow> 'b http_expect" where
  "mapExpect func e =
     \<lparr>responseType = responseType e, responseToResult = (\<lambda>response. Result_map func (responseToResult e response))\<rparr>"

text \<open>\<^verbatim>\<open>FormData.append\<close> puts a part behind the others.\<close>

definition multipart :: "(string \<times> string) list \<Rightarrow> http_body" where
  "multipart parts = FormDataBody (fold (\<lambda>part formData. formData @ [part]) parts [])"

text \<open>\<^verbatim>\<open>decodeURIComponent\<close> is the function of the engine; it throws on a text that is not well-formed.\<close>

definition decodeUri :: "(string \<Rightarrow> string result) \<Rightarrow> string \<Rightarrow> string option" where
  "decodeUri decodeURIComponent str = (case decodeURIComponent str of Inr s \<Rightarrow> Some s | Inl _ \<Rightarrow> None)"

subsection \<open>Sending\<close>

text \<open>\<^verbatim>\<open>setRequestHeader\<close> throws when the name or the value is not allowed in a header.\<close>

definition setRequestHeader :: "(string \<Rightarrow> string \<Rightarrow> bool) \<Rightarrow> string \<times> string \<Rightarrow> xhr \<Rightarrow> xhr result" where
  "setRequestHeader legal pair x =
     (if legal (fst pair) (snd pair) then Inr (x\<lparr>x_headers := x_headers x @ [pair]\<rparr>)
      else Inl (JsError ''SyntaxError''))"

text \<open>\<^verbatim>\<open>List.map\<close> calls its function on the last element first.\<close>

fun setHeaders :: "(string \<Rightarrow> string \<Rightarrow> bool) \<Rightarrow> (string \<times> string) list \<Rightarrow> xhr \<Rightarrow> xhr result" where
  "setHeaders legal [] x = Inr x"
| "setHeaders legal (pair # pairs) x = bindE (setHeaders legal pairs x) (setRequestHeader legal pair)"

definition configureRequest :: "(string \<Rightarrow> string \<Rightarrow> bool) \<Rightarrow> 'a http_request \<Rightarrow> xhr \<Rightarrow> xhr result" where
  "configureRequest legal request x =
     bindE (setHeaders legal (req_headers request) x) (\<lambda>x'.
       let x'' = x'\<lparr>x_responseType := responseType (req_expect request), x_withCredentials := req_withCredentials request\<rparr>
       in Inr (case req_timeout request of Some t \<Rightarrow> x''\<lparr>x_timeout := Some t\<rparr> | None \<Rightarrow> x''))"

definition Http_send :: "(string \<Rightarrow> string \<Rightarrow> bool) \<Rightarrow> http_body \<Rightarrow> xhr \<Rightarrow> xhr result" where
  "Http_send legal body x =
     (case body of
        EmptyBody \<Rightarrow> Inr (x\<lparr>x_sent := Some body\<rparr>)
      | StringBody mime str \<Rightarrow>
          bindE (setRequestHeader legal (''Content-Type'', mime) x) (\<lambda>x'. Inr (x'\<lparr>x_sent := Some body\<rparr>))
      | FormDataBody formData \<Rightarrow> Inr (x\<lparr>x_sent := Some body\<rparr>))"

definition configureProgress :: "(int \<times> int \<Rightarrow> 't) option \<Rightarrow> xhr \<Rightarrow> xhr" where
  "configureProgress maybeProgress x = (case maybeProgress of None \<Rightarrow> x | Some _ \<Rightarrow> x\<lparr>x_progress := True\<rparr>)"

text \<open>
  \<^verbatim>\<open>toTask\<close>: the binding answers at once when the browser refuses the URL. Otherwise it leaves the request to the
  browser, and its \<^verbatim>\<open>kill\<close> aborts it. An exception other than that of \<^verbatim>\<open>open\<close> is not caught.
\<close>

datatype 'a started = Answered "(http_error, 'a) elm_result" | Waiting xhr

definition toTask ::
  "(string \<Rightarrow> string \<Rightarrow> bool) \<Rightarrow> (string \<Rightarrow> string \<Rightarrow> bool) \<Rightarrow> 'a http_request \<Rightarrow> (int \<times> int \<Rightarrow> 't) option \<Rightarrow>
   'a started result" where
  "toTask opens legal request maybeProgress =
     (let x = configureProgress maybeProgress new_xhr in
      if opens (req_method request) (req_url request) then
        bindE (configureRequest legal request (x\<lparr>x_open := Some (req_method request, req_url request)\<rparr>)) (\<lambda>x'.
        bindE (Http_send legal (req_body request) x') (\<lambda>x''. Inr (Waiting x'')))
      else Inr (Answered (Err (BadUrl (req_url request)))))"

definition Http_abort :: "xhr \<Rightarrow> xhr" where
  "Http_abort x = x\<lparr>x_aborted := True\<rparr>"

text \<open>
  The listeners: what an event makes of the task, and the task that a report of progress spawns.
\<close>

datatype xhr_event = OnError | OnTimeout | OnLoad answer | OnProgress bool int int

definition listener :: "'a http_request \<Rightarrow> xhr_event \<Rightarrow> (http_error, 'a) elm_result option result" where
  "listener request event =
     (case event of
        OnError \<Rightarrow> Inr (Some (Err NetworkError))
      | OnTimeout \<Rightarrow> Inr (Some (Err Timeout))
      | OnLoad a \<Rightarrow> bindE (handleResponse a (responseToResult (req_expect request))) (\<lambda>outcome. Inr (Some outcome))
      | OnProgress _ _ _ \<Rightarrow> Inr None)"

definition progress_listener :: "(int \<times> int \<Rightarrow> 't) option \<Rightarrow> xhr_event \<Rightarrow> 't option" where
  "progress_listener maybeProgress event =
     (case (maybeProgress, event) of
        (Some toTask', OnProgress lengthComputable loaded expected) \<Rightarrow>
          if lengthComputable then Some (toTask' (loaded, expected)) else None
      | _ \<Rightarrow> None)"

subsection \<open>The headers of a response\<close>

text \<open>The name and the value of a line, and the values that lines give to a name.\<close>

definition header_of :: "string \<Rightarrow> (string \<times> string) option" where
  "header_of l =
     (let index = js_indexOf '': '' l 0
      in if index > 0 then Some (take (nat index) l, drop (nat index + 2) l) else None)"

definition values_of :: "string \<Rightarrow> string list \<Rightarrow> string list" where
  "values_of k ls = map snd (filter (\<lambda>h. fst h = k) (List.map_filter header_of ls))"

definition joined :: "string list \<Rightarrow> string option" where
  "joined vs = (if vs = [] then None else Some (js_join '', '' vs))"

lemma joined_Cons: "joined (v # vs) = Some (case joined vs of None \<Rightarrow> v | Some old \<Rightarrow> v @ '', '' @ old)"
  by (cases vs) (simp_all add: joined_def)

lemma values_of_Cons:
  "values_of k (l # ls) =
     (case header_of l of Some (k', v) \<Rightarrow> if k' = k then v # values_of k ls else values_of k ls | None \<Rightarrow> values_of k ls)"
  by (auto simp: values_of_def List.map_filter_def split: option.splits)

lemma parseHeader_total:
  assumes "Dict_wf d"
  shows "\<exists>d'. parseHeader l d = Inr d' \<and> Dict_wf d' \<and>
    (\<forall>k. Dict_get k d' =
       (case header_of l of
          Some (k', v) \<Rightarrow> if k = k' then Some (case Dict_get k d of None \<Rightarrow> v | Some old \<Rightarrow> v @ '', '' @ old) else Dict_get k d
        | None \<Rightarrow> Dict_get k d))"
proof (cases "js_indexOf '': '' l 0 > 0")
  case True
  let ?i = "nat (js_indexOf '': '' l 0)"
  let ?f = "\<lambda>oldValue. case oldValue of Some old \<Rightarrow> Some (drop (?i + 2) l @ '', '' @ old) | None \<Rightarrow> Some (drop (?i + 2) l)"
  obtain d' where d': "Dict_update (take ?i l) ?f d = Inr d'" "Dict_wf d'"
    "\<forall>j. Dict_get j d' = (if j = take ?i l then ?f (Dict_get (take ?i l) d) else Dict_get j d)"
    using Dict_update_total [OF assms, of "take ?i l" ?f] by blast
  from True have h: "header_of l = Some (take ?i l, drop (?i + 2) l)" by (simp add: header_of_def Let_def)
  from True d'(1) have "parseHeader l d = Inr d'" by (simp only: parseHeader_def Let_def if_True)
  with d'(2,3) h show ?thesis by (intro exI [of _ d']) (simp split: option.split)
qed (use assms in \<open>simp add: parseHeader_def header_of_def\<close>)

lemma parseHeaders_loop_total:
  "\<exists>d. parseHeaders_loop ls Dict_empty = Inr d \<and> Dict_wf d \<and> (\<forall>k. Dict_get k d = joined (values_of k ls))"
proof (induction ls)
  case Nil
  show ?case by (simp add: Dict_wf_empty values_of_def List.map_filter_def joined_def) (simp add: Dict_empty_def)
next
  case (Cons l ls)
  then obtain d where d: "parseHeaders_loop ls Dict_empty = Inr d" "Dict_wf d" "\<forall>k. Dict_get k d = joined (values_of k ls)"
    by blast
  obtain d' where d': "parseHeader l d = Inr d'" "Dict_wf d'"
    "\<forall>k. Dict_get k d' =
       (case header_of l of
          Some (k', v) \<Rightarrow> if k = k' then Some (case Dict_get k d of None \<Rightarrow> v | Some old \<Rightarrow> v @ '', '' @ old) else Dict_get k d
        | None \<Rightarrow> Dict_get k d)"
    using parseHeader_total [OF d(2)] by blast
  then have "\<forall>k. Dict_get k d' = joined (values_of k (l # ls))"
    using d(3) by (auto simp: values_of_Cons joined_Cons split: option.splits)
  with d(1) d'(1,2) show ?case by simp
qed

text \<open>The lines that a browser gives for headers with these names and values.\<close>

definition raw_headers :: "(string \<times> string) list \<Rightarrow> string" where
  "raw_headers hs = concat (map (\<lambda>(k, v). k @ '': '' @ v @ crlf) hs)"

definition header_ok :: "string \<times> string \<Rightarrow> bool" where
  "header_ok h \<longleftrightarrow> fst h \<noteq> [] \<and> CHR '':'' \<notin> set (fst h) \<and> CHR 0x0D \<notin> set (fst h @ snd h)"

lemma split_crlf: "CHR 0x0D \<notin> set s \<Longrightarrow> js_split_loop crlf cur (s @ crlf @ t) = (rev cur @ s) # js_split_loop crlf [] t"
  by (induction s arbitrary: cur) (auto simp: crlf_def)

lemma split_raw:
  assumes "\<forall>h \<in> set hs. header_ok h"
  shows "js_split crlf (raw_headers hs) = map (\<lambda>(k, v). k @ '': '' @ v) hs @ [[]]"
  using assms
proof (induction hs)
  case (Cons h hs)
  obtain k v where h: "h = (k, v)" by (cases h)
  have "js_split_loop crlf [] ((k @ '': '' @ v) @ crlf @ raw_headers hs) =
      (k @ '': '' @ v) # js_split_loop crlf [] (raw_headers hs)"
    using Cons.prems h by (subst split_crlf) (auto simp: header_ok_def)
  with Cons h show ?case by (simp add: js_split_def crlf_def raw_headers_def)
qed (simp add: js_split_def raw_headers_def crlf_def)

lemma index_colon: "CHR '':'' \<notin> set k \<Longrightarrow> js_index_from '': '' pos (k @ '': '' @ v) = int (pos + length k)"
proof (induction k arbitrary: pos)
  case (Cons c k)
  then show ?case by (cases k) auto
qed simp

lemma header_of_line: "header_ok (k, v) \<Longrightarrow> header_of (k @ '': '' @ v) = Some (k, v)"
  using index_colon [of k 0 v] by (simp add: header_of_def js_indexOf_def header_ok_def)

lemma header_of_Nil: "header_of [] = None"
  by (simp add: header_of_def js_indexOf_def)

text \<open>
  The headers of a response come back. From the text that a browser gives for a list of headers, \<^verbatim>\<open>parseHeaders\<close> makes
  a well-formed dictionary without throwing; a name that occurs in the list has all its values, in their order
  and separated by commas, and no other name is there. This is claim C30.
\<close>

theorem Http_headers_roundtrip:
  assumes "\<forall>h \<in> set hs. header_ok h"
  shows "\<exists>d. parseHeaders (Some (raw_headers hs)) = Inr d \<and> Dict_wf d \<and>
    (\<forall>k. Dict_get k d = joined (map snd (filter (\<lambda>h. fst h = k) hs)))"
proof -
  have "List.map_filter header_of (map (\<lambda>(k, v). k @ '': '' @ v) hs @ [[]]) = hs"
    using assms by (induction hs) (auto simp: header_of_line [simplified] header_of_Nil List.map_filter_def)
  then have "values_of k (js_split crlf (raw_headers hs)) = map snd (filter (\<lambda>h. fst h = k) hs)" for k
    using split_raw [OF assms] by (simp add: values_of_def)
  moreover have "parseHeaders (Some (raw_headers hs)) = parseHeaders_loop (js_split crlf (raw_headers hs)) Dict_empty"
    by (cases "raw_headers hs = []") (auto simp: parseHeaders_def js_split_def crlf_def parseHeader_def js_indexOf_def)
  ultimately show ?thesis using parseHeaders_loop_total [of "js_split crlf (raw_headers hs)"] by simp
qed

theorem Http_headers_roundtrip_witness:
  "\<exists>d. parseHeaders (Some (raw_headers [(''vary'', ''a''), (''age'', ''1''), (''vary'', ''b'')])) = Inr d \<and> Dict_wf d \<and>
    (\<forall>k. Dict_get k d = joined (map snd (filter (\<lambda>h. fst h = k) [(''vary'', ''a''), (''age'', ''1''), (''vary'', ''b'')])))"
  by (rule Http_headers_roundtrip) (simp add: header_ok_def)

subsection \<open>The result of a request\<close>

lemma toResponse_total:
  "\<exists>r. toResponse a = Inr r \<and> status_code r = ans_status a \<and> resp_body r = ans_response a"
proof -
  have "\<exists>d. parseHeaders h = Inr d" for h
    using parseHeaders_loop_total by (cases h) (auto simp: parseHeaders_def)
  then obtain d where "parseHeaders (ans_headers a) = Inr d" by blast
  then show ?thesis by (simp add: toResponse_def)
qed

text \<open>
  Every answer of the server becomes one result of the task: a status other than 2xx is \<^verbatim>\<open>BadStatus\<close> whatever the body is,
  and otherwise the expectation decides. No answer makes the code throw.
\<close>

theorem Http_outcome:
  "\<exists>response. toResponse a = Inr response \<and>
     listener request (OnLoad a) = Inr (Some
       (if 200 \<le> ans_status a \<and> ans_status a < 300 then
          Result_mapError (\<lambda>e. BadPayload e (response\<lparr>resp_body := ans_responseText a\<rparr>))
            (responseToResult (req_expect request) response)
        else Err (BadStatus (response\<lparr>resp_body := ans_responseText a\<rparr>))))"
  using toResponse_total [of a]
  by (auto simp: listener_def handleResponse_def Result_mapError_def split: elm_result.split)

lemma mapExpect_outcome:
  "handleResponse a (responseToResult (mapExpect f e)) =
     bindE (handleResponse a (responseToResult e)) (\<lambda>r. Inr (Result_map f r))"
  by (auto simp: mapExpect_def handleResponse_def Result_map_def bindE_def split: sum.split elm_result.split)

text \<open>What the browser is told. The headers of the request are set from the last one to the first.\<close>

lemma setHeaders_eq:
  "setHeaders legal pairs x =
     (if \<forall>p \<in> set pairs. legal (fst p) (snd p) then Inr (x\<lparr>x_headers := x_headers x @ rev pairs\<rparr>)
      else Inl (JsError ''SyntaxError''))"
  by (induction pairs) (auto simp: setRequestHeader_def)

lemma Http_toTask_sends:
  assumes "opens (req_method request) (req_url request)" "\<forall>p \<in> set (req_headers request). legal (fst p) (snd p)"
    "\<forall>mime str. req_body request = StringBody mime str \<longrightarrow> legal ''Content-Type'' mime"
  shows "\<exists>x. toTask opens legal request progress = Inr (Waiting x) \<and>
    x_open x = Some (req_method request, req_url request) \<and> x_sent x = Some (req_body request) \<and>
    x_headers x = rev (req_headers request) @
      (case req_body request of StringBody mime _ \<Rightarrow> [(''Content-Type'', mime)] | _ \<Rightarrow> []) \<and>
    x_timeout x = req_timeout request \<and> x_responseType x = responseType (req_expect request) \<and>
    (x_progress x \<longleftrightarrow> progress \<noteq> None) \<and> \<not> x_aborted x"
  using assms
  by (auto simp: toTask_def configureRequest_def setHeaders_eq Http_send_def setRequestHeader_def configureProgress_def
      new_xhr_def Let_def split: option.splits http_body.splits)

text \<open>
  A header that the browser refuses is an exception inside the scheduler and not a result of the task; only a bad URL
  is one.
\<close>

lemma Http_bad_header_throws:
  assumes "opens (req_method request) (req_url request)" "p \<in> set (req_headers request)" "\<not> legal (fst p) (snd p)"
  shows "toTask opens legal request progress = Inl (JsError ''SyntaxError'')"
  using assms by (auto simp: toTask_def configureRequest_def setHeaders_eq Let_def)

lemma multipart_eq: "multipart parts = FormDataBody parts"
proof -
  have "fold (\<lambda>part formData. formData @ [part]) parts acc = acc @ parts" for acc
    by (induction parts arbitrary: acc) simp_all
  then show ?thesis by (simp add: multipart_def)
qed

end
