(* ===== verification/Elm_Dom.thy ===== *)
theory Elm_Dom
  imports Elm_Basics
begin

text \<open>
  Focus, scrolling and sizes of DOM nodes (\<^verbatim>\<open>Native.Dom\<close>). A document finds its elements by their id and knows which
  one has the focus. All lengths are whole pixels. The tasks run in the next frame; each function below is
  what happens in that frame.
\<close>

subsection \<open>Documents\<close>

record rect =
  rect_left :: int
  rect_right :: int
  rect_top :: int
  rect_bottom :: int

record element =
  scrollTop :: int
  scrollLeft :: int
  scrollHeight :: int
  scrollWidth :: int
  clientHeight :: int
  clientWidth :: int
  offsetHeight :: int
  offsetWidth :: int
  boundingRect :: rect

record document =
  elements :: "string \<rightharpoonup> element"
  activeElement :: "string option"

datatype dom_error = NotFound string

datatype dom_size = Content | VisibleContent | VisibleContentWithBorders | VisibleContentWithBordersAndMargins

text \<open>An assignment to \<^verbatim>\<open>scrollTop\<close> or \<^verbatim>\<open>scrollLeft\<close> goes as far as the content allows.\<close>

definition scroll_limit :: "int \<Rightarrow> int \<Rightarrow> int" where
  "scroll_limit content visible = max 0 (content - visible)"

definition put_scrollTop :: "int \<Rightarrow> element \<Rightarrow> element" where
  "put_scrollTop v node = node\<lparr>scrollTop := max 0 (min v (scroll_limit (scrollHeight node) (clientHeight node)))\<rparr>"

definition put_scrollLeft :: "int \<Rightarrow> element \<Rightarrow> element" where
  "put_scrollLeft v node = node\<lparr>scrollLeft := max 0 (min v (scroll_limit (scrollWidth node) (clientWidth node)))\<rparr>"

subsection \<open>The tasks\<close>

definition withNode ::
  "string \<Rightarrow> (element \<Rightarrow> document \<Rightarrow> 'a \<times> document) \<Rightarrow> document \<Rightarrow> (dom_error, 'a) elm_result \<times> document" where
  "withNode i doStuff d =
     (case elements d i of
        None \<Rightarrow> (Err (NotFound i), d)
      | Some node \<Rightarrow> (case doStuff node d of (v, d') \<Rightarrow> (Ok v, d')))"

definition Dom_focus :: "string \<Rightarrow> document \<Rightarrow> (dom_error, unit) elm_result \<times> document" where
  "Dom_focus i = withNode i (\<lambda>node d. ((), d\<lparr>activeElement := Some i\<rparr>))"

definition Dom_blur :: "string \<Rightarrow> document \<Rightarrow> (dom_error, unit) elm_result \<times> document" where
  "Dom_blur i = withNode i (\<lambda>node d. ((), if activeElement d = Some i then d\<lparr>activeElement := None\<rparr> else d))"

definition getScrollTop :: "string \<Rightarrow> document \<Rightarrow> (dom_error, int) elm_result \<times> document" where
  "getScrollTop i = withNode i (\<lambda>node d. (scrollTop node, d))"

definition setScrollTop :: "string \<Rightarrow> int \<Rightarrow> document \<Rightarrow> (dom_error, unit) elm_result \<times> document" where
  "setScrollTop i desiredScrollTop =
     withNode i (\<lambda>node d. ((), d\<lparr>elements := (elements d)(i \<mapsto> put_scrollTop desiredScrollTop node)\<rparr>))"

definition toBottom :: "string \<Rightarrow> document \<Rightarrow> (dom_error, unit) elm_result \<times> document" where
  "toBottom i =
     withNode i (\<lambda>node d. ((), d\<lparr>elements := (elements d)(i \<mapsto> put_scrollTop (scrollHeight node) node)\<rparr>))"

definition getScrollLeft :: "string \<Rightarrow> document \<Rightarrow> (dom_error, int) elm_result \<times> document" where
  "getScrollLeft i = withNode i (\<lambda>node d. (scrollLeft node, d))"

definition setScrollLeft :: "string \<Rightarrow> int \<Rightarrow> document \<Rightarrow> (dom_error, unit) elm_result \<times> document" where
  "setScrollLeft i desiredScrollLeft =
     withNode i (\<lambda>node d. ((), d\<lparr>elements := (elements d)(i \<mapsto> put_scrollLeft desiredScrollLeft node)\<rparr>))"

definition toRight :: "string \<Rightarrow> document \<Rightarrow> (dom_error, unit) elm_result \<times> document" where
  "toRight i =
     withNode i (\<lambda>node d. ((), d\<lparr>elements := (elements d)(i \<mapsto> put_scrollLeft (scrollWidth node) node)\<rparr>))"

definition Dom_width :: "dom_size \<Rightarrow> string \<Rightarrow> document \<Rightarrow> (dom_error, int) elm_result \<times> document" where
  "Dom_width options i =
     withNode i (\<lambda>node d.
       (case options of
          Content \<Rightarrow> scrollWidth node
        | VisibleContent \<Rightarrow> clientWidth node
        | VisibleContentWithBorders \<Rightarrow> offsetWidth node
        | VisibleContentWithBordersAndMargins \<Rightarrow> rect_right (boundingRect node) - rect_left (boundingRect node), d))"

definition Dom_height :: "dom_size \<Rightarrow> string \<Rightarrow> document \<Rightarrow> (dom_error, int) elm_result \<times> document" where
  "Dom_height options i =
     withNode i (\<lambda>node d.
       (case options of
          Content \<Rightarrow> scrollHeight node
        | VisibleContent \<Rightarrow> clientHeight node
        | VisibleContentWithBorders \<Rightarrow> offsetHeight node
        | VisibleContentWithBordersAndMargins \<Rightarrow> rect_bottom (boundingRect node) - rect_top (boundingRect node), d))"

subsection \<open>Properties\<close>

text \<open>A task on a missing element fails with its id and changes nothing, whatever it was going to do.\<close>

lemma Dom_missing: "elements d i = None \<Longrightarrow> withNode i doStuff d = (Err (NotFound i), d)"
  by (simp add: withNode_def)

text \<open>
  Scrolling to the bottom reaches the end of the content: no position that can be set is below it.
\<close>

lemma Dom_toBottom:
  assumes "elements d i = Some node" "0 \<le> clientHeight node"
  shows "\<exists>d'. toBottom i d = (Ok (), d') \<and>
    fst (getScrollTop i d') = Ok (scroll_limit (scrollHeight node) (clientHeight node))"
  using assms by (auto simp: toBottom_def getScrollTop_def withNode_def put_scrollTop_def scroll_limit_def)

lemma Dom_setScrollTop:
  assumes "elements d i = Some node" "0 \<le> v" "v \<le> scrollHeight node - clientHeight node"
  shows "\<exists>d'. setScrollTop i v d = (Ok (), d') \<and> fst (getScrollTop i d') = Ok v \<and>
    (\<forall>j. j \<noteq> i \<longrightarrow> elements d' j = elements d j) \<and> activeElement d' = activeElement d"
  using assms by (auto simp: setScrollTop_def getScrollTop_def withNode_def put_scrollTop_def scroll_limit_def)

lemma Dom_setScrollLeft:
  assumes "elements d i = Some node" "0 \<le> v" "v \<le> scrollWidth node - clientWidth node"
  shows "\<exists>d'. setScrollLeft i v d = (Ok (), d') \<and> fst (getScrollLeft i d') = Ok v \<and>
    (\<forall>j. j \<noteq> i \<longrightarrow> elements d' j = elements d j) \<and> activeElement d' = activeElement d"
  using assms by (auto simp: setScrollLeft_def getScrollLeft_def withNode_def put_scrollLeft_def scroll_limit_def)

lemma Dom_toRight:
  assumes "elements d i = Some node" "0 \<le> clientWidth node"
  shows "\<exists>d'. toRight i d = (Ok (), d') \<and>
    fst (getScrollLeft i d') = Ok (scroll_limit (scrollWidth node) (clientWidth node))"
  using assms by (auto simp: toRight_def getScrollLeft_def withNode_def put_scrollLeft_def scroll_limit_def)

text \<open>Taking the focus away from an element that does not have it leaves it where it is.\<close>

lemma Dom_blur_focus:
  assumes "elements d i = Some node" "elements d j = Some node'"
  shows "snd (Dom_blur i (snd (Dom_focus j d))) =
    (if i = j then d\<lparr>activeElement := None\<rparr> else d\<lparr>activeElement := Some j\<rparr>)"
  using assms by (simp add: Dom_focus_def Dom_blur_def withNode_def)

end
