(* ===== verification/Elm_Json.thy ===== *)
theory Elm_Json
  imports Elm_Utils Complex_Main
begin

text \<open>
  JSON decoders (\<^verbatim>\<open>Native/Json.js\<close>, and \<^verbatim>\<open>Json.Decode\<close> in \<^verbatim>\<open>dist/Main.js\<close>). A decoder is a data
  structure with the tags of the source; \<^verbatim>\<open>runHelp\<close> interprets it on a JavaScript value. Decoded
  values are untyped in the source and form the datatype \<open>dval\<close>, whose constructor \<open>DMsg\<close> holds
  the program's own values. A function stored in a decoder carries the identity that \<^verbatim>\<open>===\<close>
  compares. \<^verbatim>\<open>JSON.parse\<close> and \<^verbatim>\<open>JSON.stringify\<close> are parameters.
\<close>

subsection \<open>Values\<close>

text \<open>
  \<open>JHost\<close> is a built-in function or object of the engine, such as an inherited method.
\<close>

datatype json =
    JUndefined
  | JNull
  | JBool bool
  | JNum rat
  | JStr string
  | JArr "json list"
  | JObj "(string \<times> json) list"
  | JHost

datatype 'u dval =
    DJson json
  | DList "'u dval list"
  | DArray "'u dval rrb"
  | DMaybe "'u dval option"
  | DPairs "(string \<times> 'u dval) list"
  | DMsg 'u

datatype primitive = PBool | PInt | PFloat | PString | PValue

datatype container = CList | CArray | CMaybe

datatype 'u decoder =
    Succeed "'u dval"
  | Fail string
  | Primitive primitive
  | Container container "'u decoder"
  | Null "'u dval"
  | Field string "'u decoder"
  | Index int "'u decoder"
  | KeyValue "'u decoder"
  | MapMany nat "'u dval list \<Rightarrow> 'u dval" "'u decoder list"
  | AndThen nat "'u dval \<Rightarrow> 'u decoder" "'u decoder"
  | OneOf "'u decoder list"

datatype problem =
    BadPrimitive string json
  | BadIndex int problem
  | BadField string problem
  | BadOneOf "problem list"
  | Bad string

text \<open>
  \<^verbatim>\<open>field in value\<close> and \<^verbatim>\<open>value[field]\<close> see the properties an object inherits as well as its own.
  The names are those of \<^verbatim>\<open>Object.prototype\<close>, and for arrays also \<^verbatim>\<open>length\<close>, the indices and
  the names of \<^verbatim>\<open>Array.prototype\<close>.
\<close>

definition object_prototype :: "string list" where
  "object_prototype =
     [''constructor'', ''hasOwnProperty'', ''isPrototypeOf'', ''propertyIsEnumerable'',
      ''toLocaleString'', ''toString'', ''valueOf'', ''__proto__'', ''__defineGetter__'',
      ''__defineSetter__'', ''__lookupGetter__'', ''__lookupSetter__'']"

definition array_prototype :: "string list" where
  "array_prototype =
     [''concat'', ''copyWithin'', ''entries'', ''every'', ''fill'', ''filter'', ''find'',
      ''findIndex'', ''forEach'', ''includes'', ''indexOf'', ''join'', ''keys'', ''lastIndexOf'',
      ''map'', ''pop'', ''push'', ''reduce'', ''reduceRight'', ''reverse'', ''shift'', ''slice'',
      ''some'', ''sort'', ''splice'', ''unshift'', ''values''] @ object_prototype"

fun js_property :: "string \<Rightarrow> json \<Rightarrow> json option" where
  "js_property field (JObj kvs) =
     (case map_of kvs field of
        Some v \<Rightarrow> Some v
      | None \<Rightarrow> if field \<in> set object_prototype then Some JHost else None)"
| "js_property field (JArr xs) =
     (if field = ''length'' then Some (JNum (of_nat (length xs)))
      else if field \<in> set (map show_nat [0..<length xs]) then
        (case NString_toInt field of
           Ok (Some i) \<Rightarrow> Some (xs ! nat i) | _ \<Rightarrow> Some JHost)
      else if field \<in> set array_prototype then Some JHost else None)"
| "js_property field _ = None"

subsection \<open>Running a decoder\<close>

definition js_isInt :: "rat \<Rightarrow> bool" where
  "js_isInt v \<longleftrightarrow>
     (-2147483647 < v \<and> v < 2147483647 \<and>
        rat_of_int (toInt32 (if v < 0 then \<lceil>v\<rceil> else \<lfloor>v\<rfloor>)) = v) \<or>
     v = rat_of_int \<lfloor>v\<rfloor>"

definition runPrimitive :: "primitive \<Rightarrow> json \<Rightarrow> problem + 'u dval" where
  "runPrimitive p value =
     (case p of
        PBool \<Rightarrow> (case value of JBool _ \<Rightarrow> Inr (DJson value) | _ \<Rightarrow> Inl (BadPrimitive ''a Bool'' value))
      | PInt \<Rightarrow>
          (case value of
             JNum v \<Rightarrow> if js_isInt v then Inr (DJson value) else Inl (BadPrimitive ''an Int'' value)
           | _ \<Rightarrow> Inl (BadPrimitive ''an Int'' value))
      | PFloat \<Rightarrow> (case value of JNum _ \<Rightarrow> Inr (DJson value) | _ \<Rightarrow> Inl (BadPrimitive ''a Float'' value))
      | PString \<Rightarrow> (case value of JStr _ \<Rightarrow> Inr (DJson value) | _ \<Rightarrow> Inl (BadPrimitive ''a String'' value))
      | PValue \<Rightarrow> Inr (DJson value))"

text \<open>
  The loop over an array runs from the last element to the first; \<open>i\<close> counts down, and the
  results so far are a list.
\<close>

fun runElements ::
  "(json \<Rightarrow> problem + 'u dval) \<Rightarrow> json list \<Rightarrow> nat \<Rightarrow> 'u dval list \<Rightarrow> problem + 'u dval list" where
  "runElements f value 0 list = Inr list"
| "runElements f value (Suc i) list =
     (case f (value ! i) of
        Inl p \<Rightarrow> Inl (BadIndex (int i) p)
      | Inr x \<Rightarrow> runElements f value i (x # list))"

definition runContainer ::
  "(int \<Rightarrow> nat) \<Rightarrow> container \<Rightarrow> (json \<Rightarrow> problem + 'u dval) \<Rightarrow> json \<Rightarrow> problem + 'u dval" where
  "runContainer floorLog c f value =
     (case c of
        CMaybe \<Rightarrow>
          (case f value of Inr x \<Rightarrow> Inr (DMaybe (Some x)) | Inl _ \<Rightarrow> Inr (DMaybe None))
      | CList \<Rightarrow>
          (case value of
             JArr xs \<Rightarrow> map_sum id DList (runElements f xs (length xs) [])
           | _ \<Rightarrow> Inl (BadPrimitive ''a List'' value))
      | CArray \<Rightarrow>
          (case value of
             JArr xs \<Rightarrow>
               map_sum id (DArray \<circ> NArray_fromJSArray floorLog) (runElements f xs (length xs) [])
           | _ \<Rightarrow> Inl (BadPrimitive ''an Array'' value)))"

definition runField :: "string \<Rightarrow> (json \<Rightarrow> problem + 'u dval) \<Rightarrow> json \<Rightarrow> problem + 'u dval" where
  "runField field f value =
     (case js_property field value of
        None \<Rightarrow> Inl (BadPrimitive (''an object with a field named `'' @ field @ ''`'') value)
      | Some v \<Rightarrow> map_sum (BadField field) id (f v))"

definition runIndex :: "int \<Rightarrow> (json \<Rightarrow> problem + 'u dval) \<Rightarrow> json \<Rightarrow> problem + 'u dval" where
  "runIndex index f value =
     (case value of
        JArr xs \<Rightarrow>
          if index \<ge> int (length xs)
          then Inl (BadPrimitive (''a longer array. Need index '' @ show_int index @
                 '' but there are only '' @ show_nat (length xs) @ '' entries'') value)
          else map_sum (BadIndex index) id
                 (f (case js_nth xs index of Some v \<Rightarrow> v | None \<Rightarrow> JUndefined))
      | _ \<Rightarrow> Inl (BadPrimitive ''an array'' value))"

text \<open>The loop over the properties conses each pair onto the result.\<close>

fun runPairs ::
  "(json \<Rightarrow> problem + 'u dval) \<Rightarrow> (string \<times> json) list \<Rightarrow> (string \<times> 'u dval) list \<Rightarrow>
   problem + (string \<times> 'u dval) list" where
  "runPairs f [] pairs = Inr pairs"
| "runPairs f ((key, v) # kvs) pairs =
     (case f v of
        Inl p \<Rightarrow> Inl (BadField key p)
      | Inr x \<Rightarrow> runPairs f kvs ((key, x) # pairs))"

definition runKeyValue :: "(json \<Rightarrow> problem + 'u dval) \<Rightarrow> json \<Rightarrow> problem + 'u dval" where
  "runKeyValue f value =
     (case value of
        JObj kvs \<Rightarrow> map_sum id DPairs (runPairs f kvs [])
      | _ \<Rightarrow> Inl (BadPrimitive ''an object'' value))"

fun runMany :: "(json \<Rightarrow> problem + 'u dval) list \<Rightarrow> json \<Rightarrow> 'u dval list \<Rightarrow> problem + 'u dval list" where
  "runMany [] value args = Inr args"
| "runMany (f # fs) value args =
     (case f value of Inl p \<Rightarrow> Inl p | Inr x \<Rightarrow> runMany fs value (args @ [x]))"

fun runOneOf :: "(json \<Rightarrow> problem + 'u dval) list \<Rightarrow> json \<Rightarrow> problem list \<Rightarrow> problem + 'u dval" where
  "runOneOf [] value errors = Inl (BadOneOf errors)"
| "runOneOf (f # fs) value errors =
     (case f value of Inr x \<Rightarrow> Inr x | Inl p \<Rightarrow> runOneOf fs value (errors @ [p]))"

primrec runHelp :: "(int \<Rightarrow> nat) \<Rightarrow> 'u decoder \<Rightarrow> json \<Rightarrow> problem + 'u dval" where
  "runHelp floorLog (Succeed msg) = (\<lambda>value. Inr msg)"
| "runHelp floorLog (Fail msg) = (\<lambda>value. Inl (Bad msg))"
| "runHelp floorLog (Primitive p) = runPrimitive p"
| "runHelp floorLog (Container c d) = runContainer floorLog c (runHelp floorLog d)"
| "runHelp floorLog (Null v) =
     (\<lambda>value. if value = JNull then Inr v else Inl (BadPrimitive ''null'' value))"
| "runHelp floorLog (Field field d) = runField field (runHelp floorLog d)"
| "runHelp floorLog (Index index d) = runIndex index (runHelp floorLog d)"
| "runHelp floorLog (KeyValue d) = runKeyValue (runHelp floorLog d)"
| "runHelp floorLog (MapMany _ func ds) =
     (\<lambda>value. map_sum id func (runMany (map (runHelp floorLog) ds) value []))"
| "runHelp floorLog (AndThen _ callback d) =
     (\<lambda>value.
        case runHelp floorLog d value of
          Inl p \<Rightarrow> Inl p
        | Inr x \<Rightarrow> (runHelp floorLog \<circ> callback) x value)"
| "runHelp floorLog (OneOf ds) = (\<lambda>value. runOneOf (map (runHelp floorLog) ds) value [])"

subsection \<open>Error messages\<close>

definition jsToString :: "(json \<Rightarrow> string) \<Rightarrow> json \<Rightarrow> string" where
  "jsToString stringify value = (if value = JUndefined then ''undefined'' else stringify value)"

definition at_context :: "string \<Rightarrow> string" where
  "at_context context = (if context = ''_'' then [] else '' at '' @ context)"

fun badToString_from :: "(json \<Rightarrow> string) \<Rightarrow> string \<Rightarrow> problem \<Rightarrow> string" where
  "badToString_from stringify context (BadPrimitive type value) =
     ''Expecting '' @ type @ at_context context @ '' but instead got: '' @ jsToString stringify value"
| "badToString_from stringify context (BadIndex index rest) =
     badToString_from stringify (context @ ''['' @ show_int index @ '']'') rest"
| "badToString_from stringify context (BadField field rest) =
     badToString_from stringify (context @ ''.'' @ field) rest"
| "badToString_from stringify context (BadOneOf problems) =
     ''I ran into the following problems'' @ at_context context @ '':'' @ newline @ newline @
     js_join newline (map (badToString_from stringify ''_'') problems)"
| "badToString_from stringify context (Bad msg) =
     ''I ran into a `fail` decoder'' @ at_context context @ '': '' @ msg"

definition badToString :: "(json \<Rightarrow> string) \<Rightarrow> problem \<Rightarrow> string" where
  "badToString stringify problem = badToString_from stringify ''_'' problem"

definition Json_run ::
  "(json \<Rightarrow> string) \<Rightarrow> (int \<Rightarrow> nat) \<Rightarrow> 'u decoder \<Rightarrow> json \<Rightarrow> (string, 'u dval) elm_result" where
  "Json_run stringify floorLog decoder value =
     (case runHelp floorLog decoder value of
        Inr x \<Rightarrow> Ok x
      | Inl p \<Rightarrow> Err (badToString stringify p))"

definition Json_runOnString ::
  "(string \<Rightarrow> string + json) \<Rightarrow> (json \<Rightarrow> string) \<Rightarrow> (int \<Rightarrow> nat) \<Rightarrow> 'u decoder \<Rightarrow> string \<Rightarrow>
   (string, 'u dval) elm_result" where
  "Json_runOnString parse stringify floorLog decoder str =
     (case parse str of
        Inl message \<Rightarrow> Err (''Given an invalid JSON: '' @ message)
      | Inr json \<Rightarrow> Json_run stringify floorLog decoder json)"

subsection \<open>Decoder constructors\<close>

text \<open>A curried function is applied to the results one after the other.\<close>

definition Json_map1 :: "nat \<Rightarrow> ('u dval \<Rightarrow> 'u dval) \<Rightarrow> 'u decoder \<Rightarrow> 'u decoder" where
  "Json_map1 fid f d1 = MapMany fid (\<lambda>a. f (a ! 0)) [d1]"

definition Json_map2 ::
  "nat \<Rightarrow> ('u dval \<Rightarrow> 'u dval \<Rightarrow> 'u dval) \<Rightarrow> 'u decoder \<Rightarrow> 'u decoder \<Rightarrow> 'u decoder" where
  "Json_map2 fid f d1 d2 = MapMany fid (\<lambda>a. f (a ! 0) (a ! 1)) [d1, d2]"

definition Json_map3 ::
  "nat \<Rightarrow> ('u dval \<Rightarrow> 'u dval \<Rightarrow> 'u dval \<Rightarrow> 'u dval) \<Rightarrow> 'u decoder \<Rightarrow> 'u decoder \<Rightarrow> 'u decoder \<Rightarrow>
   'u decoder" where
  "Json_map3 fid f d1 d2 d3 = MapMany fid (\<lambda>a. f (a ! 0) (a ! 1) (a ! 2)) [d1, d2, d3]"

definition Json_map4 ::
  "nat \<Rightarrow> ('u dval \<Rightarrow> 'u dval \<Rightarrow> 'u dval \<Rightarrow> 'u dval \<Rightarrow> 'u dval) \<Rightarrow> 'u decoder \<Rightarrow> 'u decoder \<Rightarrow>
   'u decoder \<Rightarrow> 'u decoder \<Rightarrow> 'u decoder" where
  "Json_map4 fid f d1 d2 d3 d4 =
     MapMany fid (\<lambda>a. f (a ! 0) (a ! 1) (a ! 2) (a ! 3)) [d1, d2, d3, d4]"

definition Decode_lazy :: "nat \<Rightarrow> (unit \<Rightarrow> 'u decoder) \<Rightarrow> 'u \<Rightarrow> 'u decoder" where
  "Decode_lazy cid thunk unit = AndThen cid (\<lambda>_. thunk ()) (Succeed (DMsg unit))"

definition Decode_maybe :: "'u decoder \<Rightarrow> 'u decoder" where
  "Decode_maybe decoder = Container CMaybe decoder"

definition Decode_list :: "'u decoder \<Rightarrow> 'u decoder" where
  "Decode_list decoder = Container CList decoder"

definition Decode_array :: "'u decoder \<Rightarrow> 'u decoder" where
  "Decode_array decoder = Container CArray decoder"

definition Decode_at :: "string list \<Rightarrow> 'u decoder \<Rightarrow> 'u decoder" where
  "Decode_at path decoder = List_foldr Field decoder path"

definition Decode_nullable :: "nat \<Rightarrow> 'u decoder \<Rightarrow> 'u decoder" where
  "Decode_nullable just decoder =
     OneOf [Null (DMaybe None), Json_map1 just (\<lambda>x. DMaybe (Some x)) decoder]"

subsection \<open>Equality of decoders\<close>

text \<open>
  \<^verbatim>\<open>listEquality\<close> reads the property \<^verbatim>\<open>length\<close> of its arguments: an array has one, an Elm list
  has none, so that its \<^verbatim>\<open>length\<close> is \<^verbatim>\<open>undefined\<close> and the loop \<^verbatim>\<open>i < undefined\<close> does not run. The
  first two arguments are these lengths. The function \<open>same\<close> is \<^verbatim>\<open>===\<close> on decoded values.
\<close>

definition listEquality ::
  "nat option \<Rightarrow> nat option \<Rightarrow> ('u decoder \<Rightarrow> bool) list \<Rightarrow> 'u decoder list \<Rightarrow> bool" where
  "listEquality lenA lenB eqs bs =
     (if lenA \<noteq> lenB then False
      else case lenA of
        None \<Rightarrow> True
      | Some n \<Rightarrow> list_all (\<lambda>i. (eqs ! i) (bs ! i)) [0..<n])"

primrec Json_equality :: "('u dval \<Rightarrow> 'u dval \<Rightarrow> bool) \<Rightarrow> 'u decoder \<Rightarrow> 'u decoder \<Rightarrow> bool" where
  "Json_equality same (Succeed m) = (\<lambda>b. case b of Succeed m' \<Rightarrow> same m m' | _ \<Rightarrow> False)"
| "Json_equality same (Fail m) = (\<lambda>b. case b of Fail m' \<Rightarrow> m = m' | _ \<Rightarrow> False)"
| "Json_equality same (Primitive p) = (\<lambda>b. case b of Primitive p' \<Rightarrow> p = p' | _ \<Rightarrow> False)"
| "Json_equality same (Null v) = (\<lambda>b. case b of Null v' \<Rightarrow> same v v' | _ \<Rightarrow> False)"
| "Json_equality same (Container c d) =
     (\<lambda>b. case b of Container c' d' \<Rightarrow> c = c' \<and> Json_equality same d d' | _ \<Rightarrow> False)"
| "Json_equality same (KeyValue d) =
     (\<lambda>b. case b of KeyValue d' \<Rightarrow> Json_equality same d d' | _ \<Rightarrow> False)"
| "Json_equality same (Field field d) =
     (\<lambda>b. case b of Field field' d' \<Rightarrow> field = field' \<and> Json_equality same d d' | _ \<Rightarrow> False)"
| "Json_equality same (Index index d) =
     (\<lambda>b. case b of Index index' d' \<Rightarrow> index = index' \<and> Json_equality same d d' | _ \<Rightarrow> False)"
| "Json_equality same (MapMany fid _ ds) =
     (\<lambda>b. case b of
        MapMany fid' _ ds' \<Rightarrow>
          fid = fid' \<and>
          listEquality (Some (length ds)) (Some (length ds')) (map (Json_equality same) ds) ds'
      | _ \<Rightarrow> False)"
| "Json_equality same (AndThen cid _ d) =
     (\<lambda>b. case b of AndThen cid' _ d' \<Rightarrow> cid = cid' \<and> Json_equality same d d' | _ \<Rightarrow> False)"
| "Json_equality same (OneOf ds) =
     (\<lambda>b. case b of
        OneOf ds' \<Rightarrow> listEquality None None (map (Json_equality same) ds) ds' | _ \<Rightarrow> False)"

subsection \<open>Encoding\<close>

text \<open>\<^verbatim>\<open>obj[key] = value\<close>: an existing property is overwritten in place, a new one comes last.\<close>

fun js_assign :: "string \<Rightarrow> json \<Rightarrow> (string \<times> json) list \<Rightarrow> (string \<times> json) list" where
  "js_assign k v [] = [(k, v)]"
| "js_assign k v ((k', v') # kvs) = (if k' = k then (k, v) # kvs else (k', v') # js_assign k v kvs)"

fun encodeObject_loop :: "(string \<times> json) list \<Rightarrow> (string \<times> json) list \<Rightarrow> (string \<times> json) list" where
  "encodeObject_loop obj [] = obj"
| "encodeObject_loop obj ((k, v) # rest) = encodeObject_loop (js_assign k v obj) rest"

definition encodeObject :: "(string \<times> json) list \<Rightarrow> json" where
  "encodeObject keyValuePairs = JObj (encodeObject_loop [] keyValuePairs)"

definition encodeList :: "json list \<Rightarrow> json" where
  "encodeList values = JArr (toArray values)"

subsection \<open>Properties\<close>

lemma runElements_ok:
  "\<forall>i < n. f (vs ! i) = Inr (xs ! i) \<Longrightarrow> n \<le> length vs \<Longrightarrow> n \<le> length xs \<Longrightarrow>
   runElements f vs n acc = Inr (take n xs @ acc)"
  by (induction n arbitrary: acc) (auto simp: take_Suc_conv_app_nth)

lemma runElements_bad:
  "i < n \<Longrightarrow> f (vs ! i) = Inl p \<Longrightarrow> \<forall>j. i < j \<and> j < n \<longrightarrow> \<not> isl (f (vs ! j)) \<Longrightarrow>
   runElements f vs n acc = Inl (BadIndex (int i) p)"
proof (induction n arbitrary: acc)
  case (Suc n)
  show ?case
  proof (cases "i = n")
    case False
    then have "\<not> isl (f (vs ! n))" using Suc.prems by auto
    then obtain x where "f (vs ! n) = Inr x" by (cases "f (vs ! n)") auto
    then show ?thesis using Suc False by simp
  qed (use Suc in simp)
qed simp

text \<open>
  A list decoder succeeds when every element decodes, with the results in the order of the array;
  otherwise it reports the last element that does not decode.
\<close>

theorem Json_list_decoding:
  "(length xs = length vs \<and> (\<forall>i < length vs. runHelp fl d (vs ! i) = Inr (xs ! i)) \<longrightarrow>
      runHelp fl (Decode_list d) (JArr vs) = Inr (DList xs)) \<and>
   (i < length vs \<and> runHelp fl d (vs ! i) = Inl p \<and>
      (\<forall>j. i < j \<and> j < length vs \<longrightarrow> \<not> isl (runHelp fl d (vs ! j))) \<longrightarrow>
      runHelp fl (Decode_list d) (JArr vs) = Inl (BadIndex (int i) p))"
  using runElements_ok [of "length vs" "runHelp fl d" vs xs "[]"]
    runElements_bad [of i "length vs" "runHelp fl d" vs p "[]"]
  by (auto simp: Decode_list_def runContainer_def)

theorem Json_list_decoding_witness:
  "runHelp (\<lambda>_. 0) (Decode_list (Primitive PString)) (JArr [JStr ''a'', JStr ''b'']) =
     Inr (DList [DJson (JStr ''a''), DJson (JStr ''b'') :: unit dval]) \<and>
   runHelp (\<lambda>_. 0) (Decode_list (Primitive PBool) :: unit decoder) (JArr [JNull, JBool True]) =
     Inl (BadIndex (int 0) (BadPrimitive ''a Bool'' JNull))"
  using Json_list_decoding [of "[DJson (JStr ''a''), DJson (JStr ''b'') :: unit dval]"
      "[JStr ''a'', JStr ''b'']" "\<lambda>_. 0" "Primitive PString"]
    Json_list_decoding [of "[]" "[JNull, JBool True]" "\<lambda>_. 0" "Primitive PBool :: unit decoder" 0
      "BadPrimitive ''a Bool'' JNull"]
  by (auto simp: runPrimitive_def nth_Cons' less_Suc_eq)

text \<open>
  \<^verbatim>\<open>at\<close> follows a path of fields. On nested objects that have the fields it gives what the inner
  decoder gives, and an error inside is reported with the whole path, outermost field first: the
  message for a wrong primitive names the path as \<^verbatim>\<open>_.f1.f2\<close>.
\<close>

fun nested :: "string list \<Rightarrow> json \<Rightarrow> json" where
  "nested [] v = v"
| "nested (f # fs) v = JObj [(f, nested fs v)]"

lemma Decode_at_simps [simp]:
  "Decode_at [] d = d" "Decode_at (f # fs) d = Field f (Decode_at fs d)"
  by (simp_all add: Decode_at_def elm_simps)

lemma runHelp_at:
  "runHelp fl (Decode_at fs d) (nested fs v) = map_sum (\<lambda>p. foldr BadField fs p) id (runHelp fl d v)"
  by (induction fs) (simp_all add: runField_def sum.map_comp comp_def sum.map_id0 [unfolded id_def] id_def)

lemma badToString_path:
  "badToString_from st ctx (foldr BadField fs p) =
   badToString_from st (ctx @ concat (map (\<lambda>f. ''.'' @ f) fs)) p"
  by (induction fs arbitrary: ctx) simp_all

text \<open>
  Following a path of fields into nested objects gives the inner decoder's result, and an error
  inside is reported at the path, outermost field first.
\<close>

theorem Json_at_path:
  "Json_run st fl (Decode_at path d) (nested path v) =
     (case runHelp fl d v of
        Inr x \<Rightarrow> Ok x
      | Inl p \<Rightarrow> Err (badToString_from st (''_'' @ concat (map (\<lambda>f. ''.'' @ f) path)) p))"
  by (auto simp: Json_run_def runHelp_at badToString_def badToString_path split: sum.split)

lemma map_of_js_assign: "map_of (js_assign k v kvs) = (map_of kvs)(k \<mapsto> v)"
  by (induction k v kvs rule: js_assign.induct) (auto simp: fun_eq_iff)

lemma map_of_encodeObject_loop:
  "map_of (encodeObject_loop obj kvs) = map_of obj ++ map_of (rev kvs)"
  by (induction obj kvs rule: encodeObject_loop.induct)
     (auto simp: map_of_js_assign fun_eq_iff map_add_def split: option.split)

lemma js_assign_keys: "fst ` set (js_assign k v kvs) = insert k (fst ` set kvs)"
  by (induction k v kvs rule: js_assign.induct) auto

lemma js_assign_distinct: "distinct (map fst kvs) \<Longrightarrow> distinct (map fst (js_assign k v kvs))"
  by (induction k v kvs rule: js_assign.induct) (auto simp: js_assign_keys)

lemma encodeObject_loop_distinct:
  "distinct (map fst obj) \<Longrightarrow> distinct (map fst (encodeObject_loop obj kvs))"
  by (induction obj kvs rule: encodeObject_loop.induct) (auto intro: js_assign_distinct)

text \<open>
  An object encoded from a list of pairs has each key once, and a field decoder applied to it sees
  the value of the key's last occurrence in the list.
\<close>

theorem Json_encodeObject_field:
  assumes "map_of (rev kvs) field = Some v"
  shows "runHelp fl (Field field d) (encodeObject kvs) = map_sum (BadField field) id (runHelp fl d v) \<and>
    (\<exists>obj. encodeObject kvs = JObj obj \<and> distinct (map fst obj))"
  using assms encodeObject_loop_distinct [of "[]" kvs]
  by (simp add: encodeObject_def runField_def map_of_encodeObject_loop)

theorem Json_encodeObject_field_witness:
  "runHelp (\<lambda>_. 0) (Field ''a'' (Primitive PString) :: unit decoder)
     (encodeObject [(''a'', JNull), (''a'', JStr ''x'')]) =
   map_sum (BadField ''a'') id (runHelp (\<lambda>_. 0) (Primitive PString) (JStr ''x'')) \<and>
   (\<exists>obj. encodeObject [(''a'', JNull), (''a'', JStr ''x'')] = JObj obj \<and> distinct (map fst obj))"
  by (rule Json_encodeObject_field) simp

text \<open>
  A field decoder does not require the field to be a property of the object itself: a name that
  objects inherit, such as \<^verbatim>\<open>toString\<close>, is found on the empty object.
\<close>

theorem Json_field_inherited:
  "runHelp fl (Field ''toString'' (Primitive PValue)) (JObj []) = Inr (DJson JHost) \<and>
   runHelp fl (Field ''name'' (Primitive PValue)) (JObj []) =
     Inl (BadPrimitive ''an object with a field named `name`'' (JObj []))"
  by (simp add: runField_def runPrimitive_def object_prototype_def)

lemma runOneOf_first:
  "k < length fs \<Longrightarrow> (\<forall>j < k. isl ((fs ! j) v)) \<Longrightarrow> (fs ! k) v = Inr x \<Longrightarrow> runOneOf fs v errs = Inr x"
proof (induction fs arbitrary: k errs)
  case (Cons f fs)
  show ?case
  proof (cases k)
    case (Suc m)
    then have "isl (f v)" using Cons.prems(2) by (metis nth_Cons_0 zero_less_Suc)
    then obtain p where "f v = Inl p" by (cases "f v") auto
    moreover have "\<forall>j < m. isl ((fs ! j) v)" using Cons.prems(2) Suc by (metis Suc_less_eq nth_Cons_Suc)
    ultimately show ?thesis using Cons.IH [of m] Cons.prems Suc by simp
  qed (use Cons in simp)
qed simp

lemma runOneOf_none:
  "\<forall>f \<in> set fs. isl (f v) \<Longrightarrow> runOneOf fs v errs = Inl (BadOneOf (errs @ map (\<lambda>f. projl (f v)) fs))"
proof (induction fs arbitrary: errs)
  case (Cons f fs)
  then obtain p where "f v = Inl p" by (cases "f v") auto
  with Cons show ?case by simp
qed simp

text \<open>
  \<^verbatim>\<open>oneOf\<close> gives the result of the first decoder that succeeds, and when none does, the problems
  of all of them in order.
\<close>

theorem Json_oneOf_first:
  "(k < length ds \<and> (\<forall>j < k. isl (runHelp fl (ds ! j) v)) \<and> runHelp fl (ds ! k) v = Inr x \<longrightarrow>
      runHelp fl (OneOf ds) v = Inr x) \<and>
   ((\<forall>d \<in> set ds. isl (runHelp fl d v)) \<longrightarrow>
      runHelp fl (OneOf ds) v = Inl (BadOneOf (map (\<lambda>d. projl (runHelp fl d v)) ds)))"
  using runOneOf_first [of k "map (runHelp fl) ds" v x "[]"]
    runOneOf_none [of "map (runHelp fl) ds" v "[]"]
  by (auto simp: comp_def)

theorem Json_oneOf_first_witness:
  "runHelp (\<lambda>_. 0) (OneOf [Primitive PBool, Primitive PString] :: unit decoder) (JStr ''x'') =
     Inr (DJson (JStr ''x'')) \<and>
   runHelp (\<lambda>_. 0) (OneOf [Primitive PBool] :: unit decoder) JNull =
     Inl (BadOneOf [BadPrimitive ''a Bool'' JNull])"
  using Json_oneOf_first [of 1 "[Primitive PBool, Primitive PString] :: unit decoder list" "\<lambda>_. 0"
      "JStr ''x''" "DJson (JStr ''x'')"]
    Json_oneOf_first [of 0 "[Primitive PBool] :: unit decoder list" "\<lambda>_. 0" JNull]
  by (simp add: runPrimitive_def)

text \<open>
  Decoder equality, which the virtual DOM uses to decide whether an event handler has to be
  replaced, takes any two \<^verbatim>\<open>oneOf\<close> decoders for equal: it reads \<^verbatim>\<open>length\<close> of Elm lists. Two such
  decoders can give different results.
\<close>

theorem Json_oneOf_equality:
  "Json_equality same (OneOf ds) (OneOf ds') \<and>
   runHelp fl (OneOf [Succeed (DMsg True)]) JNull \<noteq> runHelp fl (OneOf [Succeed (DMsg False)]) JNull"
  by (simp add: listEquality_def)

end
