(* ===== verification/Elm_JsonTypes.thy ===== *)
theory Elm_JsonTypes
  imports Elm_Json Elm_Array_Correct
begin

text \<open>
  Types for decoders. JavaScript runs a decoder without types: \<^verbatim>\<open>runHelp\<close> returns whatever the
  branches of its \<^verbatim>\<open>switch\<close> put into \<^verbatim>\<open>ok\<close>. Elm's compiler checks \<^verbatim>\<open>Decoder a\<close> and then trusts the
  runtime to produce a value of type \<^verbatim>\<open>a\<close>. The theory states this contract: the types of decoded
  values, the typing rules of the constructors of \<^verbatim>\<open>Json.Decode\<close>, and that \<^verbatim>\<open>runHelp\<close> keeps them.
\<close>

subsection \<open>Types of values\<close>

text \<open>\<open>TUser P\<close> is a type of the program, given by the values it has.\<close>

datatype 'u elm_type =
    TBool
  | TInt
  | TFloat
  | TString
  | TValue
  | TList "'u elm_type"
  | TArray "'u elm_type"
  | TMaybe "'u elm_type"
  | TPairs "'u elm_type"
  | TUser "'u \<Rightarrow> bool"

text \<open>
  An \<^verbatim>\<open>Int\<close> is a number without fraction, and an \<^verbatim>\<open>Array\<close> a tree that satisfies the invariant of
  \<^verbatim>\<open>Native.Array\<close>.
\<close>

fun has_type :: "'u dval \<Rightarrow> 'u elm_type \<Rightarrow> bool" where
  "has_type x TBool = (case x of DJson (JBool _) \<Rightarrow> True | _ \<Rightarrow> False)"
| "has_type x TInt = (case x of DJson (JNum v) \<Rightarrow> v = rat_of_int \<lfloor>v\<rfloor> | _ \<Rightarrow> False)"
| "has_type x TFloat = (case x of DJson (JNum _) \<Rightarrow> True | _ \<Rightarrow> False)"
| "has_type x TString = (case x of DJson (JStr _) \<Rightarrow> True | _ \<Rightarrow> False)"
| "has_type x TValue = (case x of DJson _ \<Rightarrow> True | _ \<Rightarrow> False)"
| "has_type x (TList t) = (case x of DList xs \<Rightarrow> list_all (\<lambda>y. has_type y t) xs | _ \<Rightarrow> False)"
| "has_type x (TArray t) =
     (case x of
        DArray a \<Rightarrow> rrb_wf a \<and> list_all (\<lambda>y. has_type y t) (NArray_toList a)
      | _ \<Rightarrow> False)"
| "has_type x (TMaybe t) = (case x of DMaybe m \<Rightarrow> pred_option (\<lambda>y. has_type y t) m | _ \<Rightarrow> False)"
| "has_type x (TPairs t) =
     (case x of DPairs ps \<Rightarrow> list_all (\<lambda>p. has_type (snd p) t) ps | _ \<Rightarrow> False)"
| "has_type x (TUser P) = (case x of DMsg u \<Rightarrow> P u | _ \<Rightarrow> False)"

primrec primitive_type :: "primitive \<Rightarrow> 'u elm_type" where
  "primitive_type PBool = TBool"
| "primitive_type PInt = TInt"
| "primitive_type PFloat = TFloat"
| "primitive_type PString = TString"
| "primitive_type PValue = TValue"

primrec container_type :: "container \<Rightarrow> 'u elm_type \<Rightarrow> 'u elm_type" where
  "container_type CList t = TList t"
| "container_type CArray t = TArray t"
| "container_type CMaybe t = TMaybe t"

subsection \<open>Typing rules of decoders\<close>

inductive decodes :: "'u decoder \<Rightarrow> 'u elm_type \<Rightarrow> bool" where
  d_succeed: "has_type x t \<Longrightarrow> decodes (Succeed x) t"
| d_fail: "decodes (Fail msg) t"
| d_primitive: "decodes (Primitive p) (primitive_type p)"
| d_container: "decodes d t \<Longrightarrow> decodes (Container c d) (container_type c t)"
| d_null: "has_type x t \<Longrightarrow> decodes (Null x) t"
| d_field: "decodes d t \<Longrightarrow> decodes (Field field d) t"
| d_index: "decodes d t \<Longrightarrow> decodes (Index index d) t"
| d_keyValue: "decodes d t \<Longrightarrow> decodes (KeyValue d) (TPairs t)"
| d_mapMany: "list_all2 decodes ds ts \<Longrightarrow> (\<And>xs. list_all2 has_type xs ts \<Longrightarrow> has_type (func xs) t) \<Longrightarrow>
    decodes (MapMany fid func ds) t"
| d_andThen: "decodes d s \<Longrightarrow> (\<And>x. has_type x s \<Longrightarrow> decodes (callback x) t) \<Longrightarrow>
    decodes (AndThen cid callback d) t"
| d_oneOf: "(\<And>d. d \<in> set ds \<Longrightarrow> decodes d t) \<Longrightarrow> decodes (OneOf ds) t"

declare decodes.intros [intro]

text \<open>The rules of the decoders that \<^verbatim>\<open>Json.Decode\<close> builds from the constructors.\<close>

lemma decodes_map1:
  "decodes d s \<Longrightarrow> (\<And>x. has_type x s \<Longrightarrow> has_type (f x) t) \<Longrightarrow> decodes (Json_map1 fid f d) t"
  unfolding Json_map1_def by (rule d_mapMany [where ts = "[s]"]) (auto simp: list_all2_Cons2)

lemma decodes_map2:
  "decodes d1 s1 \<Longrightarrow> decodes d2 s2 \<Longrightarrow>
   (\<And>x y. has_type x s1 \<Longrightarrow> has_type y s2 \<Longrightarrow> has_type (f x y) t) \<Longrightarrow> decodes (Json_map2 fid f d1 d2) t"
  unfolding Json_map2_def by (rule d_mapMany [where ts = "[s1, s2]"]) (auto simp: list_all2_Cons2)

lemma decodes_list: "decodes d t \<Longrightarrow> decodes (Decode_list d) (TList t)"
  using d_container [of d t CList] by (simp add: Decode_list_def)

lemma decodes_array: "decodes d t \<Longrightarrow> decodes (Decode_array d) (TArray t)"
  using d_container [of d t CArray] by (simp add: Decode_array_def)

lemma decodes_maybe: "decodes d t \<Longrightarrow> decodes (Decode_maybe d) (TMaybe t)"
  using d_container [of d t CMaybe] by (simp add: Decode_maybe_def)

lemma decodes_at: "decodes d t \<Longrightarrow> decodes (Decode_at path d) t"
  by (induction path) auto

lemma decodes_nullable: "decodes d t \<Longrightarrow> decodes (Decode_nullable just d) (TMaybe t)"
  unfolding Decode_nullable_def
  by (rule d_oneOf) (auto intro: decodes_map1 d_null)

lemma decodes_lazy: "decodes (thunk ()) t \<Longrightarrow> decodes (Decode_lazy cid thunk u) t"
  unfolding Decode_lazy_def
  by (rule d_andThen [where s = "TUser (\<lambda>_. True)"]) (auto intro!: d_succeed)

lemmas decodes_api =
  decodes_map1 decodes_map2 decodes_list decodes_array decodes_maybe decodes_at decodes_nullable
  decodes_lazy

subsection \<open>Type soundness\<close>

text \<open>
  The height that \<^verbatim>\<open>fromJSArray\<close> computes with a floating-point logarithm is large enough for the
  elements.
\<close>

definition floorLog_enough :: "(int \<Rightarrow> nat) \<Rightarrow> bool" where
  "floorLog_enough floorLog \<longleftrightarrow> (\<forall>n > 0. n \<le> int NArray_M ^ Suc (floorLog n))"

lemma has_type_fromJSArray:
  assumes "floorLog_enough floorLog" "list_all (\<lambda>y. has_type y t) xs"
  shows "has_type (DArray (NArray_fromJSArray floorLog xs)) (TArray t)"
  using assms fromJSArray_elems [of xs floorLog]
  by (cases "xs = []") (auto simp: floorLog_enough_def)

lemma js_isInt_integer: "js_isInt v \<Longrightarrow> v = rat_of_int \<lfloor>v\<rfloor>"
  unfolding js_isInt_def by (metis floor_of_int)

lemma runPrimitive_typed: "runPrimitive p v = Inr x \<Longrightarrow> has_type x (primitive_type p)"
  by (cases p)
    (auto simp: runPrimitive_def js_isInt_integer [symmetric] split: json.splits if_splits dest: js_isInt_integer)

lemma runElements_typed:
  assumes "\<And>v x. f v = Inr x \<Longrightarrow> P x"
  shows "runElements f vs n acc = Inr xs \<Longrightarrow> list_all P acc \<Longrightarrow> list_all P xs"
  by (induction n arbitrary: acc) (auto split: sum.splits dest: assms)

lemma runPairs_typed:
  assumes "\<And>v x. f v = Inr x \<Longrightarrow> P x"
  shows "runPairs f kvs acc = Inr ps \<Longrightarrow> list_all (\<lambda>p. P (snd p)) acc \<Longrightarrow>
    list_all (\<lambda>p. P (snd p)) ps"
proof (induction kvs arbitrary: acc)
  case (Cons kv kvs)
  then obtain x where "f (snd kv) = Inr x" "runPairs f kvs ((fst kv, x) # acc) = Inr ps"
    by (cases kv) (auto split: sum.splits)
  with Cons.prems(2) show ?case by (auto intro!: Cons.IH [of "(fst kv, x) # acc"] dest: assms)
qed simp

lemma runOneOf_typed:
  assumes "\<And>f x. f \<in> set fs \<Longrightarrow> f v = Inr x \<Longrightarrow> P x"
  shows "runOneOf fs v errors = Inr x \<Longrightarrow> P x"
  using assms
proof (induction fs arbitrary: errors)
  case (Cons f fs)
  show ?case
  proof (cases "f v")
    case (Inl p)
    then have "runOneOf fs v (errors @ [p]) = Inr x" using Cons.prems(1) by simp
    then show ?thesis
    proof (rule Cons.IH)
      fix g y
      assume "g \<in> set fs" "g v = Inr y"
      then show "P y" by (intro Cons.prems(2) [of g]) simp_all
    qed
  next
    case (Inr y)
    then show ?thesis using Cons.prems(1) by (auto intro: Cons.prems(2) [of f])
  qed
qed simp

lemma runMany_typed:
  assumes "list_all2 (\<lambda>f t. \<forall>x. f v = Inr x \<longrightarrow> R x t) fs ts"
  shows "runMany fs v acc = Inr xs \<Longrightarrow> list_all2 R acc us \<Longrightarrow> list_all2 R xs (us @ ts)"
  using assms
proof (induction fs ts arbitrary: acc us rule: list_all2_induct)
  case (Cons f fs t ts)
  from Cons.prems obtain x where x: "f v = Inr x" "runMany fs v (acc @ [x]) = Inr xs"
    by (auto split: sum.splits)
  moreover have "list_all2 R (acc @ [x]) (us @ [t])"
    using Cons.prems(2) Cons.hyps(1) x(1) by (simp add: list_all2_appendI)
  ultimately show ?case using Cons.IH [of "acc @ [x]" "us @ [t]"] by simp
qed simp

lemma runContainer_typed:
  assumes "floorLog_enough floorLog" "\<And>v x. f v = Inr x \<Longrightarrow> has_type x t"
    "runContainer floorLog c f v = Inr x"
  shows "has_type x (container_type c t)"
proof (cases c)
  case CMaybe
  with assms show ?thesis by (auto simp: runContainer_def split: sum.splits)
next
  case CList
  with assms(3) obtain vs xs where "v = JArr vs" "x = DList xs"
    "runElements f vs (length vs) [] = Inr xs"
    by (cases v; cases "case v of JArr vs \<Rightarrow> runElements f vs (length vs) []")
      (auto simp: runContainer_def)
  then show ?thesis using CList runElements_typed [of f "\<lambda>y. has_type y t"] assms(2) by auto
next
  case CArray
  with assms(3) obtain vs xs where "v = JArr vs" "x = DArray (NArray_fromJSArray floorLog xs)"
    "runElements f vs (length vs) [] = Inr xs"
    by (cases v; cases "case v of JArr vs \<Rightarrow> runElements f vs (length vs) []")
      (auto simp: runContainer_def)
  moreover from this have "list_all (\<lambda>y. has_type y t) xs"
    using runElements_typed [of f "\<lambda>y. has_type y t"] assms(2) by auto
  ultimately show ?thesis using CArray has_type_fromJSArray [OF assms(1)] by simp
qed

lemma map_sum_Inr: "map_sum f g s = Inr y \<longleftrightarrow> (\<exists>x. s = Inr x \<and> y = g x)"
  by (cases s) auto

lemma runHelp_typed:
  assumes "floorLog_enough floorLog"
  shows "decodes d t \<Longrightarrow> runHelp floorLog d v = Inr x \<Longrightarrow> has_type x t"
proof (induction arbitrary: v x rule: decodes.induct)
  case (d_primitive p)
  then show ?case by (simp add: runPrimitive_typed)
next
  case (d_container d t c)
  then show ?case using runContainer_typed [OF assms, of "runHelp floorLog d"] by simp
next
  case (d_field d t field)
  then show ?case by (auto simp: runField_def map_sum_Inr split: option.splits)
next
  case (d_index d t index)
  then show ?case by (auto simp: runIndex_def map_sum_Inr split: json.splits if_splits)
next
  case (d_keyValue d t)
  then show ?case using runPairs_typed [of "runHelp floorLog d" "\<lambda>y. has_type y t"]
    by (auto simp: runKeyValue_def map_sum_Inr split: json.splits)
next
  case (d_mapMany ds ts func t fid)
  then obtain xs where xs: "runMany (map (runHelp floorLog) ds) v [] = Inr xs" "x = func xs"
    by (auto simp: map_sum_Inr)
  have "list_all2 (\<lambda>f t. \<forall>x. f v = Inr x \<longrightarrow> has_type x t) (map (runHelp floorLog) ds) ts"
    using d_mapMany.IH(1) by (auto simp: list_all2_map1 elim!: list_all2_mono)
  from runMany_typed [OF this xs(1), of "[]"] d_mapMany.hyps xs(2) show ?case by simp
next
  case (d_andThen d s callback t cid)
  then obtain y where "runHelp floorLog d v = Inr y" "runHelp floorLog (callback y) v = Inr x"
    by (auto split: sum.splits)
  with d_andThen.IH show ?case by blast
next
  case (d_oneOf ds t)
  show ?case
  proof (rule runOneOf_typed [where P = "\<lambda>y. has_type y t"])
    show "runOneOf (map (runHelp floorLog) ds) v [] = Inr x" using d_oneOf.prems by simp
  qed (use d_oneOf.IH in auto)
qed (auto split: if_splits)

text \<open>
  Decoding is type sound. Whatever JSON text or value arrives, a decoder that follows the typing
  rules either reports an error or yields a value of its type: an \<^verbatim>\<open>int\<close> decoder never lets a
  fraction through, an \<^verbatim>\<open>array\<close> decoder builds a tree that satisfies the array invariant, and the
  functions of \<^verbatim>\<open>map\<close> and \<^verbatim>\<open>andThen\<close> are only called on values of the types they expect. This is claim C31.
\<close>

theorem Json_type_soundness:
  assumes "floorLog_enough floorLog" "decodes d t"
  shows "(Json_run stringify floorLog d v = Ok x \<longrightarrow> has_type x t) \<and>
    (Json_runOnString parse stringify floorLog d text = Ok x \<longrightarrow> has_type x t)"
  using runHelp_typed [OF assms]
  by (auto simp: Json_run_def Json_runOnString_def split: sum.splits)

lemma decodes_scores:
  "decodes (Decode_list (Decode_at [''score''] (Primitive PInt))) (TList TInt :: unit elm_type)"
  using d_primitive [of PInt] by (intro decodes_list decodes_at) simp

lemma floorLog_enough_nat: "floorLog_enough nat"
proof -
  have "n \<le> int NArray_M ^ Suc (nat n)" if "0 < n" for n
  proof -
    have "nat n < 2 ^ nat n" by (rule less_exp)
    also have "(2::nat) ^ nat n \<le> NArray_M ^ nat n"
      by (rule power_mono) simp_all
    also have "\<dots> \<le> NArray_M ^ Suc (nat n)" by simp
    finally have "int (nat n) \<le> int (NArray_M ^ Suc (nat n))" by (simp only: of_nat_le_iff)
    with that show ?thesis by simp
  qed
  then show ?thesis by (simp add: floorLog_enough_def)
qed

theorem Json_type_soundness_witness:
  "Json_run (\<lambda>_. []) nat (Decode_list (Decode_at [''score''] (Primitive PInt)))
     (JArr [JObj [(''score'', JNum 3)]]) = Ok (DList [DJson (JNum 3)] :: unit dval) \<and>
   has_type (DList [DJson (JNum 3)] :: unit dval) (TList TInt)"
proof -
  have "js_isInt 3" by (simp add: js_isInt_def)
  then have "Json_run (\<lambda>_. []) nat (Decode_list (Decode_at [''score''] (Primitive PInt)))
      (JArr [JObj [(''score'', JNum 3)]]) = Ok (DList [DJson (JNum 3)] :: unit dval)"
    by (simp add: Json_run_def Decode_list_def runContainer_def runField_def runPrimitive_def)
  with Json_type_soundness [OF floorLog_enough_nat decodes_scores, of "\<lambda>_. []"
      "JArr [JObj [(''score'', JNum 3)]]" "DList [DJson (JNum 3)]"]
  show ?thesis by blast
qed

end
