(* ===== verification/Elm_Socket.thy ===== *)
theory Elm_Socket
  imports Kubecast_Prelude
begin

text \<open>
  The bindings to the browser's web sockets (\<^verbatim>\<open>Native.WebSocket\<close> and \<^verbatim>\<open>WebSocket.LowLevel\<close>). The
  browser is a parameter: \<open>newSocket\<close> is \<^verbatim>\<open>new WebSocket(url)\<close>, which gives a socket or throws an
  exception with a name and a message; \<open>throws\<close> is the exception a method of the socket raises, if
  any. A task that completes at once is a value of a sum type, \<open>Inl\<close> for \<^verbatim>\<open>Scheduler.fail\<close>.
\<close>

datatype ready_state = CONNECTING | OPEN | CLOSING | CLOSED

type_synonym js_exception = "string \<times> string"

datatype bad_open = BadSecurity string | BadArgs string

datatype bad_send = NotOpen | BadString

datatype bad_close = BadReason | BadCode

record close_details =
  close_code :: int
  close_reason :: string
  wasClean :: bool

text \<open>The settings of a socket: the task to spawn for a message and for the end of the connection.\<close>

record 't settings =
  onMessage :: "nat \<Rightarrow> string \<Rightarrow> 't"
  onClose :: "close_details \<Rightarrow> 't"

datatype socket_event =
    SocketOpen
  | SocketMessage string
  | SocketClose close_details

text \<open>What a listener does: resume the process that waits for the socket, or spawn a task.\<close>

datatype 't socket_action =
    Resume nat
  | RawSpawn 't

definition NWebSocket_open ::
  "(string \<Rightarrow> js_exception + nat) \<Rightarrow> string \<Rightarrow> 't settings \<Rightarrow>
   bad_open + nat \<times> (socket_event \<Rightarrow> 't socket_action)" where
  "NWebSocket_open newSocket url settings =
     (case newSocket url of
        Inl (err_name, err_message) \<Rightarrow>
          Inl (if err_name = ''SecurityError'' then BadSecurity err_message else BadArgs err_message)
      | Inr socket \<Rightarrow>
          Inr (socket, \<lambda>event.
            case event of
              SocketOpen \<Rightarrow> Resume socket
            | SocketMessage data \<Rightarrow> RawSpawn (onMessage settings socket data)
            | SocketClose details \<Rightarrow> RawSpawn (onClose settings details)))"

definition NWebSocket_send ::
  "(ready_state \<Rightarrow> string \<Rightarrow> js_exception option) \<Rightarrow> ready_state \<Rightarrow> string \<Rightarrow> bad_send option" where
  "NWebSocket_send throws readyState str =
     (let result = (if readyState = OPEN then None else Some NotOpen) in
      case throws readyState str of
        Some _ \<Rightarrow> Some BadString
      | None \<Rightarrow> result)"

definition NWebSocket_close ::
  "(int \<Rightarrow> string \<Rightarrow> js_exception option) \<Rightarrow> int \<Rightarrow> string \<Rightarrow> bad_close option + bad_close option" where
  "NWebSocket_close throws code reason =
     (case throws code reason of
        Some (err_name, _) \<Rightarrow> Inl (Some (if err_name = ''SyntaxError'' then BadReason else BadCode))
      | None \<Rightarrow> Inr None)"

definition LowLevel_close :: "(int \<Rightarrow> string \<Rightarrow> js_exception option) \<Rightarrow> bad_close option + unit" where
  "LowLevel_close throws =
     (case NWebSocket_close throws 1000 [] of Inl e \<Rightarrow> Inl e | Inr _ \<Rightarrow> Inr ())"

subsection \<open>The browser's rules\<close>

text \<open>
  The exceptions the WebSocket standard prescribes. \<^verbatim>\<open>send\<close> throws while the socket is connecting and
  never afterwards. \<^verbatim>\<open>close\<close> accepts the code 1000 and the codes 3000 to 4999, and a reason of at
  most 123 bytes.
\<close>

definition standard_send :: "ready_state \<Rightarrow> string \<Rightarrow> js_exception option" where
  "standard_send readyState str =
     (if readyState = CONNECTING then Some (''InvalidStateError'', []) else None)"

definition standard_close :: "int \<Rightarrow> string \<Rightarrow> js_exception option" where
  "standard_close code reason =
     (if code \<noteq> 1000 \<and> (code < 3000 \<or> 4999 < code) then Some (''InvalidAccessError'', [])
      else if 123 < length reason then Some (''SyntaxError'', []) else None)"

text \<open>
  Closing a socket with the default code succeeds in every browser that follows the standard. With
  an invalid code the task of \<^verbatim>\<open>closeWith\<close> fails, although its type says that it cannot and its
  documentation that the error is its result; and a message to a socket that is still connecting is
  reported as a malformed string, not as a socket that is not open.
\<close>

theorem Socket_standard_errors:
  "LowLevel_close standard_close = Inr () \<and>
   (NWebSocket_close standard_close c r = Inr None \<longleftrightarrow>
      (c = 1000 \<or> 3000 \<le> c \<and> c \<le> 4999) \<and> length r \<le> 123) \<and>
   NWebSocket_close standard_close c r \<noteq> Inr (Some e) \<and>
   NWebSocket_close standard_close 1001 r = Inl (Some BadCode) \<and>
   NWebSocket_send standard_send rs s =
     (case rs of CONNECTING \<Rightarrow> Some BadString | OPEN \<Rightarrow> None | _ \<Rightarrow> Some NotOpen)"
proof -
  have "LowLevel_close standard_close = Inr ()"
    by (simp add: LowLevel_close_def NWebSocket_close_def standard_close_def)
  moreover have "NWebSocket_close standard_close c r = Inr None \<longleftrightarrow>
      (c = 1000 \<or> 3000 \<le> c \<and> c \<le> 4999) \<and> length r \<le> 123"
    by (simp add: NWebSocket_close_def standard_close_def) linarith
  moreover have "NWebSocket_close standard_close c r \<noteq> Inr (Some e)"
    by (simp add: NWebSocket_close_def split: option.split)
  moreover have "NWebSocket_close standard_close 1001 r = Inl (Some BadCode)"
    by (simp add: NWebSocket_close_def standard_close_def)
  moreover have "NWebSocket_send standard_send rs s =
      (case rs of CONNECTING \<Rightarrow> Some BadString | OPEN \<Rightarrow> None | _ \<Rightarrow> Some NotOpen)"
    by (cases rs) (simp_all add: NWebSocket_send_def standard_send_def)
  ultimately show ?thesis by blast
qed

end
