(* ===== verification/Elm_Scheduler.thy ===== *)
theory Elm_Scheduler
  imports Kubecast_Prelude
begin

text \<open>
  The scheduler of the runtime (\<^verbatim>\<open>Native.Scheduler\<close>): tasks, processes with a stack and a mailbox,
  the work queue, and the timeouts through which it gives the browser control in between. Tasks are
  a codatatype, since an effect manager is a task without end. A task object of the kind
  \<^verbatim>\<open>_Task_nativeBinding\<close> carries a number for its identity, because the runtime stores the function
  that cancels it in the object itself; the bindings are those of the scheduler, and \<open>NExternal\<close>
  for the binding of another module, which is logged when it starts and may call back at once. An
  exception leaves the state as it is at the throw.
\<close>

subsection \<open>Tasks\<close>

datatype 'v val =
    VUnit
  | VProcess nat
  | VUser 'v

datatype ('v, 't) native =
    NSpawn 't
  | NSend nat "'v val"
  | NKill nat
  | NSleep nat
  | NExternal nat "'t option"

codatatype 'v stask =
    T_succeed "'v val"
  | T_fail "'v val"
  | T_nativeBinding nat "('v, 'v stask) native"
  | T_andThen "'v val \<Rightarrow> 'v stask" "'v stask"
  | T_onError "'v val \<Rightarrow> 'v stask" "'v stask"
  | T_receive "'v val \<Rightarrow> 'v stask"

datatype 'v frame =
    F_andThen "'v val \<Rightarrow> 'v stask"
  | F_onError "'v val \<Rightarrow> 'v stask"

subsection \<open>Processes\<close>

record 'v process =
  proc_root :: "'v stask option"
  stack :: "'v frame list"
  mailbox :: "'v val list"

datatype timeout =
    WorkTimeout
  | SleepTimeout nat

text \<open>
  \<open>timeouts\<close> are the pending calls of \<^verbatim>\<open>setTimeout\<close> with their numbers, \<open>cancels\<close> the timeout that the
  \<^verbatim>\<open>cancel\<close> function of a task object clears, and \<open>started\<close> the external bindings that have run.
\<close>

record 'v sched =
  processes :: "nat \<Rightarrow> 'v process option"
  guid :: nat
  workQueue :: "nat list"
  working :: bool
  timeouts :: "(nat \<times> timeout) list"
  next_timeout :: nat
  cancels :: "nat \<Rightarrow> nat option"
  started :: "nat list"

definition MAX_STEPS :: nat where
  "MAX_STEPS = 10000"

definition setTimeout :: "timeout \<Rightarrow> 'v sched \<Rightarrow> nat \<times> 'v sched" where
  "setTimeout t s =
     (next_timeout s,
      s\<lparr>timeouts := timeouts s @ [(next_timeout s, t)], next_timeout := Suc (next_timeout s)\<rparr>)"

definition clearTimeout :: "nat \<Rightarrow> 'v sched \<Rightarrow> 'v sched" where
  "clearTimeout i s = s\<lparr>timeouts := filter (\<lambda>(j, _). j \<noteq> i) (timeouts s)\<rparr>"

definition enqueue :: "nat \<Rightarrow> 'v sched \<Rightarrow> 'v sched" where
  "enqueue pid s =
     (let s' = s\<lparr>workQueue := workQueue s @ [pid]\<rparr> in
      if \<not> working s' then (snd (setTimeout WorkTimeout s'))\<lparr>working := True\<rparr> else s')"

definition rawSpawn :: "'v stask \<Rightarrow> 'v sched \<Rightarrow> nat \<times> 'v sched" where
  "rawSpawn task s =
     (guid s,
      enqueue (guid s)
        (s\<lparr>processes := (processes s)(guid s \<mapsto> \<lparr>proc_root = Some task, stack = [], mailbox = []\<rparr>),
           guid := Suc (guid s)\<rparr>))"

definition update_process :: "nat \<Rightarrow> ('v process \<Rightarrow> 'v process) \<Rightarrow> 'v sched \<Rightarrow> 'v sched" where
  "update_process pid f s = s\<lparr>processes := (processes s)(pid := map_option f (processes s pid))\<rparr>"

definition rawSend :: "nat \<Rightarrow> 'v val \<Rightarrow> 'v sched \<Rightarrow> 'v sched" where
  "rawSend pid msg s = enqueue pid (update_process pid (\<lambda>p. p\<lparr>mailbox := mailbox p @ [msg]\<rparr>) s)"

text \<open>The function a binding calls back with its result.\<close>

definition resume :: "nat \<Rightarrow> 'v stask \<Rightarrow> 'v sched \<Rightarrow> 'v sched" where
  "resume pid newRoot s = enqueue pid (update_process pid (\<lambda>p. p\<lparr>proc_root := Some newRoot\<rparr>) s)"

text \<open>
  Killing a process: reading \<^verbatim>\<open>root.ctor\<close> throws when the process has been killed before.
\<close>

definition kill_process :: "nat \<Rightarrow> 'v sched \<Rightarrow> js_error option \<times> 'v sched" where
  "kill_process victim s =
     (case processes s victim of
        None \<Rightarrow> (Some TypeError, s)
      | Some p \<Rightarrow>
          (case proc_root p of
             None \<Rightarrow> (Some TypeError, s)
           | Some r \<Rightarrow>
               let s' = (case r of
                           T_nativeBinding oid _ \<Rightarrow>
                             (case cancels s oid of Some i \<Rightarrow> clearTimeout i s | None \<Rightarrow> s)
                         | _ \<Rightarrow> s)
               in (None, update_process victim (\<lambda>p. p\<lparr>proc_root := None\<rparr>) s')))"

text \<open>The function of a binding: an exception, or the timeout its result clears.\<close>

definition run_native ::
  "nat \<Rightarrow> ('v, 'v stask) native \<Rightarrow> 'v sched \<Rightarrow> (js_error + nat option) \<times> 'v sched" where
  "run_native pid binding s =
     (case binding of
        NSpawn task \<Rightarrow>
          (case rawSpawn task s of (child, s') \<Rightarrow>
             (Inr None, resume pid (T_succeed (VProcess child)) s'))
      | NSend receiver msg \<Rightarrow> (Inr None, resume pid (T_succeed VUnit) (rawSend receiver msg s))
      | NKill victim \<Rightarrow>
          (case kill_process victim s of
             (Some e, s') \<Rightarrow> (Inl e, s')
           | (None, s') \<Rightarrow> (Inr None, resume pid (T_succeed VUnit) s'))
      | NSleep time \<Rightarrow>
          (case setTimeout (SleepTimeout pid) s of (i, s') \<Rightarrow> (Inr (Some i), s'))
      | NExternal k result \<Rightarrow>
          (let s' = s\<lparr>started := started s @ [k]\<rparr> in
           (Inr None, case result of None \<Rightarrow> s' | Some newRoot \<Rightarrow> resume pid newRoot s')))"

subsection \<open>Stepping a process\<close>

fun is_F_onError :: "'v frame \<Rightarrow> bool" where
  "is_F_onError (F_onError _) = True"
| "is_F_onError (F_andThen _) = False"

fun frame_callback :: "'v frame \<Rightarrow> 'v val \<Rightarrow> 'v stask" where
  "frame_callback (F_onError callback) = callback"
| "frame_callback (F_andThen callback) = callback"

text \<open>One round of the loop of \<^verbatim>\<open>step\<close> that does not leave it, as a step of the process.\<close>

definition continue_step :: "'v process \<Rightarrow> 'v process option" where
  "continue_step p =
     (case proc_root p of
        Some (T_succeed v) \<Rightarrow>
          (case dropWhile is_F_onError (stack p) of
             [] \<Rightarrow> None
           | f # rest \<Rightarrow> Some (p\<lparr>proc_root := Some (frame_callback f v), stack := rest\<rparr>))
      | Some (T_fail e) \<Rightarrow>
          (case dropWhile (Not \<circ> is_F_onError) (stack p) of
             [] \<Rightarrow> None
           | f # rest \<Rightarrow> Some (p\<lparr>proc_root := Some (frame_callback f e), stack := rest\<rparr>))
      | Some (T_andThen callback task) \<Rightarrow>
          Some (p\<lparr>proc_root := Some task, stack := F_andThen callback # stack p\<rparr>)
      | Some (T_onError callback task) \<Rightarrow>
          Some (p\<lparr>proc_root := Some task, stack := F_onError callback # stack p\<rparr>)
      | Some (T_receive callback) \<Rightarrow>
          (case mailbox p of
             [] \<Rightarrow> None
           | m # ms \<Rightarrow> Some (p\<lparr>proc_root := Some (callback m), mailbox := ms\<rparr>))
      | _ \<Rightarrow> None)"

text \<open>
  The rounds that leave the loop: the process has ended, waits for a message, or calls a binding.
\<close>

definition break_step :: "nat \<Rightarrow> 'v process \<Rightarrow> 'v sched \<Rightarrow> js_error option \<times> 'v sched" where
  "break_step pid p s =
     (case proc_root p of
        None \<Rightarrow> (Some TypeError, s)
      | Some (T_succeed _) \<Rightarrow> (None, update_process pid (\<lambda>p. p\<lparr>stack := []\<rparr>) s)
      | Some (T_fail _) \<Rightarrow> (None, update_process pid (\<lambda>p. p\<lparr>stack := []\<rparr>) s)
      | Some (T_nativeBinding oid binding) \<Rightarrow>
          (case run_native pid binding s of
             (Inl e, s') \<Rightarrow> (Some e, s')
           | (Inr c, s') \<Rightarrow> (None, s'\<lparr>cancels := (cancels s')(oid := c)\<rparr>))
      | Some _ \<Rightarrow> (None, s))"

function step :: "nat \<Rightarrow> nat \<Rightarrow> 'v sched \<Rightarrow> (js_error + nat) \<times> 'v sched" where
  "step numSteps pid s =
     (if numSteps < MAX_STEPS then
        (case processes s pid of
           None \<Rightarrow> (Inl TypeError, s)
         | Some p \<Rightarrow>
             (case continue_step p of
                Some p' \<Rightarrow> step (Suc numSteps) pid (update_process pid (\<lambda>_. p') s)
              | None \<Rightarrow>
                  (case break_step pid p s of
                     (Some e, s') \<Rightarrow> (Inl e, s')
                   | (None, s') \<Rightarrow> (Inr (numSteps + 1), s'))))
      else (Inr numSteps, enqueue pid s))"
  by pat_completeness auto
termination by (relation "measure (\<lambda>(numSteps, pid, s). MAX_STEPS - numSteps)") auto

declare step.simps [simp del]

lemma step_increases: "step n pid s = (Inr n', s') \<Longrightarrow> n < MAX_STEPS \<Longrightarrow> n < n'"
proof (induction n pid s rule: step.induct)
  case (1 n pid s)
  show ?case
  proof (cases "Suc n < MAX_STEPS")
    case True
    with 1 show ?thesis
      by (subst (asm) (2) step.simps)
         (auto split: option.splits prod.splits if_splits dest!: Suc_lessD)
  next
    case False
    with 1 show ?thesis
      by (subst (asm) (2) step.simps)
         (auto split: option.splits prod.splits if_splits simp: step.simps [of "Suc n"])
  qed
qed

subsection \<open>The work queue\<close>

text \<open>
  The loop of \<^verbatim>\<open>work\<close>; it returns whether it stopped because the queue was empty.
\<close>

function work_loop :: "nat \<Rightarrow> 'v sched \<Rightarrow> (js_error + bool) \<times> 'v sched" where
  "work_loop numSteps s =
     (if numSteps < MAX_STEPS then
        (case workQueue s of
           [] \<Rightarrow> (Inr True, s)
         | pid # rest \<Rightarrow>
             let s' = s\<lparr>workQueue := rest\<rparr> in
             if processes s' pid \<noteq> None \<and> proc_root (the (processes s' pid)) \<noteq> None then
               (case step numSteps pid s' of
                  (Inl e, s'') \<Rightarrow> (Inl e, s'')
                | (Inr n, s'') \<Rightarrow> work_loop n s'')
             else work_loop numSteps s')
      else (Inr False, s))"
  by pat_completeness auto
termination
proof (relation "measures [\<lambda>(n, s). MAX_STEPS - n, \<lambda>(n, s). length (workQueue s)]", goal_cases)
  case (2 n s pid rest s' res s'' m)
  then have "n < m" using step_increases [of n pid s' m s''] by simp
  with 2(1) have "MAX_STEPS - m < MAX_STEPS - n" by linarith
  then show ?case by simp
qed auto

declare work_loop.simps [simp del]

definition work :: "'v sched \<Rightarrow> js_error option \<times> 'v sched" where
  "work s =
     (case work_loop 0 s of
        (Inl e, s') \<Rightarrow> (Some e, s')
      | (Inr True, s') \<Rightarrow> (None, s'\<lparr>working := False\<rparr>)
      | (Inr False, s') \<Rightarrow> (None, snd (setTimeout WorkTimeout s')))"

subsection \<open>Evaluation of tasks\<close>

text \<open>
  What a task means that neither waits nor calls a binding: the number of steps it takes and its
  result, \<open>Inl\<close> for a failure. \<^verbatim>\<open>andThen\<close> and \<^verbatim>\<open>onError\<close> are the two binds of an error monad.
\<close>

inductive evals :: "'v stask \<Rightarrow> nat \<Rightarrow> 'v val + 'v val \<Rightarrow> bool" where
  ev_succeed: "evals (T_succeed v) 0 (Inr v)"
| ev_fail: "evals (T_fail e) 0 (Inl e)"
| ev_andThen: "evals t k (Inr v) \<Longrightarrow> evals (callback v) j r \<Longrightarrow> evals (T_andThen callback t) (k + j + 2) r"
| ev_andThen_fail: "evals t k (Inl e) \<Longrightarrow> evals (T_andThen callback t) (k + 1) (Inl e)"
| ev_onError: "evals t k (Inl e) \<Longrightarrow> evals (callback e) j r \<Longrightarrow> evals (T_onError callback t) (k + j + 2) r"
| ev_onError_ok: "evals t k (Inr v) \<Longrightarrow> evals (T_onError callback t) (k + 1) (Inr v)"

inductive_cases evals_cases:
  "evals (T_succeed v) k r" "evals (T_fail e) k r" "evals (T_andThen f t) k r" "evals (T_onError f t) k r"

inductive_simps evals_native: "evals (T_nativeBinding oid b) k r"
inductive_simps evals_receive: "evals (T_receive f) k r"

text \<open>What becomes of a result on a stack, and of a process.\<close>

inductive unwinds :: "'v val + 'v val \<Rightarrow> 'v frame list \<Rightarrow> nat \<Rightarrow> 'v val + 'v val \<Rightarrow> bool" where
  un_Nil: "unwinds r [] 0 r"
| un_andThen: "evals (callback v) k r1 \<Longrightarrow> unwinds r1 stk j r \<Longrightarrow>
    unwinds (Inr v) (F_andThen callback # stk) (Suc (k + j)) r"
| un_andThen_fail: "unwinds (Inl e) stk j r \<Longrightarrow> unwinds (Inl e) (F_andThen callback # stk) j r"
| un_onError: "evals (callback e) k r1 \<Longrightarrow> unwinds r1 stk j r \<Longrightarrow>
    unwinds (Inl e) (F_onError callback # stk) (Suc (k + j)) r"
| un_onError_ok: "unwinds (Inr v) stk j r \<Longrightarrow> unwinds (Inr v) (F_onError callback # stk) j r"

definition process_evals :: "'v process \<Rightarrow> nat \<Rightarrow> 'v val + 'v val \<Rightarrow> bool" where
  "process_evals p k r \<longleftrightarrow>
     (\<exists>t k1 r1 k2. proc_root p = Some t \<and> evals t k1 r1 \<and> unwinds r1 (stack p) k2 r \<and> k = k1 + k2)"

definition task_of :: "'v val + 'v val \<Rightarrow> 'v stask" where
  "task_of r = (case r of Inl e \<Rightarrow> T_fail e | Inr v \<Rightarrow> T_succeed v)"

lemma unwinds_ok:
  fixes v :: "'v val"
  assumes "unwinds (Inr v) stk j r"
  shows "dropWhile is_F_onError stk = [] \<and> j = 0 \<and> r = Inr v \<or>
    (\<exists>f rest k j' r1. dropWhile is_F_onError stk = F_andThen f # rest \<and> evals (f v) k r1 \<and>
       unwinds r1 rest j' r \<and> j = Suc (k + j'))"
  using assms by (induction "Inr v :: 'v val + 'v val" stk j r arbitrary: v rule: unwinds.induct) auto

lemma unwinds_fail:
  fixes e :: "'v val"
  assumes "unwinds (Inl e) stk j r"
  shows "dropWhile (Not \<circ> is_F_onError) stk = [] \<and> j = 0 \<and> r = Inl e \<or>
    (\<exists>f rest k j' r1. dropWhile (Not \<circ> is_F_onError) stk = F_onError f # rest \<and> evals (f e) k r1 \<and>
       unwinds r1 rest j' r \<and> j = Suc (k + j'))"
  using assms by (induction "Inl e :: 'v val + 'v val" stk j r arbitrary: e rule: unwinds.induct) auto

lemma process_evalsI:
  "proc_root p = Some t \<Longrightarrow> evals t k1 r1 \<Longrightarrow> unwinds r1 (stack p) k2 r \<Longrightarrow> process_evals p (k1 + k2) r"
  by (auto simp: process_evals_def)

text \<open>A process that has not ended takes a step, and one step less remains.\<close>

lemma process_progress:
  assumes "process_evals p k r"
  shows "k = 0 \<and> continue_step p = None \<and> proc_root p = Some (task_of r) \<or>
    (\<exists>p' k'. k = Suc k' \<and> continue_step p = Some p' \<and> process_evals p' k' r \<and> mailbox p' = mailbox p)"
proof -
  obtain t k1 r1 k2 where p: "proc_root p = Some t" "evals t k1 r1" "unwinds r1 (stack p) k2 r" "k = k1 + k2"
    using assms by (auto simp: process_evals_def)
  show ?thesis
    using p(2)
  proof cases
    case (ev_succeed v)
    from unwinds_ok [OF p(3) [unfolded ev_succeed(3)]] show ?thesis
    proof (elim disjE exE conjE)
      fix f rest k j' r2
      assume f: "dropWhile is_F_onError (stack p) = F_andThen f # rest" "evals (f v) k r2" "unwinds r2 rest j' r"
        "k2 = Suc (k + j')"
      let ?p = "p\<lparr>proc_root := Some (f v), stack := rest\<rparr>"
      have "process_evals ?p (k + j') r" using f by (intro process_evalsI) auto
      then show ?thesis using f p ev_succeed by (simp add: continue_step_def)
    qed (use p ev_succeed in \<open>simp add: continue_step_def task_of_def del: dropWhile_eq_Nil_conv\<close>)
  next
    case (ev_fail e)
    from unwinds_fail [OF p(3) [unfolded ev_fail(3)]] show ?thesis
    proof (elim disjE exE conjE)
      fix f rest k j' r2
      assume f: "dropWhile (Not \<circ> is_F_onError) (stack p) = F_onError f # rest" "evals (f e) k r2" "unwinds r2 rest j' r"
        "k2 = Suc (k + j')"
      let ?p = "p\<lparr>proc_root := Some (f e), stack := rest\<rparr>"
      have "process_evals ?p (k + j') r" using f by (intro process_evalsI) auto
      then show ?thesis using f p ev_fail by (simp add: continue_step_def)
    qed (use p ev_fail in \<open>simp add: continue_step_def task_of_def del: dropWhile_eq_Nil_conv\<close>)
  next
    case (ev_andThen t' k' v callback j)
    then have "unwinds (Inr v) (F_andThen callback # stack p) (Suc (j + k2)) r"
      using p(3) by (intro unwinds.un_andThen) auto
    then have "process_evals (p\<lparr>proc_root := Some t', stack := F_andThen callback # stack p\<rparr>) (k' + Suc (j + k2)) r"
      using ev_andThen by (intro process_evalsI) auto
    with ev_andThen p(1,4) show ?thesis by (simp add: continue_step_def add.assoc)
  next
    case (ev_andThen_fail t' k' e callback)
    then have "unwinds (Inl e) (F_andThen callback # stack p) k2 r"
      using p(3) by (auto intro: unwinds.un_andThen_fail)
    then have "process_evals (p\<lparr>proc_root := Some t', stack := F_andThen callback # stack p\<rparr>) (k' + k2) r"
      using ev_andThen_fail by (intro process_evalsI) auto
    with ev_andThen_fail p(1,4) show ?thesis by (simp add: continue_step_def)
  next
    case (ev_onError t' k' e callback j)
    then have "unwinds (Inl e) (F_onError callback # stack p) (Suc (j + k2)) r"
      using p(3) by (intro unwinds.un_onError) auto
    then have "process_evals (p\<lparr>proc_root := Some t', stack := F_onError callback # stack p\<rparr>) (k' + Suc (j + k2)) r"
      using ev_onError by (intro process_evalsI) auto
    with ev_onError p(1,4) show ?thesis by (simp add: continue_step_def add.assoc)
  next
    case (ev_onError_ok t' k' v callback)
    then have "unwinds (Inr v) (F_onError callback # stack p) k2 r"
      using p(3) by (auto intro: unwinds.un_onError_ok)
    then have "process_evals (p\<lparr>proc_root := Some t', stack := F_onError callback # stack p\<rparr>) (k' + k2) r"
      using ev_onError_ok by (intro process_evalsI) auto
    with ev_onError_ok p(1,4) show ?thesis by (simp add: continue_step_def)
  qed
qed

lemma update_process_some [simp]:
  "processes (update_process pid (\<lambda>_. p') s) pid = map_option (\<lambda>_. p') (processes s pid)"
  by (simp add: update_process_def)

abbreviation (input) with_process :: "nat \<Rightarrow> 'v process \<Rightarrow> 'v sched \<Rightarrow> 'v sched" where
  "with_process pid p s \<equiv> s\<lparr>processes := (processes s)(pid \<mapsto> p)\<rparr>"

lemma step_continue:
  "n < MAX_STEPS \<Longrightarrow> processes s pid = Some p \<Longrightarrow> continue_step p = Some p' \<Longrightarrow>
   step n pid s = step (Suc n) pid (with_process pid p' s)"
  by (subst step.simps) (simp add: update_process_def)

lemma step_slice:
  assumes "processes s pid = Some p" "process_evals p k r" "n \<le> MAX_STEPS"
  shows "(n + k < MAX_STEPS \<longrightarrow>
      step n pid s = (Inr (n + k + 1), with_process pid (p\<lparr>proc_root := Some (task_of r), stack := []\<rparr>) s)) \<and>
    (MAX_STEPS \<le> n + k \<longrightarrow>
      (\<exists>p'. step n pid s = (Inr MAX_STEPS, enqueue pid (with_process pid p' s)) \<and>
            process_evals p' (k - (MAX_STEPS - n)) r \<and> mailbox p' = mailbox p))"
  using assms
proof (induction "MAX_STEPS - n" arbitrary: n s p k)
  case 0
  then have n: "n = MAX_STEPS" by simp
  have "with_process pid p s = s" using 0(2) by (simp add: map_upd_triv)
  then have "step n pid s = (Inr MAX_STEPS, enqueue pid (with_process pid p s))"
    by (simp add: n step.simps)
  then show ?case using 0(3) n by (intro conjI impI exI [of _ p]) (simp_all del: fun_upd_apply)
next
  case (Suc d)
  then have n: "n < MAX_STEPS" by linarith
  from process_progress [OF Suc.prems(2)] show ?case
  proof (elim disjE exE conjE)
    assume k: "k = 0" and stop: "continue_step p = None" and proc_root: "proc_root p = Some (task_of r)"
    have "break_step pid p s = (None, with_process pid (p\<lparr>proc_root := Some (task_of r), stack := []\<rparr>) s)"
      using proc_root Suc.prems(1) by (cases r; cases p) (simp_all add: break_step_def task_of_def update_process_def)
    with n k stop Suc.prems(1) show ?thesis by (subst (1 2) step.simps) simp
  next
    fix p' k'
    assume k: "k = Suc k'" and p': "continue_step p = Some p'" "process_evals p' k' r" "mailbox p' = mailbox p"
    let ?s = "with_process pid p' s"
    have d: "d = MAX_STEPS - Suc n" using Suc.hyps(2) by simp
    have "process_evals p' k' r" "Suc n \<le> MAX_STEPS" using n p' by auto
    from Suc.hyps(1) [OF d, of ?s p' k'] this show ?thesis
      using k p'(3) step_continue [OF n Suc.prems(1) p'(1)]
      by (cases "MAX_STEPS \<le> n + k")
         (auto simp: map_upd_triv task_of_def Suc_diff_Suc n
           intro!: arg_cong [where f = "\<lambda>q. with_process pid q s"])
  qed
qed

subsection \<open>The wake-up invariant\<close>

text \<open>The events of the scheduler, with the exception that \<^verbatim>\<open>work\<close> may throw.\<close>

inductive sched_event :: "'v sched \<Rightarrow> js_error option \<Rightarrow> 'v sched \<Rightarrow> bool" where
  on_spawn: "rawSpawn task s = (pid, s') \<Longrightarrow> sched_event s None s'"
| on_send: "sched_event s None (rawSend pid msg s)"
| on_resume: "sched_event s None (resume pid newRoot s)"
| on_sleep: "(i, SleepTimeout pid) \<in> set (timeouts s) \<Longrightarrow>
    sched_event s None (resume pid (T_succeed VUnit) (clearTimeout i s))"
| on_work: "(i, WorkTimeout) \<in> set (timeouts s) \<Longrightarrow> work (clearTimeout i s) = (e, s') \<Longrightarrow> sched_event s e s'"

definition sched_init :: "'v sched" where
  "sched_init = \<lparr>processes = Map.empty, guid = 0, workQueue = [], working = False, timeouts = [],
     next_timeout = 0, cancels = Map.empty, started = []\<rparr>"

inductive sched_reachable :: "'v sched \<Rightarrow> bool" where
  at_start: "sched_reachable sched_init"
| after_event: "sched_reachable s \<Longrightarrow> sched_event s None s' \<Longrightarrow> sched_reachable s'"

text \<open>The pending calls of \<^verbatim>\<open>work\<close>; the timeouts that task objects cancel are never such calls.\<close>

definition wakeups :: "'v sched \<Rightarrow> nat list" where
  "wakeups s = map fst (filter (\<lambda>(_, t). t = WorkTimeout) (timeouts s))"

definition timers_ok :: "'v sched \<Rightarrow> bool" where
  "timers_ok s \<longleftrightarrow> (\<forall>i \<in> fst ` set (timeouts s). i < next_timeout s) \<and> distinct (map fst (timeouts s)) \<and>
     (\<forall>oid i. cancels s oid = Some i \<longrightarrow> i < next_timeout s \<and> i \<notin> set (wakeups s))"

definition sched_inv :: "'v sched \<Rightarrow> bool" where
  "sched_inv s \<longleftrightarrow> timers_ok s \<and> length (wakeups s) = (if working s then 1 else 0) \<and>
     (workQueue s \<noteq> [] \<longrightarrow> working s)"

text \<open>While \<^verbatim>\<open>work\<close> runs, and for ever after it has thrown, nothing is scheduled.\<close>

definition busy :: "'v sched \<Rightarrow> bool" where
  "busy s \<longleftrightarrow> timers_ok s \<and> wakeups s = [] \<and> working s"

lemma wakeups_simps [simp]:
  "wakeups (update_process pid f s) = wakeups s" "wakeups (s\<lparr>workQueue := q\<rparr>) = wakeups s"
  "wakeups (s\<lparr>working := b\<rparr>) = wakeups s" "wakeups (s\<lparr>started := l\<rparr>) = wakeups s"
  "wakeups (s\<lparr>cancels := c\<rparr>) = wakeups s" "wakeups (s\<lparr>processes := p\<rparr>) = wakeups s"
  "wakeups (s\<lparr>guid := g\<rparr>) = wakeups s"
  "wakeups (clearTimeout i s) = filter (\<lambda>j. j \<noteq> i) (wakeups s)"
  "wakeups (snd (setTimeout t s)) = wakeups s @ (if t = WorkTimeout then [next_timeout s] else [])"
  by (simp_all add: wakeups_def update_process_def setTimeout_def clearTimeout_def filter_map comp_def
      case_prod_unfold conj_commute)

lemma timers_ok_simps [simp]:
  "timers_ok (update_process pid f s) = timers_ok s" "timers_ok (s\<lparr>workQueue := q\<rparr>) = timers_ok s"
  "timers_ok (s\<lparr>working := b\<rparr>) = timers_ok s" "timers_ok (s\<lparr>started := l\<rparr>) = timers_ok s"
  "timers_ok (s\<lparr>processes := p\<rparr>) = timers_ok s" "timers_ok (s\<lparr>guid := g\<rparr>) = timers_ok s"
  by (simp_all add: timers_ok_def) (simp_all add: update_process_def)

lemma wakeups_bound: "timers_ok s \<Longrightarrow> i \<in> set (wakeups s) \<Longrightarrow> i < next_timeout s"
  by (force simp: timers_ok_def wakeups_def)

lemma timers_ok_clear: "timers_ok s \<Longrightarrow> timers_ok (clearTimeout i s)"
  by (auto simp: timers_ok_def) (auto simp: clearTimeout_def distinct_map inj_on_def)

lemma timers_ok_set: "timers_ok s \<Longrightarrow> timers_ok (snd (setTimeout t s))"
proof -
  assume ok: "timers_ok s"
  have fields: "timeouts (snd (setTimeout t s)) = timeouts s @ [(next_timeout s, t)]"
    "next_timeout (snd (setTimeout t s)) = Suc (next_timeout s)"
    "cancels (snd (setTimeout t s)) = cancels s" by (simp_all add: setTimeout_def)
  have "next_timeout s \<notin> fst ` set (timeouts s)" "\<And>i. i \<in> fst ` set (timeouts s) \<Longrightarrow> i < Suc (next_timeout s)"
    using ok unfolding timers_ok_def by (auto dest: less_SucI)
  moreover have "i < Suc (next_timeout s) \<and> i \<notin> set (wakeups (snd (setTimeout t s)))"
    if "cancels s oid = Some i" for oid i
  proof -
    have "i < next_timeout s" "i \<notin> set (wakeups s)" using ok that unfolding timers_ok_def by blast+
    then show ?thesis by simp
  qed
  ultimately show ?thesis
    using ok unfolding timers_ok_def fields by (simp only: map_append distinct_append) auto
qed

lemma working_simps [simp]:
  "working (update_process pid f s) = working s" "working (clearTimeout i s) = working s"
  "working (snd (setTimeout t s)) = working s" "workQueue (update_process pid f s) = workQueue s"
  "workQueue (clearTimeout i s) = workQueue s" "workQueue (snd (setTimeout t s)) = workQueue s"
  by (simp_all add: update_process_def clearTimeout_def setTimeout_def)

lemma busy_simps [simp]:
  "busy (update_process pid f s) = busy s" "busy (s\<lparr>workQueue := q\<rparr>) = busy s"
  "busy (s\<lparr>started := l\<rparr>) = busy s" "busy (s\<lparr>processes := p\<rparr>) = busy s" "busy (s\<lparr>guid := g\<rparr>) = busy s"
  by (simp_all add: busy_def)

lemma busy_enqueue: "busy s \<Longrightarrow> busy (enqueue pid s)"
  by (simp add: enqueue_def busy_def)

lemma busy_clear: "busy s \<Longrightarrow> busy (clearTimeout i s)"
  by (simp add: busy_def timers_ok_clear)

lemma busy_sleep: "busy s \<Longrightarrow> busy (snd (setTimeout (SleepTimeout pid) s))"
  by (simp add: busy_def timers_ok_set)

lemma busy_spawn: "busy s \<Longrightarrow> busy (snd (rawSpawn t s))"
  by (simp add: rawSpawn_def busy_enqueue)

lemma busy_resume: "busy s \<Longrightarrow> busy (resume pid t s)"
  by (simp add: resume_def busy_enqueue)

lemma busy_send: "busy s \<Longrightarrow> busy (rawSend pid m s)"
  by (simp add: rawSend_def busy_enqueue)

lemmas busy_ops = busy_enqueue busy_clear busy_sleep busy_spawn busy_resume busy_send

lemma busy_kill: "busy s \<Longrightarrow> busy (snd (kill_process victim s))"
  by (simp add: kill_process_def Let_def busy_ops split: option.split stask.split)

lemma busy_native:
  assumes "busy s" "run_native pid b s = (r, s')"
  shows "busy s' \<and> (\<forall>i. r = Inr (Some i) \<longrightarrow> i < next_timeout s')"
proof (cases b)
  case (NKill victim)
  with assms busy_kill [OF assms(1), of victim] show ?thesis
    by (auto simp: run_native_def busy_ops split: prod.splits option.splits)
next
  case (NSleep time)
  with assms busy_sleep [OF assms(1), of pid] show ?thesis
    by (auto simp: run_native_def setTimeout_def)
next
  case (NSpawn t)
  with assms busy_spawn [OF assms(1), of t] show ?thesis
    by (cases "rawSpawn t s") (auto simp: run_native_def busy_ops)
qed (use assms in \<open>auto simp: run_native_def Let_def busy_ops split: option.splits\<close>)

lemma busy_cancels:
  assumes "busy s" "\<forall>i. c = Some i \<longrightarrow> i < next_timeout s"
  shows "busy (s\<lparr>cancels := (cancels s)(oid := c)\<rparr>)"
proof -
  have "i < next_timeout s" if "(if o' = oid then c else cancels s o') = Some i" for o' i
    using that assms by (auto simp: busy_def timers_ok_def split: if_splits)
  then show ?thesis using assms(1) by (simp add: busy_def timers_ok_def)
qed

lemma busy_break:
  assumes "busy s" "break_step pid p s = (e, s')"
  shows "busy s'"
proof (cases "proc_root p")
  case (Some t)
  show ?thesis
  proof (cases t)
    case (T_nativeBinding oid b)
    obtain r s1 where r: "run_native pid b s = (r, s1)" by fastforce
    then have "busy s1" "\<forall>i. r = Inr (Some i) \<longrightarrow> i < next_timeout s1" using busy_native assms(1) by blast+
    with r assms(2) Some T_nativeBinding show ?thesis
      by (cases r) (auto simp: break_step_def intro!: busy_cancels)
  qed (use assms Some in \<open>auto simp: break_step_def\<close>)
qed (use assms in \<open>auto simp: break_step_def\<close>)

lemma busy_step: "busy s \<Longrightarrow> step n pid s = (r, s') \<Longrightarrow> busy s'"
proof (induction n pid s rule: step.induct)
  case (1 n pid s)
  show ?case
  proof (cases "n < MAX_STEPS \<and> processes s pid \<noteq> None")
    case True
    then obtain p where p: "processes s pid = Some p" by auto
    show ?thesis
    proof (cases "continue_step p")
      case (Some p')
      then have "step n pid s = step (Suc n) pid (update_process pid (\<lambda>_. p') s)"
        using True p by (subst step.simps) simp
      with 1 True p Some show ?thesis by simp
    next
      case None
      with True p 1(3) have "snd (break_step pid p s) = s'"
        by (subst (asm) step.simps) (auto split: prod.splits option.splits)
      then show ?thesis using busy_break [OF 1(2), of pid p] by (cases "break_step pid p s") auto
    qed
  qed (use 1(2,3) in \<open>subst (asm) step.simps, auto simp: busy_enqueue split: if_splits\<close>)
qed

lemma busy_work_loop:
  "busy s \<Longrightarrow> work_loop n s = (r, s') \<Longrightarrow> busy s' \<and> (r = Inr True \<longrightarrow> workQueue s' = [])"
proof (induction n s rule: work_loop.induct)
  case (1 n s)
  show ?case
  proof (cases "n < MAX_STEPS \<and> workQueue s \<noteq> []")
    case True
    then obtain pid rest where q: "workQueue s = pid # rest" by (cases "workQueue s") auto
    let ?s = "s\<lparr>workQueue := rest\<rparr>"
    have b: "busy ?s" using 1(3) by simp
    show ?thesis
    proof (cases "processes ?s pid \<noteq> None \<and> proc_root (the (processes ?s pid)) \<noteq> None")
      case runs: True
      obtain r1 s1 where st: "step n pid ?s = (r1, s1)" by fastforce
      then have "busy s1" using busy_step b by blast
      have eq: "work_loop n s = (case r1 of Inl e \<Rightarrow> (Inl e, s1) | Inr m \<Rightarrow> work_loop m s1)"
        using True q runs st by (subst work_loop.simps) (simp add: Let_def split: sum.split)
      show ?thesis
      proof (cases r1)
        case (Inl e)
        with 1(4) eq \<open>busy s1\<close> show ?thesis by auto
      next
        case (Inr m)
        have "busy s' \<and> (r = Inr True \<longrightarrow> workQueue s' = [])"
          by (rule 1(1) [of pid rest ?s r1 s1 m])
             (use True q runs st Inr 1(4) eq \<open>busy s1\<close> in \<open>simp_all\<close>)
        then show ?thesis .
      qed
    next
      case False
      have "work_loop n s = work_loop n ?s"
        using True q False by (subst work_loop.simps) (auto simp: Let_def)
      then show ?thesis
        by (intro 1(2) [of pid rest ?s]) (use True q False 1(4) b in \<open>simp_all\<close>)
    qed
  qed (use 1(3,4) in \<open>subst (asm) work_loop.simps, auto split: if_splits list.splits\<close>)
qed

lemma busy_work:
  assumes "busy s" "work s = (e, s')"
  shows "case e of None \<Rightarrow> sched_inv s' | Some _ \<Rightarrow> busy s'"
proof -
  obtain r s1 where r: "work_loop 0 s = (r, s1)" by fastforce
  have "busy s1" "r = Inr True \<longrightarrow> workQueue s1 = []" using busy_work_loop [OF assms(1) r] by auto
  with r assms(2) show ?thesis
    by (auto simp: work_def sched_inv_def busy_def timers_ok_set split: sum.splits bool.splits)
qed

lemma wakeups_in: "(i, WorkTimeout) \<in> set (timeouts s) \<longleftrightarrow> i \<in> set (wakeups s)"
  by (force simp: wakeups_def)

lemma busy_at_work:
  assumes "sched_inv s" "(i, WorkTimeout) \<in> set (timeouts s)"
  shows "busy (clearTimeout i s)"
proof -
  have "i \<in> set (wakeups s)" using assms(2) by (simp add: wakeups_in)
  with assms(1) have "wakeups s = [i]" "working s"
    by (auto simp: sched_inv_def length_Suc_conv split: if_splits)
  then show ?thesis using assms(1) by (simp add: busy_def sched_inv_def timers_ok_clear)
qed

lemma sched_inv_enqueue: "sched_inv s \<Longrightarrow> sched_inv (enqueue pid s)"
  by (auto simp: sched_inv_def enqueue_def Let_def timers_ok_set)

lemma sched_inv_simps [simp]:
  "sched_inv (update_process pid f s) = sched_inv s" "sched_inv (s\<lparr>processes := p\<rparr>) = sched_inv s"
  "sched_inv (s\<lparr>guid := g\<rparr>) = sched_inv s"
  by (simp_all add: sched_inv_def)

lemma sched_inv_sleep:
  assumes "sched_inv s" "(i, SleepTimeout pid) \<in> set (timeouts s)"
  shows "sched_inv (clearTimeout i s)"
proof -
  have "(i, WorkTimeout) \<notin> set (timeouts s)"
    using assms unfolding sched_inv_def timers_ok_def
    by (metis eq_key_imp_eq_value timeout.distinct(1))
  then have "wakeups (clearTimeout i s) = wakeups s"
    by (auto simp: wakeups_in filter_id_conv)
  then show ?thesis using assms(1) by (auto simp: sched_inv_def timers_ok_clear)
qed

lemma sched_event_inv:
  assumes "sched_event s e s'" "sched_inv s"
  shows "case e of None \<Rightarrow> sched_inv s' | Some _ \<Rightarrow> busy s'"
  using assms(1)
proof cases
  case (on_spawn task pid)
  then show ?thesis using assms(2) by (auto simp: rawSpawn_def intro!: sched_inv_enqueue)
next
  case (on_send pid msg)
  then show ?thesis using assms(2) by (simp add: rawSend_def sched_inv_enqueue)
next
  case (on_resume pid newRoot)
  then show ?thesis using assms(2) by (simp add: resume_def sched_inv_enqueue)
next
  case (on_sleep i pid)
  then show ?thesis using assms(2) by (simp add: resume_def sched_inv_enqueue sched_inv_sleep)
next
  case (on_work i)
  then show ?thesis using busy_work busy_at_work assms(2) by blast
qed

lemma sched_reachable_inv: "sched_reachable s \<Longrightarrow> sched_inv s"
proof (induction rule: sched_reachable.induct)
  case at_start
  show ?case by (simp add: sched_inv_def timers_ok_def sched_init_def wakeups_def)
next
  case (after_event s s')
  then show ?case using sched_event_inv [of s None s'] by simp
qed

lemma busy_event: "sched_event s e s' \<Longrightarrow> busy s \<Longrightarrow> busy s'"
proof (induction rule: sched_event.induct)
  case (on_spawn task s pid s')
  then show ?case using busy_spawn [of s task] by simp
next
  case (on_work i s e s')
  then show ?case by (simp add: wakeups_in busy_def)
qed (simp_all add: busy_ops)

subsection \<open>Properties\<close>


definition one_spawned :: "nat sched" where
  "one_spawned = snd (rawSpawn (T_succeed (VUser 0)) sched_init)"


text \<open>
  The scheduler computes what tasks mean: a process whose task succeeds or fails in \<open>k\<close> steps has
  that result after one call of \<^verbatim>\<open>step\<close> if the budget of \<^verbatim>\<open>MAX_STEPS\<close> steps suffices; otherwise it is
  put back into the queue with the same result ahead of it and correspondingly fewer steps left. This is claim C20.
\<close>

theorem Scheduler_evaluates_tasks:
  assumes "processes s pid = Some p" "process_evals p k r" "n \<le> MAX_STEPS"
  shows "(n + k < MAX_STEPS \<longrightarrow>
      step n pid s = (Inr (n + k + 1), with_process pid (p\<lparr>proc_root := Some (task_of r), stack := []\<rparr>) s)) \<and>
    (MAX_STEPS \<le> n + k \<longrightarrow>
      (\<exists>p'. step n pid s = (Inr MAX_STEPS, enqueue pid (with_process pid p' s)) \<and>
            process_evals p' (k - (MAX_STEPS - n)) r \<and> mailbox p' = mailbox p))"
  by (rule step_slice [OF assms])

abbreviation (input) example_process :: "nat process" where
  "example_process \<equiv>
     \<lparr>proc_root = Some (T_onError (\<lambda>e. T_succeed e) (T_andThen (\<lambda>v. T_fail v) (T_succeed (VUser 7)))),
      stack = [], mailbox = []\<rparr>"

lemma example_process_evals: "process_evals example_process 4 (Inr (VUser 7))"
proof -
  have "evals (T_andThen (\<lambda>v. T_fail v) (T_succeed (VUser (7 :: nat)))) (0 + 0 + 2) (Inl (VUser 7))"
    by (rule ev_andThen) (rule evals.intros)+
  then have "evals (T_onError (\<lambda>e. T_succeed e) (T_andThen (\<lambda>v. T_fail v) (T_succeed (VUser (7 :: nat)))))
      (0 + 0 + 2 + 0 + 2) (Inr (VUser 7))" by (rule ev_onError) (rule ev_succeed)
  then have "process_evals example_process (0 + 0 + 2 + 0 + 2 + 0) (Inr (VUser 7))"
    by (intro process_evalsI) (auto intro: un_Nil)
  then show ?thesis by (simp add: eval_nat_numeral)
qed

theorem Scheduler_evaluates_tasks_witness:
  "step 0 1 (with_process 1 example_process sched_init) =
     (Inr 5, with_process 1 (example_process\<lparr>proc_root := Some (T_succeed (VUser 7)), stack := []\<rparr>)
       (with_process 1 example_process sched_init)) \<and>
   (\<exists>p'. step 9998 1 (with_process 1 example_process sched_init) =
      (Inr MAX_STEPS, enqueue 1 (with_process 1 p' (with_process 1 example_process sched_init))) \<and>
      process_evals p' 2 (Inr (VUser 7)) \<and> mailbox p' = [])"
  using Scheduler_evaluates_tasks [of "with_process 1 example_process sched_init" 1, OF _ example_process_evals, of 0]
    Scheduler_evaluates_tasks [of "with_process 1 example_process sched_init" 1, OF _ example_process_evals, of 9998]
  by (simp add: MAX_STEPS_def task_of_def)

text \<open>
  Killing a process a second time throws while the scheduler is at work, and the throw is final:
  the flag \<^verbatim>\<open>working\<close> stays set while no call of \<^verbatim>\<open>work\<close> is pending, and after any further events, be
  they spawned processes, messages, timeouts or callbacks, that is still so. No task of the program
  runs again. This is claim C21.
\<close>

theorem Scheduler_double_kill_stalls:
  assumes "sched_reachable s" "(i, WorkTimeout) \<in> set (timeouts s)" "workQueue s = pid # rest"
    "processes s pid = Some p" "proc_root p = Some (T_nativeBinding oid (NKill victim))"
    "processes s victim = Some q" "proc_root q = None"
  shows "\<exists>s'. sched_event s (Some TypeError) s' \<and>
    (\<forall>s''. (\<lambda>a b. \<exists>e. sched_event a e b)\<^sup>*\<^sup>* s' s'' \<longrightarrow> working s'' \<and> wakeups s'' = [])"
proof -
  let ?s = "(clearTimeout i s)\<lparr>workQueue := rest\<rparr>"
  have same: "processes ?s = processes s" by (simp add: clearTimeout_def)
  have "step 0 pid ?s = (Inl TypeError, ?s)"
    using assms(4-7)
    by (subst step.simps)
       (simp add: same MAX_STEPS_def continue_step_def break_step_def run_native_def kill_process_def)
  then have "work (clearTimeout i s) = (Some TypeError, ?s)"
    using assms(3-5) same unfolding work_def
    by (subst work_loop.simps) (simp add: Let_def MAX_STEPS_def)
  then have ev: "sched_event s (Some TypeError) ?s" using assms(2) by (rule on_work [rotated])
  then have "busy ?s" using sched_event_inv sched_reachable_inv [OF assms(1)] by fastforce
  have "busy s''" if "(\<lambda>a b. \<exists>e. sched_event a e b)\<^sup>*\<^sup>* ?s s''" for s''
    using that \<open>busy ?s\<close> by (induction rule: rtranclp_induct) (auto intro: busy_event)
  then show ?thesis using ev by (auto simp: busy_def)
qed

text \<open>A process that is killed by one process and then by another.\<close>

definition killer :: "nat \<Rightarrow> nat stask" where
  "killer oid = T_nativeBinding oid (NKill 0)"

definition twice_killed :: "nat sched" where
  "twice_killed =
     snd (rawSpawn (killer 2) (snd (work (clearTimeout 0
       (snd (rawSpawn (killer 1) (snd (rawSpawn (T_succeed (VUser 7)) sched_init))))))))"

lemmas sched_eval = rawSpawn_def enqueue_def setTimeout_def clearTimeout_def update_process_def
  resume_def kill_process_def run_native_def continue_step_def break_step_def MAX_STEPS_def
  sched_init_def killer_def work_def work_loop.simps step.simps Let_def

lemma twice_killed_eval:
  "twice_killed = \<lparr>processes = [0 \<mapsto> \<lparr>proc_root = None, stack = [], mailbox = []\<rparr>,
       1 \<mapsto> \<lparr>proc_root = Some (T_succeed VUnit), stack = [], mailbox = []\<rparr>,
       2 \<mapsto> \<lparr>proc_root = Some (killer 2), stack = [], mailbox = []\<rparr>],
     guid = 3, workQueue = [2], working = True, timeouts = [(1, WorkTimeout)], next_timeout = 2,
     cancels = Map.empty, started = []\<rparr>"
  by (simp add: twice_killed_def sched_eval numeral_2_eq_2 numeral_3_eq_3)

lemma twice_killed_reachable: "sched_reachable twice_killed"
proof -
  let ?a = "snd (rawSpawn (killer 1) (snd (rawSpawn (T_succeed (VUser 7)) sched_init)))"
  have "sched_reachable ?a"
    by (rule after_event, rule after_event [OF at_start]) (rule on_spawn, rule prod.collapse [symmetric])+
  moreover have "sched_event ?a None (snd (work (clearTimeout 0 ?a)))"
    by (rule on_work [of 0]) (simp_all add: sched_eval)
  ultimately have "sched_reachable (snd (work (clearTimeout 0 ?a)))" by (rule after_event)
  then show ?thesis
    unfolding twice_killed_def by (rule after_event) (rule on_spawn, rule prod.collapse [symmetric])
qed

theorem Scheduler_double_kill_stalls_witness:
  "\<exists>s'. sched_event twice_killed (Some TypeError) s' \<and>
    (\<forall>s''. (\<lambda>a b. \<exists>e. sched_event a e b)\<^sup>*\<^sup>* s' s'' \<longrightarrow> working s'' \<and> wakeups s'' = [])"
  by (rule Scheduler_double_kill_stalls [OF twice_killed_reachable, where i = 1 and pid = 2 and victim = 0
        and rest = "[]" and oid = 2 and p = "\<lparr>proc_root = Some (killer 2), stack = [], mailbox = []\<rparr>"
        and q = "\<lparr>proc_root = None, stack = [], mailbox = []\<rparr>"])
     (simp_all add: twice_killed_eval killer_def)

end
