(* ===== verification/Elm_Platform.thy ===== *)
theory Elm_Platform
  imports Elm_Scheduler Elm_List Elm_Json
begin

text \<open>
  How the runtime routes effects (\<^verbatim>\<open>Native.Platform\<close>): effect managers as processes in a receive loop,
  bags of commands and subscriptions and their distribution to the managers, the handling of a
  message by the main process, and the ports to the JavaScript of the page.
\<close>

subsection \<open>Stateful loops\<close>

primcorec state_loop :: "('v val \<Rightarrow> 'v val \<Rightarrow> 'v stask) \<Rightarrow> 'v val \<Rightarrow> 'v stask" where
  "state_loop onMessage state =
     T_andThen (\<lambda>state'. state_loop onMessage state') (T_receive (\<lambda>msg. onMessage msg state))"

definition spawnLoop ::
  "'v stask \<Rightarrow> ('v val \<Rightarrow> 'v val \<Rightarrow> 'v stask) \<Rightarrow> 'v sched \<Rightarrow> nat \<times> 'v sched" where
  "spawnLoop init onMessage s = rawSpawn (T_andThen (state_loop onMessage) init) s"

subsection \<open>Effect managers\<close>

text \<open>
  What travels to a manager: the effects of an update, or a message to itself; \<open>PState\<close> is a state of
  the manager. The constructor of \<open>on_effects\<close> is the manager's \<^verbatim>\<open>tag\<close>.
\<close>

datatype ('c, 's, 'i, 't) payload =
    PFx "'c list" "'s list"
  | PSelf 'i
  | PState 't

type_synonym ('c, 's, 'i, 't) mtask = "('c, 's, 'i, 't) payload stask"
type_synonym ('c, 's, 'i, 't) mval = "('c, 's, 'i, 't) payload val"

datatype ('c, 's, 'i, 't) on_effects =
    Tag_cmd "'c list \<Rightarrow> ('c, 's, 'i, 't) mval \<Rightarrow> ('c, 's, 'i, 't) mtask"
  | Tag_sub "'s list \<Rightarrow> ('c, 's, 'i, 't) mval \<Rightarrow> ('c, 's, 'i, 't) mtask"
  | Tag_fx "'c list \<Rightarrow> 's list \<Rightarrow> ('c, 's, 'i, 't) mval \<Rightarrow> ('c, 's, 'i, 't) mtask"

record ('c, 's, 'i, 't) manager_info =
  init_task :: "('c, 's, 'i, 't) mtask"
  onEffects :: "('c, 's, 'i, 't) on_effects"
  onSelfMsg :: "'i \<Rightarrow> ('c, 's, 'i, 't) mval \<Rightarrow> ('c, 's, 'i, 't) mtask"

text \<open>
  Other values than these messages are never sent to a manager; for them the code runs into
  \<^verbatim>\<open>undefined\<close>, which the model gives as a failed task.
\<close>

definition manager_onMessage ::
  "('c, 's, 'i, 't) manager_info \<Rightarrow> ('c, 's, 'i, 't) mval \<Rightarrow> ('c, 's, 'i, 't) mval \<Rightarrow> ('c, 's, 'i, 't) mtask"
where
  "manager_onMessage info msg state =
     (case msg of
        VUser (PSelf m) \<Rightarrow> onSelfMsg info m state
      | VUser (PFx cmds subs) \<Rightarrow>
          (case onEffects info of
             Tag_cmd f \<Rightarrow> f cmds state
           | Tag_sub f \<Rightarrow> f subs state
           | Tag_fx f \<Rightarrow> f cmds subs state)
      | _ \<Rightarrow> T_fail msg)"

definition makeManager ::
  "('c, 's, 'i, 't) manager_info \<Rightarrow> ('c, 's, 'i, 't) payload sched \<Rightarrow> nat \<times> ('c, 's, 'i, 't) payload sched"
where
  "makeManager info s = spawnLoop (init_task info) (manager_onMessage info) s"

text \<open>\<^verbatim>\<open>setupEffects\<close> starts the managers in the order they were registered.\<close>

fun setupEffects ::
  "(string \<times> ('c, 's, 'i, 't) manager_info) list \<Rightarrow> ('c, 's, 'i, 't) payload sched \<Rightarrow>
   (string \<times> nat) list \<times> ('c, 's, 'i, 't) payload sched" where
  "setupEffects [] s = ([], s)"
| "setupEffects ((key, info) # rest) s =
     (case makeManager info s of (pid, s') \<Rightarrow>
        (case setupEffects rest s' of (managers, s'') \<Rightarrow> ((key, pid) # managers, s'')))"

definition sendToSelf :: "nat \<Rightarrow> nat \<Rightarrow> 'i \<Rightarrow> ('c, 's, 'i, 't) mtask" where
  "sendToSelf oid self msg = T_nativeBinding oid (NSend self (VUser (PSelf msg)))"

subsection \<open>Bags\<close>

datatype ('e, 'g) bag =
    B_leaf string 'e
  | B_node "('e, 'g) bag list"
  | B_map 'g "('e, 'g) bag"

text \<open>
  The mapping functions of a manager: \<^verbatim>\<open>cmdMap\<close> and \<^verbatim>\<open>subMap\<close>, each of which a manager may lack.
\<close>

record ('e, 'm) effect_maps =
  cmdMap :: "(('m \<Rightarrow> 'm) \<Rightarrow> 'e \<Rightarrow> 'e) option"
  subMap :: "(('m \<Rightarrow> 'm) \<Rightarrow> 'e \<Rightarrow> 'e) option"

record 'e fx =
  fx_cmds :: "'e list"
  fx_subs :: "'e list"

definition no_fx :: "'e fx" where
  "no_fx = \<lparr>fx_cmds = [], fx_subs = []\<rparr>"

fun applyTaggers :: "('m \<Rightarrow> 'm) list \<Rightarrow> 'm \<Rightarrow> 'm" where
  "applyTaggers [] x = x"
| "applyTaggers (tagger # rest) x = applyTaggers rest (tagger x)"

definition toEffect ::
  "(string \<rightharpoonup> ('e, 'm) effect_maps) \<Rightarrow> bool \<Rightarrow> string \<Rightarrow> ('m \<Rightarrow> 'm) list \<Rightarrow> 'e \<Rightarrow> 'e result" where
  "toEffect effectManagers isCmd home taggers value =
     (case effectManagers home of
        None \<Rightarrow> Inl TypeError
      | Some maps \<Rightarrow>
          (case (if isCmd then cmdMap maps else subMap maps) of
             None \<Rightarrow> Inl TypeError
           | Some f \<Rightarrow> Inr (f (applyTaggers taggers) value)))"

definition insert_effect :: "bool \<Rightarrow> 'e \<Rightarrow> 'e fx option \<Rightarrow> 'e fx" where
  "insert_effect isCmd newEffect effects =
     (let fx = (case effects of None \<Rightarrow> no_fx | Some fx \<Rightarrow> fx) in
      if isCmd then fx\<lparr>fx_cmds := newEffect # fx_cmds fx\<rparr>
      else fx\<lparr>fx_subs := newEffect # fx_subs fx\<rparr>)"

fun gatherEffects ::
  "(string \<rightharpoonup> ('e, 'm) effect_maps) \<Rightarrow> bool \<Rightarrow> ('e, 'm \<Rightarrow> 'm) bag \<Rightarrow> (string \<rightharpoonup> 'e fx) \<Rightarrow> ('m \<Rightarrow> 'm) list \<Rightarrow>
   (string \<rightharpoonup> 'e fx) result"
and gatherBranches ::
  "(string \<rightharpoonup> ('e, 'm) effect_maps) \<Rightarrow> bool \<Rightarrow> ('e, 'm \<Rightarrow> 'm) bag list \<Rightarrow> (string \<rightharpoonup> 'e fx) \<Rightarrow> ('m \<Rightarrow> 'm) list \<Rightarrow>
   (string \<rightharpoonup> 'e fx) result"
where
  "gatherEffects ems isCmd (B_leaf home value) effectsDict taggers =
     bindE (toEffect ems isCmd home taggers value) (\<lambda>effect.
       Inr (effectsDict(home \<mapsto> insert_effect isCmd effect (effectsDict home))))"
| "gatherEffects ems isCmd (B_node branches) effectsDict taggers =
     gatherBranches ems isCmd branches effectsDict taggers"
| "gatherEffects ems isCmd (B_map tagger tree) effectsDict taggers =
     gatherEffects ems isCmd tree effectsDict (tagger # taggers)"
| "gatherBranches ems isCmd [] effectsDict taggers = Inr effectsDict"
| "gatherBranches ems isCmd (bag # list) effectsDict taggers =
     bindE (gatherEffects ems isCmd bag effectsDict taggers) (\<lambda>d. gatherBranches ems isCmd list d taggers)"

definition dispatchEffects ::
  "(string \<rightharpoonup> ('e, 'm) effect_maps) \<Rightarrow> (string \<times> nat) list \<Rightarrow> ('e, 'm \<Rightarrow> 'm) bag \<Rightarrow> ('e, 'm \<Rightarrow> 'm) bag \<Rightarrow>
   ('e, 'e, 'i, 't) payload sched \<Rightarrow> ('e, 'e, 'i, 't) payload sched result" where
  "dispatchEffects ems managers cmdBag subBag s =
     bindE (gatherEffects ems True cmdBag Map.empty []) (\<lambda>d1.
     bindE (gatherEffects ems False subBag d1 []) (\<lambda>effectsDict.
       Inr (fold (\<lambda>(home, pid) s.
              let fx = (case effectsDict home of Some fx \<Rightarrow> fx | None \<Rightarrow> no_fx)
              in rawSend pid (VUser (PFx (fx_cmds fx) (fx_subs fx))) s)
            managers s)))"

subsection \<open>The main process\<close>

text \<open>
  The handling of a message by the main process: the update, the view, and the effects. \<open>rendered\<close>
  collects the models for which the renderer's \<^verbatim>\<open>updateView\<close> is called.
\<close>

definition main_onMessage ::
  "(string \<rightharpoonup> ('e, 'm) effect_maps) \<Rightarrow> (string \<times> nat) list \<Rightarrow>
   ('msg \<Rightarrow> 'model \<Rightarrow> ('model \<times> ('e, 'm \<Rightarrow> 'm) bag) result) \<Rightarrow> ('model \<Rightarrow> ('e, 'm \<Rightarrow> 'm) bag) \<Rightarrow>
   'msg \<Rightarrow> 'model \<Rightarrow> 'model list \<Rightarrow> ('e, 'e, 'i, 't) payload sched \<Rightarrow>
   ('model \<times> 'model list \<times> ('e, 'e, 'i, 't) payload sched) result" where
  "main_onMessage ems managers update subscriptions msg model rendered s =
     bindE (update msg model) (\<lambda>(model', cmds).
     bindE (dispatchEffects ems managers cmds (subscriptions model') s) (\<lambda>s'.
       Inr (model', rendered @ [model'], s')))"

subsection \<open>Ports\<close>

text \<open>
  An outgoing port calls the callbacks of the page, which may themselves subscribe and unsubscribe:
  \<open>react\<close> gives what a callback does when it is called with a value. The loop runs over the array of
  subscribers that was current when it started; \<^verbatim>\<open>subscribe\<close> pushes to the current array, which is the
  loop's as long as it is \<open>aliased\<close>, and \<^verbatim>\<open>unsubscribe\<close> replaces it by a copy. A callback that
  subscribes whenever it is called makes the loop run for ever.
\<close>

datatype port_action =
    Subscribe nat
  | Unsubscribe nat

record 'v out_port =
  port_subs :: "nat list"
  delivered :: "(nat \<times> 'v) list"

fun run_action :: "port_action \<Rightarrow> nat list \<times> bool \<times> nat list \<Rightarrow> nat list \<times> bool \<times> nat list" where
  "run_action (Subscribe callback) (cur, aliased, subs) =
     (if aliased then cur @ [callback] else cur, aliased, subs @ [callback])"
| "run_action (Unsubscribe callback) (cur, aliased, subs) = (cur, False, remove1 callback subs)"

partial_function (option) port_loop ::
  "(nat \<Rightarrow> 'v \<Rightarrow> port_action list) \<Rightarrow> 'v \<Rightarrow> nat \<Rightarrow> nat list \<Rightarrow> bool \<Rightarrow> 'v out_port \<Rightarrow> 'v out_port option" where
  "port_loop react value i cur aliased p =
     (if i < length cur then
        (case fold run_action (react (cur ! i) value) (cur, aliased, port_subs p) of
           (cur', aliased', subs') \<Rightarrow>
             port_loop react value (Suc i) cur' aliased'
               (p\<lparr>port_subs := subs', delivered := delivered p @ [(cur ! i, value)]\<rparr>))
      else Some p)"

fun out_onEffects ::
  "(nat \<Rightarrow> 'v \<Rightarrow> port_action list) \<Rightarrow> ('c \<Rightarrow> 'v) \<Rightarrow> 'c list \<Rightarrow> 'v out_port \<Rightarrow> 'v out_port option" where
  "out_onEffects react converter [] p = Some p"
| "out_onEffects react converter (cmd # cmdList) p =
     Option.bind (port_loop react (converter cmd) 0 (port_subs p) True p)
       (out_onEffects react converter cmdList)"

text \<open>
  An incoming port decodes what the page sends and hands it to the program's subscriptions; what is
  sent before the subscriptions are known is kept. Both operations return the messages for the
  program.
\<close>

record ('m, 'v) in_port =
  sentBeforeInit :: "'v list option"
  in_subs :: "('v \<Rightarrow> 'm) list"

definition postInitSend :: "('v \<Rightarrow> 'm) list \<Rightarrow> 'v \<Rightarrow> 'm list" where
  "postInitSend subs value = map (\<lambda>sub. sub value) subs"

definition in_onEffects :: "('v \<Rightarrow> 'm) list \<Rightarrow> ('m, 'v) in_port \<Rightarrow> ('m, 'v) in_port \<times> 'm list" where
  "in_onEffects subList p =
     (let p' = p\<lparr>in_subs := subList\<rparr> in
      case sentBeforeInit p of
        Some sent \<Rightarrow> (p'\<lparr>sentBeforeInit := None\<rparr>, concat (map (postInitSend subList) sent))
      | None \<Rightarrow> (p', []))"

definition in_send ::
  "('j \<Rightarrow> (string, 'v) elm_result) \<Rightarrow> string \<Rightarrow> 'j \<Rightarrow> ('m, 'v) in_port \<Rightarrow> (('m, 'v) in_port \<times> 'm list) result"
where
  "in_send decode name incomingValue p =
     (case decode incomingValue of
        Err e \<Rightarrow> Inl (JsError (''Trying to send an unexpected type of value through port `'' @ name @
                  ''`:'' @ [CHR 0x0A] @ e))
      | Ok v \<Rightarrow>
          (case sentBeforeInit p of
             Some sent \<Rightarrow> Inr (p\<lparr>sentBeforeInit := Some (sent @ [v])\<rparr>, [])
           | None \<Rightarrow> Inr (p, postInitSend (in_subs p) v)))"

fun in_sends ::
  "('j \<Rightarrow> (string, 'v) elm_result) \<Rightarrow> string \<Rightarrow> 'j list \<Rightarrow> ('m, 'v) in_port \<Rightarrow> (('m, 'v) in_port \<times> 'm list) result"
where
  "in_sends decode name [] p = Inr (p, [])"
| "in_sends decode name (v # vs) p =
     bindE (in_send decode name v p) (\<lambda>(p', ms).
     bindE (in_sends decode name vs p') (\<lambda>(p'', ms'). Inr (p'', ms @ ms')))"

definition checkPortName :: "string list \<Rightarrow> string \<Rightarrow> unit result" where
  "checkPortName effectManagers name =
     (if name \<in> set effectManagers
      then Inl (JsError (''There can only be one port named `'' @ name @ ''`, but your program has multiple.''))
      else Inr ())"

text \<open>
  A port is an effect manager under its name. The commands of an outgoing port are values, which no tagger
  changes; a subscription to an incoming port is a function of the values.
\<close>

definition outgoingPortMap :: "('m \<Rightarrow> 'm) \<Rightarrow> 'v \<Rightarrow> 'v" where
  "outgoingPortMap tagger value = value"

definition incomingPortMap :: "('m \<Rightarrow> 'm) \<Rightarrow> ('v \<Rightarrow> 'm) \<Rightarrow> 'v \<Rightarrow> 'm" where
  "incomingPortMap tagger finalTagger value = tagger (finalTagger value)"

definition outgoingPort ::
  "string \<Rightarrow> string list \<Rightarrow> (string \<rightharpoonup> ('v, 'm) effect_maps) \<Rightarrow>
   (string list \<times> (string \<rightharpoonup> ('v, 'm) effect_maps) \<times> ('v \<Rightarrow> ('v, 'g) bag)) result" where
  "outgoingPort name names effectManagers =
     bindE (checkPortName names name) (\<lambda>_.
       Inr (name # names, effectManagers(name \<mapsto> \<lparr>cmdMap = Some outgoingPortMap, subMap = None\<rparr>), B_leaf name))"

definition incomingPort ::
  "string \<Rightarrow> string list \<Rightarrow> (string \<rightharpoonup> ('v \<Rightarrow> 'm, 'm) effect_maps) \<Rightarrow>
   (string list \<times> (string \<rightharpoonup> ('v \<Rightarrow> 'm, 'm) effect_maps) \<times> (('v \<Rightarrow> 'm) \<Rightarrow> ('v \<Rightarrow> 'm, 'g) bag)) result" where
  "incomingPort name names effectManagers =
     bindE (checkPortName names name) (\<lambda>_.
       Inr (name # names, effectManagers(name \<mapsto> \<lparr>cmdMap = None, subMap = Some incomingPortMap\<rparr>), B_leaf name))"

subsection \<open>The receive loop\<close>

text \<open>The rounds of \<^verbatim>\<open>step\<close>, one by one.\<close>

lemma step_rounds:
  assumes "n < MAX_STEPS"
  shows "step n pid (with_process pid (p\<lparr>proc_root := Some (T_andThen f t)\<rparr>) s) =
      step (Suc n) pid (with_process pid (p\<lparr>stack := F_andThen f # stack p, proc_root := Some t\<rparr>) s)"
    "step n pid (with_process pid (p\<lparr>proc_root := Some (T_onError f t)\<rparr>) s) =
      step (Suc n) pid (with_process pid (p\<lparr>stack := F_onError f # stack p, proc_root := Some t\<rparr>) s)"
    "step n pid (with_process pid (p\<lparr>stack := F_andThen f # stk, proc_root := Some (T_succeed v)\<rparr>) s) =
      step (Suc n) pid (with_process pid (p\<lparr>stack := stk, proc_root := Some (f v)\<rparr>) s)"
    "step n pid (with_process pid (p\<lparr>stack := F_onError f # stk, proc_root := Some (T_fail e)\<rparr>) s) =
      step (Suc n) pid (with_process pid (p\<lparr>stack := stk, proc_root := Some (f e)\<rparr>) s)"
    "step n pid (with_process pid (p\<lparr>stack := F_andThen f # stk, proc_root := Some (T_fail e)\<rparr>) s) =
      step n pid (with_process pid (p\<lparr>stack := stk, proc_root := Some (T_fail e)\<rparr>) s)"
    "step n pid (with_process pid (p\<lparr>stack := F_onError f # stk, proc_root := Some (T_succeed v)\<rparr>) s) =
      step n pid (with_process pid (p\<lparr>stack := stk, proc_root := Some (T_succeed v)\<rparr>) s)"
    "step n pid (with_process pid (p\<lparr>mailbox := m # ms, proc_root := Some (T_receive f)\<rparr>) s) =
      step (Suc n) pid (with_process pid (p\<lparr>mailbox := ms, proc_root := Some (f m)\<rparr>) s)"
    "step n pid (with_process pid (p\<lparr>mailbox := [], proc_root := Some (T_receive f)\<rparr>) s) =
      (Inr (n + 1), with_process pid (p\<lparr>mailbox := [], proc_root := Some (T_receive f)\<rparr>) s)"
proof -
  note simps = continue_step_def break_step_def update_process_def assms
  show "step n pid (with_process pid (p\<lparr>proc_root := Some (T_andThen f t)\<rparr>) s) =
      step (Suc n) pid (with_process pid (p\<lparr>stack := F_andThen f # stack p, proc_root := Some t\<rparr>) s)"
    by (subst step.simps, cases p) (simp add: simps)
  show "step n pid (with_process pid (p\<lparr>proc_root := Some (T_onError f t)\<rparr>) s) =
      step (Suc n) pid (with_process pid (p\<lparr>stack := F_onError f # stack p, proc_root := Some t\<rparr>) s)"
    by (subst step.simps, cases p) (simp add: simps)
  show "step n pid (with_process pid (p\<lparr>stack := F_andThen f # stk, proc_root := Some (T_succeed v)\<rparr>) s) =
      step (Suc n) pid (with_process pid (p\<lparr>stack := stk, proc_root := Some (f v)\<rparr>) s)"
    by (subst step.simps, cases p) (simp add: simps)
  show "step n pid (with_process pid (p\<lparr>stack := F_onError f # stk, proc_root := Some (T_fail e)\<rparr>) s) =
      step (Suc n) pid (with_process pid (p\<lparr>stack := stk, proc_root := Some (f e)\<rparr>) s)"
    by (subst step.simps, cases p) (simp add: simps)
  show "step n pid (with_process pid (p\<lparr>stack := F_andThen f # stk, proc_root := Some (T_fail e)\<rparr>) s) =
      step n pid (with_process pid (p\<lparr>stack := stk, proc_root := Some (T_fail e)\<rparr>) s)"
    by (subst (1 2) step.simps, cases p) (simp add: simps del: dropWhile_eq_Nil_conv split: list.split)
  show "step n pid (with_process pid (p\<lparr>stack := F_onError f # stk, proc_root := Some (T_succeed v)\<rparr>) s) =
      step n pid (with_process pid (p\<lparr>stack := stk, proc_root := Some (T_succeed v)\<rparr>) s)"
    by (subst (1 2) step.simps, cases p) (simp add: simps del: dropWhile_eq_Nil_conv split: list.split)
  show "step n pid (with_process pid (p\<lparr>mailbox := m # ms, proc_root := Some (T_receive f)\<rparr>) s) =
      step (Suc n) pid (with_process pid (p\<lparr>mailbox := ms, proc_root := Some (f m)\<rparr>) s)"
    by (subst step.simps, cases p) (simp add: simps)
  show "step n pid (with_process pid (p\<lparr>mailbox := [], proc_root := Some (T_receive f)\<rparr>) s) =
      (Inr (n + 1), with_process pid (p\<lparr>mailbox := [], proc_root := Some (T_receive f)\<rparr>) s)"
    by (subst step.simps, cases p) (simp add: simps)
qed

text \<open>A task that evaluates does so on any stack.\<close>

lemma step_evals:
  "evals t k r \<Longrightarrow> n + k < MAX_STEPS \<Longrightarrow>
   step n pid (with_process pid (p\<lparr>proc_root := Some t\<rparr>) s) =
   step (n + k) pid (with_process pid (p\<lparr>proc_root := Some (task_of r)\<rparr>) s)"
proof (induction arbitrary: n p rule: evals.induct)
  case (ev_succeed v)
  then show ?case by (simp add: task_of_def)
next
  case (ev_fail e)
  then show ?case by (simp add: task_of_def)
next
  case (ev_andThen t k v callback j r)
  let ?q = "p\<lparr>stack := F_andThen callback # stack p\<rparr>"
  have "step n pid (with_process pid (p\<lparr>proc_root := Some (T_andThen callback t)\<rparr>) s) =
      step (Suc n) pid (with_process pid (?q\<lparr>proc_root := Some t\<rparr>) s)"
    using ev_andThen.prems by (intro step_rounds) simp
  also have "\<dots> = step (Suc n + k) pid (with_process pid (?q\<lparr>proc_root := Some (T_succeed v)\<rparr>) s)"
    using ev_andThen.IH(1) [of "Suc n" ?q] ev_andThen.prems by (simp add: task_of_def del: fun_upd_apply)
  also have "\<dots> = step (Suc (Suc n + k)) pid (with_process pid (p\<lparr>stack := stack p, proc_root := Some (callback v)\<rparr>) s)"
    using ev_andThen.prems by (intro step_rounds) simp
  also have "\<dots> = step (n + (k + j + 2)) pid (with_process pid (p\<lparr>proc_root := Some (task_of r)\<rparr>) s)"
    using ev_andThen.IH(2) [of "Suc (Suc n + k)" p] ev_andThen.prems by (simp add: add.assoc del: fun_upd_apply)
  finally show ?case .
next
  case (ev_andThen_fail t k e callback)
  let ?q = "p\<lparr>stack := F_andThen callback # stack p\<rparr>"
  have "step n pid (with_process pid (p\<lparr>proc_root := Some (T_andThen callback t)\<rparr>) s) =
      step (Suc n) pid (with_process pid (?q\<lparr>proc_root := Some t\<rparr>) s)"
    using ev_andThen_fail.prems by (intro step_rounds) simp
  also have "\<dots> = step (Suc n + k) pid (with_process pid (?q\<lparr>proc_root := Some (T_fail e)\<rparr>) s)"
    using ev_andThen_fail.IH [of "Suc n" ?q] ev_andThen_fail.prems by (simp add: task_of_def del: fun_upd_apply)
  also have "\<dots> = step (Suc n + k) pid (with_process pid (p\<lparr>stack := stack p, proc_root := Some (T_fail e)\<rparr>) s)"
    using ev_andThen_fail.prems by (intro step_rounds) simp
  finally show ?case by (simp add: task_of_def del: fun_upd_apply)
next
  case (ev_onError t k e callback j r)
  let ?q = "p\<lparr>stack := F_onError callback # stack p\<rparr>"
  have "step n pid (with_process pid (p\<lparr>proc_root := Some (T_onError callback t)\<rparr>) s) =
      step (Suc n) pid (with_process pid (?q\<lparr>proc_root := Some t\<rparr>) s)"
    using ev_onError.prems by (intro step_rounds) simp
  also have "\<dots> = step (Suc n + k) pid (with_process pid (?q\<lparr>proc_root := Some (T_fail e)\<rparr>) s)"
    using ev_onError.IH(1) [of "Suc n" ?q] ev_onError.prems by (simp add: task_of_def del: fun_upd_apply)
  also have "\<dots> = step (Suc (Suc n + k)) pid (with_process pid (p\<lparr>stack := stack p, proc_root := Some (callback e)\<rparr>) s)"
    using ev_onError.prems by (intro step_rounds) simp
  also have "\<dots> = step (n + (k + j + 2)) pid (with_process pid (p\<lparr>proc_root := Some (task_of r)\<rparr>) s)"
    using ev_onError.IH(2) [of "Suc (Suc n + k)" p] ev_onError.prems by (simp add: add.assoc del: fun_upd_apply)
  finally show ?case .
next
  case (ev_onError_ok t k v callback)
  let ?q = "p\<lparr>stack := F_onError callback # stack p\<rparr>"
  have "step n pid (with_process pid (p\<lparr>proc_root := Some (T_onError callback t)\<rparr>) s) =
      step (Suc n) pid (with_process pid (?q\<lparr>proc_root := Some t\<rparr>) s)"
    using ev_onError_ok.prems by (intro step_rounds) simp
  also have "\<dots> = step (Suc n + k) pid (with_process pid (?q\<lparr>proc_root := Some (T_succeed v)\<rparr>) s)"
    using ev_onError_ok.IH [of "Suc n" ?q] ev_onError_ok.prems by (simp add: task_of_def del: fun_upd_apply)
  also have "\<dots> = step (Suc n + k) pid (with_process pid (p\<lparr>stack := stack p, proc_root := Some (T_succeed v)\<rparr>) s)"
    using ev_onError_ok.prems by (intro step_rounds) simp
  finally show ?case by (simp add: task_of_def del: fun_upd_apply)
qed

text \<open>
  What a handler makes of a sequence of messages: the number of steps and the final state.
\<close>

inductive handles ::
  "('v val \<Rightarrow> 'v val \<Rightarrow> 'v stask) \<Rightarrow> 'v val \<Rightarrow> 'v val list \<Rightarrow> nat \<Rightarrow> 'v val \<Rightarrow> bool" where
  handled_none: "handles f st [] 0 st"
| handled_next: "evals (f m st) k (Inr st1) \<Longrightarrow> handles f st1 ms j st2 \<Longrightarrow>
    handles f st (m # ms) (k + j + 3) st2"

lemma loop_drains:
  "handles f st ms k st' \<Longrightarrow> n + k + 1 < MAX_STEPS \<Longrightarrow>
   step n pid (with_process pid \<lparr>proc_root = Some (state_loop f st), stack = [], mailbox = ms\<rparr> s) =
   (Inr (n + k + 2),
    with_process pid \<lparr>proc_root = Some (T_receive (\<lambda>m. f m st')), stack = [F_andThen (state_loop f)], mailbox = []\<rparr> s)"
proof (induction arbitrary: n rule: handles.induct)
  case (handled_none f st)
  have "step n pid (with_process pid \<lparr>proc_root = Some (state_loop f st), stack = [], mailbox = []\<rparr> s) =
      step (Suc n) pid (with_process pid \<lparr>proc_root = Some (T_receive (\<lambda>m. f m st)),
        stack = [F_andThen (state_loop f)], mailbox = []\<rparr> s)"
    using step_rounds(1) [where n = n and p = "\<lparr>proc_root = None, stack = [], mailbox = []\<rparr>" and f = "state_loop f"] handled_none
    by (subst state_loop.code) (simp del: fun_upd_apply)
  also have "\<dots> = (Inr (Suc n + 1), with_process pid \<lparr>proc_root = Some (T_receive (\<lambda>m. f m st)),
        stack = [F_andThen (state_loop f)], mailbox = []\<rparr> s)"
    using step_rounds(8) [where n = "Suc n" and p = "\<lparr>proc_root = None, stack = [F_andThen (state_loop f)], mailbox = []\<rparr>"]
      handled_none by (simp del: fun_upd_apply)
  finally show ?case by (simp del: fun_upd_apply)
next
  case (handled_next f m st k st1 ms j st2)
  let ?p = "\<lparr>proc_root = None, stack = [F_andThen (state_loop f)], mailbox = ms\<rparr>"
  have "step n pid (with_process pid \<lparr>proc_root = Some (state_loop f st), stack = [], mailbox = m # ms\<rparr> s) =
      step (Suc n) pid (with_process pid \<lparr>proc_root = Some (T_receive (\<lambda>m. f m st)),
        stack = [F_andThen (state_loop f)], mailbox = m # ms\<rparr> s)"
    using step_rounds(1) [where n = n and p = "\<lparr>proc_root = None, stack = [], mailbox = m # ms\<rparr>" and f = "state_loop f"]
      handled_next.prems
    by (subst state_loop.code) (simp del: fun_upd_apply)
  also have "\<dots> = step (Suc (Suc n)) pid (with_process pid (?p\<lparr>proc_root := Some (f m st)\<rparr>) s)"
    using step_rounds(7) [where n = "Suc n" and p = "\<lparr>proc_root = None, stack = [F_andThen (state_loop f)], mailbox = m # ms\<rparr>"]
      handled_next.prems by (simp del: fun_upd_apply)
  also have "\<dots> = step (Suc (Suc n) + k) pid (with_process pid (?p\<lparr>proc_root := Some (T_succeed st1)\<rparr>) s)"
    using step_evals [OF handled_next.hyps(1), of "Suc (Suc n)" pid s ?p] handled_next.prems
    by (simp add: task_of_def del: fun_upd_apply)
  also have "\<dots> = step (n + k + 3) pid
      (with_process pid \<lparr>proc_root = Some (state_loop f st1), stack = [], mailbox = ms\<rparr> s)"
    using step_rounds(3) [where n = "Suc (Suc n) + k" and p = "\<lparr>proc_root = None, stack = [], mailbox = ms\<rparr>"
        and f = "state_loop f" and stk = "[]"]
      handled_next.prems by (simp add: numeral_3_eq_3 del: fun_upd_apply)
  also have "\<dots> = (Inr (n + (k + j + 3) + 2), with_process pid \<lparr>proc_root = Some (T_receive (\<lambda>m. f m st2)),
        stack = [F_andThen (state_loop f)], mailbox = []\<rparr> s)"
    using handled_next.IH [of "n + k + 3"] handled_next.prems by (simp add: add_ac del: fun_upd_apply)
  finally show ?case .
qed

subsection \<open>Effects\<close>

text \<open>The effects in a bag from left to right, each with the taggers around it, the innermost first.\<close>

fun leaves :: "('m \<Rightarrow> 'm) list \<Rightarrow> ('e, 'm \<Rightarrow> 'm) bag \<Rightarrow> (string \<times> ('m \<Rightarrow> 'm) list \<times> 'e) list" where
  "leaves ts (B_leaf home value) = [(home, ts, value)]"
| "leaves ts (B_node bs) = concat (map (leaves ts) bs)"
| "leaves ts (B_map t b) = leaves (t # ts) b"

definition effect_map ::
  "(string \<rightharpoonup> ('e, 'm) effect_maps) \<Rightarrow> bool \<Rightarrow> string \<Rightarrow> (('m \<Rightarrow> 'm) \<Rightarrow> 'e \<Rightarrow> 'e) option" where
  "effect_map ems isCmd home =
     Option.bind (ems home) (\<lambda>maps. if isCmd then cmdMap maps else subMap maps)"

text \<open>The effects of a bag for one manager.\<close>

definition effects_for ::
  "(string \<rightharpoonup> ('e, 'm) effect_maps) \<Rightarrow> bool \<Rightarrow> string \<Rightarrow> (string \<times> ('m \<Rightarrow> 'm) list \<times> 'e) list \<Rightarrow> 'e list" where
  "effects_for ems isCmd home ls =
     map (\<lambda>(_, ts, v). the (effect_map ems isCmd home) (applyTaggers ts) v)
       (filter (\<lambda>(h, _). h = home) ls)"

definition known_homes ::
  "(string \<rightharpoonup> ('e, 'm) effect_maps) \<Rightarrow> bool \<Rightarrow> (string \<times> ('m \<Rightarrow> 'm) list \<times> 'e) list \<Rightarrow> bool" where
  "known_homes ems isCmd ls \<longleftrightarrow> (\<forall>(home, _) \<in> set ls. effect_map ems isCmd home \<noteq> None)"

definition fx_at :: "(string \<rightharpoonup> 'e fx) \<Rightarrow> string \<Rightarrow> 'e fx" where
  "fx_at d home = (case d home of Some fx \<Rightarrow> fx | None \<Rightarrow> no_fx)"

definition add_effects ::
  "(string \<rightharpoonup> ('e, 'm) effect_maps) \<Rightarrow> bool \<Rightarrow> (string \<times> ('m \<Rightarrow> 'm) list \<times> 'e) list \<Rightarrow> string \<Rightarrow> 'e fx \<Rightarrow> 'e fx"
where
  "add_effects ems isCmd ls home fx =
     (if isCmd then fx\<lparr>fx_cmds := rev (effects_for ems True home ls) @ fx_cmds fx\<rparr>
      else fx\<lparr>fx_subs := rev (effects_for ems False home ls) @ fx_subs fx\<rparr>)"

lemma add_effects_append:
  "add_effects ems isCmd (ls @ ls') home fx = add_effects ems isCmd ls' home (add_effects ems isCmd ls home fx)"
  by (simp add: add_effects_def effects_for_def)

lemma toEffect_eq:
  "toEffect ems isCmd home ts v =
   (case effect_map ems isCmd home of None \<Rightarrow> Inl TypeError | Some f \<Rightarrow> Inr (f (applyTaggers ts) v))"
  by (auto simp: toEffect_def effect_map_def split: option.split)

lemma gather_leaf:
  assumes "effect_map ems isCmd home \<noteq> None"
  shows "\<exists>d'. gatherEffects ems isCmd (B_leaf home v) d ts = Inr d' \<and>
    (\<forall>h. fx_at d' h = add_effects ems isCmd [(home, ts, v)] h (fx_at d h))"
  using assms
  by (auto simp: toEffect_eq fx_at_def add_effects_def effects_for_def insert_effect_def Let_def)

lemma gather_spec:
  "known_homes ems isCmd (leaves ts b) \<Longrightarrow>
     \<exists>d'. gatherEffects ems isCmd b d ts = Inr d' \<and>
       (\<forall>h. fx_at d' h = add_effects ems isCmd (leaves ts b) h (fx_at d h))"
  "known_homes ems isCmd (concat (map (leaves ts) bs)) \<Longrightarrow>
     \<exists>d'. gatherBranches ems isCmd bs d ts = Inr d' \<and>
       (\<forall>h. fx_at d' h = add_effects ems isCmd (concat (map (leaves ts) bs)) h (fx_at d h))"
proof (induction ems isCmd b d ts and ems isCmd bs d ts rule: gatherEffects_gatherBranches.induct)
  case (1 ems isCmd home v d ts)
  then have "effect_map ems isCmd home \<noteq> None" by (simp add: known_homes_def)
  from gather_leaf [OF this] show ?case by (metis leaves.simps(1))
next
  case (4 ems isCmd d ts)
  then show ?case by (simp add: add_effects_def effects_for_def)
next
  case (5 ems isCmd b bs d ts)
  have "known_homes ems isCmd (leaves ts b)" "known_homes ems isCmd (concat (map (leaves ts) bs))"
    using 5(3) by (auto simp: known_homes_def)
  then show ?case using 5(1) 5(2) by (fastforce simp: add_effects_append)
qed auto

lemma mailbox_rawSend:
  "processes (rawSend pid m s) q =
   (if q = pid then map_option (\<lambda>p. p\<lparr>mailbox := mailbox p @ [m]\<rparr>) (processes s pid) else processes s q)"
  by (simp add: rawSend_def enqueue_def update_process_def setTimeout_def Let_def)

lemma fold_rawSend:
  "distinct (map snd ms) \<Longrightarrow>
   processes (fold (\<lambda>(home, pid) s. rawSend pid (g home) s) ms s) q =
   (case map_of (map prod.swap ms) q of
      None \<Rightarrow> processes s q
    | Some home \<Rightarrow> map_option (\<lambda>p. p\<lparr>mailbox := mailbox p @ [g home]\<rparr>) (processes s q))"
proof (induction ms arbitrary: s)
  case (Cons a ms)
  have "snd a \<notin> fst ` set (map prod.swap ms)" using Cons.prems by (auto simp: image_image)
  then have "map_of (map prod.swap ms) (snd a) = None" by (simp only: map_of_eq_None_iff) auto
  with Cons show ?case
    by (cases a) (auto simp: mailbox_rawSend split: option.split)
qed simp

text \<open>The message that the effects of an update are for a manager, and what all processes get of them.\<close>

definition fx_message ::
  "(string \<rightharpoonup> ('e, 'm) effect_maps) \<Rightarrow> ('e, 'm \<Rightarrow> 'm) bag \<Rightarrow> ('e, 'm \<Rightarrow> 'm) bag \<Rightarrow> string \<Rightarrow> ('e, 'e, 'i, 't) mval" where
  "fx_message ems cmdBag subBag home =
     VUser (PFx (rev (effects_for ems True home (leaves [] cmdBag))) (rev (effects_for ems False home (leaves [] subBag))))"

lemma dispatch_result:
  fixes s :: "('e, 'e, 'i, 't) payload sched"
  assumes "distinct (map snd managers)"
    "known_homes ems True (leaves [] cmdBag)" "known_homes ems False (leaves [] subBag)"
  shows "\<exists>s'. dispatchEffects ems managers cmdBag subBag s = Inr s' \<and>
    (\<forall>q. processes s' q =
       (case map_of (map prod.swap managers) q of
          None \<Rightarrow> processes s q
        | Some home \<Rightarrow>
            map_option (\<lambda>p. p\<lparr>mailbox := mailbox p @ [fx_message ems cmdBag subBag home]\<rparr>) (processes s q)))"
proof -
  obtain d1 where d1: "gatherEffects ems True cmdBag Map.empty [] = Inr d1"
    "\<And>h. fx_at d1 h = add_effects ems True (leaves [] cmdBag) h (fx_at Map.empty h)"
    using gather_spec(1) [OF assms(2), of Map.empty] by blast
  obtain d2 where d2: "gatherEffects ems False subBag d1 [] = Inr d2"
    "\<And>h. fx_at d2 h = add_effects ems False (leaves [] subBag) h (fx_at d1 h)"
    using gather_spec(1) [OF assms(3), of d1] by blast
  let ?g = "\<lambda>h. VUser (PFx (fx_cmds (fx_at d2 h)) (fx_subs (fx_at d2 h))) :: ('e, 'e, 'i, 't) mval"
  have "dispatchEffects ems managers cmdBag subBag s = Inr (fold (\<lambda>(home, pid) s. rawSend pid (?g home) s) managers s)"
    by (simp add: dispatchEffects_def d1(1) d2(1) Let_def fx_at_def)
  moreover have "?g home = fx_message ems cmdBag subBag home" for home
    by (simp add: fx_message_def d1(2) d2(2) add_effects_def) (simp add: fx_at_def no_fx_def)
  ultimately show ?thesis using fold_rawSend [OF assms(1), of "fx_message ems cmdBag subBag" s] by simp
qed

subsection \<open>Properties\<close>


text \<open>A loop whose state is the last message.\<close>

abbreviation (input) last_message :: "nat val \<Rightarrow> nat val \<Rightarrow> nat stask" where
  "last_message \<equiv> \<lambda>m _. T_succeed m"


text \<open>
  The effects of an update reach the managers: every manager gets exactly one message with the
  commands and subscriptions for it, through its mapping function and the taggers around each
  effect, from the innermost to the outermost, and no other process gets one. The effects of a
  batch are handed over in reverse. This is claim C22.
\<close>

theorem Platform_dispatch_delivers:
  fixes s :: "('e, 'e, 'i, 't) payload sched"
  assumes "distinct (map snd managers)" "(home, pid) \<in> set managers" "processes s pid = Some p"
    "known_homes ems True (leaves [] cmdBag)" "known_homes ems False (leaves [] subBag)"
  shows "\<exists>s'. dispatchEffects ems managers cmdBag subBag s = Inr s' \<and>
    processes s' pid = Some (p\<lparr>mailbox := mailbox p @
      [VUser (PFx (rev (effects_for ems True home (leaves [] cmdBag)))
                  (rev (effects_for ems False home (leaves [] subBag))))]\<rparr>) \<and>
    (\<forall>q. q \<notin> snd ` set managers \<longrightarrow> processes s' q = processes s q)"
proof -
  have "map_of (map prod.swap managers) pid = Some home"
    using assms(1,2) by (intro map_of_is_SomeI) (force simp: comp_def)+
  moreover have "map_of (map prod.swap managers) q = None" if "q \<notin> snd ` set managers" for q
    using that by (force simp: map_of_eq_None_iff)
  ultimately show ?thesis
    using dispatch_result [OF assms(1,4,5), of s] assms(3) by (fastforce simp: fx_message_def)
qed

definition example_ems :: "string \<rightharpoonup> (nat, nat) effect_maps" where
  "example_ems = [''WebSocket'' \<mapsto> \<lparr>cmdMap = Some (\<lambda>f e. f e), subMap = None\<rparr>]"

definition example_manager :: "(nat, nat, unit, unit) payload process" where
  "example_manager = \<lparr>proc_root = Some (T_succeed VUnit), stack = [], mailbox = []\<rparr>"

theorem Platform_dispatch_delivers_witness:
  "\<exists>s'. dispatchEffects example_ems [(''WebSocket'', 1)]
      (B_map Suc (B_node [B_leaf ''WebSocket'' 1, B_leaf ''WebSocket'' 5])) (B_node [])
      (with_process 1 example_manager sched_init) = Inr s' \<and>
    processes s' 1 = Some (example_manager\<lparr>mailbox := mailbox example_manager @ [VUser (PFx [6, 2] [])]\<rparr>) \<and>
    processes s' 2 = None"
  using Platform_dispatch_delivers [of "[(''WebSocket'', 1)]" "''WebSocket''" 1
      "with_process 1 example_manager sched_init" example_manager example_ems
      "B_map Suc (B_node [B_leaf ''WebSocket'' 1, B_leaf ''WebSocket'' 5])" "B_node []"]
  by (auto simp: known_homes_def effect_map_def example_ems_def effects_for_def sched_init_def)

lemma in_sends_before:
  "\<forall>j \<in> set js. decode j = Ok (val j) \<Longrightarrow>
   in_sends decode name js \<lparr>sentBeforeInit = Some sent, in_subs = subs\<rparr> =
   Inr (\<lparr>sentBeforeInit = Some (sent @ map val js), in_subs = subs\<rparr>, [])"
  by (induction js arbitrary: sent) (simp_all add: in_send_def)

lemma in_sends_after:
  "\<forall>j \<in> set js. decode j = Ok (val j) \<Longrightarrow>
   in_sends decode name js \<lparr>sentBeforeInit = None, in_subs = subs\<rparr> =
   Inr (\<lparr>sentBeforeInit = None, in_subs = subs\<rparr>, concat (map (postInitSend subs \<circ> val) js))"
  by (induction js) (simp_all add: in_send_def)



lemma run_unsubscribes:
  "\<forall>a \<in> set as. \<exists>c. a = Unsubscribe c \<Longrightarrow> fst (fold run_action as (cur, al, subs)) = cur"
proof (induction as arbitrary: al subs)
  case (Cons a as)
  then obtain c where "a = Unsubscribe c" by auto
  with Cons show ?case by simp
qed simp

lemma port_loop_delivers:
  assumes "\<And>c. \<forall>a \<in> set (react c v). \<exists>d. a = Unsubscribe d"
  shows "i \<le> length cur \<Longrightarrow> \<exists>p'. port_loop react v i cur al p = Some p' \<and>
    delivered p' = delivered p @ map (\<lambda>c. (c, v)) (drop i cur)"
proof (induction "length cur - i" arbitrary: i al p)
  case 0
  then show ?case by (subst port_loop.simps) simp
next
  case (Suc n)
  obtain al' subs' where step: "fold run_action (react (cur ! i) v) (cur, al, port_subs p) = (cur, al', subs')"
    using run_unsubscribes [OF assms, of "cur ! i" cur al "port_subs p"]
    by (cases "fold run_action (react (cur ! i) v) (cur, al, port_subs p)") auto
  let ?p = "p\<lparr>port_subs := subs', delivered := delivered p @ [(cur ! i, v)]\<rparr>"
  have i: "i < length cur" and n: "n = length cur - Suc i" using Suc.hyps(2) by auto
  obtain p' where "port_loop react v (Suc i) cur al' ?p = Some p'"
    "delivered p' = delivered ?p @ map (\<lambda>c. (c, v)) (drop (Suc i) cur)"
    using Suc.hyps(1) [OF n, of al' ?p] i by auto
  then show ?case using i step by (subst port_loop.simps) (simp add: Cons_nth_drop_Suc [symmetric])
qed

text \<open>
  A value sent through an outgoing port reaches every callback that is subscribed at that time, once
  and in the order of subscription, even if callbacks unsubscribe themselves or others meanwhile. This is claim C25.
\<close>

theorem Port_outgoing_delivers:
  assumes "\<And>c v. \<forall>a \<in> set (react c v). \<exists>d. a = Unsubscribe d"
  shows "\<exists>p'. out_onEffects react converter [cmd] p = Some p' \<and>
      delivered p' = delivered p @ map (\<lambda>c. (c, converter cmd)) (port_subs p)"
proof -
  have "\<forall>a \<in> set (react c (converter cmd)). \<exists>d. a = Unsubscribe d" for c using assms by blast
  from port_loop_delivers [of react, OF this, of 0 "port_subs p" True p] show ?thesis by auto
qed

theorem Port_outgoing_delivers_witness:
  "\<exists>p'. out_onEffects (\<lambda>c v. [Unsubscribe c, Unsubscribe 2]) id [7 :: int] \<lparr>port_subs = [1, 2, 3], delivered = []\<rparr> = Some p' \<and>
      delivered p' = delivered \<lparr>port_subs = [1, 2, 3], delivered = []\<rparr> @
        map (\<lambda>c. (c, id 7)) (port_subs \<lparr>port_subs = [1, 2, 3], delivered = [] :: (nat \<times> int) list\<rparr>)"
  by (rule Port_outgoing_delivers) auto

end
