(* ===== verification/Elm_TaskManager.thy ===== *)
theory Elm_TaskManager
  imports Elm_Platform
begin

text \<open>
  The module \<^verbatim>\<open>Task\<close> of \<^verbatim>\<open>dist/Main.js\<close> on the tasks of the scheduler: the combinators, which may
  fail, and the effect manager that runs a command in a process of its own and sends the result to
  the program. A task object of the scheduler has a number (\<open>oid\<close>); \<open>main\<close> is the process of the
  program. Lists of values are built by the constructors \<open>nil\<close> and \<open>cons\<close> of the value type.
\<close>

subsection \<open>Combinators\<close>

definition STask_map :: "('v val \<Rightarrow> 'v val) \<Rightarrow> 'v stask \<Rightarrow> 'v stask" where
  "STask_map func taskA = T_andThen (\<lambda>a. T_succeed (func a)) taskA"

definition STask_map2 :: "('v val \<Rightarrow> 'v val \<Rightarrow> 'v val) \<Rightarrow> 'v stask \<Rightarrow> 'v stask \<Rightarrow> 'v stask" where
  "STask_map2 func taskA taskB =
     T_andThen (\<lambda>a. T_andThen (\<lambda>b. T_succeed (func a b)) taskB) taskA"

definition STask_map3 ::
  "('v val \<Rightarrow> 'v val \<Rightarrow> 'v val \<Rightarrow> 'v val) \<Rightarrow> 'v stask \<Rightarrow> 'v stask \<Rightarrow> 'v stask \<Rightarrow> 'v stask" where
  "STask_map3 func taskA taskB taskC =
     T_andThen (\<lambda>a. T_andThen (\<lambda>b. T_andThen (\<lambda>c. T_succeed (func a b c)) taskC) taskB) taskA"

definition STask_map4 ::
  "('v val \<Rightarrow> 'v val \<Rightarrow> 'v val \<Rightarrow> 'v val \<Rightarrow> 'v val) \<Rightarrow>
   'v stask \<Rightarrow> 'v stask \<Rightarrow> 'v stask \<Rightarrow> 'v stask \<Rightarrow> 'v stask" where
  "STask_map4 func taskA taskB taskC taskD =
     T_andThen (\<lambda>a. T_andThen (\<lambda>b. T_andThen (\<lambda>c. T_andThen (\<lambda>d.
       T_succeed (func a b c d)) taskD) taskC) taskB) taskA"

definition STask_map5 ::
  "('v val \<Rightarrow> 'v val \<Rightarrow> 'v val \<Rightarrow> 'v val \<Rightarrow> 'v val \<Rightarrow> 'v val) \<Rightarrow>
   'v stask \<Rightarrow> 'v stask \<Rightarrow> 'v stask \<Rightarrow> 'v stask \<Rightarrow> 'v stask \<Rightarrow> 'v stask" where
  "STask_map5 func taskA taskB taskC taskD taskE =
     T_andThen (\<lambda>a. T_andThen (\<lambda>b. T_andThen (\<lambda>c. T_andThen (\<lambda>d. T_andThen (\<lambda>e.
       T_succeed (func a b c d e)) taskE) taskD) taskC) taskB) taskA"

definition STask_mapError :: "('v val \<Rightarrow> 'v val) \<Rightarrow> 'v stask \<Rightarrow> 'v stask" where
  "STask_mapError convert task = T_onError (\<lambda>e. T_fail (convert e)) task"

fun STask_sequence :: "'v val \<Rightarrow> ('v val \<Rightarrow> 'v val \<Rightarrow> 'v val) \<Rightarrow> 'v stask list \<Rightarrow> 'v stask" where
  "STask_sequence nil cons [] = T_succeed nil"
| "STask_sequence nil cons (t # ts) = STask_map2 cons t (STask_sequence nil cons ts)"

subsection \<open>The manager\<close>

datatype 'v task_cmd = Perform "'v stask"

definition Task_perform :: "('v val \<Rightarrow> 'v val) \<Rightarrow> 'v stask \<Rightarrow> 'v task_cmd" where
  "Task_perform toMessage task = Perform (STask_map toMessage task)"

definition Task_attempt :: "('v val + 'v val \<Rightarrow> 'v val) \<Rightarrow> 'v stask \<Rightarrow> 'v task_cmd" where
  "Task_attempt resultToMessage task =
     Perform (T_onError (\<lambda>e. T_succeed (resultToMessage (Inl e)))
       (T_andThen (\<lambda>v. T_succeed (resultToMessage (Inr v))) task))"

fun Task_cmdMap :: "('v val \<Rightarrow> 'v val) \<Rightarrow> 'v task_cmd \<Rightarrow> 'v task_cmd" where
  "Task_cmdMap tagger (Perform task) = Perform (STask_map tagger task)"

text \<open>\<^verbatim>\<open>sendToApp\<close> puts the message into the mailbox of the program's process and succeeds.\<close>

definition sendToApp :: "nat \<Rightarrow> nat \<Rightarrow> 'v val \<Rightarrow> 'v stask" where
  "sendToApp oid main msg = T_nativeBinding oid (NSend main msg)"

fun Task_spawnCmd :: "nat \<Rightarrow> nat \<Rightarrow> nat \<Rightarrow> 'v task_cmd \<Rightarrow> 'v stask" where
  "Task_spawnCmd oid oid' main (Perform task) =
     T_nativeBinding oid (NSpawn (T_andThen (sendToApp oid' main) task))"

definition Task_init :: "'v stask" where
  "Task_init = T_succeed VUnit"

definition Task_onEffects ::
  "nat \<Rightarrow> nat \<Rightarrow> nat \<Rightarrow> 'v val \<Rightarrow> ('v val \<Rightarrow> 'v val \<Rightarrow> 'v val) \<Rightarrow> 'v task_cmd list \<Rightarrow> 'v val \<Rightarrow> 'v stask" where
  "Task_onEffects oid oid' main nil cons commands state =
     STask_map (\<lambda>_. VUnit) (STask_sequence nil cons (List_map (Task_spawnCmd oid oid' main) commands))"

definition Task_onSelfMsg :: "'a \<Rightarrow> 'b \<Rightarrow> 'v stask" where
  "Task_onSelfMsg _ _ = T_succeed VUnit"

subsection \<open>What the combinators evaluate to\<close>

text \<open>\<open>gives t r\<close>: the task has the result \<open>r\<close>.\<close>

definition gives :: "'v stask \<Rightarrow> 'v val + 'v val \<Rightarrow> bool" where
  "gives t r \<longleftrightarrow> (\<exists>k. evals t k r)"

named_theorems gives_intros \<open>results of the task constructors\<close>

lemma gives_succeed [gives_intros]: "gives (T_succeed v) (Inr v)"
  by (auto simp: gives_def intro: evals.intros)

lemma gives_fail [gives_intros]: "gives (T_fail e) (Inl e)"
  by (auto simp: gives_def intro: evals.intros)

lemma gives_andThen:
  "gives t r \<Longrightarrow> (\<And>v. r = Inr v \<Longrightarrow> gives (f v) r') \<Longrightarrow> (\<And>e. r = Inl e \<Longrightarrow> r' = Inl e) \<Longrightarrow>
   gives (T_andThen f t) r'"
  by (cases r) (auto simp: gives_def intro: evals.intros)

lemma gives_onError:
  "gives t r \<Longrightarrow> (\<And>e. r = Inl e \<Longrightarrow> gives (f e) r') \<Longrightarrow> (\<And>v. r = Inr v \<Longrightarrow> r' = Inr v) \<Longrightarrow>
   gives (T_onError f t) r'"
  by (cases r) (auto simp: gives_def intro: evals.intros)

text \<open>The error monad: the first failure is the result.\<close>

definition bindR :: "'x + 'a \<Rightarrow> ('a \<Rightarrow> 'x + 'b) \<Rightarrow> 'x + 'b" where
  "bindR r f = (case r of Inl e \<Rightarrow> Inl e | Inr v \<Rightarrow> f v)"

lemma bindR_simps [simp]: "bindR (Inl e) f = Inl e" "bindR (Inr v) f = f v"
  by (simp_all add: bindR_def)

lemma gives_bind: "gives t r \<Longrightarrow> (\<And>v. gives (f v) (g v)) \<Longrightarrow> gives (T_andThen f t) (bindR r g)"
  by (rule gives_andThen [where r = r]) auto

fun sequenceR :: "'a \<Rightarrow> ('a \<Rightarrow> 'a \<Rightarrow> 'a) \<Rightarrow> ('x + 'a) list \<Rightarrow> 'x + 'a" where
  "sequenceR nil cons [] = Inr nil"
| "sequenceR nil cons (r # rs) = bindR r (\<lambda>v. bindR (sequenceR nil cons rs) (\<lambda>vs. Inr (cons v vs)))"

lemma gives_map: "gives t r \<Longrightarrow> gives (STask_map f t) (bindR r (\<lambda>a. Inr (f a)))"
  unfolding STask_map_def by (intro gives_bind gives_intros)

lemma gives_map2:
  "gives t r \<Longrightarrow> gives t' r' \<Longrightarrow> gives (STask_map2 f t t') (bindR r (\<lambda>a. bindR r' (\<lambda>b. Inr (f a b))))"
  unfolding STask_map2_def by (intro gives_bind gives_intros)

lemma gives_sequence:
  "list_all2 gives ts rs \<Longrightarrow> gives (STask_sequence nil cons ts) (sequenceR nil cons rs)"
  by (induction ts rs rule: list_all2_induct) (auto intro: gives_intros gives_map2)

text \<open>
  The combinators are those of an error monad: \<^verbatim>\<open>map5\<close> runs the tasks from left to right and stops at
  the first failure, \<^verbatim>\<open>mapError\<close> changes failures only, and \<^verbatim>\<open>sequence\<close> gives the list of the results
  or the first failure.
\<close>

theorem Task_combinators:
  assumes "gives tA rA" "gives tB rB" "gives tC rC" "gives tD rD" "gives tE rE" "list_all2 gives ts rs"
  shows "gives (STask_map5 f tA tB tC tD tE)
      (bindR rA (\<lambda>a. bindR rB (\<lambda>b. bindR rC (\<lambda>c. bindR rD (\<lambda>d. bindR rE (\<lambda>e. Inr (f a b c d e))))))) \<and>
    gives (STask_mapError h tA) (map_sum h id rA) \<and>
    gives (STask_sequence nil cons ts) (sequenceR nil cons rs)"
proof -
  have "gives (STask_map5 f tA tB tC tD tE)
      (bindR rA (\<lambda>a. bindR rB (\<lambda>b. bindR rC (\<lambda>c. bindR rD (\<lambda>d. bindR rE (\<lambda>e. Inr (f a b c d e)))))))"
    unfolding STask_map5_def using assms(1-5) by (intro gives_bind gives_intros)
  moreover have "gives (STask_mapError h tA) (map_sum h id rA)"
    unfolding STask_mapError_def using assms(1) by (rule gives_onError) (auto intro: gives_intros)
  ultimately show ?thesis
    using gives_sequence [OF assms(6)] by blast
qed

theorem Task_combinators_witness:
  "gives (STask_map5 (\<lambda>a b c d e. c) (T_succeed (VUser (1::nat))) (T_succeed VUnit) (T_fail (VUser 2)) (T_fail (VUser 3)) (T_succeed VUnit))
      (Inl (VUser 2)) \<and>
    gives (STask_mapError (\<lambda>_. VUnit) (T_succeed (VUser (1::nat)))) (Inr (VUser 1)) \<and>
    gives (STask_sequence VUnit (\<lambda>a b. a) [T_succeed (VUser (1::nat)), T_fail VUnit]) (Inl VUnit)"
proof -
  have l: "list_all2 gives [T_succeed (VUser (1::nat)), T_fail VUnit] [Inr (VUser 1), Inl VUnit]"
    by (simp add: gives_intros)
  show ?thesis
    using Task_combinators [OF gives_succeed [of "VUser (1::nat)"] gives_succeed [of VUnit] gives_fail [of "VUser 2"]
        gives_fail [of "VUser 3"] gives_succeed [of VUnit] l, of "\<lambda>a b c d e. c" "\<lambda>_. VUnit" VUnit "\<lambda>a b. a"]
    by simp
qed


subsection \<open>A command's process\<close>

text \<open>
  Running a task on top of a stack: after its steps the result stands on the stack, under frames
  of the other kind that the result skips.
\<close>

definition skipped :: "'v val + 'v val \<Rightarrow> 'v frame list \<Rightarrow> bool" where
  "skipped r es \<longleftrightarrow> (case r of Inr _ \<Rightarrow> list_all is_F_onError es | Inl _ \<Rightarrow> list_all (Not \<circ> is_F_onError) es)"

definition runs :: "nat \<Rightarrow> 'v stask \<Rightarrow> nat \<Rightarrow> 'v val + 'v val \<Rightarrow> bool" where
  "runs pid t k r \<longleftrightarrow>
     (\<forall>s p n. processes s pid = Some p \<and> proc_root p = Some t \<and> n + k \<le> MAX_STEPS \<longrightarrow>
       (\<exists>es. skipped r es \<and>
         step n pid s = step (n + k) pid (with_process pid (p\<lparr>proc_root := Some (task_of r), stack := es @ stack p\<rparr>) s)))"

definition push_frame :: "'v frame \<Rightarrow> 'v stask \<Rightarrow> 'v stask" where
  "push_frame f t = (case f of F_andThen cb \<Rightarrow> T_andThen cb t | F_onError cb \<Rightarrow> T_onError cb t)"

definition takes :: "'v frame \<Rightarrow> 'v val + 'v val \<Rightarrow> bool" where
  "takes f r \<longleftrightarrow> (case r of Inr _ \<Rightarrow> \<not> is_F_onError f | Inl _ \<Rightarrow> is_F_onError f)"

definition result_val :: "'v val + 'v val \<Rightarrow> 'v val" where
  "result_val r = (case r of Inr v \<Rightarrow> v | Inl e \<Rightarrow> e)"

lemma process_with [simp]: "processes (with_process pid q s) pid = Some q"
  by simp

lemma with_with [simp]: "with_process pid q (with_process pid p s) = with_process pid q s"
  by simp

lemma runs_result: "runs pid (task_of r) 0 r"
proof -
  have "with_process pid (p\<lparr>proc_root := Some (task_of r), stack := [] @ stack p\<rparr>) s = s"
    if "processes s pid = Some p" "proc_root p = Some (task_of r)" for s p
    using that by (cases p) (simp add: map_upd_triv)
  then show ?thesis
    unfolding runs_def by (intro allI impI exI [of _ "[]"]) (auto simp: skipped_def simp del: fun_upd_apply split: sum.split)
qed

lemma runsD:
  "runs pid t k r \<Longrightarrow> processes s pid = Some p \<Longrightarrow> proc_root p = Some t \<Longrightarrow> n + k \<le> MAX_STEPS \<Longrightarrow>
   \<exists>es. skipped r es \<and>
     step n pid s = step (n + k) pid (with_process pid (p\<lparr>proc_root := Some (task_of r), stack := es @ stack p\<rparr>) s)"
  unfolding runs_def by blast

lemma runs_push:
  assumes "runs pid t k r" "processes s pid = Some p" "proc_root p = Some (push_frame f t)" "n + k + 1 \<le> MAX_STEPS"
  shows "\<exists>es. skipped r es \<and> step n pid s = step (n + k + 1) pid
    (with_process pid (p\<lparr>proc_root := Some (task_of r), stack := es @ f # stack p\<rparr>) s)"
proof -
  let ?p = "p\<lparr>proc_root := Some t, stack := f # stack p\<rparr>"
  have "continue_step p = Some ?p"
    using assms(3) by (simp add: continue_step_def push_frame_def split: frame.splits)
  then have s1: "step n pid s = step (Suc n) pid (with_process pid ?p s)"
    using assms by (intro step_continue) auto
  have "\<exists>es. skipped r es \<and> step (Suc n) pid (with_process pid ?p s) = step (Suc n + k) pid
      (with_process pid (?p\<lparr>proc_root := Some (task_of r), stack := es @ stack ?p\<rparr>) (with_process pid ?p s))"
    by (rule runsD [OF assms(1)]) (use assms(4) in simp_all)
  then obtain es where "skipped r es" "step (Suc n) pid (with_process pid ?p s) = step (Suc n + k) pid
      (with_process pid (?p\<lparr>proc_root := Some (task_of r), stack := es @ stack ?p\<rparr>) (with_process pid ?p s))"
    by blast
  with s1 show ?thesis
    by (intro exI [of _ es]) (simp del: fun_upd_apply)
qed

lemma runs_skip: "runs pid t k r \<Longrightarrow> \<not> takes f r \<Longrightarrow> runs pid (push_frame f t) (k + 1) r"
proof -
  assume t: "runs pid t k r" and f: "\<not> takes f r"
  have "\<exists>es. skipped r es \<and>
      step n pid s = step (n + (k + 1)) pid (with_process pid (p\<lparr>proc_root := Some (task_of r), stack := es @ stack p\<rparr>) s)"
    if p: "processes s pid = Some p" "proc_root p = Some (push_frame f t)" "n + (k + 1) \<le> MAX_STEPS" for s p n
  proof -
    obtain es where "skipped r es" "step n pid s = step (n + k + 1) pid
      (with_process pid (p\<lparr>proc_root := Some (task_of r), stack := es @ f # stack p\<rparr>) s)"
      using runs_push [OF t p(1,2)] p(3) by auto
    with f show ?thesis
      by (intro exI [of _ "es @ [f]"])
        (auto simp: skipped_def takes_def simp del: fun_upd_apply split: sum.splits)
  qed
  then show ?thesis
    unfolding runs_def by blast
qed

lemma dropWhile_skipped:
  assumes "skipped r es" "takes f r"
  shows "continue_step (p\<lparr>proc_root := Some (task_of r), stack := es @ f # stk\<rparr>) =
    Some (p\<lparr>proc_root := Some (frame_callback f (result_val r)), stack := stk\<rparr>)"
proof (cases r)
  case (Inr v)
  with assms have "dropWhile is_F_onError (es @ f # stk) = f # stk"
    by (induction es) (auto simp: skipped_def takes_def)
  with Inr show ?thesis
    by (simp add: continue_step_def task_of_def result_val_def)
next
  case (Inl e)
  with assms have "dropWhile (Not \<circ> is_F_onError) (es @ f # stk) = f # stk"
    by (induction es) (auto simp: skipped_def takes_def)
  with Inl show ?thesis
    by (simp add: continue_step_def task_of_def result_val_def)
qed

text \<open>A frame that takes the result continues with its callback.\<close>

lemma runs_take:
  assumes "runs pid t k r" "takes f r" "processes s pid = Some p" "proc_root p = Some (push_frame f t)"
    "n + k + 2 \<le> MAX_STEPS"
  shows "step n pid s = step (n + k + 2) pid (with_process pid (p\<lparr>proc_root := Some (frame_callback f (result_val r))\<rparr>) s)"
proof -
  obtain es where es: "skipped r es" "step n pid s = step (n + k + 1) pid
      (with_process pid (p\<lparr>proc_root := Some (task_of r), stack := es @ f # stack p\<rparr>) s)"
    using runs_push [OF assms(1,3,4), of n] assms(5) by auto
  have "p\<lparr>proc_root := Some (frame_callback f (result_val r)), stack := stack p\<rparr> =
    p\<lparr>proc_root := Some (frame_callback f (result_val r))\<rparr>"
    by (cases p) simp
  with es step_continue [OF _ process_with dropWhile_skipped [OF es(1) assms(2)], of "n + k + 1"] assms(5)
  show ?thesis
    by (simp del: fun_upd_apply)
qed

lemma runs_bind:
  assumes "runs pid t k r" "takes f r" "runs pid (frame_callback f (result_val r)) j r'"
  shows "runs pid (push_frame f t) (k + j + 2) r'"
proof -
  have "\<exists>es. skipped r' es \<and>
      step n pid s = step (n + (k + j + 2)) pid (with_process pid (p\<lparr>proc_root := Some (task_of r'), stack := es @ stack p\<rparr>) s)"
    if p: "processes s pid = Some p" "proc_root p = Some (push_frame f t)" "n + (k + j + 2) \<le> MAX_STEPS" for s p n
  proof -
    let ?p = "p\<lparr>proc_root := Some (frame_callback f (result_val r))\<rparr>"
    have s1: "step n pid s = step (n + k + 2) pid (with_process pid ?p s)"
      using p(3) by (intro runs_take [OF assms(1,2) p(1,2)]) simp
    have "\<exists>es. skipped r' es \<and> step (n + k + 2) pid (with_process pid ?p s) = step (n + k + 2 + j) pid
        (with_process pid (?p\<lparr>proc_root := Some (task_of r'), stack := es @ stack ?p\<rparr>) (with_process pid ?p s))"
      by (rule runsD [OF assms(3)]) (use p(3) in simp_all)
    with s1 show ?thesis
      by (simp add: add.commute add.left_commute del: fun_upd_apply)
  qed
  then show ?thesis
    unfolding runs_def by blast
qed

lemma evals_runs: "evals t k r \<Longrightarrow> runs pid t k r"
proof (induction rule: evals.induct)
  case (ev_succeed v)
  show ?case
    using runs_result [of pid "Inr v"] by (simp add: task_of_def)
next
  case (ev_fail e)
  show ?case
    using runs_result [of pid "Inl e"] by (simp add: task_of_def)
next
  case (ev_andThen t k v callback j r)
  then show ?case
    using runs_bind [of pid t k "Inr v" "F_andThen callback" j r] by (simp add: takes_def result_val_def push_frame_def)
next
  case (ev_andThen_fail t k e callback)
  then show ?case
    using runs_skip [of pid t k "Inl e" "F_andThen callback"] by (simp add: takes_def push_frame_def)
next
  case (ev_onError t k e callback j r)
  then show ?case
    using runs_bind [of pid t k "Inl e" "F_onError callback" j r] by (simp add: takes_def result_val_def push_frame_def)
next
  case (ev_onError_ok t k v callback)
  then show ?case
    using runs_skip [of pid t k "Inr v" "F_onError callback"] by (simp add: takes_def push_frame_def)
qed


text \<open>
  A command's process sends the result of the task to the program within one call of \<^verbatim>\<open>step\<close>; when
  the task fails, the program gets nothing.
\<close>

lemma command_process_delivers:
  assumes "processes s pid = Some \<lparr>proc_root = Some (T_andThen (sendToApp oid main) task), stack = [], mailbox = mb\<rparr>"
    and "processes s main = Some m" and "pid \<noteq> main"
    and "evals task k r" and "k + 2 < MAX_STEPS"
  shows "\<exists>n s'. step 0 pid s = (Inr n, s') \<and>
    (case r of
       Inr msg \<Rightarrow> processes s' main = Some (m\<lparr>mailbox := mailbox m @ [msg]\<rparr>) \<and> main \<in> set (workQueue s')
     | Inl _ \<Rightarrow> processes s' main = Some m)"
proof (cases r)
  case (Inr msg)
  let ?p = "\<lparr>proc_root = Some (sendToApp oid main msg), stack = [], mailbox = mb\<rparr>"
  have "step 0 pid s = step (k + 2) pid (with_process pid ?p s)"
    using runs_take [OF evals_runs [OF assms(4)], of "F_andThen (sendToApp oid main)" s pid _ 0] assms(1,5) Inr
    by (simp add: takes_def push_frame_def result_val_def)
  moreover have "step (k + 2) pid (with_process pid ?p s) = (Inr (k + 3),
      (resume pid (T_succeed VUnit) (rawSend main msg (with_process pid ?p s)))
        \<lparr>cancels := (cancels (resume pid (T_succeed VUnit) (rawSend main msg (with_process pid ?p s))))(oid := None)\<rparr>)"
    using assms(5)
    by (subst step.simps) (simp add: continue_step_def break_step_def sendToApp_def run_native_def)
  ultimately show ?thesis
    using assms(2,3) Inr
    by (simp add: resume_def rawSend_def enqueue_def update_process_def setTimeout_def Let_def)
next
  case (Inl e)
  have "evals (T_andThen (sendToApp oid main) task) (k + 1) (Inl e)"
    using assms(4) unfolding Inl by (rule ev_andThen_fail)
  then have "process_evals \<lparr>proc_root = Some (T_andThen (sendToApp oid main) task), stack = [], mailbox = mb\<rparr> (k + 1) (Inl e)"
    using process_evalsI [of _ _ "k + 1" "Inl e" 0] by (simp add: un_Nil)
  from step_slice [OF assms(1) this, of 0] show ?thesis
    using assms(2,3,5) Inl by simp
qed

text \<open>
  From a command to its message. When the manager performs a command, a new process is queued and the
  manager goes on with the identity of that process. When that process gets its turn, the result of the
  task is put into the mailbox of the program's process, which is queued, too, provided the task succeeds
  within the budget of the turn; when it fails, the program gets nothing. This is claim C37.
\<close>

theorem Task_command_delivered:
  assumes "processes s mid = Some p" "proc_root p = Some (Task_spawnCmd oid oid' main (Perform task))"
    and "processes s main = Some m" "mid \<noteq> main" "processes s (guid s) = None"
    and "evals task k r" "k + 2 < MAX_STEPS"
  shows "\<exists>s1 n s2. step 0 mid s = (Inr 1, s1) \<and>
    processes s1 mid = Some (p\<lparr>proc_root := Some (T_succeed (VProcess (guid s)))\<rparr>) \<and>
    guid s \<in> set (workQueue s1) \<and> mid \<in> set (workQueue s1) \<and>
    step 0 (guid s) s1 = (Inr n, s2) \<and>
    (case r of
       Inr msg \<Rightarrow> processes s2 main = Some (m\<lparr>mailbox := mailbox m @ [msg]\<rparr>) \<and> main \<in> set (workQueue s2)
     | Inl _ \<Rightarrow> processes s2 main = Some m)"
proof -
  let ?t = "T_andThen (sendToApp oid' main) task"
  let ?c = "\<lparr>proc_root = Some ?t, stack = [], mailbox = []\<rparr>"
  define s1 where "s1 = (let s' = resume mid (T_succeed (VProcess (guid s))) (snd (rawSpawn ?t s))
    in s'\<lparr>cancels := (cancels s')(oid := None)\<rparr>)"
  have "step 0 mid s = (Inr 1, s1)"
    using assms(1,2)
    by (subst step.simps)
      (simp add: continue_step_def break_step_def run_native_def rawSpawn_def s1_def Let_def MAX_STEPS_def)
  moreover have ne: "guid s \<noteq> main" "guid s \<noteq> mid"
    using assms(1,3,5) by auto
  then have "processes s1 (guid s) = Some ?c" "processes s1 main = Some m"
    "processes s1 mid = Some (p\<lparr>proc_root := Some (T_succeed (VProcess (guid s)))\<rparr>)"
    "guid s \<in> set (workQueue s1)" "mid \<in> set (workQueue s1)"
    using assms(1,3,4)
    by (simp_all add: s1_def resume_def rawSpawn_def enqueue_def update_process_def setTimeout_def Let_def)
  moreover from command_process_delivers [OF this(1,2) ne(1) assms(6,7)]
  obtain n s2 where "step 0 (guid s) s1 = (Inr n, s2)"
    "case r of
       Inr msg \<Rightarrow> processes s2 main = Some (m\<lparr>mailbox := mailbox m @ [msg]\<rparr>) \<and> main \<in> set (workQueue s2)
     | Inl _ \<Rightarrow> processes s2 main = Some m" by blast
  ultimately show ?thesis by blast
qed

definition one_command :: "nat sched" where
  "one_command = sched_init\<lparr>processes := [0 \<mapsto> \<lparr>proc_root = Some (T_receive T_succeed), stack = [], mailbox = []\<rparr>,
     1 \<mapsto> \<lparr>proc_root = Some (Task_spawnCmd 4 5 0 (Perform (T_succeed (VUser 7)))), stack = [], mailbox = []\<rparr>],
     guid := 2\<rparr>"

theorem Task_command_delivered_witness:
  "\<exists>s1 n s2. step 0 1 one_command = (Inr 1, s1) \<and> 2 \<in> set (workQueue s1) \<and>
    step 0 2 s1 = (Inr n, s2) \<and>
    processes s2 0 = Some \<lparr>proc_root = Some (T_receive T_succeed), stack = [], mailbox = [VUser 7]\<rparr>"
  using Task_command_delivered [of one_command 1 _ 4 5 0 "T_succeed (VUser 7)" _ 0 "Inr (VUser 7)"]
  by (fastforce simp: one_command_def MAX_STEPS_def ev_succeed)

text \<open>
  \<^verbatim>\<open>attempt\<close> turns every result into a message: the task of its command never fails.
\<close>

theorem Task_attempt_total:
  assumes "gives task r"
  shows "\<exists>t. Task_attempt resultToMessage task = Perform t \<and> gives t (Inr (resultToMessage r)) \<and>
    Task_cmdMap tagger (Task_attempt resultToMessage task) = Perform (STask_map tagger t) \<and>
    gives (STask_map tagger t) (Inr (tagger (resultToMessage r)))"
proof -
  let ?t = "T_onError (\<lambda>e. T_succeed (resultToMessage (Inl e)))
       (T_andThen (\<lambda>v. T_succeed (resultToMessage (Inr v))) task)"
  have "gives (T_andThen (\<lambda>v. T_succeed (resultToMessage (Inr v))) task) (bindR r (\<lambda>v. Inr (resultToMessage (Inr v))))"
    using assms by (intro gives_bind gives_intros)
  then have t: "gives ?t (Inr (resultToMessage r))"
    by (rule gives_onError) (cases r; auto intro: gives_intros)+
  with gives_map [OF t, of tagger] show ?thesis
    by (simp add: Task_attempt_def)
qed

theorem Task_attempt_total_witness:
  "\<exists>t. Task_attempt (\<lambda>r. case r of Inl e \<Rightarrow> e | Inr v \<Rightarrow> VUnit) (T_fail (VUser (3::nat))) = Perform t \<and> gives t (Inr (VUser 3))"
  using Task_attempt_total [OF gives_fail [of "VUser (3::nat)"], of "\<lambda>r. case r of Inl e \<Rightarrow> e | Inr v \<Rightarrow> VUnit" id]
  by auto

end
