(* ===== verification/Elm_VirtualDom_Keyed.thy ===== *)
theory Elm_VirtualDom_Keyed
  imports Elm_Json
begin

text \<open>
  The difference of the children of two keyed nodes (\<^verbatim>\<open>diffKeyedChildren\<close>, \<^verbatim>\<open>insertNode\<close> and \<^verbatim>\<open>removeNode\<close> of
  \<^verbatim>\<open>Native.VirtualDom\<close>). The code walks over both lists with one child of look-ahead and keeps, in the
  object \<^verbatim>\<open>changes\<close>, an entry for every key it has removed or inserted, so that a child that is removed
  in one place and inserted in another is moved.

  Entries and patches are objects that the code changes later. An entry is a position in \<open>entries\<close>, and
  the patch of an entry a position in \<open>localPatches\<close>. The calls of \<^verbatim>\<open>diffHelp\<close> for pairs of children are
  recorded with their index; \<open>diffHelp\<close> of \<^verbatim>\<open>Elm_VirtualDom\<close> makes the patches of them. The functions work
  on any type of nodes with a count of descendants \<open>dc\<close>.
\<close>

subsection \<open>The algorithm\<close>

datatype entry_tag = E_insert | E_remove | E_move

record 'n entry =
  e_tag :: entry_tag
  e_vnode :: 'n
  e_index :: "nat option"
  e_data :: "nat option"

text \<open>
  \<open>Local_diff a b i\<close> stands for the patches that \<^verbatim>\<open>diffHelp(a, b, localPatches, i)\<close> pushes;
  \<open>Local_remove i (Some (a, b, e))\<close> for the patch \<^verbatim>\<open>p-remove\<close> whose data has the patches from \<open>a\<close> to \<open>b\<close>
  and the entry \<open>e\<close>.
\<close>

datatype 'n local_patch =
    Local_diff 'n 'n nat
  | Local_remove nat "('n \<times> 'n \<times> nat) option"

record 'n keyed_state =
  localPatches :: "'n local_patch list"
  changes :: "(string \<times> nat) list"
  entries :: "'n entry list"
  inserts :: "(nat \<times> nat) list"
  endInserts :: "nat list option"

definition POSTFIX :: string where
  "POSTFIX = ''_elmW6BL''"

text \<open>
  \<^verbatim>\<open>changes[key]\<close>: undefined, an entry, or something the object inherits, which has no \<^verbatim>\<open>tag\<close> and counts as
  a duplicate.
\<close>

datatype lookup = Unseen | Entry nat | Inherited

definition change :: "string \<Rightarrow> 'n keyed_state \<Rightarrow> lookup" where
  "change key st =
     (case map_of (changes st) key of
        Some e \<Rightarrow> Entry e
      | None \<Rightarrow> if key \<in> set object_prototype then Inherited else Unseen)"

definition push_insert :: "nat option \<Rightarrow> nat \<Rightarrow> 'n keyed_state \<Rightarrow> 'n keyed_state" where
  "push_insert bIndex e st =
     (case bIndex of
        Some i \<Rightarrow> st\<lparr>inserts := inserts st @ [(i, e)]\<rparr>
      | None \<Rightarrow> st\<lparr>endInserts := map_option (\<lambda>l. l @ [e]) (endInserts st)\<rparr>)"

definition add_entry :: "string \<Rightarrow> 'n entry \<Rightarrow> 'n keyed_state \<Rightarrow> 'n keyed_state" where
  "add_entry key entry st =
     st\<lparr>changes := (key, length (entries st)) # changes st, entries := entries st @ [entry]\<rparr>"

text \<open>The patch of an entry that is removed gets its data when the entry is found again.\<close>

definition set_patch_data :: "nat option \<Rightarrow> 'n \<times> 'n \<times> nat \<Rightarrow> 'n keyed_state \<Rightarrow> 'n keyed_state" where
  "set_patch_data patch data st =
     (case patch of
        Some j \<Rightarrow>
          (case localPatches st ! j of
             Local_remove i _ \<Rightarrow> st\<lparr>localPatches := (localPatches st)[j := Local_remove i (Some data)]\<rparr>
           | Local_diff _ _ _ \<Rightarrow> st)
      | None \<Rightarrow> st)"

definition longer_keys :: "string \<Rightarrow> 'n keyed_state \<Rightarrow> nat" where
  "longer_keys key st =
     length (filter (\<lambda>k. length key \<le> length k) (map fst (changes st) @ object_prototype))"

lemma longer_keys_POSTFIX:
  assumes "change key st \<noteq> Unseen"
  shows "longer_keys (key @ POSTFIX) st < longer_keys key st"
proof -
  let ?ks = "map fst (changes st) @ object_prototype"
  have mem: "key \<in> set ?ks"
    using assms by (auto simp: change_def dest!: map_of_SomeD split: option.splits if_splits intro: rev_image_eqI)
  have "length (filter (\<lambda>k. length (key @ POSTFIX) \<le> length k) ks) < length (filter (\<lambda>k. length key \<le> length k) ks)"
    if "key \<in> set ks" for ks :: "string list"
  proof -
    have le: "length (filter (\<lambda>k. length (key @ POSTFIX) \<le> length k) ks) \<le> length (filter (\<lambda>k. length key \<le> length k) ks)"
      for ks :: "string list"
      by (induction ks) (auto simp: POSTFIX_def)
    from that show ?thesis
    proof (induction ks)
      case (Cons k ks)
      with le [of ks] show ?case by (auto simp: POSTFIX_def)
    qed simp
  qed
  from this [OF mem] show ?thesis by (simp add: longer_keys_def)
qed

function insertNode :: "string \<Rightarrow> 'n \<Rightarrow> nat option \<Rightarrow> 'n keyed_state \<Rightarrow> 'n keyed_state" where
  "insertNode key vnode bIndex st =
     (case change key st of
        Unseen \<Rightarrow>
          push_insert bIndex (length (entries st))
            (add_entry key \<lparr>e_tag = E_insert, e_vnode = vnode, e_index = bIndex, e_data = None\<rparr> st)
      | Entry e \<Rightarrow>
          (let entry = entries st ! e in
           if e_tag entry = E_remove then
             set_patch_data (e_data entry) (e_vnode entry, vnode, e)
               (push_insert bIndex e
                  (st\<lparr>entries := (entries st)[e := entry\<lparr>e_tag := E_move, e_index := bIndex\<rparr>]\<rparr>))
           else insertNode (key @ POSTFIX) vnode bIndex st)
      | Inherited \<Rightarrow> insertNode (key @ POSTFIX) vnode bIndex st)"
  by pat_completeness auto
termination
  by (relation "measure (\<lambda>(key, _, _, st). longer_keys key st)") (auto intro: longer_keys_POSTFIX)

function removeNode :: "string \<Rightarrow> 'n \<Rightarrow> nat \<Rightarrow> 'n keyed_state \<Rightarrow> 'n keyed_state" where
  "removeNode key vnode i st =
     (case change key st of
        Unseen \<Rightarrow>
          (add_entry key \<lparr>e_tag = E_remove, e_vnode = vnode, e_index = Some i, e_data = Some (length (localPatches st))\<rparr> st)
            \<lparr>localPatches := localPatches st @ [Local_remove i None]\<rparr>
      | Entry e \<Rightarrow>
          (let entry = entries st ! e in
           if e_tag entry = E_insert then
             st\<lparr>entries := (entries st)[e := entry\<lparr>e_tag := E_move\<rparr>],
                localPatches := localPatches st @ [Local_remove i (Some (vnode, e_vnode entry, e))]\<rparr>
           else removeNode (key @ POSTFIX) vnode i st)
      | Inherited \<Rightarrow> removeNode (key @ POSTFIX) vnode i st)"
  by pat_completeness auto
termination
  by (relation "measure (\<lambda>(key, _, _, st). longer_keys key st)") (auto intro: longer_keys_POSTFIX)

declare insertNode.simps [simp del] removeNode.simps [simp del]

definition push_diff :: "'n \<Rightarrow> 'n \<Rightarrow> nat \<Rightarrow> 'n keyed_state \<Rightarrow> 'n keyed_state" where
  "push_diff a b i st = st\<lparr>localPatches := localPatches st @ [Local_diff a b i]\<rparr>"

text \<open>
  The loop with look-ahead, on the children that are left on both sides. It returns what is left when it
  stops, with the index and the state.
\<close>

definition matches :: "string \<Rightarrow> (string \<times> 'n) list \<Rightarrow> bool" where
  "matches key kids = (case kids of [] \<Rightarrow> False | (k, _) # _ \<Rightarrow> key = k)"

function keyed_loop ::
  "('n \<Rightarrow> nat) \<Rightarrow> (string \<times> 'n) list \<Rightarrow> (string \<times> 'n) list \<Rightarrow> nat \<Rightarrow> nat \<Rightarrow> 'n keyed_state \<Rightarrow>
   (string \<times> 'n) list \<times> (string \<times> 'n) list \<times> nat \<times> 'n keyed_state" where
  "keyed_loop dc [] bs bIndex i st = ([], bs, i, st)"
| "keyed_loop dc (a # as) [] bIndex i st = (a # as, [], i, st)"
| "keyed_loop dc ((aKey, aNode) # as) ((bKey, bNode) # bs) bIndex i st =
     (let next = i + 1 + dc aNode in
      if aKey = bKey then
        keyed_loop dc as bs (bIndex + 1) next (push_diff aNode bNode (i + 1) st)
      else if matches aKey bs \<and> matches bKey as then
        keyed_loop dc (tl as) (tl bs) (bIndex + 2) (next + 1 + dc (snd (hd as)))
          (removeNode aKey (snd (hd as)) (next + 1)
             (insertNode aKey bNode (Some bIndex) (push_diff aNode (snd (hd bs)) (i + 1) st)))
      else if matches aKey bs then
        keyed_loop dc as (tl bs) (bIndex + 2) next
          (push_diff aNode (snd (hd bs)) (i + 1) (insertNode bKey bNode (Some bIndex) st))
      else if matches bKey as then
        keyed_loop dc (tl as) bs (bIndex + 1) (next + 1 + dc (snd (hd as)))
          (push_diff (snd (hd as)) bNode (next + 1) (removeNode aKey aNode (i + 1) st))
      else if as \<noteq> [] \<and> bs \<noteq> [] \<and> fst (hd as) = fst (hd bs) then
        keyed_loop dc (tl as) (tl bs) (bIndex + 2) (next + 1 + dc (snd (hd as)))
          (push_diff (snd (hd as)) (snd (hd bs)) (next + 1)
             (insertNode bKey bNode (Some bIndex) (removeNode aKey aNode (i + 1) st)))
      else ((aKey, aNode) # as, (bKey, bNode) # bs, i, st))"
  by pat_completeness auto
termination by (relation "measure (\<lambda>(_, as, bs, _). length as + length bs)") auto

text \<open>The children that are left are removed and inserted.\<close>

fun remove_rest :: "('n \<Rightarrow> nat) \<Rightarrow> (string \<times> 'n) list \<Rightarrow> nat \<Rightarrow> 'n keyed_state \<Rightarrow> 'n keyed_state" where
  "remove_rest dc [] i st = st"
| "remove_rest dc ((aKey, aNode) # as) i st =
     remove_rest dc as (i + 1 + dc aNode) (removeNode aKey aNode (i + 1) st)"

fun insert_rest :: "(string \<times> 'n) list \<Rightarrow> 'n keyed_state \<Rightarrow> 'n keyed_state" where
  "insert_rest [] st = st"
| "insert_rest ((bKey, bNode) # bs) st =
     insert_rest bs (insertNode bKey bNode None
       (st\<lparr>endInserts := Some (case endInserts st of Some l \<Rightarrow> l | None \<Rightarrow> [])\<rparr>))"

definition no_changes :: "'n keyed_state" where
  "no_changes = \<lparr>localPatches = [], changes = [], entries = [], inserts = [], endInserts = None\<rparr>"

definition diffKeyed ::
  "('n \<Rightarrow> nat) \<Rightarrow> (string \<times> 'n) list \<Rightarrow> (string \<times> 'n) list \<Rightarrow> nat \<Rightarrow> 'n keyed_state" where
  "diffKeyed dc as bs rootIndex =
     (case keyed_loop dc as bs 0 rootIndex no_changes of
        (as', bs', i, st) \<Rightarrow> insert_rest bs' (remove_rest dc as' i st))"


subsection \<open>The invariant\<close>

text \<open>
  There is one local patch for every child of the old list that has been handled, at the index of the
  child. \<open>g\<close> gives the new node of every entry. Entries that are inserted or moved stand in one of the
  lists of insertions once; the patch of a removed entry has no data yet, and that of a moved entry has
  the entry. The new nodes, with the insertions put in at their places and the others appended, are the
  children of the new list that have been handled.
\<close>

definition insert_at :: "nat \<Rightarrow> 'a \<Rightarrow> 'a list \<Rightarrow> 'a list" where
  "insert_at i x l = take i l @ x # drop i l"

fun place :: "(nat \<times> 'a) list \<Rightarrow> 'a list \<Rightarrow> 'a list" where
  "place [] l = l"
| "place ((i, x) # ins) l = place ins (insert_at i x l)"

fun place_ok :: "(nat \<times> 'a) list \<Rightarrow> nat \<Rightarrow> bool" where
  "place_ok [] n \<longleftrightarrow> True"
| "place_ok ((i, x) # ins) n \<longleftrightarrow> i \<le> n \<and> place_ok ins (Suc n)"

lemma insert_at_length [simp]: "length (insert_at i x l) = Suc (length l)"
  by (simp add: insert_at_def)

lemma insert_at_append: "i \<le> length l \<Longrightarrow> insert_at i x (l @ l') = insert_at i x l @ l'"
  by (simp add: insert_at_def)

lemma insert_at_set [simp]: "set (insert_at i x l) = insert x (set l)"
  by (metis Un_insert_right append_take_drop_id insert_at_def list.set(2) set_append)

lemma insert_at_map: "map f (insert_at i x l) = insert_at i (f x) (map f l)"
  by (simp add: insert_at_def take_map drop_map)

lemma place_length [simp]: "length (place ins l) = length l + length ins"
  by (induction ins l rule: place.induct) auto

lemma place_snoc: "place (ins @ [(i, x)]) l = insert_at i x (place ins l)"
  by (induction ins l rule: place.induct) auto

lemma place_append: "place_ok ins (length l) \<Longrightarrow> place ins (l @ l') = place ins l @ l'"
  by (induction ins l rule: place.induct) (auto simp: insert_at_append)

lemma place_ok_snoc: "place_ok (ins @ [(i, x)]) n \<longleftrightarrow> place_ok ins n \<and> i \<le> n + length ins"
  by (induction ins n rule: place_ok.induct) auto

lemma place_ok_mono: "place_ok ins n \<Longrightarrow> n \<le> m \<Longrightarrow> place_ok ins m"
  by (induction ins n arbitrary: m rule: place_ok.induct) auto

lemma place_ok_map [simp]: "place_ok (map (\<lambda>(i, x). (i, f x)) ins) n = place_ok ins n"
  by (induction ins n rule: place_ok.induct) auto

lemma place_map: "map f (place ins l) = place (map (\<lambda>(i, x). (i, f x)) ins) (map f l)"
  by (induction ins l rule: place.induct) (auto simp: insert_at_map)

lemma place_set: "set (place ins l) = snd ` set ins \<union> set l"
  by (induction ins l rule: place.induct) auto

definition child_index :: "('n \<Rightarrow> nat) \<Rightarrow> nat \<Rightarrow> 'n list \<Rightarrow> nat \<Rightarrow> nat" where
  "child_index dc r as j = r + 1 + sum_list (map (\<lambda>x. dc x + 1) (take j as))"

definition kept :: "'n local_patch list \<Rightarrow> 'n list" where
  "kept ls = concat (map (\<lambda>l. case l of Local_diff _ y _ \<Rightarrow> [y] | _ \<Rightarrow> []) ls)"

definition ends :: "'n keyed_state \<Rightarrow> nat list" where
  "ends st = (case endInserts st of None \<Rightarrow> [] | Some l \<Rightarrow> l)"

definition local_ok :: "('n \<Rightarrow> nat) \<Rightarrow> nat \<Rightarrow> 'n list \<Rightarrow> (nat \<Rightarrow> 'n) \<Rightarrow> 'n entry list \<Rightarrow> nat \<Rightarrow> 'n local_patch \<Rightarrow> bool" where
  "local_ok dc r as g es j l \<longleftrightarrow>
     (case l of
        Local_diff x y i \<Rightarrow> x = as ! j \<and> i = child_index dc r as j
      | Local_remove i None \<Rightarrow> i = child_index dc r as j
      | Local_remove i (Some (x, y, e)) \<Rightarrow>
          x = as ! j \<and> i = child_index dc r as j \<and> y = g e \<and> e < length es \<and> e_tag (es ! e) = E_move)"

definition entry_ok :: "'n list \<Rightarrow> (nat \<Rightarrow> 'n) \<Rightarrow> 'n local_patch list \<Rightarrow> nat \<Rightarrow> 'n entry \<Rightarrow> bool" where
  "entry_ok as g ls e entry \<longleftrightarrow>
     (case e_tag entry of
        E_insert \<Rightarrow> e_vnode entry = g e
      | E_remove \<Rightarrow>
          (\<exists>j i. e_data entry = Some j \<and> j < length ls \<and> ls ! j = Local_remove i None \<and> e_vnode entry = as ! j)
      | E_move \<Rightarrow> (\<exists>j i x y. j < length ls \<and> ls ! j = Local_remove i (Some (x, y, e))))"

definition locals_inv :: "('n \<Rightarrow> nat) \<Rightarrow> nat \<Rightarrow> 'n list \<Rightarrow> (nat \<Rightarrow> 'n) \<Rightarrow> 'n entry list \<Rightarrow> 'n local_patch list \<Rightarrow> bool" where
  "locals_inv dc r as g es ls \<longleftrightarrow>
     (\<forall>j < length ls. local_ok dc r as g es j (ls ! j)) \<and>
     (\<forall>j j' i i' x x' y y' e. j < length ls \<and> j' < length ls \<and>
        ls ! j = Local_remove i (Some (x, y, e)) \<and> ls ! j' = Local_remove i' (Some (x', y', e)) \<longrightarrow> j = j')"

definition entries_inv :: "'n list \<Rightarrow> (nat \<Rightarrow> 'n) \<Rightarrow> 'n local_patch list \<Rightarrow> 'n entry list \<Rightarrow> bool" where
  "entries_inv as g ls es \<longleftrightarrow>
     (\<forall>e < length es. entry_ok as g ls e (es ! e)) \<and>
     (\<forall>e < length es. \<forall>e' < length es. e_tag (es ! e) = E_remove \<and> e_tag (es ! e') = E_remove \<and>
        e_data (es ! e) = e_data (es ! e') \<longrightarrow> e = e')"

definition inserts_inv :: "'n entry list \<Rightarrow> (nat \<times> nat) list \<Rightarrow> nat list \<Rightarrow> bool" where
  "inserts_inv es ins en \<longleftrightarrow>
     (\<forall>e. e \<in> snd ` set ins \<union> set en \<longleftrightarrow> e < length es \<and> e_tag (es ! e) \<noteq> E_remove) \<and>
     distinct (map snd ins @ en) \<and>
     (\<forall>i e. (i, e) \<in> set ins \<longrightarrow> e_index (es ! e) = Some i) \<and>
     (\<forall>e \<in> set en. e_index (es ! e) = None)"

definition placed :: "(nat \<Rightarrow> 'n) \<Rightarrow> (nat \<times> nat) list \<Rightarrow> nat list \<Rightarrow> 'n list \<Rightarrow> 'n list \<Rightarrow> bool" where
  "placed g ins en ks bs \<longleftrightarrow>
     place_ok ins (length ks) \<and> place (map (\<lambda>(i, e). (i, g e)) ins) ks @ map g en = bs"

definition keyed_inv ::
  "('n \<Rightarrow> nat) \<Rightarrow> nat \<Rightarrow> 'n list \<Rightarrow> (nat \<Rightarrow> 'n) \<Rightarrow> 'n list \<Rightarrow> 'n keyed_state \<Rightarrow> bool" where
  "keyed_inv dc r as g bs st \<longleftrightarrow>
     locals_inv dc r as g (entries st) (localPatches st) \<and>
     entries_inv as g (localPatches st) (entries st) \<and>
     inserts_inv (entries st) (inserts st) (ends st) \<and>
     (\<forall>k e. (k, e) \<in> set (changes st) \<longrightarrow> e < length (entries st)) \<and>
     placed g (inserts st) (ends st) (kept (localPatches st)) bs"

lemma kept_simps [simp]:
  "kept [] = []" "kept (ls @ ls') = kept ls @ kept ls'" "kept [Local_diff x y i] = [y]" "kept [Local_remove i d] = []"
  by (simp_all add: kept_def)

lemma kept_update:
  assumes "j < length ls" "ls ! j = Local_remove i d"
  shows "kept (ls[j := Local_remove i d']) = kept ls"
proof -
  have "map (\<lambda>l. case l of Local_diff _ y _ \<Rightarrow> [y] | _ \<Rightarrow> []) (ls[j := Local_remove i d']) =
    map (\<lambda>l. case l of Local_diff _ y _ \<Rightarrow> [y] | _ \<Rightarrow> []) ls"
    using assms by (auto simp: nth_list_update intro!: nth_equalityI)
  then show ?thesis by (simp add: kept_def)
qed

lemma placed_cong:
  assumes "placed g ins en ks bs" "\<And>e. e \<in> snd ` set ins \<union> set en \<Longrightarrow> g' e = g e"
  shows "placed g' ins en ks bs"
proof -
  have "map (\<lambda>(i, e). (i, g' e)) ins = map (\<lambda>(i, e). (i, g e)) ins" "map g' en = map g en"
    using assms(2) by force+
  with assms(1) show ?thesis unfolding placed_def by metis
qed

lemma placed_insert:
  assumes "placed g ins [] ks bs" "i \<le> length bs"
  shows "placed g (ins @ [(i, e)]) [] ks (insert_at i (g e) bs)"
  using assms by (auto simp: placed_def place_snoc place_ok_snoc)

lemma placed_end: "placed g ins en ks bs \<Longrightarrow> placed g ins (en @ [e]) ks (bs @ [g e])"
  by (auto simp: placed_def)

lemma placed_keep: "placed g ins [] ks bs \<Longrightarrow> placed g ins [] (ks @ [y]) (bs @ [y])"
  by (auto simp: placed_def intro: place_ok_mono place_append [THEN trans])

lemma inserts_inv_entry: "inserts_inv es ins en \<Longrightarrow> e \<in> snd ` set ins \<union> set en \<Longrightarrow> e < length es \<and> e_tag (es ! e) \<noteq> E_remove"
  unfolding inserts_inv_def by blast

lemma entry_ok_append: "entry_ok as g ls e en \<Longrightarrow> entry_ok as g (ls @ ls') e en"
proof (cases "e_tag en")
  case E_remove
  assume "entry_ok as g ls e en"
  with E_remove obtain j i where "e_data en = Some j" "j < length ls" "ls ! j = Local_remove i None" "e_vnode en = as ! j"
    by (auto simp: entry_ok_def)
  then have "e_data en = Some j \<and> j < length (ls @ ls') \<and> (ls @ ls') ! j = Local_remove i None \<and> e_vnode en = as ! j"
    by (simp add: nth_append)
  with E_remove show ?thesis unfolding entry_ok_def by (auto simp del: length_append)
next
  case E_move
  assume "entry_ok as g ls e en"
  with E_move obtain j i x y where "j < length ls" "ls ! j = Local_remove i (Some (x, y, e))"
    by (auto simp: entry_ok_def)
  then have "j < length (ls @ ls') \<and> (ls @ ls') ! j = Local_remove i (Some (x, y, e))"
    by (simp add: nth_append)
  with E_move show ?thesis unfolding entry_ok_def by (auto simp del: length_append)
qed (simp add: entry_ok_def)

lemma entry_ok_update:
  assumes "entry_ok as g ls e en" "ls ! j = Local_remove i None" "e_tag en = E_remove \<Longrightarrow> e_data en \<noteq> Some j"
  shows "entry_ok as g (ls[j := l]) e en"
proof (cases "e_tag en")
  case E_remove
  with assms(1) obtain k i' where "e_data en = Some k" "k < length ls" "ls ! k = Local_remove i' None" "e_vnode en = as ! k"
    by (auto simp: entry_ok_def)
  moreover from this(1) have "k \<noteq> j" using assms(3) E_remove by blast
  ultimately show ?thesis using E_remove by (simp add: entry_ok_def)
next
  case E_move
  with assms(1) obtain k i' x y where k: "k < length ls" "ls ! k = Local_remove i' (Some (x, y, e))"
    by (auto simp: entry_ok_def)
  moreover from k(2) assms(2) have "k \<noteq> j" by auto
  ultimately have "k < length (ls[j := l]) \<and> ls[j := l] ! k = Local_remove i' (Some (x, y, e))" by simp
  then show ?thesis using E_move unfolding entry_ok_def by (simp only: entry_tag.case) blast
qed (use assms(1) in \<open>simp add: entry_ok_def\<close>)

lemma entry_ok_goal: "entry_ok as g ls e en \<Longrightarrow> e_tag en \<noteq> E_insert \<or> g' e = g e \<Longrightarrow> entry_ok as g' ls e en"
  by (auto simp: entry_ok_def split: entry_tag.splits)

lemma entries_invD: "entries_inv as g ls es \<Longrightarrow> e < length es \<Longrightarrow> entry_ok as g ls e (es ! e)"
  by (simp add: entries_inv_def)

lemma entries_inv_append: "entries_inv as g ls es \<Longrightarrow> entries_inv as g (ls @ ls') es"
  unfolding entries_inv_def by (blast intro: entry_ok_append)

lemma locals_invI:
  assumes "\<And>j. j < length ls \<Longrightarrow> local_ok dc r as g es j (ls ! j)"
    "\<And>j j' i i' x x' y y' e. j < length ls \<Longrightarrow> j' < length ls \<Longrightarrow> ls ! j = Local_remove i (Some (x, y, e)) \<Longrightarrow>
       ls ! j' = Local_remove i' (Some (x', y', e)) \<Longrightarrow> j = j'"
  shows "locals_inv dc r as g es ls"
  unfolding locals_inv_def using assms by blast

lemma locals_invD:
  "locals_inv dc r as g es ls \<Longrightarrow> j < length ls \<Longrightarrow> local_ok dc r as g es j (ls ! j)"
  "locals_inv dc r as g es ls \<Longrightarrow> j < length ls \<Longrightarrow> j' < length ls \<Longrightarrow> ls ! j = Local_remove i (Some (x, y, e)) \<Longrightarrow>
     ls ! j' = Local_remove i' (Some (x', y', e)) \<Longrightarrow> j = j'"
  unfolding locals_inv_def by blast+

text \<open>Appending a local patch: its entry, if it has one, must be new among the patches.\<close>

lemma locals_inv_snoc:
  assumes "locals_inv dc r as g es ls" "local_ok dc r as g es (length ls) l"
    "\<And>j i x y e i' x' y'. l = Local_remove i (Some (x, y, e)) \<Longrightarrow> j < length ls \<Longrightarrow> ls ! j \<noteq> Local_remove i' (Some (x', y', e))"
  shows "locals_inv dc r as g es (ls @ [l])"
proof (rule locals_invI)
  fix j assume "j < length (ls @ [l])"
  with assms(2) locals_invD(1) [OF assms(1)] show "local_ok dc r as g es j ((ls @ [l]) ! j)"
    by (auto simp: nth_append less_Suc_eq)
next
  fix j j' i i' x x' y y' e
  assume *: "j < length (ls @ [l])" "j' < length (ls @ [l])" "(ls @ [l]) ! j = Local_remove i (Some (x, y, e))"
    "(ls @ [l]) ! j' = Local_remove i' (Some (x', y', e))"
  show "j = j'"
  proof (cases "j < length ls \<and> j' < length ls")
    case True
    with * locals_invD(2) [OF assms(1)] show ?thesis by (simp add: nth_append)
  next
    case False
    with * assms(3) show ?thesis by (auto simp: nth_append less_Suc_eq)
  qed
qed

text \<open>The local patches see of the entries only which are moved, and of \<open>g\<close> only the moved entries.\<close>

lemma locals_inv_cong:
  assumes "locals_inv dc r as g es ls"
    "\<And>e. e < length es \<Longrightarrow> e_tag (es ! e) = E_move \<Longrightarrow> e < length es' \<and> e_tag (es' ! e) = E_move \<and> g' e = g e"
  shows "locals_inv dc r as g' es' ls"
proof (rule locals_invI)
  fix j assume "j < length ls"
  from locals_invD(1) [OF assms(1) this] show "local_ok dc r as g' es' j (ls ! j)"
    using assms(2) by (auto simp: local_ok_def split: local_patch.splits option.splits)
qed (use locals_invD(2) [OF assms(1)] in blast)

text \<open>A pair of children that match.\<close>

lemma push_diff_inv:
  assumes "keyed_inv dc r as g bs st" "ends st = []" "i = child_index dc r as (length (localPatches st))"
    "x = as ! length (localPatches st)"
  shows "keyed_inv dc r as g (bs @ [y]) (push_diff x y i st)"
proof -
  let ?ls = "localPatches st"
  have "locals_inv dc r as g (entries st) (?ls @ [Local_diff x y i])"
    using assms by (intro locals_inv_snoc) (auto simp: keyed_inv_def local_ok_def)
  then show ?thesis
    using assms(1,2) placed_keep [of g "inserts st" "kept ?ls" bs y]
    by (simp add: keyed_inv_def push_diff_def ends_def entries_inv_append)
qed

text \<open>A new entry.\<close>

lemma entries_inv_new:
  assumes "entries_inv as g ls es" "entry_ok as g' ls (length es) en" "\<And>e. e < length es \<Longrightarrow> g' e = g e"
    "\<And>e. e_tag en = E_remove \<Longrightarrow> e < length es \<Longrightarrow> e_tag (es ! e) = E_remove \<Longrightarrow> e_data (es ! e) \<noteq> e_data en"
  shows "entries_inv as g' ls (es @ [en])"
proof -
  have "entry_ok as g' ls e ((es @ [en]) ! e)" if "e < length (es @ [en])" for e
    using that assms(2,3) entries_invD [OF assms(1), of e]
    by (auto simp: nth_append less_Suc_eq intro: entry_ok_goal)
  moreover have "e = e'" if "e < length (es @ [en])" "e' < length (es @ [en])" "e_tag ((es @ [en]) ! e) = E_remove"
    "e_tag ((es @ [en]) ! e') = E_remove" "e_data ((es @ [en]) ! e) = e_data ((es @ [en]) ! e')" for e e'
    using that assms(1,4) unfolding entries_inv_def
    by (cases "e < length es"; cases "e' < length es") (auto simp: nth_append less_Suc_eq)
  ultimately show ?thesis unfolding entries_inv_def by blast
qed

lemma inserts_inv_new:
  assumes "inserts_inv es ins en"
  shows "e_tag x = E_remove \<Longrightarrow> inserts_inv (es @ [x]) ins en"
    and "e_tag x \<noteq> E_remove \<Longrightarrow> e_index x = Some i \<Longrightarrow> inserts_inv (es @ [x]) (ins @ [(i, length es)]) en"
    and "e_tag x \<noteq> E_remove \<Longrightarrow> e_index x = None \<Longrightarrow> inserts_inv (es @ [x]) ins (en @ [length es])"
proof -
  have less: "e < length es" if "e \<in> snd ` set ins \<union> set en" for e using inserts_inv_entry [OF assms that] by blast
  then have new: "length es \<notin> snd ` set ins" "length es \<notin> set en" by blast+
  have nth: "(es @ [x]) ! e = es ! e" if "e \<in> snd ` set ins \<union> set en" for e using less [OF that] by (simp add: nth_append)
  have mem: "e \<in> snd ` set ins \<union> set en \<longleftrightarrow> e < length (es @ [x]) \<and> e \<noteq> length es \<and> e_tag ((es @ [x]) ! e) \<noteq> E_remove" for e
    using assms by (auto simp: inserts_inv_def nth_append less_Suc_eq)
  have idx: "e_index ((es @ [x]) ! e) = Some i" if "(i, e) \<in> set ins" for i e
    using assms that nth [of e] by (force simp: inserts_inv_def)
  have idx': "e_index ((es @ [x]) ! e) = None" if "e \<in> set en" for e
    using assms that nth [of e] by (auto simp: inserts_inv_def)
  have dist: "distinct (map snd ins @ en)" using assms by (simp add: inserts_inv_def)
  show "e_tag x = E_remove \<Longrightarrow> inserts_inv (es @ [x]) ins en"
    unfolding inserts_inv_def using mem idx idx' dist by (metis nth_append_length)
  show "e_tag x \<noteq> E_remove \<Longrightarrow> e_index x = Some i \<Longrightarrow> inserts_inv (es @ [x]) (ins @ [(i, length es)]) en"
    unfolding inserts_inv_def using mem idx idx' dist new by (auto simp: Un_iff)
  show "e_tag x \<noteq> E_remove \<Longrightarrow> e_index x = None \<Longrightarrow> inserts_inv (es @ [x]) ins (en @ [length es])"
    unfolding inserts_inv_def using mem idx idx' dist new by (auto simp: Un_iff)
qed

lemma inserts_inv_move:
  assumes "inserts_inv es ins en" "e < length es" "e_tag (es ! e) = E_remove" "e_tag x \<noteq> E_remove"
  shows "e_index x = Some i \<Longrightarrow> inserts_inv (es[e := x]) (ins @ [(i, e)]) en"
    and "e_index x = None \<Longrightarrow> inserts_inv (es[e := x]) ins (en @ [e])"
proof -
  have new: "e \<notin> snd ` set ins" "e \<notin> set en" using inserts_inv_entry [OF assms(1), of e] assms(3) by blast+
  have mem: "e' \<in> snd ` set ins \<union> set en \<longleftrightarrow> e' < length (es[e := x]) \<and> e' \<noteq> e \<and> e_tag (es[e := x] ! e') \<noteq> E_remove" for e'
    using assms(1-3) by (auto simp: inserts_inv_def nth_list_update)
  have idx: "e_index (es[e := x] ! e') = Some i" if "(i, e') \<in> set ins" for i e'
  proof -
    have "e' \<noteq> e" using new(1) that by force
    with assms(1) that show ?thesis by (auto simp: inserts_inv_def nth_list_update)
  qed
  have idx': "e_index (es[e := x] ! e') = None" if "e' \<in> set en" for e'
  proof -
    have "e' \<noteq> e" using new(2) that by blast
    with assms(1) that show ?thesis by (simp add: inserts_inv_def)
  qed
  have dist: "distinct (map snd ins @ en)" using assms by (simp add: inserts_inv_def)
  show "e_index x = Some i \<Longrightarrow> inserts_inv (es[e := x]) (ins @ [(i, e)]) en"
    unfolding inserts_inv_def using mem idx idx' dist new assms(2,4) by (auto simp: Un_iff)
  show "e_index x = None \<Longrightarrow> inserts_inv (es[e := x]) ins (en @ [e])"
    unfolding inserts_inv_def using mem idx idx' dist new assms(2,4) by (auto simp: Un_iff)
qed

lemma inserts_inv_retag:
  assumes "inserts_inv es ins en" "e_tag (es ! e) \<noteq> E_remove" "e_tag x \<noteq> E_remove" "e_index x = e_index (es ! e)"
  shows "inserts_inv (es[e := x]) ins en"
proof (cases "e < length es")
  case True
  have "e_index (es[e := x] ! e') = e_index (es ! e')" "e_tag (es[e := x] ! e') = E_remove \<longleftrightarrow> e_tag (es ! e') = E_remove" for e'
    using True assms(2-4) by (auto simp: nth_list_update)
  with assms(1) show ?thesis by (simp add: inserts_inv_def)
qed (use assms(1) in \<open>simp add: list_update_beyond\<close>)

text \<open>A removed entry that is inserted again.\<close>

lemma local_ok_entries:
  assumes "local_ok dc r as g es j l" "\<And>e. e < length es \<Longrightarrow> e_tag (es ! e) = E_move \<Longrightarrow> e < length es' \<and> e_tag (es' ! e) = E_move \<and> g' e = g e"
  shows "local_ok dc r as g' es' j l"
  using assms by (auto simp: local_ok_def split: local_patch.splits option.splits)

lemma move_inv:
  fixes en x :: "'n entry"
  assumes inv: "locals_inv dc r as g es ls" "entries_inv as g ls es"
    and e: "e < length es" "e_tag (es ! e) = E_remove" "e_data (es ! e) = Some j"
    and x: "e_tag x = E_move"
  shows "\<exists>i. j < length ls \<and> ls ! j = Local_remove i None \<and>
    locals_inv dc r as (g(e := v)) (es[e := x]) (ls[j := Local_remove i (Some (e_vnode (es ! e), v, e))]) \<and>
    entries_inv as (g(e := v)) (ls[j := Local_remove i (Some (e_vnode (es ! e), v, e))]) (es[e := x])"
proof -
  obtain i where j: "j < length ls" "ls ! j = Local_remove i None" "e_vnode (es ! e) = as ! j"
    using entries_invD [OF inv(2) e(1)] e(2,3) by (auto simp: entry_ok_def)
  let ?l = "Local_remove i (Some (e_vnode (es ! e), v, e))"
  let ?ls = "ls[j := ?l]"
  have i: "i = child_index dc r as j" using locals_invD(1) [OF inv(1) j(1)] j(2) by (simp add: local_ok_def)
  have none: "ls ! k \<noteq> Local_remove i' (Some (x', y', e))" if "k < length ls" for k i' x' y'
    using locals_invD(1) [OF inv(1) that] e(2) by (auto simp: local_ok_def)
  have "locals_inv dc r as (g(e := v)) (es[e := x]) ?ls"
  proof (rule locals_invI)
    fix k assume k: "k < length ?ls"
    show "local_ok dc r as (g(e := v)) (es[e := x]) k (?ls ! k)"
    proof (cases "k = j")
      case True
      with k j i e x show ?thesis by (simp add: local_ok_def)
    next
      case False
      with k have "local_ok dc r as g es k (?ls ! k)" using locals_invD(1) [OF inv(1), of k] by simp
      then show ?thesis by (rule local_ok_entries) (use e in \<open>auto simp: nth_list_update\<close>)
    qed
  next
    fix k k' i1 i2 x1 x2 y1 y2 e1
    assume *: "k < length ?ls" "k' < length ?ls" "?ls ! k = Local_remove i1 (Some (x1, y1, e1))"
      "?ls ! k' = Local_remove i2 (Some (x2, y2, e1))"
    show "k = k'"
    proof (cases "k = j \<or> k' = j")
      case True
      then show ?thesis
        using * none [of k i1 x1 y1] none [of k' i2 x2 y2] j(1) by (cases "k = j"; cases "k' = j") auto
    next
      case False
      with * locals_invD(2) [OF inv(1), of k k'] show ?thesis by simp
    qed
  qed
  moreover have "entry_ok as (g(e := v)) ?ls e' (es[e := x] ! e')" if e': "e' < length es" for e'
  proof (cases "e' = e")
    case True
    have "?ls ! j = ?l" "j < length ?ls" using j(1) by simp_all
    then have "\<exists>k i x y. k < length ?ls \<and> ?ls ! k = Local_remove i (Some (x, y, e))" by blast
    with True e(1) x show ?thesis by (simp add: entry_ok_def)
  next
    case False
    have ok: "entry_ok as g ls e' (es ! e')" using entries_invD [OF inv(2) e'] .
    have "e_data (es ! e') \<noteq> Some j" if "e_tag (es ! e') = E_remove"
      using inv(2) e e' that False unfolding entries_inv_def by auto
    with entry_ok_update [OF entry_ok_goal [OF ok, of "g(e := v)"] j(2)] False show ?thesis by simp
  qed
  then have "entries_inv as (g(e := v)) ?ls (es[e := x])"
    using inv(2) e x unfolding entries_inv_def by (auto simp: nth_list_update)
  ultimately show ?thesis using j by blast
qed

text \<open>An inserted entry whose old child is found.\<close>

lemma match_inv:
  assumes inv: "locals_inv dc r as g es ls" "entries_inv as g ls es"
    and e: "e < length es" "e_tag (es ! e) = E_insert"
    and l: "i = child_index dc r as (length ls)" "x = as ! length ls"
  shows "locals_inv dc r as g (es[e := (es ! e)\<lparr>e_tag := E_move\<rparr>]) (ls @ [Local_remove i (Some (x, e_vnode (es ! e), e))]) \<and>
    entries_inv as g (ls @ [Local_remove i (Some (x, e_vnode (es ! e), e))]) (es[e := (es ! e)\<lparr>e_tag := E_move\<rparr>])"
proof -
  let ?es = "es[e := (es ! e)\<lparr>e_tag := E_move\<rparr>]"
  let ?l = "Local_remove i (Some (x, e_vnode (es ! e), e))"
  have goal: "e_vnode (es ! e) = g e" using entries_invD [OF inv(2) e(1)] e(2) by (simp add: entry_ok_def)
  have "locals_inv dc r as g ?es (ls @ [?l])"
  proof (rule locals_inv_snoc)
    show "locals_inv dc r as g ?es ls"
      using inv(1) by (rule locals_inv_cong) (use e in \<open>auto simp: nth_list_update\<close>)
    show "local_ok dc r as g ?es (length ls) ?l" using goal l e(1) by (simp add: local_ok_def)
    show "ls ! j \<noteq> Local_remove i' (Some (x', y', e'))"
      if "?l = Local_remove i1 (Some (x1, y1, e'))" "j < length ls" for j i1 x1 y1 e' i' x' y'
      using locals_invD(1) [OF inv(1) that(2)] that(1) e(2) by (auto simp: local_ok_def)
  qed
  moreover have "entry_ok as g (ls @ [?l]) e' (?es ! e')" if "e' < length es" for e'
  proof (cases "e' = e")
    case True
    have "(ls @ [?l]) ! length ls = ?l" "length ls < length (ls @ [?l])" by simp_all
    then have "\<exists>k i x y. k < length (ls @ [?l]) \<and> (ls @ [?l]) ! k = Local_remove i (Some (x, y, e))" by blast
    with True e(1) show ?thesis by (simp add: entry_ok_def)
  next
    case False
    with entries_invD [OF inv(2) that] show ?thesis by (simp add: entry_ok_append)
  qed
  then have "entries_inv as g (ls @ [?l]) ?es"
    using inv(2) e unfolding entries_inv_def by (auto simp: nth_list_update)
  ultimately show ?thesis by blast
qed

subsection \<open>The operations keep the invariant\<close>

lemma change_entry: "change key st = Entry e \<Longrightarrow> keyed_inv dc r as g bs st \<Longrightarrow> e < length (entries st)"
  unfolding change_def keyed_inv_def by (auto dest!: map_of_SomeD split: option.splits if_splits)

lemma keyed_invD:
  assumes "keyed_inv dc r as g bs st"
  shows "locals_inv dc r as g (entries st) (localPatches st)" "entries_inv as g (localPatches st) (entries st)"
    "inserts_inv (entries st) (inserts st) (ends st)" "\<forall>k e. (k, e) \<in> set (changes st) \<longrightarrow> e < length (entries st)"
    "placed g (inserts st) (ends st) (kept (localPatches st)) bs"
  using assms unfolding keyed_inv_def by blast+

lemma keyed_invI:
  assumes "locals_inv dc r as g (entries st) (localPatches st)" "entries_inv as g (localPatches st) (entries st)"
    "inserts_inv (entries st) (inserts st) (ends st)" "\<forall>k e. (k, e) \<in> set (changes st) \<longrightarrow> e < length (entries st)"
    "placed g (inserts st) (ends st) (kept (localPatches st)) bs"
  shows "keyed_inv dc r as g bs st"
  using assms unfolding keyed_inv_def by blast

lemma removeNode_inv:
  "keyed_inv dc r as g bs st \<Longrightarrow> i = child_index dc r as (length (localPatches st)) \<Longrightarrow>
   vnode = as ! length (localPatches st) \<Longrightarrow>
   keyed_inv dc r as g bs (removeNode key vnode i st) \<and>
   length (localPatches (removeNode key vnode i st)) = Suc (length (localPatches st)) \<and>
   endInserts (removeNode key vnode i st) = endInserts st"
proof (induction key vnode i st rule: removeNode.induct)
  case (1 key vnode i st)
  let ?ls = "localPatches st" let ?es = "entries st"
  note inv = keyed_invD [OF 1(3)]
  show ?case
  proof (cases "change key st")
    case Unseen
    let ?en = "\<lparr>e_tag = E_remove, e_vnode = vnode, e_index = Some i, e_data = Some (length ?ls)\<rparr>"
    let ?l = "Local_remove i None"
    have rm: "removeNode key vnode i st = (add_entry key ?en st)\<lparr>localPatches := ?ls @ [?l]\<rparr>"
      using Unseen by (simp add: removeNode.simps [of key])
    have "locals_inv dc r as g (?es @ [?en]) ?ls"
      using inv(1) by (rule locals_inv_cong) (simp add: nth_append)
    then have "locals_inv dc r as g (?es @ [?en]) (?ls @ [?l])"
      by (rule locals_inv_snoc) (use 1(4) in \<open>auto simp: local_ok_def\<close>)
    moreover have "entries_inv as g (?ls @ [?l]) (?es @ [?en])"
    proof (rule entries_inv_new [OF entries_inv_append [OF inv(2)]])
      show "entry_ok as g (?ls @ [?l]) (length ?es) ?en" using 1(5) by (simp add: entry_ok_def)
      show "e_data (?es ! e) \<noteq> e_data ?en" if "e < length ?es" "e_tag (?es ! e) = E_remove" for e
        using entries_invD [OF inv(2) that(1)] that(2) by (auto simp: entry_ok_def)
    qed simp
    ultimately have "keyed_inv dc r as g bs (removeNode key vnode i st)"
      unfolding rm using inserts_inv_new(1) [OF inv(3), of ?en] inv(4,5)
      by (intro keyed_invI) (auto simp: add_entry_def ends_def intro: less_SucI)
    then show ?thesis unfolding rm by (simp add: add_entry_def)
  next
    case (Entry e)
    have e: "e < length ?es" using change_entry [OF Entry 1(3)] .
    show ?thesis
    proof (cases "e_tag (?es ! e) = E_insert")
      case True
      let ?x = "(?es ! e)\<lparr>e_tag := E_move\<rparr>"
      have rm: "removeNode key vnode i st = st\<lparr>entries := ?es[e := ?x],
          localPatches := ?ls @ [Local_remove i (Some (vnode, e_vnode (?es ! e), e))]\<rparr>"
        using Entry True by (simp add: removeNode.simps [of key] Let_def)
      have "keyed_inv dc r as g bs (removeNode key vnode i st)"
        unfolding rm
        using match_inv [OF inv(1,2) e True 1(4,5)] inserts_inv_retag [OF inv(3), of e ?x] inv(4,5) True
        by (intro keyed_invI) (simp_all add: ends_def)
      then show ?thesis unfolding rm by simp
    next
      case False
      with 1 Entry show ?thesis by (simp add: removeNode.simps [of key] Let_def)
    qed
  next
    case Inherited
    with 1 show ?thesis by (simp add: removeNode.simps [of key])
  qed
qed

lemma ends_push [simp]:
  "ends (push_insert (Some i) e st) = ends st"
  "endInserts st = Some l \<Longrightarrow> ends (push_insert None e st) = l @ [e]"
  by (simp_all add: push_insert_def ends_def)

lemma push_insert_simps [simp]:
  "localPatches (push_insert bi e st) = localPatches st" "entries (push_insert bi e st) = entries st"
  "changes (push_insert bi e st) = changes st"
  "inserts (push_insert (Some i) e st) = inserts st @ [(i, e)]" "inserts (push_insert None e st) = inserts st"
  "endInserts (push_insert (Some i) e st) = endInserts st"
  "endInserts (push_insert None e st) = map_option (\<lambda>l. l @ [e]) (endInserts st)"
  by (simp_all add: push_insert_def split: option.split)

text \<open>Where an inserted node goes: in between, as long as nothing is appended, or to the end.\<close>

definition ready :: "nat option \<Rightarrow> 'n list \<Rightarrow> 'n keyed_state \<Rightarrow> bool" where
  "ready bIndex bs st \<longleftrightarrow>
     (case bIndex of Some i \<Rightarrow> i \<le> length bs \<and> endInserts st = None | None \<Rightarrow> endInserts st \<noteq> None)"

definition inserted :: "nat option \<Rightarrow> 'n \<Rightarrow> 'n list \<Rightarrow> 'n list" where
  "inserted bIndex v bs = (case bIndex of Some i \<Rightarrow> insert_at i v bs | None \<Rightarrow> bs @ [v])"

lemma push_insert_placed:
  assumes "placed g (inserts st) (ends st) ks bs" "ready bIndex bs st" "e \<notin> snd ` set (inserts st) \<union> set (ends st)"
  shows "placed (g(e := v)) (inserts (push_insert bIndex e st)) (ends (push_insert bIndex e st)) ks (inserted bIndex v bs)"
proof -
  have "placed (g(e := v)) (inserts st) (ends st) ks bs"
    using assms(3) by (intro placed_cong [OF assms(1)]) auto
  then show ?thesis
    using assms(2) placed_insert [of "g(e := v)" "inserts st" ks bs _ e] placed_end [of "g(e := v)" "inserts st" _ ks bs e]
    by (cases bIndex) (auto simp: ready_def inserted_def ends_def push_insert_def)
qed

lemma insertNode_inv:
  "keyed_inv dc r as g bs st \<Longrightarrow> ready bIndex bs st \<Longrightarrow>
   (\<exists>g'. keyed_inv dc r as g' (inserted bIndex vnode bs) (insertNode key vnode bIndex st)) \<and>
   length (localPatches (insertNode key vnode bIndex st)) = length (localPatches st) \<and>
   (endInserts (insertNode key vnode bIndex st) = None \<longleftrightarrow> endInserts st = None)"
proof (induction key vnode bIndex st rule: insertNode.induct)
  case (1 key vnode bIndex st)
  let ?ls = "localPatches st" let ?es = "entries st"
  note inv = keyed_invD [OF 1(3)]
  show ?case
  proof (cases "change key st")
    case Unseen
    let ?n = "length ?es"
    let ?en = "\<lparr>e_tag = E_insert, e_vnode = vnode, e_index = bIndex, e_data = None\<rparr>"
    let ?g = "g(?n := vnode)"
    have ins: "insertNode key vnode bIndex st = push_insert bIndex ?n (add_entry key ?en st)"
      using Unseen by (simp add: insertNode.simps [of key])
    have n: "?n \<notin> snd ` set (inserts st) \<union> set (ends st)"
      using inserts_inv_entry [OF inv(3), of ?n] by blast
    have "locals_inv dc r as ?g (?es @ [?en]) ?ls"
      using inv(1) by (rule locals_inv_cong) (simp add: nth_append)
    moreover have "entries_inv as ?g ?ls (?es @ [?en])"
      by (rule entries_inv_new [OF inv(2)]) (auto simp: entry_ok_def)
    moreover have "inserts_inv (?es @ [?en]) (inserts (push_insert bIndex ?n (add_entry key ?en st)))
        (ends (push_insert bIndex ?n (add_entry key ?en st)))"
      using inserts_inv_new(2,3) [OF inv(3), of ?en] 1(4)
      by (cases bIndex) (auto simp: add_entry_def ends_def push_insert_def ready_def)
    moreover have "placed ?g (inserts (push_insert bIndex ?n (add_entry key ?en st)))
        (ends (push_insert bIndex ?n (add_entry key ?en st))) (kept ?ls) (inserted bIndex vnode bs)"
      using push_insert_placed [of g "add_entry key ?en st" "kept ?ls" bs bIndex ?n vnode] inv(5) n 1(4)
      by (simp add: add_entry_def ends_def ready_def cong: option.case_cong)
    ultimately have "keyed_inv dc r as ?g (inserted bIndex vnode bs) (insertNode key vnode bIndex st)"
      unfolding ins using inv(4) by (intro keyed_invI) (auto simp: add_entry_def intro: less_SucI)
    then show ?thesis unfolding ins
      by (cases bIndex) (auto simp: add_entry_def)
  next
    case (Entry e)
    have e: "e < length ?es" using change_entry [OF Entry 1(3)] .
    show ?thesis
    proof (cases "e_tag (?es ! e) = E_remove")
      case True
      let ?x = "(?es ! e)\<lparr>e_tag := E_move, e_index := bIndex\<rparr>"
      let ?st = "push_insert bIndex e (st\<lparr>entries := ?es[e := ?x]\<rparr>)"
      obtain j where j: "e_data (?es ! e) = Some j"
        using entries_invD [OF inv(2) e] True by (auto simp: entry_ok_def)
      obtain i where i: "j < length ?ls" "?ls ! j = Local_remove i None"
        and locals: "locals_inv dc r as (g(e := vnode)) (?es[e := ?x]) (?ls[j := Local_remove i (Some (e_vnode (?es ! e), vnode, e))])"
        and ents: "entries_inv as (g(e := vnode)) (?ls[j := Local_remove i (Some (e_vnode (?es ! e), vnode, e))]) (?es[e := ?x])"
        using move_inv [OF inv(1,2) e True j, of ?x vnode] by auto
      have ins: "insertNode key vnode bIndex st =
          ?st\<lparr>localPatches := ?ls[j := Local_remove i (Some (e_vnode (?es ! e), vnode, e))]\<rparr>"
        using Entry True j i by (simp add: insertNode.simps [of key] Let_def set_patch_data_def)
      have n: "e \<notin> snd ` set (inserts st) \<union> set (ends st)"
        using inserts_inv_entry [OF inv(3), of e] True by blast
      have I: "inserts_inv (?es[e := ?x]) (inserts ?st) (ends ?st)"
        using inserts_inv_move [OF inv(3) e True, of ?x] 1(4)
        by (cases bIndex) (auto simp: ends_def push_insert_def ready_def)
      have P: "placed (g(e := vnode)) (inserts ?st) (ends ?st) (kept ?ls) (inserted bIndex vnode bs)"
        using push_insert_placed [of g "st\<lparr>entries := ?es[e := ?x]\<rparr>" "kept ?ls" bs bIndex e vnode] inv(5) n 1(4)
        by (simp add: ends_def ready_def cong: option.case_cong)
      have "keyed_inv dc r as (g(e := vnode)) (inserted bIndex vnode bs) (insertNode key vnode bIndex st)"
        unfolding ins using locals ents I P inv(4)
        by (intro keyed_invI) (simp_all add: ends_def kept_update [OF i])
      then show ?thesis unfolding ins by (cases bIndex) auto
    next
      case False
      with 1 Entry show ?thesis by (simp add: insertNode.simps [of key] Let_def)
    qed
  next
    case Inherited
    with 1 show ?thesis by (simp add: insertNode.simps [of key])
  qed
qed

subsection \<open>The whole difference\<close>

text \<open>
  The state of the walk: \<open>as\<close> is what is left of the old children \<open>A\<close>, \<open>bs\<close> the new children that have
  been handled, \<open>i\<close> the index of the last node before \<open>as\<close>.
\<close>

definition walk :: "('n \<Rightarrow> nat) \<Rightarrow> nat \<Rightarrow> 'n list \<Rightarrow> 'n list \<Rightarrow> (string \<times> 'n) list \<Rightarrow> nat \<Rightarrow> 'n keyed_state \<Rightarrow> bool" where
  "walk dc r A bs as i st \<longleftrightarrow>
     length (localPatches st) \<le> length A \<and> drop (length (localPatches st)) A = map snd as \<and>
     Suc i = child_index dc r A (length (localPatches st)) \<and> (\<exists>g. keyed_inv dc r A g bs st)"

lemma child_index_Suc: "j < length A \<Longrightarrow> child_index dc r A (Suc j) = child_index dc r A j + dc (A ! j) + 1"
  by (simp add: child_index_def take_Suc_conv_app_nth)

lemma walk_next:
  assumes "walk dc r A bs ((k, x) # as) i st"
  shows "length (localPatches st) < length A" "x = A ! length (localPatches st)"
    "drop (Suc (length (localPatches st))) A = map snd as"
    "Suc (i + 1 + dc x) = child_index dc r A (Suc (length (localPatches st)))"
proof -
  let ?n = "length (localPatches st)"
  have d: "drop ?n A = x # map snd as" and i: "Suc i = child_index dc r A ?n"
    using assms by (auto simp: walk_def)
  show n: "?n < length A" using d by (metis drop_all leI list.distinct(1))
  show "x = A ! ?n" "drop (Suc ?n) A = map snd as"
    using d n by (metis Cons_nth_drop_Suc list.inject)+
  with n i show "Suc (i + 1 + dc x) = child_index dc r A (Suc ?n)" by (simp add: child_index_Suc)
qed

lemma walk_diff:
  assumes "walk dc r A bs ((k, x) # as) i st" "endInserts st = None"
  shows "walk dc r A (bs @ [y]) as (i + 1 + dc x) (push_diff x y (i + 1) st)" "endInserts (push_diff x y (i + 1) st) = None"
  using assms walk_next [OF assms(1)] push_diff_inv [of dc r A _ bs st "i + 1" x y]
  by (auto simp: walk_def push_diff_def ends_def)

lemma walk_remove:
  assumes "walk dc r A bs ((k, x) # as) i st" "endInserts st = None"
  shows "walk dc r A bs as (i + 1 + dc x) (removeNode key x (i + 1) st)" "endInserts (removeNode key x (i + 1) st) = None"
  using assms walk_next [OF assms(1)] removeNode_inv [of dc r A _ bs st "i + 1" x key]
  by (auto simp: walk_def)

lemma walk_insert:
  assumes "walk dc r A bs as i st" "endInserts st = None" "n \<le> length bs"
  shows "walk dc r A (insert_at n v bs) as i (insertNode key v (Some n) st)" "endInserts (insertNode key v (Some n) st) = None"
  using assms insertNode_inv [of dc r A _ bs st "Some n" v key]
  by (auto simp: walk_def ready_def inserted_def)

lemma insert_at_end [simp]: "insert_at (length bs) v bs = bs @ [v]" "insert_at (length bs) v (bs @ [y]) = bs @ [v, y]"
  by (simp_all add: insert_at_def)

lemma matches_Cons: "matches k kids \<Longrightarrow> \<exists>x rest. kids = (k, x) # rest"
  by (auto simp: matches_def split: list.splits)

lemma keyed_loop_walk:
  "walk dc r A pb as i st \<Longrightarrow> endInserts st = None \<Longrightarrow> n = length pb \<Longrightarrow> keyed_loop dc as bs n i st = (as', bs', i', st') \<Longrightarrow>
   \<exists>pb'. walk dc r A pb' as' i' st' \<and> endInserts st' = None \<and> pb' @ map snd bs' = pb @ map snd bs"
proof (induction dc as bs n i st arbitrary: pb rule: keyed_loop.induct)
  case (3 dc aKey aNode as bKey bNode bs n i st)
  let ?next = "i + 1 + dc aNode"
  note w = 3(6) and en = 3(7) and n = 3(8)
  show ?case
  proof (cases "aKey = bKey")
    case True
    with 3(1) [OF refl True walk_diff [OF w en]] 3(9) n show ?thesis by (simp add: Let_def)
  next
    case ne: False
    show ?thesis
    proof (cases "matches aKey bs")
      case newMatch: True
      obtain y bs2 where b: "bs = (aKey, y) # bs2" using matches_Cons [OF newMatch] by blast
      show ?thesis
      proof (cases "matches bKey as")
        case oldMatch: True
        obtain x as2 where a: "as = (bKey, x) # as2" using matches_Cons [OF oldMatch] by blast
        note d = walk_diff [OF w [unfolded a] en, of y]
        note ins = walk_insert [OF d, where n = n and v = bNode and key = aKey]
        note rm = walk_remove [OF ins, of aKey]
        show ?thesis
          using 3(2) [OF refl ne conjI [OF newMatch oldMatch], of "pb @ [bNode, y]"] rm 3(9) ne newMatch oldMatch n a b
          by (simp add: Let_def)
      next
        case False
        note ins = walk_insert [OF w en, where n = n and v = bNode and key = bKey]
        note d = walk_diff [OF ins, of y]
        show ?thesis
          using 3(3) [OF refl ne _ newMatch, of "pb @ [bNode, y]"] d 3(9) ne newMatch False n b
          by (simp add: Let_def)
      qed
    next
      case newMatch: False
      show ?thesis
      proof (cases "matches bKey as")
        case oldMatch: True
        obtain x as2 where a: "as = (bKey, x) # as2" using matches_Cons [OF oldMatch] by blast
        note rm = walk_remove [OF w [unfolded a] en, of aKey]
        note d = walk_diff [OF rm, of bNode]
        show ?thesis
          using 3(4) [OF refl ne _ newMatch oldMatch, of "pb @ [bNode]"] d 3(9) ne newMatch oldMatch n a by (simp add: Let_def)
      next
        case oldMatch: False
        show ?thesis
        proof (cases "as \<noteq> [] \<and> bs \<noteq> [] \<and> fst (hd as) = fst (hd bs)")
          case True
          then obtain k x y as2 bs2 where a: "as = (k, x) # as2" and b: "bs = (k, y) # bs2"
            by (cases as; cases bs) auto
          note rm = walk_remove [OF w [unfolded a] en, of aKey]
          note ins = walk_insert [OF rm, where n = n and v = bNode and key = bKey]
          note d = walk_diff [OF ins, of y]
          show ?thesis
            using 3(5) [OF refl ne _ newMatch oldMatch True, of "pb @ [bNode, y]"] d 3(9) ne newMatch oldMatch True n a b by (simp add: Let_def)
        next
          case False
          with 3(9) ne newMatch oldMatch w en show ?thesis by (auto simp: Let_def)
        qed
      qed
    qed
  qed
qed auto

lemma remove_rest_walk:
  "walk dc r A pb as i st \<Longrightarrow> endInserts st = None \<Longrightarrow>
   \<exists>i'. walk dc r A pb [] i' (remove_rest dc as i st) \<and> endInserts (remove_rest dc as i st) = None"
proof (induction dc as i st rule: remove_rest.induct)
  case (2 dc aKey aNode as i st)
  from 2(1) [OF walk_remove [OF 2(2,3)]] show ?case by simp
qed auto

lemma open_ends_inv:
  "keyed_inv dc r A g pb st \<Longrightarrow> keyed_inv dc r A g pb (st\<lparr>endInserts := Some (case endInserts st of Some l \<Rightarrow> l | None \<Rightarrow> [])\<rparr>)"
  by (auto simp: keyed_inv_def ends_def split: option.splits)

lemma insert_rest_inv:
  "keyed_inv dc r A g pb st \<Longrightarrow>
   (\<exists>g'. keyed_inv dc r A g' (pb @ map snd bs) (insert_rest bs st)) \<and>
   length (localPatches (insert_rest bs st)) = length (localPatches st) \<and>
   (endInserts (insert_rest bs st) = None \<longleftrightarrow> bs = [] \<and> endInserts st = None)"
proof (induction bs st arbitrary: g pb rule: insert_rest.induct)
  case (2 bKey bNode bs st)
  let ?st = "st\<lparr>endInserts := Some (case endInserts st of Some l \<Rightarrow> l | None \<Rightarrow> [])\<rparr>"
  obtain g' where "keyed_inv dc r A g' (pb @ [bNode]) (insertNode bKey bNode None ?st)"
    "length (localPatches (insertNode bKey bNode None ?st)) = length (localPatches st)"
    "endInserts (insertNode bKey bNode None ?st) \<noteq> None"
    using insertNode_inv [OF open_ends_inv [OF 2(2)], of None bNode bKey] by (auto simp: ready_def inserted_def)
  with 2(1) [of g' "pb @ [bNode]"] show ?case by simp
qed auto

lemma no_changes_walk: "walk dc r (map snd as) [] as r no_changes"
  by (auto simp: walk_def no_changes_def child_index_def keyed_inv_def locals_inv_def entries_inv_def
      inserts_inv_def placed_def ends_def)

theorem diffKeyed_inv:
  "\<exists>g. keyed_inv dc r (map snd as) g (map snd bs) (diffKeyed dc as bs r) \<and>
     length (localPatches (diffKeyed dc as bs r)) = length as"
proof -
  obtain as' bs' i' st' where l: "keyed_loop dc as bs 0 r no_changes = (as', bs', i', st')"
    by (metis prod_cases4)
  obtain pb where pb: "walk dc r (map snd as) pb as' i' st'" "endInserts st' = None" "pb @ map snd bs' = map snd bs"
    using keyed_loop_walk [OF no_changes_walk _ _ l] by (auto simp: no_changes_def)
  let ?st = "remove_rest dc as' i' st'"
  obtain i'' where w: "walk dc r (map snd as) pb [] i'' ?st"
    using remove_rest_walk [OF pb(1,2)] by blast
  then obtain g where "keyed_inv dc r (map snd as) g pb ?st" "length (localPatches ?st) = length as"
    by (auto simp: walk_def)
  from insert_rest_inv [OF this(1), of bs'] this(2) pb(3) l show ?thesis by (auto simp: diffKeyed_def)
qed

text \<open>The pairs whose difference is taken are pairs of children.\<close>

lemma keyed_inv_calls:
  assumes "keyed_inv dc r as g bs st" "length (localPatches st) \<le> length as" "l \<in> set (localPatches st)"
  shows "l = Local_diff x y i \<Longrightarrow> x \<in> set as \<and> y \<in> set bs"
    and "l = Local_remove i (Some (x, y, e)) \<Longrightarrow> x \<in> set as \<and> y \<in> set bs"
proof -
  obtain j where j: "j < length (localPatches st)" "l = localPatches st ! j"
    using assms(3) by (auto simp: in_set_conv_nth)
  note inv = keyed_invD [OF assms(1)]
  have ok: "local_ok dc r as g (entries st) j l" using locals_invD(1) [OF inv(1) j(1)] j(2) by simp
  have mem: "as ! j \<in> set as" using j(1) assms(2) by simp
  have bs: "set bs = g ` (snd ` set (inserts st) \<union> set (ends st)) \<union> set (kept (localPatches st))"
  proof -
    have "snd ` set (map (\<lambda>(i, e). (i, g e)) (inserts st)) = g ` snd ` set (inserts st)" by force
    moreover have "set bs = set (place (map (\<lambda>(i, e). (i, g e)) (inserts st)) (kept (localPatches st))) \<union> g ` set (ends st)"
      using inv(5) by (auto simp only: placed_def set_append set_map)
    ultimately show ?thesis by (auto simp only: place_set image_Un)
  qed
  show "l = Local_diff x y i \<Longrightarrow> x \<in> set as \<and> y \<in> set bs"
    using ok mem assms(3) unfolding bs by (force simp: local_ok_def kept_def)
  assume l: "l = Local_remove i (Some (x, y, e))"
  with ok have "x = as ! j" "y = g e" "e < length (entries st)" "e_tag (entries st ! e) \<noteq> E_remove"
    by (auto simp: local_ok_def)
  moreover from this have "e \<in> snd ` set (inserts st) \<union> set (ends st)"
    using inv(3) by (simp add: inserts_inv_def)
  ultimately show "x \<in> set as \<and> y \<in> set bs" using mem unfolding bs by blast
qed

lemma diffKeyed_calls:
  "Local_diff x y i \<in> set (localPatches (diffKeyed dc as bs r)) \<Longrightarrow> x \<in> snd ` set as \<and> y \<in> snd ` set bs"
  "Local_remove i (Some (x, y, e)) \<in> set (localPatches (diffKeyed dc as bs r)) \<Longrightarrow> x \<in> snd ` set as \<and> y \<in> snd ` set bs"
  using diffKeyed_inv [of dc r as bs] keyed_inv_calls [of dc r "map snd as" _ "map snd bs" "diffKeyed dc as bs r"]
  by auto

subsection \<open>The root index only shifts the indices\<close>

text \<open>With the next root index, the indices of the patches and of the removed entries are the next ones.\<close>

fun shift_local :: "'n local_patch \<Rightarrow> 'n local_patch" where
  "shift_local (Local_diff x y i) = Local_diff x y (Suc i)"
| "shift_local (Local_remove i d) = Local_remove (Suc i) d"

definition shift_entry :: "'n entry \<Rightarrow> 'n entry" where
  "shift_entry en = (if e_tag en = E_remove then en\<lparr>e_index := map_option Suc (e_index en)\<rparr> else en)"

definition shift :: "'n keyed_state \<Rightarrow> 'n keyed_state" where
  "shift st = st\<lparr>localPatches := map shift_local (localPatches st), entries := map shift_entry (entries st)\<rparr>"

lemma shift_simps [simp]:
  "localPatches (shift st) = map shift_local (localPatches st)" "entries (shift st) = map shift_entry (entries st)"
  "changes (shift st) = changes st" "inserts (shift st) = inserts st" "endInserts (shift st) = endInserts st"
  "change key (shift st) = change key st"
  by (simp_all add: shift_def change_def)

lemma shift_entry_simps [simp]:
  "e_tag (shift_entry en) = e_tag en" "e_vnode (shift_entry en) = e_vnode en" "e_data (shift_entry en) = e_data en"
  "shift_entry (en\<lparr>e_tag := E_move, e_index := bi\<rparr>) = en\<lparr>e_tag := E_move, e_index := bi\<rparr>"
  by (simp_all add: shift_entry_def)

lemma removeNode_shift:
  "keyed_inv dc r A g pb st \<Longrightarrow> removeNode key v (Suc i) (shift st) = shift (removeNode key v i st)"
proof (induction key v i st rule: removeNode.induct)
  case (1 key v i st)
  show ?case
  proof (cases "change key st")
    case Unseen
    then show ?thesis by (simp add: removeNode.simps [of key] shift_def add_entry_def shift_entry_def change_def)
  next
    case (Entry e)
    have "e < length (entries st)" using change_entry [OF Entry 1(3)] .
    then show ?thesis
    proof (cases "e_tag (entries st ! e) = E_insert")
      case True
      with Entry \<open>e < length (entries st)\<close> show ?thesis
        by (auto simp: removeNode.simps [of key] Let_def) (simp add: shift_def map_update shift_entry_def)
    next
      case False
      with 1 Entry \<open>e < length (entries st)\<close> show ?thesis by (simp add: removeNode.simps [of key] Let_def)
    qed
  next
    case Inherited
    with 1 show ?thesis by (simp add: removeNode.simps [of key])
  qed
qed

lemma insertNode_shift:
  "keyed_inv dc r A g pb st \<Longrightarrow> insertNode key v bi (shift st) = shift (insertNode key v bi st)"
proof (induction key v bi st rule: insertNode.induct)
  case (1 key v bi st)
  show ?case
  proof (cases "change key st")
    case Unseen
    then show ?thesis
      by (simp add: insertNode.simps [of key] shift_def add_entry_def shift_entry_def change_def push_insert_def split: option.split)
  next
    case (Entry e)
    have e: "e < length (entries st)" using change_entry [OF Entry 1(3)] .
    show ?thesis
    proof (cases "e_tag (entries st ! e) = E_remove")
      case True
      then obtain j i where "e_data (entries st ! e) = Some j" "j < length (localPatches st)"
        "localPatches st ! j = Local_remove i None"
        using entries_invD [OF keyed_invD(2) [OF 1(3)] e] by (auto simp: entry_ok_def)
      with True Entry e show ?thesis
        by (auto simp: insertNode.simps [of key] Let_def set_patch_data_def push_insert_def split: option.split)
          (simp_all add: shift_def map_update shift_entry_def)
    next
      case False
      with 1 Entry e show ?thesis by (simp add: insertNode.simps [of key] Let_def)
    qed
  next
    case Inherited
    with 1 show ?thesis by (simp add: insertNode.simps [of key])
  qed
qed

lemma push_diff_shift [simp]: "push_diff x y (Suc i) (shift st) = shift (push_diff x y i st)"
  by (simp add: push_diff_def shift_def)

lemma walk_removeNode_shift: "walk dc r A pb as i' st \<Longrightarrow> removeNode key v (Suc i) (shift st) = shift (removeNode key v i st)"
  by (auto simp: walk_def intro: removeNode_shift)

lemma walk_insertNode_shift: "walk dc r A pb as i' st \<Longrightarrow> insertNode key v bi (shift st) = shift (insertNode key v bi st)"
  by (auto simp: walk_def intro: insertNode_shift)

lemma keyed_loop_shift:
  "walk dc r A pb as i st \<Longrightarrow> endInserts st = None \<Longrightarrow> n = length pb \<Longrightarrow>
   keyed_loop dc as bs n (Suc i) (shift st) =
   (case keyed_loop dc as bs n i st of (as', bs', i', st') \<Rightarrow> (as', bs', Suc i', shift st'))"
proof (induction dc as bs n i st arbitrary: pb rule: keyed_loop.induct)
  case (3 dc aKey aNode as bKey bNode bs n i st)
  let ?next = "i + 1 + dc aNode"
  note w = 3(6) and en = 3(7) and n = 3(8)
  show ?case
  proof (cases "aKey = bKey")
    case True
    with 3(1) [OF refl True walk_diff [OF w en]] n show ?thesis by (simp add: Let_def)
  next
    case ne: False
    show ?thesis
    proof (cases "matches aKey bs")
      case newMatch: True
      obtain y bs2 where b: "bs = (aKey, y) # bs2" using matches_Cons [OF newMatch] by blast
      show ?thesis
      proof (cases "matches bKey as")
        case oldMatch: True
        obtain x as2 where a: "as = (bKey, x) # as2" using matches_Cons [OF oldMatch] by blast
        note d = walk_diff [OF w [unfolded a] en, of y]
        note ins = walk_insert [OF d, where n = n and v = bNode and key = aKey]
        note rm = walk_remove [OF ins, of aKey]
        show ?thesis
          using 3(2) [OF refl ne conjI [OF newMatch oldMatch], of "pb @ [bNode, y]"] rm ne newMatch oldMatch n a b
            walk_insertNode_shift [OF d(1), of aKey bNode "Some n"]
            walk_removeNode_shift [OF ins(1), of aKey x "Suc ?next"]
          by (simp add: Let_def)
      next
        case False
        note ins = walk_insert [OF w en, where n = n and v = bNode and key = bKey]
        note d = walk_diff [OF ins, of y]
        show ?thesis
          using 3(3) [OF refl ne _ newMatch, of "pb @ [bNode, y]"] d ne newMatch False n b
            walk_insertNode_shift [OF w, of bKey bNode "Some n"]
          by (simp add: Let_def)
      qed
    next
      case newMatch: False
      show ?thesis
      proof (cases "matches bKey as")
        case oldMatch: True
        obtain x as2 where a: "as = (bKey, x) # as2" using matches_Cons [OF oldMatch] by blast
        note rm = walk_remove [OF w [unfolded a] en, of aKey]
        note d = walk_diff [OF rm, of bNode]
        show ?thesis
          using 3(4) [OF refl ne _ newMatch oldMatch, of "pb @ [bNode]"] d ne newMatch oldMatch n a
            walk_removeNode_shift [OF w, of aKey aNode "Suc i"]
          by (simp add: Let_def)
      next
        case oldMatch: False
        show ?thesis
        proof (cases "as \<noteq> [] \<and> bs \<noteq> [] \<and> fst (hd as) = fst (hd bs)")
          case True
          then obtain k' x y as2 bs2 where a: "as = (k', x) # as2" and b: "bs = (k', y) # bs2"
            by (cases as; cases bs) auto
          note rm = walk_remove [OF w [unfolded a] en, of aKey]
          note ins = walk_insert [OF rm, where n = n and v = bNode and key = bKey]
          note d = walk_diff [OF ins, of y]
          show ?thesis
            using 3(5) [OF refl ne _ newMatch oldMatch True, of "pb @ [bNode, y]"] d ne newMatch oldMatch True n a b
              walk_removeNode_shift [OF w, of aKey aNode "Suc i"] walk_insertNode_shift [OF rm(1), of bKey bNode "Some n"]
            by (simp add: Let_def)
        next
          case False
          with ne newMatch oldMatch show ?thesis by (auto simp: Let_def)
        qed
      qed
    qed
  qed
qed auto

lemma remove_rest_shift:
  "walk dc r A pb as i st \<Longrightarrow> endInserts st = None \<Longrightarrow>
   remove_rest dc as (Suc i) (shift st) = shift (remove_rest dc as i st)"
proof (induction dc as i st rule: remove_rest.induct)
  case (2 dc aKey aNode as i st)
  from 2(1) [OF walk_remove [OF 2(2,3)]] walk_removeNode_shift [OF 2(2), of aKey aNode "Suc i"]
  show ?case by simp
qed auto

lemma open_ends_shift:
  "(shift st)\<lparr>endInserts := x\<rparr> = shift (st\<lparr>endInserts := x\<rparr>)"
  by (simp add: shift_def)

lemma insert_rest_shift: "keyed_inv dc r A g pb st \<Longrightarrow> insert_rest bs (shift st) = shift (insert_rest bs st)"
proof (induction bs st arbitrary: g pb rule: insert_rest.induct)
  case (2 bKey bNode bs st)
  let ?st = "st\<lparr>endInserts := Some (case endInserts st of Some l \<Rightarrow> l | None \<Rightarrow> [])\<rparr>"
  note inv = open_ends_inv [OF 2(2)]
  obtain g' where "keyed_inv dc r A g' (pb @ [bNode]) (insertNode bKey bNode None ?st)"
    using insertNode_inv [OF inv, of None bNode bKey] by (auto simp: ready_def inserted_def)
  from 2(1) [OF this] insertNode_shift [OF inv, of bKey bNode None] show ?case by (simp add: open_ends_shift)
qed auto

lemma diffKeyed_shift: "diffKeyed dc as bs (Suc r) = shift (diffKeyed dc as bs r)"
proof -
  obtain as' bs' i' st' where l: "keyed_loop dc as bs 0 r no_changes = (as', bs', i', st')"
    by (metis prod_cases4)
  have en: "endInserts no_changes = None" by (simp add: no_changes_def)
  obtain pb where pb: "walk dc r (map snd as) pb as' i' st'" "endInserts st' = None"
    using keyed_loop_walk [OF no_changes_walk en _ l] by auto
  then obtain i'' g where "walk dc r (map snd as) pb [] i'' (remove_rest dc as' i' st')"
    "keyed_inv dc r (map snd as) g pb (remove_rest dc as' i' st')"
    using remove_rest_walk [OF pb] by (auto simp: walk_def)
  from insert_rest_shift [OF this(2), of bs'] remove_rest_shift [OF pb, of]
    keyed_loop_shift [OF no_changes_walk [of dc r as] en, of 0 bs] l
  show ?thesis by (simp add: diffKeyed_def shift_def no_changes_def)
qed

end
