(* ===== verification/Elm_VirtualDom.thy ===== *)
theory Elm_VirtualDom
  imports Elm_VirtualDom_Keyed "HOL-Library.AList"
begin

text \<open>
  The virtual DOM (\<^verbatim>\<open>Native.VirtualDom\<close>): virtual nodes and their facts, rendering, the difference of
  two virtual nodes as a list of patches with indices, the walk that finds the DOM node of each patch,
  and the application of the patches. Text nodes, element nodes, keyed nodes and lazy nodes are modelled, the
  kinds a program gets from \<^verbatim>\<open>Html\<close>, \<^verbatim>\<open>Html.Attributes\<close>, \<^verbatim>\<open>Html.Events\<close>, \<^verbatim>\<open>Html.Keyed\<close> and \<^verbatim>\<open>Html.Lazy\<close>.

  JavaScript objects with facts are association lists in the order of insertion, with keys other than
  the names that every object inherits. The value of a property is a string, a number or a boolean, as
  \<^verbatim>\<open>Html.Attributes\<close> makes them, so that \<^verbatim>\<open>===\<close> is equality. The DOM is a tree;
  a DOM node that a patch refers to is the path to it from the node the patches are applied to. Outside
  of keyed nodes no patch moves a node that a later patch refers to, since children are removed and added
  at the end only, so that the path stays right while the patches are applied. The patches below a keyed
  node are part of the one patch that reorders its children; there a child is known by its old position.
\<close>

subsection \<open>Facts\<close>

record 'u event =
  stopPropagation :: bool
  preventDefault :: bool
  event_decoder :: "'u decoder"

text \<open>
  The entries of a list of facts, by the \<^verbatim>\<open>key\<close> the code gives them. A \<^verbatim>\<open>className\<close> is a string. An
  attribute with a namespace has the namespace first.
\<close>

datatype 'u fact =
    F_style "(string \<times> string) list"
  | F_event string "'u event"
  | F_attr string string
  | F_attr_ns string string string
  | F_namespace string
  | F_className string
  | F_property string json

record 'u facts =
  f_props :: "(string \<times> json) list"
  f_styles :: "(string \<times> string) list option"
  f_attrs :: "(string \<times> string) list"
  f_attrs_ns :: "(string \<times> string \<times> string) list"
  f_events :: "(string \<times> 'u event) list"

definition empty_facts :: "'u facts" where
  "empty_facts = \<lparr>f_props = [], f_styles = None, f_attrs = [], f_attrs_ns = [], f_events = []\<rparr>"

fun organizeFacts_loop :: "'u fact list \<Rightarrow> string option \<Rightarrow> 'u facts \<Rightarrow> 'u facts \<times> string option" where
  "organizeFacts_loop [] namespace facts = (facts, namespace)"
| "organizeFacts_loop (F_style styleList # rest) namespace facts =
     organizeFacts_loop rest namespace
       (facts\<lparr>f_styles := Some (fold (\<lambda>(k, v). AList.update k v) styleList
                (case f_styles facts of None \<Rightarrow> [] | Some styles \<Rightarrow> styles))\<rparr>)"
| "organizeFacts_loop (F_event realKey value # rest) namespace facts =
     organizeFacts_loop rest namespace (facts\<lparr>f_events := AList.update realKey value (f_events facts)\<rparr>)"
| "organizeFacts_loop (F_attr realKey value # rest) namespace facts =
     organizeFacts_loop rest namespace (facts\<lparr>f_attrs := AList.update realKey value (f_attrs facts)\<rparr>)"
| "organizeFacts_loop (F_attr_ns attr_ns realKey value # rest) namespace facts =
     organizeFacts_loop rest namespace
       (facts\<lparr>f_attrs_ns := AList.update realKey (attr_ns, value) (f_attrs_ns facts)\<rparr>)"
| "organizeFacts_loop (F_namespace value # rest) namespace facts =
     organizeFacts_loop rest (Some value) facts"
| "organizeFacts_loop (F_className value # rest) namespace facts =
     organizeFacts_loop rest namespace
       (facts\<lparr>f_props := AList.update ''className''
          (case map_of (f_props facts) ''className'' of
             Some (JStr classes) \<Rightarrow> JStr (classes @ '' '' @ value)
           | _ \<Rightarrow> JStr value) (f_props facts)\<rparr>)"
| "organizeFacts_loop (F_property key value # rest) namespace facts =
     organizeFacts_loop rest namespace (facts\<lparr>f_props := AList.update key value (f_props facts)\<rparr>)"

fun mapProperty :: "nat \<Rightarrow> ('u dval \<Rightarrow> 'u dval) \<Rightarrow> 'u fact \<Rightarrow> 'u fact" where
  "mapProperty fid func (F_event realKey info) =
     F_event realKey (info\<lparr>event_decoder := Json_map1 fid func (event_decoder info)\<rparr>)"
| "mapProperty fid func property = property"

definition organizeFacts :: "'u fact list \<Rightarrow> 'u facts \<times> string option" where
  "organizeFacts factList = organizeFacts_loop factList None empty_facts"

subsection \<open>Virtual nodes\<close>

text \<open>
  A lazy node carries the references of its function and of its arguments, and the node that the
  function gives.
\<close>

datatype 'u vnode =
    VText string
  | VNode string "string option" "'u facts" "'u vnode list"
  | VKeyed string "string option" "'u facts" "(string \<times> 'u vnode) list"
  | VThunk nat "nat list" "'u vnode"

lemma keyed_kid_size [termination_simp]:
  assumes "x \<in> snd ` set kids"
  shows "size x < size_list (size_prod (\<lambda>_. 0) size) kids"
proof -
  obtain k where "(k, x) \<in> set kids" using assms by auto
  then have "size_prod (\<lambda>_. 0) size (k, x) \<le> size_list (size_prod (\<lambda>_. 0) size) kids"
    by (rule size_list_estimation') simp
  then show ?thesis by simp
qed

lemma keyed_kids_size: "size_list (size \<circ> snd) kids \<le> size_list (size_prod (\<lambda>_. 0) size) kids"
  by (induction kids) auto

text \<open>\<^verbatim>\<open>descendantsCount || 0\<close>\<close>

fun descendantsCount :: "'u vnode \<Rightarrow> nat" where
  "descendantsCount (VText _) = 0"
| "descendantsCount (VNode _ _ _ kids) = sum_list (map descendantsCount kids) + length kids"
| "descendantsCount (VKeyed _ _ _ kids) = sum_list (map descendantsCount (map snd kids)) + length kids"
| "descendantsCount (VThunk _ _ _) = 0"

definition nodeHelp :: "string \<Rightarrow> 'u fact list \<Rightarrow> 'u vnode list \<Rightarrow> 'u vnode" where
  "nodeHelp tag factList kidList =
     (case organizeFacts factList of (facts, namespace) \<Rightarrow> VNode tag namespace facts kidList)"

definition keyedNode :: "string \<Rightarrow> 'u fact list \<Rightarrow> (string \<times> 'u vnode) list \<Rightarrow> 'u vnode" where
  "keyedNode tag factList kidList =
     (case organizeFacts factList of (facts, namespace) \<Rightarrow> VKeyed tag namespace facts kidList)"

subsection \<open>Differences of facts\<close>

text \<open>
  The difference of two objects of facts of one category: what becomes of a value that is gone, when
  two values count as the same, and what is assigned for a new value. The key \<^verbatim>\<open>value\<close> is assigned
  in any case.
\<close>

definition diff_category ::
  "('v \<Rightarrow> 'w) \<Rightarrow> ('v \<Rightarrow> 'v \<Rightarrow> bool) \<Rightarrow> ('v \<Rightarrow> 'v \<Rightarrow> bool) \<Rightarrow> ('v \<Rightarrow> 'w) \<Rightarrow>
   (string \<times> 'v) list \<Rightarrow> (string \<times> 'v) list \<Rightarrow> (string \<times> 'w) list" where
  "diff_category gone same equal put a b =
     concat (map (\<lambda>(aKey, aValue).
       case map_of b aKey of
         None \<Rightarrow> [(aKey, gone aValue)]
       | Some bValue \<Rightarrow>
           if same aValue bValue \<and> aKey \<noteq> ''value'' \<or> equal aValue bValue then []
           else [(aKey, put bValue)]) a) @
     concat (map (\<lambda>(bKey, bValue). if map_of a bKey = None then [(bKey, put bValue)] else []) b)"

definition equalEvents :: "('u dval \<Rightarrow> 'u dval \<Rightarrow> bool) \<Rightarrow> 'u event \<Rightarrow> 'u event \<Rightarrow> bool" where
  "equalEvents same a b \<longleftrightarrow>
     stopPropagation a = stopPropagation b \<and> preventDefault a = preventDefault b \<and>
     Json_equality same (event_decoder a) (event_decoder b)"

record 'u facts_diff =
  d_props :: "(string \<times> json) list"
  d_styles :: "(string \<times> string) list option"
  d_attrs :: "(string \<times> string option) list"
  d_attrs_ns :: "(string \<times> string \<times> string option) list"
  d_events :: "(string \<times> 'u event option) list"

definition diff_styles ::
  "(string \<times> string) list option \<Rightarrow> (string \<times> string) list option \<Rightarrow> (string \<times> string) list option" where
  "diff_styles a b =
     (case a of
        None \<Rightarrow> b
      | Some styles \<Rightarrow>
          (case diff_category (\<lambda>_. []) (=) (\<lambda>_ _. False) id styles (case b of None \<Rightarrow> [] | Some s \<Rightarrow> s) of
             [] \<Rightarrow> None
           | sub \<Rightarrow> Some sub))"

text \<open>
  The objects of events and of attributes with a namespace are made anew for every view, so that they are
  never the same object; events are compared with \<^verbatim>\<open>equalEvents\<close>.
\<close>

definition diffFacts ::
  "('u dval \<Rightarrow> 'u dval \<Rightarrow> bool) \<Rightarrow> 'u facts \<Rightarrow> 'u facts \<Rightarrow> 'u facts_diff option" where
  "diffFacts same a b =
     (let props = diff_category (\<lambda>v. case v of JStr _ \<Rightarrow> JStr [] | _ \<Rightarrow> JNull) (=) (\<lambda>_ _. False) id
                    (f_props a) (f_props b);
          styles = diff_styles (f_styles a) (f_styles b);
          attrs = diff_category (\<lambda>_. None) (=) (\<lambda>_ _. False) Some (f_attrs a) (f_attrs b);
          attrs_ns = diff_category (\<lambda>(ns, _). (ns, None)) (\<lambda>_ _. False) (\<lambda>_ _. False) (\<lambda>(ns, v). (ns, Some v))
                       (f_attrs_ns a) (f_attrs_ns b);
          events = diff_category (\<lambda>_. None) (\<lambda>_ _. False) (equalEvents same) Some (f_events a) (f_events b)
      in if props = [] \<and> styles = None \<and> attrs = [] \<and> attrs_ns = [] \<and> events = [] then None
         else Some \<lparr>d_props = props, d_styles = styles, d_attrs = attrs, d_attrs_ns = attrs_ns, d_events = events\<rparr>)"

subsection \<open>Patches\<close>

text \<open>
  An insertion names its entry, and the new node unless the entry is moved. A removal of a moved entry
  has the patches of the child, the entry, and whether the entry goes to the end, that is, whether its
  \<^verbatim>\<open>index\<close> is undefined.
\<close>

type_synonym 'u insertion = "nat \<times> 'u vnode option"

datatype 'u patch = Patch (index: nat) "'u patch_data"
and 'u patch_data =
    P_redraw "'u vnode"
  | P_facts "'u facts_diff"
  | P_text string
  | P_thunk "'u patch list"
  | P_remove_last nat
  | P_append "'u vnode list"
  | P_remove "('u patch list \<times> nat \<times> bool) option"
  | P_reorder "'u patch list" "(nat \<times> 'u insertion) list" "'u insertion list option"

definition insertion :: "'u vnode keyed_state \<Rightarrow> nat \<Rightarrow> 'u insertion" where
  "insertion st e =
     (e, if e_tag (entries st ! e) = E_move then None else Some (e_vnode (entries st ! e)))"

definition to_end :: "'u vnode keyed_state \<Rightarrow> nat \<Rightarrow> bool" where
  "to_end st e = (e_index (entries st ! e) = None)"

text \<open>The patch that \<^verbatim>\<open>diffKeyedChildren\<close> pushes, from its local patches.\<close>

definition reorder_patch :: "nat \<Rightarrow> 'u vnode keyed_state \<Rightarrow> 'u patch list \<Rightarrow> 'u patch list" where
  "reorder_patch i st local =
     (if local \<noteq> [] \<or> inserts st \<noteq> [] \<or> endInserts st \<noteq> None then
        [Patch i (P_reorder local (map (\<lambda>(j, e). (j, insertion st e)) (inserts st))
           (map_option (map (insertion st)) (endInserts st)))]
      else [])"

text \<open>
  \<^verbatim>\<open>diffHelp\<close> and \<^verbatim>\<open>diffChildren\<close> return the patches they push. \<open>refEq\<close> is \<^verbatim>\<open>===\<close> on virtual nodes and
  \<open>same\<close> is \<^verbatim>\<open>===\<close> on decoded values.
\<close>

function (sequential) diffHelp ::
  "('u vnode \<Rightarrow> 'u vnode \<Rightarrow> bool) \<Rightarrow> ('u dval \<Rightarrow> 'u dval \<Rightarrow> bool) \<Rightarrow> 'u vnode \<Rightarrow> 'u vnode \<Rightarrow> nat \<Rightarrow>
   'u patch list"
and diffPairs ::
  "('u vnode \<Rightarrow> 'u vnode \<Rightarrow> bool) \<Rightarrow> ('u dval \<Rightarrow> 'u dval \<Rightarrow> bool) \<Rightarrow> 'u vnode list \<Rightarrow> 'u vnode list \<Rightarrow> nat \<Rightarrow>
   'u patch list"
where
  "diffHelp refEq same a b i =
     (if refEq a b then []
      else case a of
        VText aText \<Rightarrow>
          (case b of
             VText bText \<Rightarrow> if aText \<noteq> bText then [Patch i (P_text bText)] else []
           | _ \<Rightarrow> [Patch i (P_redraw b)])
      | VThunk aFunc aArgs aNode \<Rightarrow>
          (case b of
             VThunk bFunc bArgs bNode \<Rightarrow>
               if aFunc = bFunc \<and> aArgs = bArgs then []
               else (let subPatches = diffHelp refEq same aNode bNode 0 in
                     if subPatches \<noteq> [] then [Patch i (P_thunk subPatches)] else [])
           | _ \<Rightarrow> [Patch i (P_redraw b)])
      | VNode aTag aNamespace aFacts aChildren \<Rightarrow>
          (case b of
             VNode bTag bNamespace bFacts bChildren \<Rightarrow>
               if aTag \<noteq> bTag \<or> aNamespace \<noteq> bNamespace then [Patch i (P_redraw b)]
               else (case diffFacts same aFacts bFacts of
                       Some d \<Rightarrow> [Patch i (P_facts d)]
                     | None \<Rightarrow> []) @
                    (if length aChildren > length bChildren
                     then [Patch i (P_remove_last (length aChildren - length bChildren))]
                     else if length aChildren < length bChildren
                     then [Patch i (P_append (drop (length aChildren) bChildren))]
                     else []) @
                    diffPairs refEq same aChildren bChildren i
           | _ \<Rightarrow> [Patch i (P_redraw b)])
      | VKeyed aTag aNamespace aFacts aChildren \<Rightarrow>
          (case b of
             VKeyed bTag bNamespace bFacts bChildren \<Rightarrow>
               if aTag \<noteq> bTag \<or> aNamespace \<noteq> bNamespace then [Patch i (P_redraw b)]
               else (case diffFacts same aFacts bFacts of
                       Some d \<Rightarrow> [Patch i (P_facts d)]
                     | None \<Rightarrow> []) @
                    (let st = diffKeyed descendantsCount aChildren bChildren i in
                     reorder_patch i st (concat (map (\<lambda>l.
                       case l of
                         Local_diff x y j \<Rightarrow> diffHelp refEq same x y j
                       | Local_remove j None \<Rightarrow> [Patch j (P_remove None)]
                       | Local_remove j (Some (x, y, e)) \<Rightarrow>
                           [Patch j (P_remove (Some (diffHelp refEq same x y j, e, to_end st e)))]) (localPatches st))))
           | _ \<Rightarrow> [Patch i (P_redraw b)]))"
| "diffPairs refEq same [] bs i = []"
| "diffPairs refEq same (aChild # as) [] i = []"
| "diffPairs refEq same (aChild # as) (bChild # bs) i =
     diffHelp refEq same aChild bChild (i + 1) @
     diffPairs refEq same as bs (i + 1 + descendantsCount aChild)"
  by pat_completeness auto
termination
  by (relation "measure (\<lambda>x. case x of Inl (_, _, a, _) \<Rightarrow> size a | Inr (_, _, as, _) \<Rightarrow> size_list size as)")
     (auto dest!: diffKeyed_calls keyed_kid_size)

definition VirtualDom_diff ::
  "('u vnode \<Rightarrow> 'u vnode \<Rightarrow> bool) \<Rightarrow> ('u dval \<Rightarrow> 'u dval \<Rightarrow> bool) \<Rightarrow> 'u vnode \<Rightarrow> 'u vnode \<Rightarrow> 'u patch list" where
  "VirtualDom_diff refEq same a b = diffHelp refEq same a b 0"

subsection \<open>The DOM\<close>

record 'u dom_facts =
  dom_props :: "string \<Rightarrow> json option"
  dom_style :: "string \<Rightarrow> string option"
  dom_attrs :: "string \<Rightarrow> string option"
  dom_attrs_ns :: "string \<times> string \<Rightarrow> string option"
  dom_handlers :: "string \<Rightarrow> 'u event option"

datatype 'u dom =
    DText string
  | DElement string "string option" "'u dom_facts" "'u dom list"

definition no_dom_facts :: "'u dom_facts" where
  "no_dom_facts =
     \<lparr>dom_props = Map.empty, dom_style = Map.empty, dom_attrs = Map.empty,
      dom_attrs_ns = Map.empty, dom_handlers = Map.empty\<rparr>"

text \<open>
  \<^verbatim>\<open>applyStyles\<close>, \<^verbatim>\<open>applyAttrs\<close>, \<^verbatim>\<open>applyAttrsNS\<close>, \<^verbatim>\<open>applyEvents\<close> and the assignments of properties. A handler is its
  \<^verbatim>\<open>info\<close>, which is replaced when the handler exists and set when it is new.
\<close>

definition applyStyles :: "(string \<times> string) list \<Rightarrow> 'u dom_facts \<Rightarrow> 'u dom_facts" where
  "applyStyles styles d = fold (\<lambda>(k, v) d. d\<lparr>dom_style := (dom_style d)(k \<mapsto> v)\<rparr>) styles d"

definition applyAttrs :: "(string \<times> string option) list \<Rightarrow> 'u dom_facts \<Rightarrow> 'u dom_facts" where
  "applyAttrs attrs d = fold (\<lambda>(k, v) d. d\<lparr>dom_attrs := (dom_attrs d)(k := v)\<rparr>) attrs d"

definition applyAttrsNS :: "(string \<times> string \<times> string option) list \<Rightarrow> 'u dom_facts \<Rightarrow> 'u dom_facts" where
  "applyAttrsNS nsAttrs d =
     fold (\<lambda>(k, ns, v) d. d\<lparr>dom_attrs_ns := (dom_attrs_ns d)((ns, k) := v)\<rparr>) nsAttrs d"

definition applyEvents :: "(string \<times> 'u event option) list \<Rightarrow> 'u dom_facts \<Rightarrow> 'u dom_facts" where
  "applyEvents events d = fold (\<lambda>(k, v) d. d\<lparr>dom_handlers := (dom_handlers d)(k := v)\<rparr>) events d"

definition applyProps :: "(string \<times> json) list \<Rightarrow> 'u dom_facts \<Rightarrow> 'u dom_facts" where
  "applyProps props d =
     fold (\<lambda>(k, v) d.
       if k = ''value'' \<and> dom_props d k = Some v then d
       else d\<lparr>dom_props := (dom_props d)(k \<mapsto> v)\<rparr>) props d"

definition applyFacts :: "'u facts_diff \<Rightarrow> 'u dom_facts \<Rightarrow> 'u dom_facts" where
  "applyFacts f d =
     applyEvents (d_events f) (applyAttrsNS (d_attrs_ns f) (applyAttrs (d_attrs f)
       ((case d_styles f of None \<Rightarrow> id | Some styles \<Rightarrow> applyStyles styles) (applyProps (d_props f) d))))"

definition new_facts :: "'u facts \<Rightarrow> 'u facts_diff" where
  "new_facts f =
     \<lparr>d_props = f_props f, d_styles = f_styles f, d_attrs = map (\<lambda>(k, v). (k, Some v)) (f_attrs f),
      d_attrs_ns = map (\<lambda>(k, ns, v). (k, ns, Some v)) (f_attrs_ns f),
      d_events = map (\<lambda>(k, v). (k, Some v)) (f_events f)\<rparr>"

fun render :: "'u vnode \<Rightarrow> 'u dom" where
  "render (VText text) = DText text"
| "render (VNode tag namespace facts children) =
     DElement tag namespace (applyFacts (new_facts facts) no_dom_facts) (map render children)"
| "render (VKeyed tag namespace facts children) =
     DElement tag namespace (applyFacts (new_facts facts) no_dom_facts) (map render (map snd children))"
| "render (VThunk _ _ node) = render node"

text \<open>
  \<^verbatim>\<open>makeEventHandler\<close>: the handler decodes the event; when that succeeds, it applies the taggers of the
  event node and of its parents, from the innermost to the outermost one, which hands the message
  to the program. The result also tells whether the event is stopped and whether its default action
  is prevented.
\<close>

datatype 'u tagger =
    TFunction "'u dval \<Rightarrow> 'u dval"
  | TArray "('u dval \<Rightarrow> 'u dval) list"

fun applyTagger :: "'u tagger \<Rightarrow> 'u dval \<Rightarrow> 'u dval" where
  "applyTagger (TFunction f) message = f message"
| "applyTagger (TArray fs) message = foldr (\<lambda>f. f) fs message"

record 'u handled =
  stopped :: bool
  prevented :: bool
  message :: "'u dval"

definition eventHandler ::
  "(json \<Rightarrow> string) \<Rightarrow> (int \<Rightarrow> nat) \<Rightarrow> 'u tagger list \<Rightarrow> 'u event \<Rightarrow> json \<Rightarrow> 'u handled option" where
  "eventHandler stringify floorLog eventNode info event =
     (case Json_run stringify floorLog (event_decoder info) event of
        Ok value \<Rightarrow> Some \<lparr>stopped = stopPropagation info, prevented = preventDefault info,
                          message = fold applyTagger eventNode value\<rparr>
      | Err _ \<Rightarrow> None)"

subsection \<open>Finding the DOM nodes of patches\<close>

text \<open>
  A located patch is a patch with the DOM node it is for. \<^verbatim>\<open>addDomNodesHelp\<close> walks over the virtual
  node, whose nodes have the indices from \<open>low\<close> to \<open>high\<close>, and takes from the front of the list the patches with
  indices in that range; here it returns them with their paths, and the rest of the list.
\<close>

datatype 'u lpatch =
    L_redraw "'u vnode"
  | L_facts "'u facts_diff"
  | L_text string
  | L_thunk "(nat list \<times> 'u lpatch) list"
  | L_remove_last nat
  | L_append "'u vnode list"
  | L_remove "((nat list \<times> 'u lpatch) list \<times> nat \<times> bool) option"
  | L_reorder "(nat list \<times> 'u lpatch) list" "(nat \<times> 'u insertion) list" "'u insertion list option"

type_synonym 'u located = "(nat list \<times> 'u lpatch) list"

definition traverse_error :: js_error where
  "traverse_error = JsError ''should never traverse `text` or `thunk` nodes like this''"

text \<open>The node below a lazy node; the code reads \<^verbatim>\<open>vNode.node\<close> for a patch of a lazy node only.\<close>

fun thunk_node :: "'u vnode \<Rightarrow> 'u vnode option" where
  "thunk_node (VThunk _ _ node) = Some node"
| "thunk_node _ = None"

definition prefix_path :: "nat \<Rightarrow> 'u located \<Rightarrow> 'u located" where
  "prefix_path j l = map (\<lambda>(q, p). (j # q, p)) l"

function (sequential)
  addDomNodesHelp :: "'u vnode \<Rightarrow> nat \<Rightarrow> nat \<Rightarrow> 'u patch list \<Rightarrow> ('u located \<times> 'u patch list) result"
and addHere :: "'u vnode \<Rightarrow> nat \<Rightarrow> nat \<Rightarrow> 'u patch list \<Rightarrow> ('u located \<times> bool \<times> 'u patch list) result"
and addPatch :: "'u vnode \<Rightarrow> nat \<Rightarrow> nat \<Rightarrow> 'u patch_data \<Rightarrow> 'u lpatch result"
and addChildren ::
  "'u vnode list \<Rightarrow> nat \<Rightarrow> nat \<Rightarrow> nat \<Rightarrow> 'u patch list \<Rightarrow> ('u located \<times> 'u patch list) result"
where
  "addDomNodesHelp v low high patches =
     bindE (addHere v low high patches) (\<lambda>(here, finished, rest).
       if finished then Inr (here, rest)
       else case v of
         VNode _ _ _ children \<Rightarrow>
           bindE (addChildren children 0 low high rest) (\<lambda>(below, rest'). Inr (here @ below, rest'))
       | VKeyed _ _ _ children \<Rightarrow>
           bindE (addChildren (map snd children) 0 low high rest) (\<lambda>(below, rest'). Inr (here @ below, rest'))
       | _ \<Rightarrow> Inl traverse_error)"
| "addHere v low high [] = Inr ([], True, [])"
| "addHere v low high (Patch i d # patches) =
     (if i = low then
        bindE (addPatch v low high d)
          (\<lambda>l. if patches = [] \<or> index (hd patches) > high then Inr ([([], l)], True, patches)
               else bindE (addHere v low high patches) (\<lambda>(ls, finished, rest).
                      Inr (([], l) # ls, finished, rest)))
      else Inr ([], False, Patch i d # patches))"
| "addPatch v low high (P_thunk sub) =
     (case thunk_node v of
        None \<Rightarrow> Inl TypeError
      | Some node \<Rightarrow>
          bindE (addDomNodesHelp node 0 (descendantsCount node) sub) (\<lambda>(l, _). Inr (L_thunk l)))"
| "addPatch v low high (P_reorder [] ins en) = Inr (L_reorder [] ins en)"
| "addPatch v low high (P_reorder sub ins en) =
     bindE (addDomNodesHelp v low high sub) (\<lambda>(l, _). Inr (L_reorder l ins en))"
| "addPatch v low high (P_remove None) = Inr (L_remove None)"
| "addPatch v low high (P_remove (Some ([], entry))) = Inr (L_remove (Some ([], entry)))"
| "addPatch v low high (P_remove (Some (sub, entry))) =
     bindE (addDomNodesHelp v low high sub) (\<lambda>(l, _). Inr (L_remove (Some (l, entry))))"
| "addPatch v low high (P_redraw b) = Inr (L_redraw b)"
| "addPatch v low high (P_facts f) = Inr (L_facts f)"
| "addPatch v low high (P_text t) = Inr (L_text t)"
| "addPatch v low high (P_remove_last n) = Inr (L_remove_last n)"
| "addPatch v low high (P_append vs) = Inr (L_append vs)"
| "addChildren [] j low high patches = Inr ([], patches)"
| "addChildren (vChild # vs) j low high patches =
     (let low' = low + 1; nextLow = low' + descendantsCount vChild in
      if patches \<noteq> [] \<and> low' \<le> index (hd patches) \<and> index (hd patches) \<le> nextLow then
        bindE (addDomNodesHelp vChild low' nextLow patches) (\<lambda>(l, rest).
          if rest = [] \<or> index (hd rest) > high then Inr (prefix_path j l, rest)
          else bindE (addChildren vs (Suc j) nextLow high rest) (\<lambda>(ls, rest').
                 Inr (prefix_path j l @ ls, rest')))
      else addChildren vs (Suc j) nextLow high patches)"
  by pat_completeness auto
termination
  by (relation "measures [\<lambda>x. case x of
        Inl (Inl (v, _, _, ps)) \<Rightarrow> size v
      | Inl (Inr (v, _, _, ps)) \<Rightarrow> size v
      | Inr (Inl (v, _, _, d)) \<Rightarrow> size v
      | Inr (Inr (vs, _, _, _, _)) \<Rightarrow> size_list size vs,
      \<lambda>x. case x of
        Inl (Inl (v, _, _, ps)) \<Rightarrow> size_list size ps
      | Inl (Inr (v, _, _, ps)) \<Rightarrow> size_list size ps
      | Inr (Inl (v, _, _, d)) \<Rightarrow> size d
      | Inr (Inr _) \<Rightarrow> 0,
      \<lambda>x. case x of Inl (Inl _) \<Rightarrow> 1 | _ \<Rightarrow> 0]")
     (auto elim!: thunk_node.elims simp: keyed_kids_size less_Suc_eq_le)

definition addDomNodes :: "'u vnode \<Rightarrow> 'u patch list \<Rightarrow> 'u located result" where
  "addDomNodes v patches =
     bindE (addDomNodesHelp v 0 (descendantsCount v) patches) (\<lambda>(l, _). Inr l)"

subsection \<open>Applying patches\<close>

fun update_at :: "nat list \<Rightarrow> ('u dom \<Rightarrow> 'u dom) \<Rightarrow> 'u dom \<Rightarrow> 'u dom" where
  "update_at [] f d = f d"
| "update_at (j # q) f (DElement tag ns fs kids) =
     DElement tag ns fs (if j < length kids then kids[j := update_at q f (kids ! j)] else kids)"
| "update_at (j # q) f (DText t) = DText t"

text \<open>
  \<^verbatim>\<open>applyPatches\<close> also returns the node that the caller takes for the root from then on. A redraw
  of the root gives the new node. A patch of a lazy node has no \<^verbatim>\<open>domNode\<close>, since \<^verbatim>\<open>addDomNodes\<close> sets
  that of the patches below only; when the patches below replace the root, the new node is in the page, but
  the old one is returned.
\<close>

fun replaces_root :: "'u located \<Rightarrow> bool" where
  "replaces_root [] = False"
| "replaces_root (([], L_redraw _) # l) = True"
| "replaces_root (([], L_thunk sub) # l) = (replaces_root sub \<or> replaces_root l)"
| "replaces_root (_ # l) = replaces_root l"

fun loses_root :: "'u located \<Rightarrow> bool" where
  "loses_root [] = False"
| "loses_root (([], L_thunk sub) # l) = (replaces_root sub \<or> loses_root l)"
| "loses_root (_ # l) = loses_root l"

text \<open>
  \<^verbatim>\<open>applyPatchReorder\<close>. The children of the keyed node are known by their old positions, and \<open>ds\<close> has what
  they look like. A child that is moved to the end goes into the fragment at once, and the patches
  for it find it there. A child that is moved elsewhere is taken out before its patches are applied, so
  that a redraw does not replace it in a parent; what is put in later is what \<^verbatim>\<open>applyPatchesHelp\<close>
  returns for it, which is the old node when a patch of a lazy node replaces the root.
\<close>

datatype 'u child = Old nat | New "'u dom"

fun child_node :: "'u dom list \<Rightarrow> 'u child \<Rightarrow> 'u dom" where
  "child_node ds (Old j) = ds ! j"
| "child_node ds (New d) = d"

fun is_old :: "nat \<Rightarrow> 'u child \<Rightarrow> bool" where
  "is_old j (Old k) = (k = j)"
| "is_old j (New d) = False"

text \<open>\<^verbatim>\<open>entry.data\<close>: the child whose removal has the entry.\<close>

fun entry_child :: "'u located \<Rightarrow> nat \<Rightarrow> nat option" where
  "entry_child [] e = None"
| "entry_child ((j # q, L_remove (Some (_, e', _))) # l) e = (if e' = e then Some j else entry_child l e)"
| "entry_child (_ # l) e = entry_child l e"

fun insertion_child :: "'u located \<Rightarrow> 'u insertion \<Rightarrow> 'u child list" where
  "insertion_child l (e, Some vnode) = [New (render vnode)]"
| "insertion_child l (e, None) = (case entry_child l e of Some j \<Rightarrow> [Old j] | None \<Rightarrow> [])"

fun insert_children :: "'u located \<Rightarrow> (nat \<times> 'u insertion) list \<Rightarrow> 'u child list \<Rightarrow> 'u child list" where
  "insert_children l [] kids = kids"
| "insert_children l ((i, ins) # inss) kids =
     insert_children l inss (take i kids @ insertion_child l ins @ drop i kids)"

function (sequential)
  applyPatch :: "'u lpatch \<Rightarrow> 'u dom \<Rightarrow> 'u dom"
and applyPatchesHelp :: "'u located \<Rightarrow> 'u dom \<Rightarrow> 'u dom"
and applyLocal :: "'u lpatch \<Rightarrow> nat \<Rightarrow> nat list \<Rightarrow> 'u dom list \<times> nat list \<Rightarrow> 'u dom list \<times> nat list"
and applyLocals :: "'u located \<Rightarrow> 'u dom list \<times> nat list \<Rightarrow> 'u dom list \<times> nat list"
where
  "applyPatch (L_redraw vNode) d = render vNode"
| "applyPatch (L_facts f) d =
     (case d of DElement tag ns fs kids \<Rightarrow> DElement tag ns (applyFacts f fs) kids | DText t \<Rightarrow> DText t)"
| "applyPatch (L_text text) d = DText text"
| "applyPatch (L_thunk l) d = applyPatchesHelp l d"
| "applyPatch (L_remove_last i) d =
     (case d of DElement tag ns fs kids \<Rightarrow> DElement tag ns fs (take (length kids - i) kids) | DText t \<Rightarrow> DText t)"
| "applyPatch (L_append newNodes) d =
     (case d of DElement tag ns fs kids \<Rightarrow> DElement tag ns fs (kids @ map render newNodes) | DText t \<Rightarrow> DText t)"
| "applyPatch (L_remove _) d = d"
| "applyPatch (L_reorder l ins en) d =
     (case d of
        DText t \<Rightarrow> DText t
      | DElement tag ns fs kids \<Rightarrow>
          (let frag = concat (map (insertion_child l) (case en of None \<Rightarrow> [] | Some es \<Rightarrow> es));
               (ds, left) = applyLocals l (kids, filter (\<lambda>j. \<not> list_ex (is_old j) frag) [0..<length kids])
           in DElement tag ns fs (map (child_node ds) (insert_children l ins (map Old left) @ frag))))"
| "applyPatchesHelp [] d = d"
| "applyPatchesHelp ((q, patch) # patches) d =
     applyPatchesHelp patches (update_at q (applyPatch patch) d)"
| "applyLocal (L_remove None) j q (ds, left) = (ds, removeAll j left)"
| "applyLocal (L_remove (Some (sub, e, at_end))) j q (ds, left) =
     (ds[j := if \<not> at_end \<and> loses_root sub then ds ! j else applyPatchesHelp sub (ds ! j)],
      if at_end then left else removeAll j left)"
| "applyLocal patch j q (ds, left) = (ds[j := update_at q (applyPatch patch) (ds ! j)], left)"
| "applyLocals [] state = state"
| "applyLocals (([], patch) # l) state = applyLocals l state"
| "applyLocals ((j # q, patch) # l) state = applyLocals l (applyLocal patch j q state)"
  by pat_completeness auto
termination
  by (relation "measures [\<lambda>x. case x of
        Inl (Inl (p, _)) \<Rightarrow> size p
      | Inl (Inr (l, _)) \<Rightarrow> size_list (size_prod (\<lambda>_. 0) size) l
      | Inr (Inl (p, _)) \<Rightarrow> size p
      | Inr (Inr (l, _)) \<Rightarrow> size_list (size_prod (\<lambda>_. 0) size) l,
      \<lambda>x. case x of Inr (Inl _) \<Rightarrow> 1 | _ \<Rightarrow> 0]") auto

text \<open>The second result says whether the node returned is the one in the page.\<close>

definition applyPatches :: "'u dom \<Rightarrow> 'u vnode \<Rightarrow> 'u patch list \<Rightarrow> ('u dom \<times> bool) result" where
  "applyPatches rootDomNode oldVirtualNode patches =
     (if patches = [] then Inr (rootDomNode, True)
      else bindE (addDomNodes oldVirtualNode patches) (\<lambda>l.
             Inr (applyPatchesHelp l rootDomNode, \<not> loses_root l)))"

subsection \<open>The stepper\<close>

text \<open>
  \<^verbatim>\<open>makeStepper\<close> draws at most once per animation frame. \<open>requests\<close> counts the callbacks registered
  with \<^verbatim>\<open>rAF\<close> that have not run. \<open>page\<close> is the tree below the parent node; when the stepper's root is
  not in the page any more (\<open>in_page\<close>), the patches change nodes outside of the page only.
\<close>

datatype draw_state = NO_REQUEST | PENDING_REQUEST | EXTRA_REQUEST

record ('m, 'u) stepper =
  draw_state :: draw_state
  currNode :: "'u vnode"
  nextModel :: "'m option"
  page :: "'u dom"
  in_page :: bool
  requests :: nat

definition rAF :: "('m, 'u) stepper \<Rightarrow> ('m, 'u) stepper" where
  "rAF s = s\<lparr>requests := requests s + 1\<rparr>"

definition makeStepper :: "'u dom \<Rightarrow> 'u vnode \<Rightarrow> ('m, 'u) stepper" where
  "makeStepper domNode initialVirtualNode =
     \<lparr>draw_state = NO_REQUEST, currNode = initialVirtualNode, nextModel = None, page = domNode,
      in_page = True, requests = 0\<rparr>"

definition normalRenderer :: "('m \<Rightarrow> 'u vnode) \<Rightarrow> 'm \<Rightarrow> ('m, 'u) stepper" where
  "normalRenderer view initialModel =
     (let initialVirtualNode = view initialModel in makeStepper (render initialVirtualNode) initialVirtualNode)"

definition draw_error :: js_error where
  "draw_error = JsError ''Unexpected draw callback.''"

definition updateIfNeeded ::
  "('u vnode \<Rightarrow> 'u vnode \<Rightarrow> bool) \<Rightarrow> ('u dval \<Rightarrow> 'u dval \<Rightarrow> bool) \<Rightarrow> ('m \<Rightarrow> 'u vnode) \<Rightarrow>
   ('m, 'u) stepper \<Rightarrow> ('m, 'u) stepper result" where
  "updateIfNeeded refEq same view s =
     (case draw_state s of
        NO_REQUEST \<Rightarrow> Inl draw_error
      | PENDING_REQUEST \<Rightarrow>
          (let s' = (rAF s)\<lparr>draw_state := EXTRA_REQUEST\<rparr> in
           case nextModel s' of
             None \<Rightarrow> Inl TypeError
           | Some model \<Rightarrow>
               let nextNode = view model; patches = VirtualDom_diff refEq same (currNode s') nextNode in
               if in_page s' then
                 bindE (applyPatches (page s') (currNode s') patches) (\<lambda>(page', tracked).
                   Inr (s'\<lparr>page := page', in_page := tracked, currNode := nextNode\<rparr>))
               else Inr (s'\<lparr>currNode := nextNode\<rparr>))
      | EXTRA_REQUEST \<Rightarrow> Inr (s\<lparr>draw_state := NO_REQUEST\<rparr>))"

definition stepper_call :: "'m \<Rightarrow> ('m, 'u) stepper \<Rightarrow> ('m, 'u) stepper" where
  "stepper_call model s =
     (let s' = if draw_state s = NO_REQUEST then rAF s else s in
      s'\<lparr>draw_state := PENDING_REQUEST, nextModel := Some model\<rparr>)"

end
