(* ===== verification/Elm_VirtualDom_Locate.thy ===== *)
theory Elm_VirtualDom_Locate
  imports Elm_VirtualDom
begin

text \<open>
  \<^verbatim>\<open>addDomNodes\<close> finds the node of every patch: the walk over the old virtual node gives the patches of
  \<open>ldiff\<close>, the difference of two virtual nodes with paths in the place of indices.
\<close>

subsection \<open>The walk finds the right nodes\<close>

lemma diffKeyed_size:
  "localPatches (diffKeyed dc as bs r) ! k = Local_diff x y i \<Longrightarrow> k < length (localPatches (diffKeyed dc as bs r)) \<Longrightarrow>
     size x < size_list (size_prod (\<lambda>_. 0) size) as"
  "localPatches (diffKeyed dc as bs r) ! k = Local_remove i (Some (x, y, e)) \<Longrightarrow> k < length (localPatches (diffKeyed dc as bs r)) \<Longrightarrow>
     size x < size_list (size_prod (\<lambda>_. 0) size) as"
  by (metis diffKeyed_calls keyed_kid_size nth_mem)+

text \<open>The difference of two nodes with paths instead of indices.\<close>

definition facts_patches :: "('u dval \<Rightarrow> 'u dval \<Rightarrow> bool) \<Rightarrow> 'u facts \<Rightarrow> 'u facts \<Rightarrow> 'u lpatch list" where
  "facts_patches same aFacts bFacts = (case diffFacts same aFacts bFacts of Some d \<Rightarrow> [L_facts d] | None \<Rightarrow> [])"

definition head_patches ::
  "('u dval \<Rightarrow> 'u dval \<Rightarrow> bool) \<Rightarrow> 'u facts \<Rightarrow> 'u facts \<Rightarrow> 'u vnode list \<Rightarrow> 'u vnode list \<Rightarrow> 'u lpatch list" where
  "head_patches same aFacts bFacts as bs =
     facts_patches same aFacts bFacts @
     (if length as > length bs then [L_remove_last (length as - length bs)]
      else if length as < length bs then [L_append (drop (length as) bs)] else [])"

definition reorder_located :: "'u vnode keyed_state \<Rightarrow> 'u located \<Rightarrow> 'u lpatch list" where
  "reorder_located st l =
     (if l \<noteq> [] \<or> inserts st \<noteq> [] \<or> endInserts st \<noteq> None then
        [L_reorder l (map (\<lambda>(j, e). (j, insertion st e)) (inserts st)) (map_option (map (insertion st)) (endInserts st))]
      else [])"

function (sequential) ldiff :: "('u vnode \<Rightarrow> 'u vnode \<Rightarrow> bool) \<Rightarrow> ('u dval \<Rightarrow> 'u dval \<Rightarrow> bool) \<Rightarrow> 'u vnode \<Rightarrow> 'u vnode \<Rightarrow> 'u located"
and lpairs ::
  "('u vnode \<Rightarrow> 'u vnode \<Rightarrow> bool) \<Rightarrow> ('u dval \<Rightarrow> 'u dval \<Rightarrow> bool) \<Rightarrow> nat \<Rightarrow> 'u vnode list \<Rightarrow> 'u vnode list \<Rightarrow> 'u located"
where
  "ldiff refEq same a b =
     (if refEq a b then []
      else case a of
        VText t \<Rightarrow> (case b of VText t' \<Rightarrow> if t \<noteq> t' then [([], L_text t')] else [] | _ \<Rightarrow> [([], L_redraw b)])
      | VThunk f args n \<Rightarrow>
          (case b of
             VThunk f' args' n' \<Rightarrow>
               if f = f' \<and> args = args' then []
               else (let l = ldiff refEq same n n' in if l \<noteq> [] then [([], L_thunk l)] else [])
           | _ \<Rightarrow> [([], L_redraw b)])
      | VNode tag ns fs as \<Rightarrow>
          (case b of
             VNode tag' ns' fs' bs \<Rightarrow>
               if tag \<noteq> tag' \<or> ns \<noteq> ns' then [([], L_redraw b)]
               else map (Pair []) (head_patches same fs fs' as bs) @ lpairs refEq same 0 as bs
           | _ \<Rightarrow> [([], L_redraw b)])
      | VKeyed tag ns fs as \<Rightarrow>
          (case b of
             VKeyed tag' ns' fs' bs \<Rightarrow>
               if tag \<noteq> tag' \<or> ns \<noteq> ns' then [([], L_redraw b)]
               else map (Pair []) (facts_patches same fs fs' @
                 (let st = diffKeyed descendantsCount as bs 0 in
                  reorder_located st (concat (map (\<lambda>(j, l). prefix_path j
                    (case l of
                       Local_diff x y _ \<Rightarrow> ldiff refEq same x y
                     | Local_remove _ None \<Rightarrow> [([], L_remove None)]
                     | Local_remove _ (Some (x, y, e)) \<Rightarrow> [([], L_remove (Some (ldiff refEq same x y, e, to_end st e)))]))
                    (List.enumerate 0 (localPatches st))))))
           | _ \<Rightarrow> [([], L_redraw b)]))"
| "lpairs refEq same j [] bs = []"
| "lpairs refEq same j (a # as) [] = []"
| "lpairs refEq same j (a # as) (b # bs) =
     prefix_path j (ldiff refEq same a b) @ lpairs refEq same (Suc j) as bs"
  by pat_completeness auto
termination
  by (relation "measure (\<lambda>x. case x of Inl (_, _, a, _) \<Rightarrow> size a | Inr (_, _, _, as, _) \<Rightarrow> size_list size as)")
     (auto simp: in_set_enumerate_eq less_Suc_eq dest!: diffKeyed_size)

declare diffHelp.simps [simp del] ldiff.simps [simp del] addDomNodesHelp.simps [simp del] addChildren.simps(2) [simp del]

text \<open>The patches of one local patch, with indices and with paths.\<close>

definition local_diff ::
  "('u vnode \<Rightarrow> 'u vnode \<Rightarrow> bool) \<Rightarrow> ('u dval \<Rightarrow> 'u dval \<Rightarrow> bool) \<Rightarrow> 'u vnode keyed_state \<Rightarrow> 'u vnode local_patch \<Rightarrow> 'u patch list" where
  "local_diff refEq same st l =
     (case l of
        Local_diff x y j \<Rightarrow> diffHelp refEq same x y j
      | Local_remove j None \<Rightarrow> [Patch j (P_remove None)]
      | Local_remove j (Some (x, y, e)) \<Rightarrow> [Patch j (P_remove (Some (diffHelp refEq same x y j, e, to_end st e)))])"

definition local_ldiff ::
  "('u vnode \<Rightarrow> 'u vnode \<Rightarrow> bool) \<Rightarrow> ('u dval \<Rightarrow> 'u dval \<Rightarrow> bool) \<Rightarrow> 'u vnode keyed_state \<Rightarrow> 'u vnode local_patch \<Rightarrow> 'u located" where
  "local_ldiff refEq same st l =
     (case l of
        Local_diff x y _ \<Rightarrow> ldiff refEq same x y
      | Local_remove _ None \<Rightarrow> [([], L_remove None)]
      | Local_remove _ (Some (x, y, e)) \<Rightarrow> [([], L_remove (Some (ldiff refEq same x y, e, to_end st e)))])"

definition at_children :: "nat \<Rightarrow> 'u located list \<Rightarrow> 'u located" where
  "at_children j lss = concat (map (\<lambda>(k, l). prefix_path k l) (List.enumerate j lss))"

lemma at_children_simps [simp]:
  "at_children j [] = []" "at_children j (l # lss) = prefix_path j l @ at_children (Suc j) lss"
  by (simp_all add: at_children_def)

lemma prefix_path_empty [simp]: "prefix_path j l = [] \<longleftrightarrow> l = []"
  by (simp add: prefix_path_def)

text \<open>The equations of the two functions, by the kinds of the nodes.\<close>

lemmas diff_unfold = diffHelp.simps ldiff.simps

lemma diff_refEq: "refEq a b \<Longrightarrow> diffHelp refEq same a b i = [] \<and> ldiff refEq same a b = []"
  by (simp add: diff_unfold [of refEq same a b])

lemma diff_text:
  assumes "\<not> refEq (VText t) (VText u)"
  shows "diffHelp refEq same (VText t) (VText u) i = (if t = u then [] else [Patch i (P_text u)])"
    "ldiff refEq same (VText t) (VText u) = (if t = u then [] else [([], L_text u)])"
  using assms by (simp_all add: diff_unfold [of refEq same "VText t" "VText u"])

definition same_kind :: "'u vnode \<Rightarrow> 'u vnode \<Rightarrow> bool" where
  "same_kind a b \<longleftrightarrow>
     (case (a, b) of
        (VText _, VText _) \<Rightarrow> True
      | (VNode tag ns _ _, VNode tag' ns' _ _) \<Rightarrow> tag = tag' \<and> ns = ns'
      | (VKeyed tag ns _ _, VKeyed tag' ns' _ _) \<Rightarrow> tag = tag' \<and> ns = ns'
      | (VThunk _ _ _, VThunk _ _ _) \<Rightarrow> True
      | _ \<Rightarrow> False)"

lemma diff_redraw:
  assumes "\<not> refEq a b" "\<not> same_kind a b"
  shows "diffHelp refEq same a b i = [Patch i (P_redraw b)]" "ldiff refEq same a b = [([], L_redraw b)]"
  using assms by (auto simp: diff_unfold [of refEq same a b] same_kind_def split: vnode.splits)

lemma diff_thunk:
  assumes "\<not> refEq (VThunk f args n) (VThunk f' args' n')"
  shows "diffHelp refEq same (VThunk f args n) (VThunk f' args' n') i =
      (if f = f' \<and> args = args' \<or> diffHelp refEq same n n' 0 = [] then []
       else [Patch i (P_thunk (diffHelp refEq same n n' 0))])"
    "ldiff refEq same (VThunk f args n) (VThunk f' args' n') =
      (if f = f' \<and> args = args' \<or> ldiff refEq same n n' = [] then [] else [([], L_thunk (ldiff refEq same n n'))])"
  using assms by (auto simp: diff_unfold [of refEq same "VThunk f args n" "VThunk f' args' n'"] Let_def)

fun unlocated :: "'u lpatch \<Rightarrow> 'u patch_data" where
  "unlocated (L_facts d) = P_facts d"
| "unlocated (L_remove_last n) = P_remove_last n"
| "unlocated (L_append vs) = P_append vs"
| "unlocated _ = P_text []"

lemma diff_node:
  assumes "\<not> refEq a b" "a = VNode tag ns fs as" "b = VNode tag ns fs' bs"
  shows "diffHelp refEq same a b i =
      map (Patch i \<circ> unlocated) (head_patches same fs fs' as bs) @ diffPairs refEq same as bs i"
    "ldiff refEq same a b = map (Pair []) (head_patches same fs fs' as bs) @ lpairs refEq same 0 as bs"
proof -
  show "diffHelp refEq same a b i =
      map (Patch i \<circ> unlocated) (head_patches same fs fs' as bs) @ diffPairs refEq same as bs i"
    using assms by (subst diffHelp.simps) (simp add: head_patches_def facts_patches_def split: option.split)
  show "ldiff refEq same a b = map (Pair []) (head_patches same fs fs' as bs) @ lpairs refEq same 0 as bs"
    using assms by (subst ldiff.simps) simp
qed

lemma diff_keyed:
  assumes "\<not> refEq a b" "a = VKeyed tag ns fs as" "b = VKeyed tag ns fs' bs"
  shows "diffHelp refEq same a b i =
      map (Patch i \<circ> unlocated) (facts_patches same fs fs') @
      (let st = diffKeyed descendantsCount as bs i in
       reorder_patch i st (concat (map (local_diff refEq same st) (localPatches st))))"
    "ldiff refEq same a b = map (Pair []) (facts_patches same fs fs' @
      (let st = diffKeyed descendantsCount as bs 0 in
       reorder_located st (at_children 0 (map (local_ldiff refEq same st) (localPatches st)))))"
proof -
  have "map (\<lambda>(j, l). prefix_path j (local_ldiff refEq same st l)) (List.enumerate k ls) =
      map (\<lambda>(j, l). prefix_path j l) (List.enumerate k (map (local_ldiff refEq same st) ls))" for st k and ls
    by (induction ls arbitrary: k) auto
  note e = this [unfolded local_ldiff_def]
  show "diffHelp refEq same a b i =
      map (Patch i \<circ> unlocated) (facts_patches same fs fs') @
      (let st = diffKeyed descendantsCount as bs i in
       reorder_patch i st (concat (map (local_diff refEq same st) (localPatches st))))"
    using assms
    by (subst diffHelp.simps) (simp add: facts_patches_def local_diff_def [abs_def] Let_def split: option.split)
  show "ldiff refEq same a b = map (Pair []) (facts_patches same fs fs' @
      (let st = diffKeyed descendantsCount as bs 0 in
       reorder_located st (at_children 0 (map (local_ldiff refEq same st) (localPatches st)))))"
    using assms by (subst ldiff.simps) (simp add: at_children_def local_ldiff_def [abs_def] Let_def e)
qed

subsubsection \<open>Blocks of patches\<close>

text \<open>
  A block for a node is a list of patches with indices of that node and of those below it, together with
  the patches that the walk over the node makes of it, whatever comes after the block.
\<close>

definition block :: "'u vnode \<Rightarrow> nat \<Rightarrow> 'u patch list \<Rightarrow> 'u located \<Rightarrow> bool" where
  "block v low ps ls \<longleftrightarrow>
     (ps = [] \<longleftrightarrow> ls = []) \<and> (\<forall>p \<in> set ps. low \<le> index p \<and> index p \<le> low + descendantsCount v) \<and>
     (ps \<noteq> [] \<longrightarrow> (\<forall>rest. rest = [] \<or> index (hd rest) > low + descendantsCount v \<longrightarrow>
        addDomNodesHelp v low (low + descendantsCount v) (ps @ rest) = Inr (ls, rest)))"

fun blocks :: "'u vnode list \<Rightarrow> nat \<Rightarrow> 'u patch list list \<Rightarrow> 'u located list \<Rightarrow> bool" where
  "blocks [] low [] [] \<longleftrightarrow> True"
| "blocks (v # vs) low (ps # pss) (ls # lss) \<longleftrightarrow>
     block v (low + 1) ps ls \<and> blocks vs (low + 1 + descendantsCount v) pss lss"
| "blocks _ _ _ _ \<longleftrightarrow> False"

lemma block_Nil [simp]: "block v low [] []"
  by (simp add: block_def)

lemma block_locates:
  "block v low ps ls \<Longrightarrow> ps \<noteq> [] \<Longrightarrow> rest = [] \<or> index (hd rest) > low + descendantsCount v \<Longrightarrow>
   addDomNodesHelp v low (low + descendantsCount v) (ps @ rest) = Inr (ls, rest)"
  unfolding block_def by blast

lemma block_empty: "block v low ps ls \<Longrightarrow> ps = [] \<longleftrightarrow> ls = []"
  by (simp add: block_def)

definition below :: "'u vnode list \<Rightarrow> nat" where
  "below vs = sum_list (map descendantsCount vs) + length vs"

lemma below_simps [simp]: "below [] = 0" "below (v # vs) = 1 + descendantsCount v + below vs"
  by (simp_all add: below_def)

lemma blocks_range:
  "blocks vs low pss lss \<Longrightarrow> p \<in> set (concat pss) \<Longrightarrow> low < index p \<and> index p \<le> low + below vs"
proof (induction vs low pss lss rule: blocks.induct)
  case (2 v vs low ps pss ls lss)
  then show ?case by (fastforce simp: block_def)
qed auto

lemma blocks_hd:
  assumes "blocks vs low pss lss" "concat pss \<noteq> []"
  shows "low < index (hd (concat pss @ rest))" "index (hd (concat pss @ rest)) \<le> low + below vs"
proof -
  have "hd (concat pss @ rest) = hd (concat pss)" using assms(2) by (rule hd_append2)
  moreover have "hd (concat pss) \<in> set (concat pss)" using assms(2) by (rule hd_in_set)
  ultimately show "low < index (hd (concat pss @ rest))" "index (hd (concat pss @ rest)) \<le> low + below vs"
    using blocks_range [OF assms(1)] by metis+
qed

lemma blocks_empty: "blocks vs low pss lss \<Longrightarrow> concat pss = [] \<longleftrightarrow> at_children j lss = []"
proof (induction vs low pss lss arbitrary: j rule: blocks.induct)
  case (2 v vs low ps pss ls lss)
  from 2(1) [of "Suc j"] 2(2) block_empty [of v "low + 1" ps ls] show ?case by simp
qed auto

text \<open>The walk over the children takes the blocks of the children one after the other.\<close>

lemma addChildren_blocks:
  "blocks vs low pss lss \<Longrightarrow> rest = [] \<or> index (hd rest) > high \<Longrightarrow> low + below vs \<le> high \<Longrightarrow>
   addChildren vs j low high (concat pss @ rest) = Inr (at_children j lss, rest)"
proof (induction vs low pss lss arbitrary: j rule: blocks.induct)
  case (2 v vs low ps pss ls lss)
  let ?next = "low + 1 + descendantsCount v"
  let ?tail = "concat pss @ rest"
  have b: "block v (low + 1) ps ls" and bs: "blocks vs ?next pss lss" using 2(2) by simp_all
  have tail: "?tail = [] \<or> index (hd ?tail) > ?next"
    using blocks_hd(1) [OF bs, of rest] 2(3,4)
    by (cases "concat pss = []") (auto simp del: concat_eq_Nil_conv)
  have IH: "addChildren vs (Suc j) ?next high ?tail = Inr (at_children (Suc j) lss, rest)"
    using 2(1) [of "Suc j"] bs 2(3,4) by simp
  show ?case
  proof (cases "ps = []")
    case True
    with b have "ls = []" by (simp add: block_def)
    with True tail IH show ?thesis by (auto simp: addChildren.simps(2) Let_def prefix_path_def)
  next
    case False
    have "hd ps \<in> set ps" using False by simp
    then have hd: "low + 1 \<le> index (hd (ps @ ?tail))" "index (hd (ps @ ?tail)) \<le> ?next"
      using b False unfolding block_def by auto
    have loc: "addDomNodesHelp v (low + 1) ?next (ps @ ?tail) = Inr (ls, ?tail)"
      using block_locates [OF b False, of ?tail] tail by simp
    have unfold: "addChildren (v # vs) j low high (ps @ ?tail) =
        (if ?tail = [] \<or> index (hd ?tail) > high then Inr (prefix_path j ls, ?tail)
         else bindE (addChildren vs (Suc j) ?next high ?tail) (\<lambda>(l, rest'). Inr (prefix_path j ls @ l, rest')))"
      using False hd loc by (subst addChildren.simps(2)) (simp add: Let_def)
    show ?thesis
    proof (cases "?tail = [] \<or> index (hd ?tail) > high")
      case True
      have none: "concat pss = []"
        using True blocks_hd(2) [OF bs, of rest] 2(4) by (cases "concat pss = []") auto
      then have "?tail = rest" "at_children (Suc j) lss = []" using blocks_empty [OF bs] by auto
      with none unfold True show ?thesis by (simp del: concat_eq_Nil_conv)
    next
      case more: False
      from unfold more IH have "addChildren (v # vs) j low high (ps @ ?tail) =
          Inr (prefix_path j ls @ at_children (Suc j) lss, rest)"
        by (simp only: if_False bindE_Inr prod.case)
      then show ?thesis by simp
    qed
  qed
qed auto

lemma blocks_nth:
  "blocks vs low pss lss \<longleftrightarrow> length pss = length vs \<and> length lss = length vs \<and>
     (\<forall>m < length vs. block (vs ! m) (child_index descendantsCount low vs m) (pss ! m) (lss ! m))"
proof (induction vs low pss lss rule: blocks.induct)
  case (2 v vs low ps pss ls lss)
  have "child_index descendantsCount low (v # vs) (Suc m) = child_index descendantsCount (low + 1 + descendantsCount v) vs m" for m
    by (simp add: child_index_def)
  moreover have "child_index descendantsCount low (v # vs) 0 = low + 1" by (simp add: child_index_def)
  ultimately show ?case using 2 by (auto simp: All_less_Suc2)
qed auto

text \<open>The patches for a node itself, and then the blocks of its children.\<close>

lemma addHere_all:
  assumes "\<forall>(d, l) \<in> set dls. addPatch v low high d = Inr l" "low \<le> high" "rest = [] \<or> index (hd rest) \<noteq> low"
    "dls \<noteq> [] \<or> rest \<noteq> []"
  shows "addHere v low high (map (Patch low \<circ> fst) dls @ rest) =
    Inr (map (Pair [] \<circ> snd) dls, dls \<noteq> [] \<and> (rest = [] \<or> index (hd rest) > high), rest)"
  using assms
proof (induction dls)
  case Nil
  then show ?case by (cases rest; cases "hd rest") auto
next
  case (Cons x dls)
  then show ?case by (cases x; cases dls; cases rest) auto
qed

fun child_nodes :: "'u vnode \<Rightarrow> 'u vnode list option" where
  "child_nodes (VNode _ _ _ kids) = Some kids"
| "child_nodes (VKeyed _ _ _ kids) = Some (map snd kids)"
| "child_nodes _ = None"

lemma child_nodes_below: "child_nodes v = Some vs \<Longrightarrow> descendantsCount v = below vs"
  by (cases v) (auto simp: below_def)

lemma addDomNodesHelp_below:
  assumes "child_nodes v = Some vs" "addHere v low high ps = Inr (here, False, ps')"
    "addChildren vs 0 low high ps' = Inr (ls, rest)"
  shows "addDomNodesHelp v low high ps = Inr (here @ ls, rest)"
  using assms by (subst addDomNodesHelp.simps) (cases v; simp)

lemma node_block:
  assumes here: "\<forall>(d, l) \<in> set dls. addPatch v low (low + descendantsCount v) d = Inr l"
    and kids: "child_nodes v = Some vs" "blocks vs low pss lss"
  shows "block v low (map (Patch low \<circ> fst) dls @ concat pss) (map (Pair [] \<circ> snd) dls @ at_children 0 lss)"
proof -
  let ?high = "low + descendantsCount v"
  let ?ps = "map (Patch low \<circ> fst) dls"
  have e: "concat pss = [] \<longleftrightarrow> at_children 0 lss = []" using blocks_empty [OF kids(2)] .
  have "addDomNodesHelp v low ?high ((?ps @ concat pss) @ rest) = Inr (map (Pair [] \<circ> snd) dls @ at_children 0 lss, rest)"
    if ne: "?ps @ concat pss \<noteq> []" and rest: "rest = [] \<or> index (hd rest) > ?high" for rest
  proof -
    have "concat pss @ rest = [] \<or> index (hd (concat pss @ rest)) \<noteq> low"
      using blocks_hd(1) [OF kids(2), of rest] rest
      by (cases "concat pss = []") (auto simp del: concat_eq_Nil_conv)
    moreover have "dls \<noteq> [] \<or> concat pss @ rest \<noteq> []" using ne by auto
    ultimately have a: "addHere v low ?high (?ps @ (concat pss @ rest)) = Inr (map (Pair [] \<circ> snd) dls,
        dls \<noteq> [] \<and> (concat pss @ rest = [] \<or> index (hd (concat pss @ rest)) > ?high), concat pss @ rest)"
      using here by (intro addHere_all) simp_all
    show ?thesis
    proof (cases "concat pss = []")
      case True
      with ne rest a e show ?thesis by (simp add: addDomNodesHelp.simps del: concat_eq_Nil_conv)
    next
      case False
      have "\<not> (concat pss @ rest = [] \<or> index (hd (concat pss @ rest)) > ?high)"
        using False blocks_hd(2) [OF kids(2) False, of rest] child_nodes_below [OF kids(1)] by auto
      with a have "addHere v low ?high (?ps @ (concat pss @ rest)) = Inr (map (Pair [] \<circ> snd) dls, False, concat pss @ rest)"
        by (simp only: simp_thms)
      moreover have "addChildren vs 0 low ?high (concat pss @ rest) = Inr (at_children 0 lss, rest)"
        using rest child_nodes_below [OF kids(1)] by (intro addChildren_blocks [OF kids(2)]) simp_all
      ultimately show ?thesis
        using kids(1) by (simp add: addDomNodesHelp_below)
    qed
  qed
  moreover have "low \<le> index p \<and> index p \<le> ?high" if "p \<in> set (?ps @ concat pss)" for p
    using that blocks_range [OF kids(2), of p] child_nodes_below [OF kids(1)] by (auto simp del: set_concat)
  moreover have "?ps @ concat pss = [] \<longleftrightarrow> map (Pair [] \<circ> snd) dls @ at_children 0 lss = []" using e by simp
  ultimately show ?thesis unfolding block_def by blast
qed


lemma single_block:
  assumes "addPatch v low (low + descendantsCount v) d = Inr l"
  shows "block v low [Patch low d] [([], l)]"
  using assms by (auto simp: block_def addDomNodesHelp.simps)

subsubsection \<open>The difference is a block\<close>

lemma no_blocks: "\<exists>pss lss. blocks vs low pss lss \<and> concat pss = [] \<and> at_children j lss = []"
proof (induction vs arbitrary: low j)
  case Nil
  have "blocks [] low [] [] \<and> concat [] = [] \<and> at_children j [] = []" by simp
  then show ?case by blast
next
  case (Cons v vs)
  obtain pss lss where "blocks vs (low + 1 + descendantsCount v) pss lss" "concat pss = []" "at_children (Suc j) lss = []"
    using Cons by blast
  then have "blocks (v # vs) low ([] # pss) ([] # lss) \<and> concat ([] # pss) = [] \<and> at_children j ([] # lss) = []"
    by simp
  then show ?case by blast
qed

lemma pairs_blocks:
  assumes "\<And>a b low. a \<in> set as \<Longrightarrow> block a low (diffHelp refEq same a b low) (ldiff refEq same a b)"
  shows "\<exists>pss lss. blocks as low pss lss \<and> concat pss = diffPairs refEq same as bs low \<and>
           at_children j lss = lpairs refEq same j as bs"
  using assms
proof (induction as arbitrary: bs low j)
  case Nil
  have "blocks [] low [] []" by simp
  moreover have "concat [] = diffPairs refEq same [] bs low" "at_children j [] = lpairs refEq same j [] bs" by simp_all
  ultimately show ?case by blast
next
  case (Cons a as)
  show ?case
  proof (cases bs)
    case Nil
    obtain pss lss where "blocks as (low + 1 + descendantsCount a) pss lss"
      "concat pss = diffPairs refEq same as [] (low + 1 + descendantsCount a)" "at_children (Suc j) lss = lpairs refEq same (Suc j) as []"
      using Cons(1) [of "low + 1 + descendantsCount a" "[]" "Suc j"] Cons(2) by auto
    then have "blocks (a # as) low ([] # pss) ([] # lss) \<and> concat ([] # pss) = diffPairs refEq same (a # as) bs low \<and>
        at_children j ([] # lss) = lpairs refEq same j (a # as) bs"
      using Nil by (cases as) (auto simp: prefix_path_def)
    then show ?thesis by blast
  next
    case (Cons b bs')
    obtain pss lss where "blocks as (low + 1 + descendantsCount a) pss lss"
      "concat pss = diffPairs refEq same as bs' (low + 1 + descendantsCount a)"
      "at_children (Suc j) lss = lpairs refEq same (Suc j) as bs'"
      using Cons.IH [of "low + 1 + descendantsCount a" bs' "Suc j"] Cons.prems by auto
    with Cons.prems [of a "low + 1" b] Cons
    have "blocks (a # as) low (diffHelp refEq same a b (low + 1) # pss) (ldiff refEq same a b # lss) \<and>
        concat (diffHelp refEq same a b (low + 1) # pss) = diffPairs refEq same (a # as) bs low \<and>
        at_children j (ldiff refEq same a b # lss) = lpairs refEq same j (a # as) bs"
      by simp
    then show ?thesis by blast
  qed
qed

text \<open>The root index of \<^verbatim>\<open>diffKeyedChildren\<close> only changes the indices.\<close>

lemma diffKeyed_root:
  "inserts (diffKeyed dc as bs r) = inserts (diffKeyed dc as bs 0)"
  "endInserts (diffKeyed dc as bs r) = endInserts (diffKeyed dc as bs 0)"
  "length (entries (diffKeyed dc as bs r)) = length (entries (diffKeyed dc as bs 0))"
  "map (shift_entry ^^ n) (entries (diffKeyed dc as bs 0)) = entries (diffKeyed dc as bs n)"
  "map (shift_local ^^ n) (localPatches (diffKeyed dc as bs 0)) = localPatches (diffKeyed dc as bs n)"
proof -
  show "inserts (diffKeyed dc as bs r) = inserts (diffKeyed dc as bs 0)"
    "endInserts (diffKeyed dc as bs r) = endInserts (diffKeyed dc as bs 0)"
    "length (entries (diffKeyed dc as bs r)) = length (entries (diffKeyed dc as bs 0))"
    by (induction r) (simp_all add: diffKeyed_shift)
  show "map (shift_entry ^^ n) (entries (diffKeyed dc as bs 0)) = entries (diffKeyed dc as bs n)"
  proof (induction n)
    case (Suc n)
    show ?case by (simp add: diffKeyed_shift flip: Suc)
  qed simp
  show "map (shift_local ^^ n) (localPatches (diffKeyed dc as bs 0)) = localPatches (diffKeyed dc as bs n)"
  proof (induction n)
    case (Suc n)
    show ?case by (simp add: diffKeyed_shift flip: Suc)
  qed simp
qed

lemma shift_entry_power [simp]:
  "e_tag ((shift_entry ^^ n) en) = e_tag en" "e_vnode ((shift_entry ^^ n) en) = e_vnode en"
  "e_index ((shift_entry ^^ n) en) = None \<longleftrightarrow> e_index en = None"
  by (induction n) (auto simp: shift_entry_def)

lemma shift_local_power [simp]:
  "(shift_local ^^ n) (Local_diff x y i) = Local_diff x y (i + n)"
  "(shift_local ^^ n) (Local_remove i d) = Local_remove (i + n) d"
  by (induction n) auto

lemma keyed_root_entry:
  assumes "e < length (entries (diffKeyed dc as bs 0))"
  shows "insertion (diffKeyed dc as bs r) e = insertion (diffKeyed dc as bs 0) e"
    "to_end (diffKeyed dc as bs r) e = to_end (diffKeyed dc as bs 0) e"
  using assms by (auto simp: insertion_def to_end_def simp flip: diffKeyed_root(4) [of r])

text \<open>A patch with patches inside, for the same node.\<close>

lemma addPatch_inside:
  assumes "block v low ps ls"
  shows "addPatch v low (low + descendantsCount v) (P_reorder ps ins en) = Inr (L_reorder ls ins en)"
    "addPatch v low (low + descendantsCount v) (P_remove (Some (ps, entry))) = Inr (L_remove (Some (ls, entry)))"
proof -
  have l: "ps \<noteq> [] \<Longrightarrow> addDomNodesHelp v low (low + descendantsCount v) ps = Inr (ls, [])"
    using block_locates [OF assms, of "[]"] by simp
  show "addPatch v low (low + descendantsCount v) (P_reorder ps ins en) = Inr (L_reorder ls ins en)"
    using l block_empty [OF assms] by (cases ps) auto
  show "addPatch v low (low + descendantsCount v) (P_remove (Some (ps, entry))) = Inr (L_remove (Some (ls, entry)))"
    using l block_empty [OF assms] by (cases ps; cases entry) auto
qed

lemma keyed_blocks:
  fixes as bs :: "(string \<times> 'u vnode) list"
  assumes IH: "\<And>a b low. a \<in> snd ` set as \<Longrightarrow> block a low (diffHelp refEq same a b low) (ldiff refEq same a b)"
  defines "st r \<equiv> diffKeyed descendantsCount as bs r"
  shows "blocks (map snd as) low (map (local_diff refEq same (st low)) (localPatches (st low)))
           (map (local_ldiff refEq same (st 0)) (localPatches (st 0)))"
proof -
  obtain g where g: "keyed_inv descendantsCount low (map snd as) g (map snd bs) (st low)"
    and len: "length (localPatches (st low)) = length as"
    using diffKeyed_inv [of descendantsCount low as bs] unfolding st_def by blast
  have shift: "localPatches (st low) = map (shift_local ^^ low) (localPatches (st 0))"
    unfolding st_def by (rule diffKeyed_root(5) [symmetric])
  have len0: "length (localPatches (st 0)) = length as" using len shift by simp
  have "block (map snd as ! m) (child_index descendantsCount low (map snd as) m)
      (local_diff refEq same (st low) (localPatches (st low) ! m)) (local_ldiff refEq same (st 0) (localPatches (st 0) ! m))"
    if m: "m < length as" for m
  proof -
    let ?x = "map snd as ! m"
    let ?i = "child_index descendantsCount low (map snd as) m"
    have x: "?x \<in> snd ` set as" using m by (metis length_map nth_mem set_map)
    have ok: "local_ok descendantsCount low (map snd as) g (entries (st low)) m (localPatches (st low) ! m)"
      using locals_invD(1) [OF keyed_invD(1) [OF g]] m len by simp
    consider (diff) y i where "localPatches (st 0) ! m = Local_diff ?x y i" "localPatches (st low) ! m = Local_diff ?x y ?i"
      | (remove) i where "localPatches (st 0) ! m = Local_remove i None" "localPatches (st low) ! m = Local_remove ?i None"
      | (move) y e i where "localPatches (st 0) ! m = Local_remove i (Some (?x, y, e))"
          "localPatches (st low) ! m = Local_remove ?i (Some (?x, y, e))" "e < length (entries (st low))"
    proof (cases "localPatches (st 0) ! m")
      case (Local_diff x y i)
      with shift m len0 have "localPatches (st low) ! m = Local_diff x y (i + low)" by simp
      with ok Local_diff that(1) show ?thesis by (simp add: local_ok_def)
    next
      case (Local_remove i d)
      with shift m len0 have "localPatches (st low) ! m = Local_remove (i + low) d" by simp
      with ok Local_remove that(2,3) show ?thesis by (cases d) (auto simp: local_ok_def)
    qed
    then show ?thesis
    proof cases
      case diff
      with IH [OF x] show ?thesis by (simp add: local_diff_def local_ldiff_def)
    next
      case remove
      then show ?thesis by (simp add: local_diff_def local_ldiff_def single_block)
    next
      case move
      have "to_end (st low) e = to_end (st 0) e"
        using move(3) diffKeyed_root(3) [of descendantsCount as bs low] keyed_root_entry(2) [of e descendantsCount as bs low]
        unfolding st_def by simp
      with move single_block [OF addPatch_inside(2) [OF IH [OF x]]] show ?thesis
        by (simp add: local_diff_def local_ldiff_def)
    qed
  qed
  then show ?thesis using len len0 by (auto simp: blocks_nth)
qed

lemma keyed_reorder:
  assumes "blocks (map snd as) low pss lss" "v = VKeyed tag ns fs as"
  obtains dls where "\<forall>(d, l) \<in> set dls. addPatch v low (low + descendantsCount v) d = Inr l"
    "reorder_patch low (diffKeyed descendantsCount as bs low) (concat pss) = map (Patch low \<circ> fst) dls"
    "reorder_located (diffKeyed descendantsCount as bs 0) (at_children 0 lss) = map snd dls"
proof -
  let ?r = "diffKeyed descendantsCount as bs low" and ?z = "diffKeyed descendantsCount as bs 0"
  have b: "block v low (concat pss) (at_children 0 lss)"
    using node_block [where dls = "[]" and v = v, OF _ _ assms(1)] assms(2) by simp
  obtain g where g: "keyed_inv descendantsCount 0 (map snd as) g (map snd bs) ?z"
    using diffKeyed_inv [of descendantsCount 0 as bs] by blast
  have ins: "insertion ?r e = insertion ?z e" if "e \<in> snd ` set (inserts ?z) \<union> set (ends ?z)" for e
    using inserts_inv_entry [OF keyed_invD(3) [OF g] that] by (intro keyed_root_entry(1)) simp
  have i: "map (\<lambda>(j, e). (j, insertion ?r e)) (inserts ?r) = map (\<lambda>(j, e). (j, insertion ?z e)) (inserts ?z)"
    unfolding diffKeyed_root(1) [of _ _ _ low] using ins by force
  have e: "map_option (map (insertion ?r)) (endInserts ?r) = map_option (map (insertion ?z)) (endInserts ?z)"
    unfolding diffKeyed_root(2) [of _ _ _ low] using ins by (cases "endInserts ?z") (auto simp: ends_def)
  let ?c = "concat pss \<noteq> [] \<or> inserts ?z \<noteq> [] \<or> endInserts ?z \<noteq> None"
  let ?i = "map (\<lambda>(j, e). (j, insertion ?z e)) (inserts ?z)" and ?e = "map_option (map (insertion ?z)) (endInserts ?z)"
  let ?dls = "if ?c then [(P_reorder (concat pss) ?i ?e, L_reorder (at_children 0 lss) ?i ?e)] else []"
  have "reorder_patch low ?r (concat pss) = (if ?c then [Patch low (P_reorder (concat pss) ?i ?e)] else [])"
    unfolding reorder_patch_def i e by (simp only: diffKeyed_root(1,2) [of _ _ _ low])
  moreover have "reorder_located ?z (at_children 0 lss) = (if ?c then [L_reorder (at_children 0 lss) ?i ?e] else [])"
    unfolding reorder_located_def block_empty [OF b] ..
  ultimately show thesis
    using addPatch_inside(1) [OF b, of ?i ?e] by (intro that [of ?dls]) (simp_all del: concat_eq_Nil_conv)
qed

lemma addPatch_unlocated:
  "l \<in> set (head_patches same fs fs' as bs) \<Longrightarrow> addPatch v low high (unlocated l) = Inr l"
  by (auto simp: head_patches_def facts_patches_def split: option.splits if_splits)

lemma same_kind_cases:
  "same_kind a b \<Longrightarrow>
     (\<exists>t u. a = VText t \<and> b = VText u) \<or>
     (\<exists>f args n f' args' n'. a = VThunk f args n \<and> b = VThunk f' args' n') \<or>
     (\<exists>tag ns fs as fs' bs. a = VNode tag ns fs as \<and> b = VNode tag ns fs' bs) \<or>
     (\<exists>tag ns fs as fs' bs. a = VKeyed tag ns fs as \<and> b = VKeyed tag ns fs' bs)"
  by (cases a; cases b) (simp_all add: same_kind_def)

theorem locate: "block a low (diffHelp refEq same a b low) (ldiff refEq same a b)"
proof (induction "size a" arbitrary: a b low rule: less_induct)
  case less
  consider (eq) "refEq a b" | (redraw) "\<not> refEq a b" "\<not> same_kind a b"
    | (strings) t u where "\<not> refEq a b" "a = VText t" "b = VText u"
    | (thunk) f args n f' args' n' where "\<not> refEq a b" "a = VThunk f args n" "b = VThunk f' args' n'"
    | (node) tag ns fs as fs' bs where "\<not> refEq a b" "a = VNode tag ns fs as" "b = VNode tag ns fs' bs"
    | (keyed) tag ns fs as fs' bs where "\<not> refEq a b" "a = VKeyed tag ns fs as" "b = VKeyed tag ns fs' bs"
    using same_kind_cases [of a b] by blast
  then show ?case
  proof cases
    case eq
    then show ?thesis by (simp add: diff_refEq)
  next
    case redraw
    then show ?thesis by (simp add: diff_redraw single_block)
  next
    case strings
    then show ?thesis by (simp add: diff_text single_block)
  next
    case thunk
    have b: "block n 0 (diffHelp refEq same n n' 0) (ldiff refEq same n n')" using less thunk by simp
    have "addPatch a low (low + descendantsCount a) (P_thunk (diffHelp refEq same n n' 0)) = Inr (L_thunk (ldiff refEq same n n'))"
      if "diffHelp refEq same n n' 0 \<noteq> []"
      using block_locates [OF b that, of "[]"] thunk by simp
    with thunk block_empty [OF b] show ?thesis by (auto simp: diff_thunk intro!: single_block)
  next
    case node
    have "size x < size a" if "x \<in> set as" for x
      using that node(2) by (simp add: less_Suc_eq_le size_list_estimation')
    then obtain pss lss where p: "blocks as low pss lss" "concat pss = diffPairs refEq same as bs low"
      "at_children 0 lss = lpairs refEq same 0 as bs"
      using pairs_blocks [of as refEq same low bs 0] less by blast
    let ?dls = "map (\<lambda>l. (unlocated l, l)) (head_patches same fs fs' as bs)"
    have "block a low (map (Patch low \<circ> fst) ?dls @ concat pss) (map (Pair [] \<circ> snd) ?dls @ at_children 0 lss)"
      using node(2) p(1) by (intro node_block) (auto simp: addPatch_unlocated)
    then show ?thesis unfolding diff_node [of refEq a b, OF node] p by (simp add: comp_def)
  next
    case keyed
    let ?st = "diffKeyed descendantsCount as bs"
    have size: "size x < size a" if "x \<in> snd ` set as" for x
      using keyed_kid_size [OF that] keyed(2) by simp
    have b: "blocks (map snd as) low (map (local_diff refEq same (?st low)) (localPatches (?st low)))
        (map (local_ldiff refEq same (?st 0)) (localPatches (?st 0)))"
      using less size by (intro keyed_blocks) blast
    from keyed_reorder [OF b keyed(2), of bs] obtain dls where
      dls: "\<forall>(d, l) \<in> set dls. addPatch a low (low + descendantsCount a) d = Inr l"
        "reorder_patch low (?st low) (concat (map (local_diff refEq same (?st low)) (localPatches (?st low)))) =
          map (Patch low \<circ> fst) dls"
        "reorder_located (?st 0) (at_children 0 (map (local_ldiff refEq same (?st 0)) (localPatches (?st 0)))) = map snd dls" .
    let ?dls = "map (\<lambda>l. (unlocated l, l)) (facts_patches same fs fs') @ dls"
    have "\<forall>(d, l) \<in> set ?dls. addPatch a low (low + descendantsCount a) d = Inr l"
      using dls(1) by (auto simp: facts_patches_def split: option.splits)
    from node_block [OF this, of "map snd as"] no_blocks [of "map snd as" low 0] keyed(2)
    have "block a low (map (Patch low \<circ> fst) ?dls) (map (Pair [] \<circ> snd) ?dls)"
      by (metis (no_types, lifting) append_Nil2 child_nodes.simps(2))
    then show ?thesis unfolding diff_keyed [of refEq a b, OF keyed] Let_def dls(2,3) by (simp add: comp_def)
  qed
qed

text \<open>
  \<^verbatim>\<open>addDomNodes\<close> never throws on the patches of a difference: it gives each of them its path, and no patch
  is left over.
\<close>

theorem addDomNodes_diff:
  "VirtualDom_diff refEq same a b \<noteq> [] \<Longrightarrow> addDomNodes a (VirtualDom_diff refEq same a b) = Inr (ldiff refEq same a b)"
  using block_locates [OF locate, of refEq same a b 0 "[]"] by (simp add: addDomNodes_def VirtualDom_diff_def)

lemma diff_empty: "VirtualDom_diff refEq same a b = [] \<longleftrightarrow> ldiff refEq same a b = []"
  using block_empty [OF locate] by (simp add: VirtualDom_diff_def)

end
