(* ===== verification/Elm_VirtualDom_Correct.thy ===== *)
theory Elm_VirtualDom_Correct
  imports Elm_VirtualDom_Locate
begin

text \<open>
  Correctness of the virtual DOM: applying the difference of two virtual nodes to a page that shows the
  first gives a page that shows the second, keyed nodes included, and the stepper brings the page up to
  date with the latest model.
\<close>

subsection \<open>What the page shows\<close>

text \<open>
  A DOM node shows a virtual node when it has the same structure, tags and texts, and the facts of
  the virtual node. Properties and styles that are gone have been reset to the empty string or to
  \<^verbatim>\<open>null\<close>; a handler may carry an earlier event as long as the code takes it for equal. An
  attribute whose namespace changes stays where it was as well, so that attributes with namespaces are
  only shown to be there. The predicate
  \<open>legit\<close> is what is known of all events of the views; it holds for the events of the handlers, too.
\<close>

definition displays_value :: "'v set \<Rightarrow> 'v option \<Rightarrow> 'v option \<Rightarrow> bool" where
  "displays_value resets wanted actual \<longleftrightarrow>
     (case wanted of Some v \<Rightarrow> actual = Some v | None \<Rightarrow> actual \<in> insert None (Some ` resets))"

definition displays_event :: "('u event \<Rightarrow> bool) \<Rightarrow> ('u dval \<Rightarrow> 'u dval \<Rightarrow> bool) \<Rightarrow> 'u event option \<Rightarrow> 'u event option \<Rightarrow> bool" where
  "displays_event legit same wanted actual \<longleftrightarrow>
     (case wanted of
        None \<Rightarrow> actual = None
      | Some e \<Rightarrow> (\<exists>e'. actual = Some e' \<and> legit e' \<and> (equalEvents same)\<^sup>*\<^sup>* e' e))"

definition styles_of :: "'u facts \<Rightarrow> (string \<times> string) list" where
  "styles_of f = (case f_styles f of None \<Rightarrow> [] | Some styles \<Rightarrow> styles)"

definition displays_facts :: "('u event \<Rightarrow> bool) \<Rightarrow> ('u dval \<Rightarrow> 'u dval \<Rightarrow> bool) \<Rightarrow> 'u facts \<Rightarrow> 'u dom_facts \<Rightarrow> bool" where
  "displays_facts legit same f d \<longleftrightarrow>
     (\<forall>k. displays_value {JStr [], JNull} (map_of (f_props f) k) (dom_props d k)) \<and>
     (\<forall>k. displays_value {[]} (map_of (styles_of f) k) (dom_style d k)) \<and>
     (\<forall>k. dom_attrs d k = map_of (f_attrs f) k) \<and>
     (\<forall>k ns v. map_of (f_attrs_ns f) k = Some (ns, v) \<longrightarrow> dom_attrs_ns d (ns, k) = Some v) \<and>
     (\<forall>k. displays_event legit same (map_of (f_events f) k) (dom_handlers d k))"

fun displays :: "('u event \<Rightarrow> bool) \<Rightarrow> ('u dval \<Rightarrow> 'u dval \<Rightarrow> bool) \<Rightarrow> 'u vnode \<Rightarrow> 'u dom \<Rightarrow> bool" where
  "displays legit same (VText t) d \<longleftrightarrow> d = DText t"
| "displays legit same (VNode tag ns fs vs) d \<longleftrightarrow>
     (\<exists>df ds. d = DElement tag ns df ds \<and> displays_facts legit same fs df \<and> list_all2 (displays legit same) vs ds)"
| "displays legit same (VKeyed tag ns fs vs) d \<longleftrightarrow>
     (\<exists>df ds. d = DElement tag ns df ds \<and> displays_facts legit same fs df \<and>
        list_all2 (displays legit same) (map snd vs) ds)"
| "displays legit same (VThunk _ _ n) d \<longleftrightarrow> displays legit same n d"

definition facts_wf :: "('u event \<Rightarrow> bool) \<Rightarrow> 'u facts \<Rightarrow> bool" where
  "facts_wf legit f \<longleftrightarrow> distinct (map fst (f_props f)) \<and> distinct (map fst (styles_of f)) \<and>
     distinct (map fst (f_attrs f)) \<and> distinct (map fst (f_attrs_ns f)) \<and> distinct (map fst (f_events f)) \<and>
     (\<forall>e \<in> snd ` set (f_events f). legit e)"

text \<open>
  Lazy nodes come from pure functions: the same function and arguments give the same node. The children
  of a keyed node are not lazy; \<open>VirtualDom_moved_lazy_stale\<close> shows why.
\<close>

fun is_thunk :: "'u vnode \<Rightarrow> bool" where
  "is_thunk (VThunk _ _ _) = True"
| "is_thunk _ = False"

fun vnode_ok :: "('u event \<Rightarrow> bool) \<Rightarrow> (nat \<Rightarrow> nat list \<Rightarrow> 'u vnode) \<Rightarrow> 'u vnode \<Rightarrow> bool" where
  "vnode_ok legit force (VText t) \<longleftrightarrow> True"
| "vnode_ok legit force (VNode tag ns fs vs) \<longleftrightarrow> facts_wf legit fs \<and> (\<forall>v \<in> set vs. vnode_ok legit force v)"
| "vnode_ok legit force (VKeyed tag ns fs vs) \<longleftrightarrow> facts_wf legit fs \<and>
     (\<forall>v \<in> snd ` set vs. vnode_ok legit force v \<and> \<not> is_thunk v)"
| "vnode_ok legit force (VThunk f args n) \<longleftrightarrow> n = force f args \<and> vnode_ok legit force n"

subsubsection \<open>Facts\<close>

definition keyed :: "('k \<Rightarrow> 'v \<Rightarrow> 'w option) \<Rightarrow> ('k \<times> 'v) list \<Rightarrow> ('k \<times> 'w) list" where
  "keyed g xs = concat (map (\<lambda>(k, v). case g k v of None \<Rightarrow> [] | Some w \<Rightarrow> [(k, w)]) xs)"

lemma keyed_keys: "fst ` set (keyed g xs) = {k. \<exists>v. (k, v) \<in> set xs \<and> g k v \<noteq> None}"
proof -
  have "(k, w) \<in> set (keyed g xs) \<longleftrightarrow> (\<exists>v. (k, v) \<in> set xs \<and> g k v = Some w)" for k w
    by (induction xs) (auto simp: keyed_def split: option.splits)
  then show ?thesis by (force simp: image_iff Bex_def)
qed

lemma keyed_lookup:
  "distinct (map fst xs) \<Longrightarrow> map_of (keyed g xs) k = (case map_of xs k of None \<Rightarrow> None | Some v \<Rightarrow> g k v)"
proof (induction xs)
  case (Cons x xs)
  have "map_of xs k = None" if "fst x = k" using Cons.prems that by (simp add: map_of_eq_None_iff)
  with Cons show ?case by (cases x) (auto simp: keyed_def split: option.splits)
qed (simp add: keyed_def)

lemma keyed_distinct: "distinct (map fst xs) \<Longrightarrow> distinct (map fst (keyed g xs))"
proof (induction xs)
  case (Cons x xs)
  have "fst x \<notin> fst ` set xs" using Cons.prems by simp
  then have "fst x \<notin> fst ` set (keyed g xs)" by (auto simp: keyed_keys image_iff)
  then have "distinct (map fst (case g (fst x) (snd x) of None \<Rightarrow> [] | Some w \<Rightarrow> [(fst x, w)]) @ map fst (keyed g xs))"
    using Cons by (auto split: option.split)
  then show ?case by (simp add: keyed_def case_prod_unfold)
qed (simp add: keyed_def)

lemma diff_category_keyed:
  "diff_category gone same equal put a b =
     keyed (\<lambda>k v. case map_of b k of None \<Rightarrow> Some (gone v)
           | Some w \<Rightarrow> if same v w \<and> k \<noteq> ''value'' \<or> equal v w then None else Some (put w)) a @
     keyed (\<lambda>k v. if map_of a k = None then Some (put v) else None) b"
  unfolding diff_category_def keyed_def
  by (intro arg_cong2 [where f = append] arg_cong [where f = concat] map_cong refl)
     (auto split: option.split)

lemma diff_category_lookup:
  assumes "distinct (map fst a)" "distinct (map fst b)"
  shows "map_of (diff_category gone same equal put a b) k =
    (case map_of a k of
       None \<Rightarrow> map_option put (map_of b k)
     | Some v \<Rightarrow>
         (case map_of b k of
            None \<Rightarrow> Some (gone v)
          | Some w \<Rightarrow> if same v w \<and> k \<noteq> ''value'' \<or> equal v w then None else Some (put w)))"
  unfolding diff_category_keyed map_of_append
  by (simp add: map_add_def keyed_lookup assms split: option.split)

lemma diff_category_distinct:
  assumes "distinct (map fst a)" "distinct (map fst b)"
  shows "distinct (map fst (diff_category gone same equal put a b))"
proof -
  have "fst ` set (keyed g a) \<inter> fst ` set (keyed (\<lambda>k v. if map_of a k = None then Some (put v) else None) b) = {}" for g
    by (auto simp: keyed_keys) (metis map_of_eq_None_iff fst_conv image_eqI option.simps(3))
  then show ?thesis
    unfolding diff_category_keyed by (simp add: keyed_distinct assms)
qed

lemma fold_upd_lookup:
  "distinct (map fst l) \<Longrightarrow>
   fold (\<lambda>(k, v) m. m(k := h v)) l m k = (case map_of l k of Some v \<Rightarrow> h v | None \<Rightarrow> m k)"
proof (induction l arbitrary: m)
  case (Cons x l)
  then show ?case by (cases x) (auto simp: map_of_eq_None_iff image_iff split: option.split)
qed simp

lemma applyProps_lookup:
  "distinct (map fst l) \<Longrightarrow>
   dom_props (applyProps l d) k = (case map_of l k of Some v \<Rightarrow> Some v | None \<Rightarrow> dom_props d k)"
proof (induction l arbitrary: d)
  case (Cons x l)
  then show ?case
    by (cases x) (auto simp: applyProps_def map_of_eq_None_iff image_iff split: option.split)
qed (simp add: applyProps_def)

lemma applyProps_other [simp]:
  "dom_style (applyProps l d) = dom_style d" "dom_attrs (applyProps l d) = dom_attrs d"
  "dom_handlers (applyProps l d) = dom_handlers d" "dom_attrs_ns (applyProps l d) = dom_attrs_ns d"
  by (induction l arbitrary: d) (auto simp: applyProps_def)

lemma applyStyles_fields [simp]:
  "dom_style (applyStyles l d) = fold (\<lambda>(k, v) m. m(k := Some v)) l (dom_style d)"
  "dom_props (applyStyles l d) = dom_props d" "dom_attrs (applyStyles l d) = dom_attrs d"
  "dom_handlers (applyStyles l d) = dom_handlers d" "dom_attrs_ns (applyStyles l d) = dom_attrs_ns d"
  by (induction l arbitrary: d) (auto simp: applyStyles_def)

lemma applyAttrs_fields [simp]:
  "dom_attrs (applyAttrs l d) = fold (\<lambda>(k, v) m. m(k := v)) l (dom_attrs d)"
  "dom_props (applyAttrs l d) = dom_props d" "dom_style (applyAttrs l d) = dom_style d"
  "dom_handlers (applyAttrs l d) = dom_handlers d" "dom_attrs_ns (applyAttrs l d) = dom_attrs_ns d"
  by (induction l arbitrary: d) (auto simp: applyAttrs_def)

lemma applyAttrsNS_other [simp]:
  "dom_props (applyAttrsNS l d) = dom_props d" "dom_style (applyAttrsNS l d) = dom_style d"
  "dom_attrs (applyAttrsNS l d) = dom_attrs d" "dom_handlers (applyAttrsNS l d) = dom_handlers d"
  by (induction l arbitrary: d) (auto simp: applyAttrsNS_def)

lemma applyAttrsNS_Cons:
  "applyAttrsNS ((k, ns, v) # l) d = applyAttrsNS l (d\<lparr>dom_attrs_ns := (dom_attrs_ns d)((ns, k) := v)\<rparr>)"
  by (simp add: applyAttrsNS_def)

lemma applyAttrsNS_unchanged:
  "k \<notin> fst ` set l \<Longrightarrow> dom_attrs_ns (applyAttrsNS l d) (ns, k) = dom_attrs_ns d (ns, k)"
  by (induction l arbitrary: d) (auto simp: applyAttrsNS_def)

lemma applyAttrsNS_lookup:
  "distinct (map fst l) \<Longrightarrow> map_of l k = Some (ns, v) \<Longrightarrow> dom_attrs_ns (applyAttrsNS l d) (ns, k) = v"
proof (induction l arbitrary: d)
  case (Cons x l)
  show ?case
  proof (cases "fst x = k")
    case True
    with Cons.prems have "k \<notin> fst ` set l" "snd x = (ns, v)" by (auto split: if_splits)
    with True show ?thesis by (cases x) (simp add: applyAttrsNS_Cons applyAttrsNS_unchanged)
  next
    case False
    with Cons show ?thesis by (cases x) (simp add: applyAttrsNS_Cons)
  qed
qed simp

lemma applyEvents_fields [simp]:
  "dom_handlers (applyEvents l d) = fold (\<lambda>(k, v) m. m(k := v)) l (dom_handlers d)"
  "dom_props (applyEvents l d) = dom_props d" "dom_style (applyEvents l d) = dom_style d"
  "dom_attrs (applyEvents l d) = dom_attrs d" "dom_attrs_ns (applyEvents l d) = dom_attrs_ns d"
  by (induction l arbitrary: d) (auto simp: applyEvents_def)

lemma displays_value_put: "displays_value R (Some v) (Some v)" "displays_value R None None"
  by (simp_all add: displays_value_def)

lemma displays_props:
  assumes "distinct (map fst a)" "distinct (map fst b)" "\<And>k. displays_value R (map_of a k) (m k)" "\<And>v. gone v \<in> R"
  shows "displays_value R (map_of b k)
    (case map_of (diff_category gone (=) (\<lambda>_ _. False) id a b) k of Some v \<Rightarrow> Some v | None \<Rightarrow> m k)"
  using assms(3) [of k] assms(4)
  by (auto simp: diff_category_lookup [OF assms(1,2)] displays_value_def split: option.split)

text \<open>The difference of the styles is that of their lists.\<close>

lemma diff_styles_eq:
  "(case diff_styles a b of None \<Rightarrow> [] | Some l \<Rightarrow> l) =
   diff_category (\<lambda>_. []) (=) (\<lambda>_ _. False) id (case a of None \<Rightarrow> [] | Some l \<Rightarrow> l) (case b of None \<Rightarrow> [] | Some l \<Rightarrow> l)"
proof (cases a)
  case None
  then show ?thesis by (cases b) (simp_all add: diff_styles_def diff_category_def case_prod_unfold)
next
  case (Some l)
  then show ?thesis by (simp add: diff_styles_def split: list.split)
qed

definition diff_all :: "('u dval \<Rightarrow> 'u dval \<Rightarrow> bool) \<Rightarrow> 'u facts \<Rightarrow> 'u facts \<Rightarrow> 'u dom_facts \<Rightarrow> 'u dom_facts" where
  "diff_all same a b d = (case diffFacts same a b of None \<Rightarrow> d | Some f \<Rightarrow> applyFacts f d)"

lemma diff_all_eq:
  "diff_all same a b d =
   applyEvents (diff_category (\<lambda>_. None) (\<lambda>_ _. False) (equalEvents same) Some (f_events a) (f_events b))
   (applyAttrsNS (diff_category (\<lambda>(ns, _). (ns, None)) (\<lambda>_ _. False) (\<lambda>_ _. False) (\<lambda>(ns, v). (ns, Some v))
      (f_attrs_ns a) (f_attrs_ns b))
   (applyAttrs (diff_category (\<lambda>_. None) (=) (\<lambda>_ _. False) Some (f_attrs a) (f_attrs b))
   (applyStyles (diff_category (\<lambda>_. []) (=) (\<lambda>_ _. False) id (styles_of a) (styles_of b))
   (applyProps (diff_category (\<lambda>v. case v of JStr _ \<Rightarrow> JStr [] | _ \<Rightarrow> JNull) (=) (\<lambda>_ _. False) id
      (f_props a) (f_props b)) d))))"
  using diff_styles_eq [of "f_styles a" "f_styles b"]
  by (cases "diff_styles (f_styles a) (f_styles b)")
     (auto simp: diff_all_def diffFacts_def Let_def applyFacts_def styles_of_def applyEvents_def
        applyAttrs_def applyAttrsNS_def applyProps_def applyStyles_def)

lemma displays_diff_facts:
  assumes "facts_wf legit a" "facts_wf legit b" "displays_facts legit same a d"
  shows "displays_facts legit same b (diff_all same a b d)"
proof -
  note wf = assms(1,2) [unfolded facts_wf_def]
  let ?props = "diff_category (\<lambda>v. case v of JStr _ \<Rightarrow> JStr [] | _ \<Rightarrow> JNull) (=) (\<lambda>_ _. False) id (f_props a) (f_props b)"
  have "displays_value {JStr [], JNull} (map_of (f_props b) k) (dom_props (diff_all same a b d) k)" for k
  proof -
    have "displays_value {JStr [], JNull} (map_of (f_props b) k)
        (case map_of ?props k of Some v \<Rightarrow> Some v | None \<Rightarrow> dom_props d k)"
      using assms(3) wf by (intro displays_props) (auto simp: displays_facts_def split: json.split)
    then show ?thesis using wf by (simp add: diff_all_eq applyProps_lookup diff_category_distinct)
  qed
  moreover have "displays_value {[]} (map_of (styles_of b) k) (dom_style (diff_all same a b d) k)" for k
  proof -
    have "displays_value {[]} (map_of (styles_of b) k)
        (case map_of (diff_category (\<lambda>_. []) (=) (\<lambda>_ _. False) id (styles_of a) (styles_of b)) k of
           Some v \<Rightarrow> Some v | None \<Rightarrow> dom_style d k)"
      using assms(3) wf by (intro displays_props) (auto simp: displays_facts_def)
    then show ?thesis using wf by (simp add: diff_all_eq fold_upd_lookup diff_category_distinct)
  qed
  moreover have "dom_attrs (diff_all same a b d) k = map_of (f_attrs b) k" for k
  proof -
    have "dom_attrs d k = map_of (f_attrs a) k" using assms(3) by (simp add: displays_facts_def)
    then show ?thesis
      using wf
      by (cases "map_of (f_attrs a) k"; cases "map_of (f_attrs b) k")
         (simp_all add: diff_all_eq fold_upd_lookup [where h = "\<lambda>v. v"] diff_category_distinct diff_category_lookup)
  qed
  moreover have "dom_attrs_ns (diff_all same a b d) (ns, k) = Some v" if "map_of (f_attrs_ns b) k = Some (ns, v)" for k ns v
    using wf that
    by (cases "map_of (f_attrs_ns a) k")
       (auto simp: diff_all_eq diff_category_distinct diff_category_lookup simp del: map_of_eq_Some_iff
         intro!: applyAttrsNS_lookup)
  moreover have "displays_event legit same (map_of (f_events b) k) (dom_handlers (diff_all same a b d) k)" for k
  proof -
    have "displays_event legit same (map_of (f_events a) k) (dom_handlers d k)" using assms(3) by (simp add: displays_facts_def)
    moreover have "legit e" if "map_of (f_events b) k = Some e" for e using wf map_of_SomeD [OF that] by force
    ultimately show ?thesis
      using wf
      by (cases "map_of (f_events a) k"; cases "map_of (f_events b) k")
         (auto simp: diff_all_eq fold_upd_lookup [where h = "\<lambda>v. v"] diff_category_distinct diff_category_lookup
          displays_event_def simp del: map_of_eq_Some_iff intro: rtranclp.rtrancl_into_rtrancl)
  qed
  ultimately show ?thesis by (simp add: displays_facts_def)
qed

lemma new_facts_eq: "applyFacts (new_facts f) d = diff_all same empty_facts f d"
  by (auto simp: diff_all_eq applyFacts_def new_facts_def empty_facts_def diff_category_def styles_of_def
      case_prod_unfold applyStyles_def comp_def split: option.split)

lemma displays_new_facts: "facts_wf legit f \<Longrightarrow> displays_facts legit same f (applyFacts (new_facts f) no_dom_facts)"
  unfolding new_facts_eq [of f _ same]
  by (rule displays_diff_facts)
     (simp_all add: facts_wf_def empty_facts_def styles_of_def displays_facts_def no_dom_facts_def
       displays_value_def displays_event_def)

subsubsection \<open>Nodes\<close>

lemma displays_render: "vnode_ok legit force v \<Longrightarrow> displays legit same v (render v)"
proof (induction v)
  case (VNode tag ns fs vs)
  then show ?case by (auto simp: displays_new_facts list_all2_conv_all_nth)
next
  case (VKeyed tag ns fs vs)
  have "displays legit same x (render x)" if "(k, x) \<in> set vs" for k x
    using VKeyed that by (auto simp: snds.simps)
  with VKeyed.prems show ?case by (auto simp: displays_new_facts list_all2_conv_all_nth) (metis nth_mem prod.collapse)
qed simp_all

lemma applyPatchesHelp_append: "applyPatchesHelp (l @ l') d = applyPatchesHelp l' (applyPatchesHelp l d)"
  by (induction l arbitrary: d) auto

lemma applyPatchesHelp_prefix:
  "applyPatchesHelp (prefix_path (length pre) l) (DElement tag ns fs (pre @ d # post)) =
   DElement tag ns fs (pre @ applyPatchesHelp l d # post)"
  by (induction l arbitrary: d) (auto simp: prefix_path_def)

lemma applyPatchesHelp_head:
  assumes "length kids = length as"
  shows "applyPatchesHelp (map (Pair []) (head_patches same fs fs' as bs)) (DElement tag ns df kids) =
    DElement tag ns (diff_all same fs fs' df)
      (take (length bs) kids @ map render (drop (length as) bs))"
  using assms by (cases "diffFacts same fs fs'") (auto simp: head_patches_def facts_patches_def diff_all_def)


lemma displays_renders: "\<forall>v \<in> set vs. vnode_ok legit force v \<Longrightarrow> list_all2 (displays legit same) vs (map render vs)"
  by (induction vs) (auto intro: displays_render)

lemma displays_children:
  assumes "list_all2 (displays legit same) (take n bs) ds" "\<forall>v \<in> set (drop n bs). vnode_ok legit force v"
  shows "list_all2 (displays legit same) bs (ds @ map render (drop n bs))"
  using list_all2_appendI [OF assms(1) displays_renders [OF assms(2)]] by simp

subsubsection \<open>Patches of a difference\<close>

text \<open>A patch of a removal stands inside the patch of a keyed node only.\<close>

definition no_removal :: "'u located \<Rightarrow> bool" where
  "no_removal l \<longleftrightarrow> (\<forall>q d. (q, L_remove d) \<notin> set l)"

lemma no_removal_simps [simp]:
  "no_removal []" "no_removal (x # l) \<longleftrightarrow> (\<forall>d. snd x \<noteq> L_remove d) \<and> no_removal l"
  "no_removal (l @ l') \<longleftrightarrow> no_removal l \<and> no_removal l'" "no_removal (prefix_path j l) \<longleftrightarrow> no_removal l"
  by (cases x; force simp: no_removal_def prefix_path_def)+

lemma no_removal_heads:
  "no_removal (map (Pair []) (facts_patches same fs fs'))" "no_removal (map (Pair []) (head_patches same fs fs' as bs))"
  "no_removal (map (Pair []) (reorder_located st l))"
  by (auto simp: facts_patches_def head_patches_def reorder_located_def split: option.split)

lemma ldiff_no_removal: "no_removal (ldiff refEq same a b)"
proof (induction "size a" arbitrary: a b rule: less_induct)
  case less
  have pairs: "no_removal (lpairs refEq same j as bs)" if "\<forall>x \<in> set as. size x < size a" for as bs j
    using that
  proof (induction as arbitrary: j bs)
    case (Cons x as)
    then show ?case using less by (cases bs) auto
  qed simp
  show ?case
  proof (cases "refEq a b \<or> \<not> same_kind a b")
    case True
    then show ?thesis by (cases "refEq a b") (simp_all add: diff_refEq diff_redraw)
  next
    case False
    then consider (strings) t u where "a = VText t" "b = VText u"
      | (thunk) f args n f' args' n' where "a = VThunk f args n" "b = VThunk f' args' n'"
      | (node) tag ns fs as fs' bs where "a = VNode tag ns fs as" "b = VNode tag ns fs' bs"
      | (keyed) tag ns fs as fs' bs where "a = VKeyed tag ns fs as" "b = VKeyed tag ns fs' bs"
      using same_kind_cases [of a b] by blast
    then show ?thesis
    proof cases
      case node
      have "\<forall>x \<in> set as. size x < size a" using node by (simp add: less_Suc_eq_le size_list_estimation')
      with pairs False show ?thesis by (simp add: diff_node(2) [of refEq a b, OF _ node] no_removal_heads)
    next
      case keyed
      have nref: "\<not> refEq a b" using False by simp
      show ?thesis unfolding diff_keyed(2) [of refEq a b, OF nref keyed] Let_def by (simp add: no_removal_heads)
    qed (use False in \<open>simp_all add: diff_text diff_thunk\<close>)
  qed
qed

lemma loses_root_append [simp]: "loses_root (l @ l') \<longleftrightarrow> loses_root l \<or> loses_root l'"
  by (induction l rule: loses_root.induct) auto

lemma loses_root_below: "\<forall>(q, p) \<in> set l. q \<noteq> [] \<Longrightarrow> \<not> loses_root l"
  by (induction l rule: loses_root.induct) auto

lemma lpairs_below: "(q, p) \<in> set (lpairs refEq same j as bs) \<Longrightarrow> q \<noteq> []"
proof (induction as arbitrary: bs j)
  case (Cons a as)
  then show ?case by (cases bs) (auto simp: prefix_path_def)
qed simp

lemma keeps_root: "\<not> is_thunk a \<Longrightarrow> \<not> loses_root (ldiff refEq same a b)"
proof (cases "refEq a b \<or> \<not> same_kind a b")
  case True
  then show ?thesis by (cases "refEq a b") (simp_all add: diff_refEq diff_redraw)
next
  case False
  assume "\<not> is_thunk a"
  then consider (strings) t u where "a = VText t" "b = VText u"
    | (node) tag ns fs as fs' bs where "a = VNode tag ns fs as" "b = VNode tag ns fs' bs"
    | (keyed) tag ns fs as fs' bs where "a = VKeyed tag ns fs as" "b = VKeyed tag ns fs' bs"
    using same_kind_cases [of a b] False by fastforce
  then show ?thesis
  proof cases
    case node
    have "\<not> loses_root (lpairs refEq same 0 as bs)" by (rule loses_root_below) (auto dest: lpairs_below)
    with False show ?thesis
      by (auto simp: diff_node(2) [of refEq a b, OF _ node] head_patches_def facts_patches_def split: option.splits if_splits)
  next
    case keyed
    have nref: "\<not> refEq a b" using False by simp
    show ?thesis unfolding diff_keyed(2) [of refEq a b, OF nref keyed] Let_def
      by (auto simp: facts_patches_def reorder_located_def split: option.splits if_splits)
  qed (use False in \<open>simp add: diff_text\<close>)
qed

subsubsection \<open>Reordering children\<close>

text \<open>What the local patch of a child makes of it, and whether it leaves the child in its place.\<close>

definition local_dom ::
  "('u vnode \<Rightarrow> 'u vnode \<Rightarrow> bool) \<Rightarrow> ('u dval \<Rightarrow> 'u dval \<Rightarrow> bool) \<Rightarrow> 'u vnode keyed_state \<Rightarrow> 'u vnode local_patch \<Rightarrow> 'u dom \<Rightarrow> 'u dom" where
  "local_dom refEq same st lp d =
     (case lp of
        Local_diff x y _ \<Rightarrow> applyPatchesHelp (ldiff refEq same x y) d
      | Local_remove _ None \<Rightarrow> d
      | Local_remove _ (Some (x, y, e)) \<Rightarrow>
          if \<not> to_end st e \<and> loses_root (ldiff refEq same x y) then d else applyPatchesHelp (ldiff refEq same x y) d)"

definition in_place :: "'u vnode keyed_state \<Rightarrow> 'u vnode local_patch \<Rightarrow> bool" where
  "in_place st lp =
     (case lp of Local_diff _ _ _ \<Rightarrow> True | Local_remove _ None \<Rightarrow> False | Local_remove _ (Some (_, _, e)) \<Rightarrow> to_end st e)"

lemma applyLocals_append: "applyLocals (l @ l') s = applyLocals l' (applyLocals l s)"
proof (induction l arbitrary: s)
  case (Cons x l)
  obtain q p where "x = (q, p)" by (cases x)
  with Cons show ?case by (cases q) auto
qed simp

lemma applyLocals_child:
  "no_removal l \<Longrightarrow> j < length ds \<Longrightarrow>
   applyLocals (prefix_path j l) (ds, left) = (ds[j := applyPatchesHelp l (ds ! j)], left)"
proof (induction l arbitrary: ds)
  case (Cons x l)
  obtain q p where x: "x = (q, p)" by (cases x)
  have "applyLocal p j q (ds, left) = (ds[j := update_at q (applyPatch p) (ds ! j)], left)"
    using Cons.prems x by (cases p) auto
  with Cons x show ?case by (simp add: prefix_path_def)
qed (simp add: prefix_path_def)

lemma applyLocals_local:
  assumes "j < length ds"
  shows "applyLocals (prefix_path j (local_ldiff refEq same st lp)) (ds, left) =
    (ds[j := local_dom refEq same st lp (ds ! j)], if in_place st lp then left else removeAll j left)"
proof -
  have "lp = Local_diff x y i \<Longrightarrow> ?thesis" for x y i
    using applyLocals_child [OF ldiff_no_removal assms, of refEq same x y left]
    by (simp add: local_ldiff_def local_dom_def in_place_def)
  moreover have "lp = Local_remove i d \<Longrightarrow> ?thesis" for i d
    by (cases d) (auto simp: local_ldiff_def local_dom_def in_place_def prefix_path_def)
  ultimately show ?thesis by (cases lp)
qed

lemma applyLocals_all:
  "length ds = length ls \<Longrightarrow>
   applyLocals (at_children (length pre) (map (local_ldiff refEq same st) ls)) (pre @ ds, left) =
     (pre @ map2 (local_dom refEq same st) ls ds,
      filter (\<lambda>j. \<forall>m < length ls. j = length pre + m \<longrightarrow> in_place st (ls ! m)) left)"
proof (induction ls arbitrary: pre ds left)
  case (Cons lp ls)
  obtain d ds' where ds: "ds = d # ds'" "length ds' = length ls" using Cons.prems by (cases ds) auto
  let ?left = "if in_place st lp then left else removeAll (length pre) left"
  have one: "applyLocals (prefix_path (length pre) (local_ldiff refEq same st lp)) (pre @ d # ds', left) =
      ((pre @ [local_dom refEq same st lp d]) @ ds', ?left)"
    using applyLocals_local [of "length pre" "pre @ d # ds'"] by simp
  have "filter (\<lambda>j. \<forall>m < length ls. j = length (pre @ [local_dom refEq same st lp d]) + m \<longrightarrow> in_place st (ls ! m)) ?left =
      filter (\<lambda>j. \<forall>m < length (lp # ls). j = length pre + m \<longrightarrow> in_place st ((lp # ls) ! m)) left"
    by (auto simp: All_less_Suc2 removeAll_filter_not_eq intro!: filter_cong)
  with one Cons.IH [OF ds(2), of "pre @ [local_dom refEq same st lp d]" ?left] ds(1) show ?case
    by (simp add: applyLocals_append)
qed simp

text \<open>The child of an entry.\<close>

definition moves :: "'n local_patch \<Rightarrow> nat \<Rightarrow> bool" where
  "moves lp e \<longleftrightarrow> (\<exists>i x y. lp = Local_remove i (Some (x, y, e)))"

lemma entry_child_append: "entry_child (l @ l') e = (case entry_child l e of None \<Rightarrow> entry_child l' e | Some j \<Rightarrow> Some j)"
  by (induction l e rule: entry_child.induct) auto

lemma entry_child_no_removal: "no_removal l \<Longrightarrow> entry_child l e = None"
  by (induction l e rule: entry_child.induct) auto

lemma entry_child_local:
  "entry_child (prefix_path j (local_ldiff refEq same st lp)) e = (if moves lp e then Some j else None)"
proof (cases lp)
  case (Local_diff x y i)
  then show ?thesis by (simp add: local_ldiff_def moves_def entry_child_no_removal ldiff_no_removal)
next
  case (Local_remove i d)
  then show ?thesis by (cases d) (auto simp: local_ldiff_def moves_def prefix_path_def)
qed

lemma entry_child_moves:
  "m < length ls \<Longrightarrow> moves (ls ! m) e \<Longrightarrow> \<forall>m' < length ls. moves (ls ! m') e \<longrightarrow> m' = m \<Longrightarrow>
   entry_child (at_children k (map (local_ldiff refEq same st) ls)) e = Some (k + m)"
proof (induction ls arbitrary: k m)
  case (Cons lp ls)
  show ?case
  proof (cases m)
    case 0
    with Cons.prems show ?thesis by (simp add: entry_child_append entry_child_local)
  next
    case (Suc n)
    have "\<not> moves lp e" using Cons.prems(3) Suc by auto
    moreover have "entry_child (at_children (Suc k) (map (local_ldiff refEq same st) ls)) e = Some (Suc k + n)"
      using Cons.prems Suc by (intro Cons.IH) auto
    ultimately show ?thesis using Suc by (simp add: entry_child_append entry_child_local)
  qed
qed simp

text \<open>
  An entry of an insertion is either new, and then its node is the one to show, or it is moved, and then one
  local patch is for it, and the patch makes the node to show of the child.
\<close>

lemma keyed_entry:
  assumes inv: "keyed_inv dc r as g bs st" and e: "e \<in> snd ` set (inserts st) \<union> set (ends st)"
  shows "e_tag (entries st ! e) = E_insert \<and> e_vnode (entries st ! e) = g e \<or>
    e_tag (entries st ! e) = E_move \<and>
    (\<exists>m i. m < length (localPatches st) \<and> localPatches st ! m = Local_remove i (Some (as ! m, g e, e)) \<and>
       (\<forall>m' < length (localPatches st). moves (localPatches st ! m') e \<longrightarrow> m' = m))"
proof -
  note D = keyed_invD [OF inv]
  have lt: "e < length (entries st)" "e_tag (entries st ! e) \<noteq> E_remove" using inserts_inv_entry [OF D(3) e] by simp_all
  have ok: "entry_ok as g (localPatches st) e (entries st ! e)" using entries_invD [OF D(2) lt(1)] .
  show ?thesis
  proof (cases "e_tag (entries st ! e)")
    case E_move
    with ok obtain m i x y where m: "m < length (localPatches st)" "localPatches st ! m = Local_remove i (Some (x, y, e))"
      by (auto simp: entry_ok_def)
    with locals_invD(1) [OF D(1) m(1)] have "x = as ! m" "y = g e" by (auto simp: local_ok_def)
    moreover have "m' = m" if "m' < length (localPatches st)" "moves (localPatches st ! m') e" for m'
      using that m locals_invD(2) [OF D(1)] by (fastforce simp: moves_def)
    ultimately show ?thesis using E_move m by blast
  qed (use ok lt in \<open>auto simp: entry_ok_def\<close>)
qed

lemma place_list_all2:
  "list_all2 R ks ds \<Longrightarrow> \<forall>e \<in> snd ` set ins. R (g e) (f e) \<Longrightarrow>
   list_all2 R (place (map (\<lambda>(i, e). (i, g e)) ins) ks) (place (map (\<lambda>(i, e). (i, f e)) ins) ds)"
proof (induction ins arbitrary: ks ds)
  case (Cons x ins)
  obtain i e where x: "x = (i, e)" by (cases x)
  have "list_all2 R (insert_at i (g e) ks) (insert_at i (f e) ds)"
    using Cons.prems x by (auto simp: insert_at_def intro!: list_all2_appendI list_all2_takeI list_all2_dropI)
  with Cons x show ?case by simp
qed simp

lemma insert_children_place:
  "\<forall>e \<in> snd ` set ins. insertion_child l (f e) = [c e] \<Longrightarrow>
   insert_children l (map (\<lambda>(i, e). (i, f e)) ins) kids = place (map (\<lambda>(i, e). (i, c e)) ins) kids"
  by (induction ins arbitrary: kids) (auto simp: insert_at_def)

definition is_diff :: "'n local_patch \<Rightarrow> bool" where
  "is_diff lp = (case lp of Local_diff _ _ _ \<Rightarrow> True | Local_remove _ _ \<Rightarrow> False)"

lemma kept_list_all2:
  "length ds = length ls \<Longrightarrow> \<forall>m < length ls. \<forall>x y i. ls ! m = Local_diff x y i \<longrightarrow> R y (ds ! m) \<Longrightarrow>
   list_all2 R (kept ls) (map ((!) ds) (filter (\<lambda>m. is_diff (ls ! m)) [0..<length ls]))"
proof (induction ls arbitrary: ds rule: rev_induct)
  case (snoc lp ls)
  obtain ds' d where ds: "ds = ds' @ [d]" "length ds' = length ls" using snoc.prems(1) by (cases ds rule: rev_cases) auto
  have "list_all2 R (kept ls) (map ((!) ds') (filter (\<lambda>m. is_diff (ls ! m)) [0..<length ls]))"
  proof (rule snoc.IH [OF ds(2)], intro allI impI)
    fix m x y i assume "m < length ls" "ls ! m = Local_diff x y i"
    with snoc.prems(2) [rule_format, of m x y i] ds show "R y (ds' ! m)" by (simp add: nth_append)
  qed
  moreover have "map ((!) ds) (filter (\<lambda>m. is_diff ((ls @ [lp]) ! m)) [0..<length ls]) =
      map ((!) ds') (filter (\<lambda>m. is_diff (ls ! m)) [0..<length ls])"
    using ds by (intro map_cong filter_cong) (auto simp: nth_append)
  moreover have "ds ! length ls = d" using ds by (metis nth_append_length)
  moreover have "R y d" if "lp = Local_diff x y i" for x y i
    using snoc.prems(2) [rule_format, of "length ls" x y i] that calculation(3) by simp
  ultimately show ?case by (cases lp) (simp_all add: is_diff_def list_all2_appendI)
qed simp

text \<open>The child that an insertion puts in, and the located patches of the children.\<close>

definition slot :: "'u vnode keyed_state \<Rightarrow> 'u located \<Rightarrow> nat \<Rightarrow> 'u child" where
  "slot st l e =
     (if e_tag (entries st ! e) = E_move then Old (the (entry_child l e)) else New (render (e_vnode (entries st ! e))))"

definition local_located ::
  "('u vnode \<Rightarrow> 'u vnode \<Rightarrow> bool) \<Rightarrow> ('u dval \<Rightarrow> 'u dval \<Rightarrow> bool) \<Rightarrow> 'u vnode keyed_state \<Rightarrow> 'u located" where
  "local_located refEq same st = at_children 0 (map (local_ldiff refEq same st) (localPatches st))"

lemma keyed_goal:
  assumes "keyed_inv dc r A g B st" "e \<in> snd ` set (inserts st) \<union> set (ends st)"
  shows "g e \<in> set B"
proof -
  have B: "B = place (map (\<lambda>(i, e). (i, g e)) (inserts st)) (kept (localPatches st)) @ map g (ends st)"
    using keyed_invD(5) [OF assms(1)] by (simp add: placed_def)
  show ?thesis using assms(2) by (subst B) (force simp: place_set)
qed

lemma moved_child:
  assumes "keyed_inv dc r A g B st" "e \<in> snd ` set (inserts st) \<union> set (ends st)" "e_tag (entries st ! e) = E_move"
  obtains m i where "entry_child (local_located refEq same st) e = Some m" "m < length (localPatches st)"
    "localPatches st ! m = Local_remove i (Some (A ! m, g e, e))"
proof -
  from keyed_entry [OF assms(1,2)] assms(3) obtain m i where m: "m < length (localPatches st)"
    "localPatches st ! m = Local_remove i (Some (A ! m, g e, e))"
    "\<forall>m' < length (localPatches st). moves (localPatches st ! m') e \<longrightarrow> m' = m" by auto
  from entry_child_moves [OF m(1) _ m(3), of 0 refEq same st] m(2) have "entry_child (local_located refEq same st) e = Some m"
    by (simp add: moves_def local_located_def)
  with m(1,2) that show thesis by blast
qed

lemma insertion_slot:
  assumes "keyed_inv dc r A g B st" "e \<in> snd ` set (inserts st) \<union> set (ends st)"
  shows "insertion_child (local_located refEq same st) (insertion st e) = [slot st (local_located refEq same st) e]"
  by (cases "e_tag (entries st ! e) = E_move")
     (auto simp: insertion_def slot_def elim: moved_child [OF assms, of refEq same])

text \<open>The children that stay where they are, those that are not moved to the end included, are those with a plain difference.\<close>

lemma stays_iff:
  fixes refEq same st
  defines "c \<equiv> slot st (local_located refEq same st)"
  assumes inv: "keyed_inv dc r A g B st" and j: "j < length (localPatches st)"
  shows "in_place st (localPatches st ! j) \<and> \<not> list_ex (is_old j) (map c (ends st)) \<longleftrightarrow> is_diff (localPatches st ! j)"
proof -
  note D = keyed_invD [OF inv]
  have frag: "\<exists>i x y e. localPatches st ! j = Local_remove i (Some (x, y, e))" if "e \<in> set (ends st)" "is_old j (c e)" for e
  proof -
    from that(2) have t: "e_tag (entries st ! e) = E_move" "j = the (entry_child (local_located refEq same st) e)"
      by (auto simp: c_def slot_def split: if_splits)
    from that(1) obtain m i where "entry_child (local_located refEq same st) e = Some m"
      "localPatches st ! m = Local_remove i (Some (A ! m, g e, e))"
      using moved_child [OF inv _ t(1), of refEq same] by blast
    with t(2) show ?thesis by simp
  qed
  have "\<exists>e \<in> set (ends st). is_old j (c e)" if r: "localPatches st ! j = Local_remove i (Some (x, y, e))" "to_end st e" for i x y e
  proof -
    have t: "e < length (entries st)" "e_tag (entries st ! e) = E_move"
      using locals_invD(1) [OF D(1) j] r(1) by (auto simp: local_ok_def)
    then have e: "e \<in> snd ` set (inserts st) \<union> set (ends st)" using D(3) by (simp add: inserts_inv_def)
    with r(2) have "e \<in> set (ends st)" using D(3) by (force simp: inserts_inv_def to_end_def)
    moreover have "m = j" if "m < length (localPatches st)" "localPatches st ! m = Local_remove i' (Some (x', y', e))" for m i' x' y'
      using locals_invD(2) [OF D(1) that(1) j that(2) r(1)] .
    moreover obtain m' i' where "entry_child (local_located refEq same st) e = Some m'" "m' < length (localPatches st)"
      "localPatches st ! m' = Local_remove i' (Some (A ! m', g e, e))"
      using moved_child [OF inv e t(2), of refEq same] by blast
    ultimately show ?thesis using t(2) by (auto simp: c_def slot_def intro!: bexI [of _ e])
  qed
  with frag show ?thesis
    by (auto simp: in_place_def is_diff_def list_ex_iff split: local_patch.splits option.splits)
qed

text \<open>What the patch of a keyed node does: the children that stay, with the others put in, and the fragment.\<close>

lemma applyPatch_reorder:
  fixes refEq same st
  defines "l \<equiv> local_located refEq same st"
  assumes inv: "keyed_inv dc r A g B st" and len: "length ds = length (localPatches st)"
  shows "applyPatch (L_reorder l (map (\<lambda>(j, e). (j, insertion st e)) (inserts st))
      (map_option (map (insertion st)) (endInserts st))) (DElement tag ns df ds) =
    DElement tag ns df (map (child_node (map2 (local_dom refEq same st) (localPatches st) ds))
      (place (map (\<lambda>(i, e). (i, slot st l e)) (inserts st))
         (map Old (filter (\<lambda>m. is_diff (localPatches st ! m)) [0..<length (localPatches st)])) @
       map (slot st l) (ends st)))"
proof -
  let ?left = "filter (\<lambda>m. is_diff (localPatches st ! m)) [0..<length (localPatches st)]"
  let ?ins = "map (\<lambda>(j, e). (j, insertion st e)) (inserts st)"
  have slots: "insertion_child l (insertion st e) = [slot st l e]" if "e \<in> snd ` set (inserts st) \<union> set (ends st)" for e
    unfolding l_def by (rule insertion_slot [OF inv that])
  have en: "(case map_option (map (insertion st)) (endInserts st) of None \<Rightarrow> [] | Some es \<Rightarrow> es) = map (insertion st) (ends st)"
    by (cases "endInserts st") (simp_all add: ends_def)
  have "map (insertion_child l \<circ> insertion st) (ends st) = map (\<lambda>e. [slot st l e]) (ends st)"
    using slots by (intro map_cong) auto
  then have frag: "concat (map (insertion_child l) (map (insertion st) (ends st))) = map (slot st l) (ends st)"
    by (simp only: map_map concat_map_singleton)
  have locals: "applyLocals l (ds, filter (\<lambda>j. \<not> list_ex (is_old j) (map (slot st l) (ends st))) [0..<length ds]) =
      (map2 (local_dom refEq same st) (localPatches st) ds, ?left)"
    using applyLocals_all [OF len, of "[]" refEq same st] len
    by (auto simp: l_def local_located_def simp flip: stays_iff [OF inv, of _ refEq same] intro!: filter_cong)
  have "insert_children l ?ins (map Old ?left) = place (map (\<lambda>(i, e). (i, slot st l e)) (inserts st)) (map Old ?left)"
    using slots by (intro insert_children_place) simp
  then show ?thesis by (simp only: applyPatch.simps dom.case en frag locals Let_def prod.case)
qed

lemma displays_placed:
  assumes inv: "keyed_inv dc r A g B st" and len: "length ds = length (localPatches st)"
    and kept: "\<forall>m < length (localPatches st). \<forall>x y i. localPatches st ! m = Local_diff x y i \<longrightarrow> R y (ds ! m)"
    and entry: "\<And>e. e \<in> snd ` set (inserts st) \<union> set (ends st) \<Longrightarrow> R (g e) (child_node ds (c e))"
  shows "list_all2 R B (map (child_node ds) (place (map (\<lambda>(i, e). (i, c e)) (inserts st))
      (map Old (filter (\<lambda>m. is_diff (localPatches st ! m)) [0..<length (localPatches st)])) @ map c (ends st)))"
proof -
  let ?left = "filter (\<lambda>m. is_diff (localPatches st ! m)) [0..<length (localPatches st)]"
  have "list_all2 R (place (map (\<lambda>(i, e). (i, g e)) (inserts st)) (kept (localPatches st)))
      (place (map (\<lambda>(i, e). (i, child_node ds (c e))) (inserts st)) (map ((!) ds) ?left))"
    using entry kept_list_all2 [OF len kept] by (intro place_list_all2) auto
  moreover have "list_all2 R (map g (ends st)) (map (child_node ds \<circ> c) (ends st))"
    using entry by (simp add: list_all2_conv_all_nth)
  moreover have "B = place (map (\<lambda>(i, e). (i, g e)) (inserts st)) (kept (localPatches st)) @ map g (ends st)"
    using keyed_invD(5) [OF inv] by (simp add: placed_def)
  ultimately show ?thesis by (auto simp: place_map comp_def case_prod_unfold intro!: list_all2_appendI)
qed

lemma displays_reorder:
  fixes refEq same and as bs :: "(string \<times> 'u vnode) list"
  defines "st \<equiv> diffKeyed descendantsCount as bs 0"
  defines "l \<equiv> local_located refEq same st"
  assumes kids: "list_all2 (displays legit same) (map snd as) ds"
    and IH: "\<And>x y d. x \<in> snd ` set as \<Longrightarrow> y \<in> snd ` set bs \<Longrightarrow> displays legit same x d \<Longrightarrow>
      displays legit same y (applyPatchesHelp (ldiff refEq same x y) d)"
    and old: "\<And>x. x \<in> snd ` set as \<Longrightarrow> \<not> is_thunk x"
    and new: "\<And>y. y \<in> snd ` set bs \<Longrightarrow> displays legit same y (render y)"
  shows "\<exists>ds'. applyPatch (L_reorder l (map (\<lambda>(j, e). (j, insertion st e)) (inserts st))
             (map_option (map (insertion st)) (endInserts st))) (DElement tag ns df ds) = DElement tag ns df ds' \<and>
           list_all2 (displays legit same) (map snd bs) ds'"
proof -
  let ?ls = "localPatches st" and ?A = "map snd as"
  obtain g where inv: "keyed_inv descendantsCount 0 ?A g (map snd bs) st" and "length ?ls = length as"
    using diffKeyed_inv [of descendantsCount 0 as bs] unfolding st_def by blast
  then have len: "length ds = length ?ls" using list_all2_lengthD [OF kids] by simp
  let ?ds = "map2 (local_dom refEq same st) ?ls ds"
  have ds: "?ds ! m = local_dom refEq same st (?ls ! m) (ds ! m)" "displays legit same (?A ! m) (ds ! m)"
    "?A ! m \<in> snd ` set as" if "m < length ?ls" for m
    using that len kids list_all2_lengthD [OF kids] by (auto simp: list_all2_conv_all_nth)
  have "displays legit same y (?ds ! m)" if "m < length ?ls" "?ls ! m = Local_diff x y i" for m x y i
  proof -
    have "x = ?A ! m" using locals_invD(1) [OF keyed_invD(1) [OF inv] that(1)] that(2) by (simp add: local_ok_def)
    moreover have "y \<in> snd ` set bs"
      using that diffKeyed_calls(1) [of x y i descendantsCount as bs 0] unfolding st_def by (metis nth_mem)
    ultimately show ?thesis using IH ds that by (simp add: local_dom_def)
  qed
  moreover have "displays legit same (g e) (child_node ?ds (slot st l e))"
    if e: "e \<in> snd ` set (inserts st) \<union> set (ends st)" for e
  proof (cases "e_tag (entries st ! e) = E_move")
    case True
    obtain m i where m: "entry_child l e = Some m" "m < length ?ls" "?ls ! m = Local_remove i (Some (?A ! m, g e, e))"
      using moved_child [OF inv e True, of refEq same] unfolding l_def by blast
    with ds keeps_root [OF old] have "?ds ! m = applyPatchesHelp (ldiff refEq same (?A ! m) (g e)) (ds ! m)"
      by (simp add: local_dom_def)
    with IH ds m(1,2) keyed_goal [OF inv e] True show ?thesis by (simp add: slot_def)
  next
    case False
    with keyed_entry [OF inv e] keyed_goal [OF inv e] new show ?thesis by (auto simp: slot_def)
  qed
  ultimately have "list_all2 (displays legit same) (map snd bs)
      (map (child_node ?ds) (place (map (\<lambda>(i, e). (i, slot st l e)) (inserts st))
        (map Old (filter (\<lambda>m. is_diff (?ls ! m)) [0..<length ?ls])) @ map (slot st l) (ends st)))"
    using len by (intro displays_placed [OF inv]) auto
  then show ?thesis using applyPatch_reorder [OF inv len, of refEq same] unfolding l_def by blast
qed

subsubsection \<open>Pairs of children\<close>

lemma displays_pairs:
  assumes "\<And>x y d. x \<in> set as \<Longrightarrow> y \<in> set bs \<Longrightarrow> displays legit same x d \<Longrightarrow>
      displays legit same y (applyPatchesHelp (ldiff refEq same x y) d)"
    and "list_all2 (displays legit same) (take (length bs) as) ds"
  shows "\<exists>ds'. applyPatchesHelp (lpairs refEq same (length pre) as bs) (DElement tag ns df (pre @ ds @ post)) =
      DElement tag ns df (pre @ ds' @ post) \<and> list_all2 (displays legit same) (take (length as) bs) ds'"
  using assms
proof (induction as arbitrary: bs ds pre)
  case (Cons a as)
  show ?case
  proof (cases bs)
    case Nil
    with Cons.prems(2) show ?thesis by simp
  next
    case bs: (Cons b bs')
    from Cons.prems(2) bs obtain d ds'' where ds: "ds = d # ds''" "displays legit same a d"
      "list_all2 (displays legit same) (take (length bs') as) ds''" by (auto simp: list_all2_Cons1)
    let ?d = "applyPatchesHelp (ldiff refEq same a b) d"
    have "displays legit same b ?d" using Cons.prems(1) ds(2) bs by simp
    moreover obtain ds' where "applyPatchesHelp (lpairs refEq same (length (pre @ [?d])) as bs')
        (DElement tag ns df ((pre @ [?d]) @ ds'' @ post)) = DElement tag ns df ((pre @ [?d]) @ ds' @ post)"
      "list_all2 (displays legit same) (take (length as) bs') ds'"
      using Cons.IH [of bs' ds'' "pre @ [?d]"] Cons.prems(1) ds(3) bs by auto
    ultimately show ?thesis
      using ds(1) bs by (intro exI [of _ "?d # ds'"]) (simp add: applyPatchesHelp_append applyPatchesHelp_prefix)
  qed
qed simp

lemma displays_heads:
  "applyPatchesHelp (map (Pair []) (facts_patches same fs fs')) (DElement tag ns df kids) =
     DElement tag ns (diff_all same fs fs' df) kids"
  by (cases "diffFacts same fs fs'") (simp_all add: facts_patches_def diff_all_def)

text \<open>A patch that reorders is left out only when it would do nothing.\<close>

lemma reorder_located_apply:
  "applyPatchesHelp (map (Pair []) (reorder_located st l)) (DElement tag ns df kids) =
     applyPatch (L_reorder l (map (\<lambda>(j, e). (j, insertion st e)) (inserts st))
       (map_option (map (insertion st)) (endInserts st))) (DElement tag ns df kids)"
proof (cases "l = [] \<and> inserts st = [] \<and> endInserts st = None")
  case True
  have "map (child_node kids \<circ> Old) [0..<length kids] = kids" by (simp add: comp_def map_nth)
  with True show ?thesis by (simp add: reorder_located_def)
qed (auto simp: reorder_located_def)

lemma displays_ldiff:
  assumes "\<And>a b. refEq a b \<Longrightarrow> a = b" "vnode_ok legit force a" "vnode_ok legit force b" "displays legit same a d"
  shows "displays legit same b (applyPatchesHelp (ldiff refEq same a b) d)"
  using assms(2-4)
proof (induction "size a" arbitrary: a b d rule: less_induct)
  case less
  show ?case
  proof (cases "refEq a b \<or> \<not> same_kind a b")
    case True
    with less.prems assms(1) show ?thesis by (cases "refEq a b") (auto simp: diff_refEq diff_redraw displays_render)
  next
    case False
    then consider (strings) t u where "a = VText t" "b = VText u"
      | (thunk) f args n f' args' n' where "a = VThunk f args n" "b = VThunk f' args' n'"
      | (node) tag ns fs as fs' bs where "a = VNode tag ns fs as" "b = VNode tag ns fs' bs"
      | (keyed) tag ns fs as fs' bs where "a = VKeyed tag ns fs as" "b = VKeyed tag ns fs' bs"
      using same_kind_cases [of a b] by blast
    then show ?thesis
    proof cases
      case strings
      with False less.prems show ?thesis by (simp add: diff_text)
    next
      case thunk
      with False less.prems less.hyps [of n n' d] show ?thesis by (auto simp: diff_thunk)
    next
      case node
      have nref: "\<not> refEq a b" using False by simp
      obtain df kids where d: "d = DElement tag ns df kids" "displays_facts legit same fs df"
        "list_all2 (displays legit same) as kids" using less.prems(3) node(1) by auto
      let ?rest = "map render (drop (length as) bs)"
      have len: "length kids = length as" using d(3) by (simp add: list_all2_lengthD)
      have IH: "displays legit same y (applyPatchesHelp (ldiff refEq same x y) e)"
        if "x \<in> set as" "y \<in> set bs" "displays legit same x e" for x y e
        using that less.hyps [of x y e] less.prems(1,2) node by (simp add: less_Suc_eq_le size_list_estimation')
      have "list_all2 (displays legit same) (take (length bs) as) (take (length bs) kids)"
        using d(3) by (rule list_all2_takeI)
      then obtain ds' where ds': "applyPatchesHelp (lpairs refEq same 0 as bs)
          (DElement tag ns (diff_all same fs fs' df) (take (length bs) kids @ ?rest)) =
          DElement tag ns (diff_all same fs fs' df) (ds' @ ?rest)"
        "list_all2 (displays legit same) (take (length as) bs) ds'"
        using displays_pairs [of as bs legit same refEq "take (length bs) kids" "[]" tag ns "diff_all same fs fs' df" ?rest, OF IH]
        by auto
      have "list_all2 (displays legit same) bs (ds' @ ?rest)"
        using ds'(2) less.prems(2) node(2) by (intro displays_children) (auto dest: in_set_dropD)
      with ds'(1) less.prems(1,2) node d show ?thesis
        unfolding diff_node(2) [of refEq a b, OF nref node]
        by (simp add: applyPatchesHelp_append applyPatchesHelp_head [OF len] displays_diff_facts)
    next
      case keyed
      have nref: "\<not> refEq a b" using False by simp
      obtain df kids where d: "d = DElement tag ns df kids" "displays_facts legit same fs df"
        "list_all2 (displays legit same) (map snd as) kids" using less.prems(3) keyed(1) by auto
      have IH: "displays legit same y (applyPatchesHelp (ldiff refEq same x y) e)"
        if "x \<in> snd ` set as" "y \<in> snd ` set bs" "displays legit same x e" for x y e
        using that less.hyps [of x y e] less.prems(1,2) keyed keyed_kid_size [OF that(1)] by auto
      have old: "\<not> is_thunk x" if "x \<in> snd ` set as" for x using that less.prems(1) keyed(1) by auto
      have new: "displays legit same y (render y)" if "y \<in> snd ` set bs" for y
        using that less.prems(2) keyed(2) by (intro displays_render [of legit force]) auto
      from displays_reorder [OF d(3) IH old new, of bs tag ns "diff_all same fs fs' df"] less.prems(1,2) keyed d(1,2)
      show ?thesis
        unfolding diff_keyed(2) [of refEq a b, OF nref keyed] Let_def
        by (auto simp: applyPatchesHelp_append displays_heads reorder_located_apply displays_diff_facts local_located_def
            simp del: applyPatch.simps)
    qed
  qed
qed

subsection \<open>Patching is correct\<close>

lemma applyPatches_diff:
  "applyPatches d a (VirtualDom_diff refEq same a b) =
   Inr (applyPatchesHelp (ldiff refEq same a b) d, \<not> loses_root (ldiff refEq same a b))"
proof (cases "VirtualDom_diff refEq same a b = []")
  case True
  with diff_empty [of refEq same a b] show ?thesis by (simp add: applyPatches_def)
next
  case False
  with addDomNodes_diff [OF this] show ?thesis by (simp add: applyPatches_def)
qed

text \<open>
  Patching is correct. When the page shows the old virtual node, the patches that \<^verbatim>\<open>diff\<close> makes for
  the new one are all located by \<^verbatim>\<open>addDomNodes\<close> without an error, although they carry indices only;
  after them the page shows the new virtual node. The root that the caller goes on with is the one
  in the page, unless the old virtual node is lazy. Lazy nodes have to come from pure functions. This is claim C5.
\<close>

theorem VirtualDom_patch_correct:
  assumes "\<forall>a b. refEq a b \<longrightarrow> a = b" "vnode_ok legit force a" "vnode_ok legit force b" "displays legit same a d"
  shows "\<exists>page' tracked. applyPatches d a (VirtualDom_diff refEq same a b) = Inr (page', tracked) \<and>
    displays legit same b page' \<and> (is_thunk a \<or> tracked)"
  using displays_ldiff [of refEq legit force a b same d] keeps_root [of a refEq same b] assms
  by (auto simp: applyPatches_diff)

text \<open>A page with an input, a list that is drawn lazily and one whose items have keys, before and after an update.\<close>

definition example_facts :: "string \<Rightarrow> unit facts" where
  "example_facts v = fst (organizeFacts [F_className ''row'', F_property ''value'' (JStr v), F_style [(''color'', v)]])"

definition example_lazy :: "nat \<Rightarrow> nat list \<Rightarrow> unit vnode" where
  "example_lazy f args = VNode ''ul'' None empty_facts (map (\<lambda>n. VText (if n = 0 then ''a'' else ''b'')) args)"

definition example_view :: "nat list \<Rightarrow> unit vnode" where
  "example_view m =
     VNode ''div'' None (example_facts (if m = [] then ''none'' else ''some''))
       [VText ''casts'', VThunk 0 m (example_lazy 0 m),
        VKeyed ''ol'' None empty_facts (map (\<lambda>n. (if n = 0 then ''x'' else ''y'', VText (if n = 0 then ''a'' else ''b''))) m)]"

lemma example_view_ok: "vnode_ok (\<lambda>_. True) example_lazy (example_view m)" "\<not> is_thunk (example_view m)"
  by (auto simp: example_view_def example_lazy_def facts_wf_def example_facts_def organizeFacts_def
      empty_facts_def styles_of_def)

theorem VirtualDom_patch_correct_witness:
  "\<exists>page' tracked.
     applyPatches (render (example_view [])) (example_view [])
       (VirtualDom_diff (\<lambda>_ _. False) (\<lambda>_ _. False) (example_view []) (example_view [0, 1])) = Inr (page', tracked) \<and>
     displays (\<lambda>_. True) (\<lambda>_ _. False) (example_view [0, 1]) page' \<and> (is_thunk (example_view []) \<or> tracked)"
  by (rule VirtualDom_patch_correct [where force = example_lazy and legit = "\<lambda>_. True"]) (simp_all add: example_view_ok displays_render [OF example_view_ok(1)])

text \<open>
  The exception is real. When the root of the view is lazy and the node below it changes its tag,
  the new node is put into the page, but \<^verbatim>\<open>applyPatches\<close> returns the old one: the patch of a lazy
  node has no \<^verbatim>\<open>domNode\<close>, so that \<^verbatim>\<open>applyPatchesHelp\<close> does not see that the root is replaced.
\<close>

theorem VirtualDom_lazy_root_lost:
  "applyPatches d (VThunk f args (VNode tag ns fs vs))
     (VirtualDom_diff (\<lambda>_ _. False) same (VThunk f args (VNode tag ns fs vs))
        (VThunk f (arg # args) (VNode (c # tag) ns fs vs))) =
   Inr (render (VNode (c # tag) ns fs vs), False)"
  by (simp add: applyPatches_diff diff_thunk diff_redraw same_kind_def del: render.simps)

lemma swapped_children:
  "diffKeyed dc [(''a'', x), (''b'', y)] [(''b'', y'), (''a'', x')] 0 =
    \<lparr>localPatches = [Local_diff x x' 1, Local_remove (dc x + 2) (Some (y, y', 0))], changes = [(''a'', 0)],
     entries = [\<lparr>e_tag = E_move, e_vnode = y', e_index = Some 0, e_data = None\<rparr>],
     inserts = [(0, 0)], endInserts = None\<rparr>"
  by (simp add: diffKeyed_def no_changes_def matches_def insertNode.simps removeNode.simps change_def
      object_prototype_def push_diff_def push_insert_def add_entry_def set_patch_data_def Let_def)

lemma no_facts [simp]:
  "facts_patches same empty_facts empty_facts = []" "applyFacts (new_facts empty_facts) d = d"
  by (simp_all add: facts_patches_def diffFacts_def empty_facts_def diff_category_def diff_styles_def
      applyFacts_def new_facts_def applyEvents_def applyAttrsNS_def applyAttrs_def applyProps_def)


text \<open>
  An attribute whose namespace changes is set in the new namespace, but not removed from the old one:
  the facts are compared by the name of the attribute only.
\<close>

theorem VirtualDom_stale_namespace:
  fixes same :: "'u dval \<Rightarrow> 'u dval \<Rightarrow> bool"
  assumes "dom_attrs_ns d (ns, k) = Some v" "ns \<noteq> ns'"
  shows "\<exists>f. diffFacts same (empty_facts\<lparr>f_attrs_ns := [(k, ns, v)]\<rparr>) (empty_facts\<lparr>f_attrs_ns := [(k, ns', v')]\<rparr>) = Some f \<and>
    dom_attrs_ns (applyFacts f d) (ns, k) = Some v \<and> dom_attrs_ns (applyFacts f d) (ns', k) = Some v'"
  using assms
  by (simp add: diffFacts_def diff_category_def empty_facts_def diff_styles_def applyFacts_def applyAttrsNS_def
      applyEvents_def applyAttrs_def applyProps_def)

subsection \<open>Facts of the nodes a program makes\<close>

lemma AList_updates_distinct:
  "distinct (map fst l) \<Longrightarrow> distinct (map fst (fold (\<lambda>(k, v). AList.update k v) kvs l))"
  by (induction kvs arbitrary: l) (auto simp: distinct_update)

lemma update_values: "snd ` set (AList.update k v l) \<subseteq> insert v (snd ` set l)"
  by (induction l) auto

lemma organizeFacts_loop_wf:
  "facts_wf legit f \<Longrightarrow> \<forall>k e. F_event k e \<in> set l \<longrightarrow> legit e \<Longrightarrow> facts_wf legit (fst (organizeFacts_loop l ns f))"
proof (induction l ns f rule: organizeFacts_loop.induct)
  case (2 styleList rest ns facts)
  then show ?case
    by (auto simp: facts_wf_def styles_of_def AList_updates_distinct split: option.splits)
next
  case (3 realKey v rest ns facts)
  have "\<forall>e \<in> insert v (snd ` set (f_events facts)). legit e" using 3(2,3) by (auto simp: facts_wf_def)
  with update_values [of realKey v "f_events facts"]
  have "\<forall>e \<in> snd ` set (AList.update realKey v (f_events facts)). legit e" by blast
  then have "facts_wf legit (facts\<lparr>f_events := AList.update realKey v (f_events facts)\<rparr>)"
    using 3(2) by (simp add: facts_wf_def styles_of_def distinct_update)
  with 3(1,3) show ?case by simp
qed (auto simp: facts_wf_def styles_of_def distinct_update)

lemma nodeHelp_ok:
  assumes "\<forall>k e. F_event k e \<in> set facts \<longrightarrow> legit e" "\<forall>v \<in> set kids. vnode_ok legit force v"
  shows "vnode_ok legit force (nodeHelp tag facts kids)"
proof -
  have "facts_wf legit empty_facts" by (simp add: facts_wf_def empty_facts_def styles_of_def)
  from organizeFacts_loop_wf [OF this assms(1)] assms(2) show ?thesis
    by (simp add: nodeHelp_def organizeFacts_def case_prod_unfold)
qed

lemma keyedNode_ok:
  assumes "\<forall>k e. F_event k e \<in> set facts \<longrightarrow> legit e"
    "\<forall>v \<in> snd ` set kids. vnode_ok legit force v \<and> \<not> is_thunk v"
  shows "vnode_ok legit force (keyedNode tag facts kids)"
proof -
  have "facts_wf legit empty_facts" by (simp add: facts_wf_def empty_facts_def styles_of_def)
  from organizeFacts_loop_wf [OF this assms(1)] assms(2) show ?thesis
    by (simp add: keyedNode_def organizeFacts_def case_prod_unfold)
qed

subsection \<open>The stepper\<close>

text \<open>
  What happens to the stepper: the program has a new model, or the browser draws a frame and runs a
  registered callback, if there is one.
\<close>

datatype 'm draw_event = NewModel 'm | Frame

fun draw_step ::
  "('u vnode \<Rightarrow> 'u vnode \<Rightarrow> bool) \<Rightarrow> ('u dval \<Rightarrow> 'u dval \<Rightarrow> bool) \<Rightarrow> ('m \<Rightarrow> 'u vnode) \<Rightarrow>
   'm draw_event \<Rightarrow> ('m, 'u) stepper \<Rightarrow> ('m, 'u) stepper result" where
  "draw_step refEq same view (NewModel model) s = Inr (stepper_call model s)"
| "draw_step refEq same view Frame s =
     (if requests s = 0 then Inr s else updateIfNeeded refEq same view (s\<lparr>requests := requests s - 1\<rparr>))"

fun draw_run ::
  "('u vnode \<Rightarrow> 'u vnode \<Rightarrow> bool) \<Rightarrow> ('u dval \<Rightarrow> 'u dval \<Rightarrow> bool) \<Rightarrow> ('m \<Rightarrow> 'u vnode) \<Rightarrow>
   'm draw_event list \<Rightarrow> ('m, 'u) stepper \<Rightarrow> ('m, 'u) stepper result" where
  "draw_run refEq same view [] s = Inr s"
| "draw_run refEq same view (e # es) s = bindE (draw_step refEq same view e s) (draw_run refEq same view es)"

fun latest_model :: "'m \<Rightarrow> 'm draw_event list \<Rightarrow> 'm" where
  "latest_model m [] = m"
| "latest_model m (NewModel m' # es) = latest_model m' es"
| "latest_model m (Frame # es) = latest_model m es"

text \<open>
  The invariant of the stepper, for the latest model \<open>m\<close>: one callback is registered unless nothing was
  requested; the page shows the current node; a model that is not drawn yet is the latest one.
\<close>

definition stepper_inv :: "('u event \<Rightarrow> bool) \<Rightarrow> ('u dval \<Rightarrow> 'u dval \<Rightarrow> bool) \<Rightarrow> ('m \<Rightarrow> 'u vnode) \<Rightarrow> 'm \<Rightarrow> ('m, 'u) stepper \<Rightarrow> bool" where
  "stepper_inv legit same view m s \<longleftrightarrow>
     requests s = (if draw_state s = NO_REQUEST then 0 else 1) \<and>
     in_page s \<and> displays legit same (currNode s) (page s) \<and>
     (\<exists>m'. currNode s = view m' \<and> (draw_state s \<noteq> PENDING_REQUEST \<longrightarrow> m' = m)) \<and>
     (draw_state s = PENDING_REQUEST \<longrightarrow> nextModel s = Some m)"

lemma stepper_call_inv: "stepper_inv legit same view m s \<Longrightarrow> stepper_inv legit same view m' (stepper_call m' s)"
  by (auto simp: stepper_inv_def stepper_call_def rAF_def Let_def)

lemma draw_frame:
  assumes inv: "stepper_inv legit same view m s" and refEq: "\<And>a b. refEq a b \<Longrightarrow> a = b"
    and view: "\<And>m. vnode_ok legit force (view m) \<and> \<not> is_thunk (view m)"
  shows "\<exists>s'. draw_step refEq same view Frame s = Inr s' \<and> stepper_inv legit same view m s' \<and>
    draw_state s' \<noteq> PENDING_REQUEST"
proof (cases "draw_state s")
  case PENDING_REQUEST
  obtain m' where m': "currNode s = view m'" using inv by (auto simp: stepper_inv_def)
  have "displays legit same (view m) (applyPatchesHelp (ldiff refEq same (view m') (view m)) (page s))"
    using inv m' view displays_ldiff [of refEq legit force "view m'" "view m" same "page s"] refEq
    by (auto simp: stepper_inv_def)
  then show ?thesis
    using inv PENDING_REQUEST m' keeps_root [of "view m'" refEq same "view m"] view
    by (auto simp: stepper_inv_def updateIfNeeded_def rAF_def Let_def applyPatches_diff)
qed (use inv in \<open>auto simp: stepper_inv_def updateIfNeeded_def\<close>)

lemma draw_run_inv:
  assumes refEq: "\<And>a b. refEq a b \<Longrightarrow> a = b" and view: "\<And>m. vnode_ok legit force (view m) \<and> \<not> is_thunk (view m)"
  shows "stepper_inv legit same view m s \<Longrightarrow>
    \<exists>s'. draw_run refEq same view es s = Inr s' \<and> stepper_inv legit same view (latest_model m es) s'"
proof (induction es arbitrary: m s)
  case (Cons e es)
  show ?case
  proof (cases e)
    case (NewModel m')
    with Cons.IH [OF stepper_call_inv [OF Cons.prems, of m']] show ?thesis by simp
  next
    case Frame
    with Cons.IH draw_frame [OF Cons.prems refEq view] show ?thesis by fastforce
  qed
qed simp

lemma draw_run_append:
  "draw_run refEq same view (es @ es') s = bindE (draw_run refEq same view es s) (draw_run refEq same view es')"
  by (induction es arbitrary: s) (auto simp: bindE_def split: sum.split)

lemma latest_model_append: "latest_model m (es @ es') = latest_model (latest_model m es) es'"
  by (induction m es rule: latest_model.induct) auto

lemma normalRenderer_inv: "vnode_ok legit force (view m) \<Longrightarrow> stepper_inv legit same view m (normalRenderer view m)"
  by (auto simp: stepper_inv_def normalRenderer_def makeStepper_def Let_def displays_render)

text \<open>
  The page follows the program. Whatever models the program produces and however the frames of the
  browser fall between them, no draw callback is unexpected and no patch fails; there is never more
  than one callback registered; and one frame after the latest model the page shows the view of
  that model. Two frames later nothing is registered. The view has to be a pure function whose root is not lazy. This is claim C6.
\<close>

theorem VirtualDom_stepper_draws:
  assumes "\<forall>a b. refEq a b \<longrightarrow> a = b" "\<forall>m. vnode_ok legit force (view m) \<and> \<not> is_thunk (view m)"
  shows "\<exists>s s' s''. draw_run refEq same view es (normalRenderer view m0) = Inr s \<and> requests s \<le> 1 \<and>
    draw_run refEq same view (es @ [Frame]) (normalRenderer view m0) = Inr s' \<and>
    displays legit same (view (latest_model m0 es)) (page s') \<and> in_page s' \<and> requests s' \<le> 1 \<and>
    draw_run refEq same view (es @ [Frame, Frame]) (normalRenderer view m0) = Inr s'' \<and>
    page s'' = page s' \<and> requests s'' = 0"
proof -
  have refEq: "\<And>a b. refEq a b \<Longrightarrow> a = b" using assms(1) by blast
  have view: "\<And>m. vnode_ok legit force (view m) \<and> \<not> is_thunk (view m)" using assms(2) by blast
  let ?m = "latest_model m0 es"
  obtain s where s: "draw_run refEq same view es (normalRenderer view m0) = Inr s" "stepper_inv legit same view ?m s"
    using draw_run_inv [of refEq legit force view same m0 "normalRenderer view m0" es, OF refEq view]
      normalRenderer_inv [of legit force view m0 same] view by auto
  obtain s' where s': "draw_step refEq same view Frame s = Inr s'" "stepper_inv legit same view ?m s'"
      "draw_state s' \<noteq> PENDING_REQUEST"
    using draw_frame [OF s(2) refEq view] by blast
  obtain s'' where s'': "draw_step refEq same view Frame s' = Inr s''" "page s'' = page s'" "requests s'' = 0"
    using s'(2,3) by (cases "draw_state s'") (auto simp: stepper_inv_def updateIfNeeded_def)
  have "displays legit same (view ?m) (page s')" "in_page s'" "requests s \<le> 1" "requests s' \<le> 1"
    using s(2) s'(2,3) by (auto simp: stepper_inv_def)
  with s s' s'' show ?thesis by (simp add: draw_run_append del: draw_step.simps)
qed

theorem VirtualDom_stepper_draws_witness:
  "\<exists>s s' s''.
    draw_run (\<lambda>_ _. False) (\<lambda>_ _. False) example_view [NewModel [0], Frame, NewModel [0, 1], NewModel [1]]
      (normalRenderer example_view []) = Inr s \<and> requests s \<le> 1 \<and>
    draw_run (\<lambda>_ _. False) (\<lambda>_ _. False) example_view ([NewModel [0], Frame, NewModel [0, 1], NewModel [1]] @ [Frame])
      (normalRenderer example_view []) = Inr s' \<and>
    displays (\<lambda>_. True) (\<lambda>_ _. False) (example_view (latest_model [] [NewModel [0], Frame, NewModel [0, 1], NewModel [1]])) (page s') \<and>
    in_page s' \<and> requests s' \<le> 1 \<and>
    draw_run (\<lambda>_ _. False) (\<lambda>_ _. False) example_view
      ([NewModel [0], Frame, NewModel [0, 1], NewModel [1]] @ [Frame, Frame])
      (normalRenderer example_view []) = Inr s'' \<and>
    page s'' = page s' \<and> requests s'' = 0"
  by (rule VirtualDom_stepper_draws [where force = example_lazy and legit = "\<lambda>_. True"]) (simp_all add: example_view_ok)



end
