(* ===== verification/Elm_Html.thy ===== *)
theory Elm_Html
  imports Elm_VirtualDom
begin

text \<open>
  \<^verbatim>\<open>Html\<close>, \<^verbatim>\<open>Html.Attributes\<close> and \<^verbatim>\<open>Html.Events\<close>: functions that make the nodes and facts of the virtual DOM.
  Functions that only differ in a name are the entries of a table, with the name of the function and the name of
  the element, property, attribute or event that it uses.
\<close>

subsection \<open>Elements\<close>

definition html_elements :: "(string \<times> string) list" where
  "html_elements =
    [(''body'', ''body''), (''section'', ''section''), (''nav'', ''nav''), (''article'', ''article''),
     (''aside'', ''aside''), (''h1'', ''h1''), (''h2'', ''h2''), (''h3'', ''h3''), (''h4'', ''h4''),
     (''h5'', ''h5''), (''h6'', ''h6''), (''header'', ''header''), (''footer'', ''footer''),
     (''address'', ''address''), (''main_'', ''main''), (''p'', ''p''), (''hr'', ''hr''), (''pre'', ''pre''),
     (''blockquote'', ''blockquote''), (''ol'', ''ol''), (''ul'', ''ul''), (''li'', ''li''), (''dl'', ''dl''),
     (''dt'', ''dt''), (''dd'', ''dd''), (''figure'', ''figure''), (''figcaption'', ''figcaption''),
     (''div'', ''div''), (''a'', ''a''), (''em'', ''em''), (''strong'', ''strong''), (''small'', ''small''),
     (''s'', ''s''), (''cite'', ''cite''), (''q'', ''q''), (''dfn'', ''dfn''), (''abbr'', ''abbr''),
     (''time'', ''time''), (''code'', ''code''), (''var'', ''var''), (''samp'', ''samp''), (''kbd'', ''kbd''),
     (''sub'', ''sub''), (''sup'', ''sup''), (''i'', ''i''), (''b'', ''b''), (''u'', ''u''),
     (''mark'', ''mark''), (''ruby'', ''ruby''), (''rt'', ''rt''), (''rp'', ''rp''), (''bdi'', ''bdi''),
     (''bdo'', ''bdo''), (''span'', ''span''), (''br'', ''br''), (''wbr'', ''wbr''), (''ins'', ''ins''),
     (''del'', ''del''), (''img'', ''img''), (''iframe'', ''iframe''), (''embed'', ''embed''),
     (''object'', ''object''), (''param'', ''param''), (''video'', ''video''), (''audio'', ''audio''),
     (''source'', ''source''), (''track'', ''track''), (''canvas'', ''canvas''), (''math'', ''math''),
     (''table'', ''table''), (''caption'', ''caption''), (''colgroup'', ''colgroup''), (''col'', ''col''),
     (''tbody'', ''tbody''), (''thead'', ''thead''), (''tfoot'', ''tfoot''), (''tr'', ''tr''), (''td'', ''td''),
     (''th'', ''th''), (''form'', ''form''), (''fieldset'', ''fieldset''), (''legend'', ''legend''),
     (''label'', ''label''), (''input'', ''input''), (''button'', ''button''), (''select'', ''select''),
     (''datalist'', ''datalist''), (''optgroup'', ''optgroup''), (''option'', ''option''),
     (''textarea'', ''textarea''), (''keygen'', ''keygen''), (''output'', ''output''),
     (''progress'', ''progress''), (''meter'', ''meter''), (''details'', ''details''),
     (''summary'', ''summary''), (''menuitem'', ''menuitem''), (''menu'', ''menu'')]"

definition Html_element :: "string \<Rightarrow> 'u fact list \<Rightarrow> 'u vnode list \<Rightarrow> 'u vnode option" where
  "Html_element f factList kidList = map_option (\<lambda>tag. nodeHelp tag factList kidList) (map_of html_elements f)"

subsection \<open>Attributes\<close>

text \<open>\<^verbatim>\<open>property\<close> of the virtual DOM; the strings of \<^verbatim>\<open>className\<close> are collected by \<^verbatim>\<open>organizeFacts\<close>.\<close>

definition VirtualDom_property :: "string \<Rightarrow> json \<Rightarrow> 'u fact" where
  "VirtualDom_property k v =
     (case v of JStr s \<Rightarrow> if k = ''className'' then F_className s else F_property k v | _ \<Rightarrow> F_property k v)"

definition string_property :: "string \<Rightarrow> string \<Rightarrow> 'u fact" where
  "string_property name str = VirtualDom_property name (JStr str)"

definition bool_property :: "string \<Rightarrow> bool \<Rightarrow> 'u fact" where
  "bool_property name b = VirtualDom_property name (JBool b)"

definition string_properties :: "(string \<times> string) list" where
  "string_properties =
    [(''class'', ''className''), (''id'', ''id''), (''title'', ''title''), (''dir'', ''dir''),
     (''dropzone'', ''dropzone''), (''lang'', ''lang''), (''content'', ''content''),
     (''httpEquiv'', ''httpEquiv''), (''language'', ''language''), (''src'', ''src''), (''alt'', ''alt''),
     (''preload'', ''preload''), (''poster'', ''poster''), (''kind'', ''kind''), (''srclang'', ''srclang''),
     (''sandbox'', ''sandbox''), (''srcdoc'', ''srcdoc''), (''type_'', ''type''), (''value'', ''value''),
     (''defaultValue'', ''defaultValue''), (''placeholder'', ''placeholder''), (''accept'', ''accept''),
     (''acceptCharset'', ''acceptCharset''), (''action'', ''action''), (''enctype'', ''enctype''),
     (''method'', ''method''), (''name'', ''name''), (''pattern'', ''pattern''), (''for'', ''htmlFor''),
     (''max'', ''max''), (''min'', ''min''), (''step'', ''step''), (''wrap'', ''wrap''),
     (''usemap'', ''useMap''), (''shape'', ''shape''), (''coords'', ''coords''), (''keytype'', ''keytype''),
     (''align'', ''align''), (''cite'', ''cite''), (''href'', ''href''), (''target'', ''target''),
     (''downloadAs'', ''download''), (''hreflang'', ''hreflang''), (''ping'', ''ping''),
     (''headers'', ''headers''), (''scope'', ''scope'')]"

definition bool_properties :: "(string \<times> string) list" where
  "bool_properties =
    [(''hidden'', ''hidden''), (''contenteditable'', ''contentEditable''), (''spellcheck'', ''spellcheck''),
     (''async'', ''async''), (''defer'', ''defer''), (''scoped'', ''scoped''), (''autoplay'', ''autoplay''),
     (''controls'', ''controls''), (''loop'', ''loop''), (''default'', ''default''),
     (''seamless'', ''seamless''), (''checked'', ''checked''), (''selected'', ''selected''),
     (''autofocus'', ''autofocus''), (''disabled'', ''disabled''), (''multiple'', ''multiple''),
     (''novalidate'', ''noValidate''), (''readonly'', ''readOnly''), (''required'', ''required''),
     (''ismap'', ''isMap''), (''download'', ''download''), (''reversed'', ''reversed'')]"

definition string_attributes :: "(string \<times> string) list" where
  "string_attributes =
    [(''contextmenu'', ''contextmenu''), (''draggable'', ''draggable''), (''itemprop'', ''itemprop''),
     (''charset'', ''charset''), (''formaction'', ''formAction''), (''list'', ''list''), (''form'', ''form''),
     (''challenge'', ''challenge''), (''media'', ''media''), (''rel'', ''rel''), (''datetime'', ''datetime''),
     (''pubdate'', ''pubdate''), (''manifest'', ''manifest'')]"

definition number_attributes :: "(string \<times> string) list" where
  "number_attributes =
    [(''tabindex'', ''tabIndex''), (''height'', ''height''), (''width'', ''width''),
     (''minlength'', ''minLength''), (''maxlength'', ''maxlength''), (''size'', ''size''), (''cols'', ''cols''),
     (''rows'', ''rows''), (''colspan'', ''colspan''), (''rowspan'', ''rowspan'')]"

definition Html_stringProperty :: "string \<Rightarrow> string \<Rightarrow> 'u fact option" where
  "Html_stringProperty f v = map_option (\<lambda>name. string_property name v) (map_of string_properties f)"

definition Html_boolProperty :: "string \<Rightarrow> bool \<Rightarrow> 'u fact option" where
  "Html_boolProperty f b = map_option (\<lambda>name. bool_property name b) (map_of bool_properties f)"

definition Html_stringAttribute :: "string \<Rightarrow> string \<Rightarrow> 'u fact option" where
  "Html_stringAttribute f v = map_option (\<lambda>name. F_attr name v) (map_of string_attributes f)"

definition Html_numberAttribute :: "string \<Rightarrow> int \<Rightarrow> 'u fact option" where
  "Html_numberAttribute f n = map_option (\<lambda>name. F_attr name (toString_number n)) (map_of number_attributes f)"

definition Html_accesskey :: "char \<Rightarrow> 'u fact" where
  "Html_accesskey c = string_property ''accessKey'' [c]"

definition Html_autocomplete :: "bool \<Rightarrow> 'u fact" where
  "Html_autocomplete b = string_property ''autocomplete'' (if b then ''on'' else ''off'')"

definition Html_start :: "int \<Rightarrow> 'u fact" where
  "Html_start n = string_property ''start'' (toString_number n)"

definition Html_class :: "string \<Rightarrow> 'u fact" where
  "Html_class name = string_property ''className'' name"

definition Html_classList :: "(string \<times> bool) list \<Rightarrow> 'u fact" where
  "Html_classList xs = Html_class (NString_join '' '' (List_map fst (List_filter snd xs)))"

subsection \<open>Events\<close>

text \<open>The options are \<^verbatim>\<open>stopPropagation\<close> and \<^verbatim>\<open>preventDefault\<close>.\<close>

definition Html_onWithOptions :: "string \<Rightarrow> bool \<times> bool \<Rightarrow> 'u decoder \<Rightarrow> 'u fact" where
  "Html_onWithOptions eventName options decoder =
     F_event eventName \<lparr>stopPropagation = fst options, preventDefault = snd options, event_decoder = decoder\<rparr>"

definition Html_defaultOptions :: "bool \<times> bool" where
  "Html_defaultOptions = (False, False)"

definition Html_on :: "string \<Rightarrow> 'u decoder \<Rightarrow> 'u fact" where
  "Html_on eventName decoder = Html_onWithOptions eventName Html_defaultOptions decoder"

definition simple_events :: "(string \<times> string) list" where
  "simple_events =
    [(''onFocus'', ''focus''), (''onBlur'', ''blur''), (''onMouseOut'', ''mouseout''),
     (''onMouseOver'', ''mouseover''), (''onMouseLeave'', ''mouseleave''), (''onMouseEnter'', ''mouseenter''),
     (''onMouseUp'', ''mouseup''), (''onMouseDown'', ''mousedown''), (''onDoubleClick'', ''dblclick''),
     (''onClick'', ''click'')]"

definition Html_onSimple :: "string \<Rightarrow> 'u \<Rightarrow> 'u fact option" where
  "Html_onSimple f msg = map_option (\<lambda>eventName. Html_on eventName (Succeed (DMsg msg))) (map_of simple_events f)"

definition onSubmitOptions :: "bool \<times> bool" where
  "onSubmitOptions = (fst Html_defaultOptions, True)"

definition onSubmit :: "'u \<Rightarrow> 'u fact" where
  "onSubmit msg = Html_onWithOptions ''submit'' onSubmitOptions (Succeed (DMsg msg))"

definition keyCode :: "'u decoder" where
  "keyCode = Field ''keyCode'' (Primitive PInt)"

definition targetChecked :: "'u decoder" where
  "targetChecked = Decode_at [''target'', ''checked''] (Primitive PBool)"

text \<open>The number identifies the tagger where decoders are compared.\<close>

definition onCheck :: "nat \<Rightarrow> (bool \<Rightarrow> 'u) \<Rightarrow> 'u fact" where
  "onCheck fid tagger =
     Html_on ''change'' (Json_map1 fid (\<lambda>v. case v of DJson (JBool b) \<Rightarrow> DMsg (tagger b) | _ \<Rightarrow> v) targetChecked)"

subsection \<open>What an event sends\<close>

text \<open>What the handler of a fact sends for an event: the message, and whether the default action is prevented.\<close>

definition sends :: "(json \<Rightarrow> string) \<Rightarrow> (int \<Rightarrow> nat) \<Rightarrow> 'u fact \<Rightarrow> json \<Rightarrow> (string \<times> bool \<times> bool \<times> 'u dval) option" where
  "sends stringify floorLog f event =
     (case f of
        F_event name info \<Rightarrow>
          map_option (\<lambda>h. (name, stopped h, prevented h, message h)) (eventHandler stringify floorLog [] info event)
      | _ \<Rightarrow> None)"

lemma sends_on: "sends stringify floorLog (Html_onWithOptions name options (Succeed v)) event = Some (name, fst options, snd options, v)"
  by (simp add: sends_def Html_onWithOptions_def eventHandler_def Json_run_def)

text \<open>The simple events send their message whatever the event object holds, and do not touch the event.\<close>

lemma Html_onSimple_sends:
  assumes "map_of simple_events f = Some name"
  shows "\<exists>x. Html_onSimple f msg = Some x \<and> sends stringify floorLog x event = Some (name, False, False, DMsg msg)"
  using assms sends_on [of stringify floorLog name "(False, False)" "DMsg msg" event]
  by (simp add: Html_onSimple_def Html_on_def Html_defaultOptions_def)

text \<open>A form whose submission is handled does not leave the page.\<close>

lemma onSubmit_sends: "sends stringify floorLog (onSubmit msg) event = Some (''submit'', False, True, DMsg msg)"
  by (simp add: onSubmit_def sends_on onSubmitOptions_def Html_defaultOptions_def)

text \<open>A check box sends the state it has; an event without this state sends nothing.\<close>

lemma onCheck_sends:
  fixes tagger :: "bool \<Rightarrow> 'u"
  shows "sends stringify floorLog (onCheck fid tagger) (nested [''target'', ''checked''] v) =
     (case v of JBool b \<Rightarrow> Some (''change'', False, False, DMsg (tagger b)) | _ \<Rightarrow> None)"
proof -
  have "runHelp floorLog (targetChecked :: 'u decoder) (nested [''target'', ''checked''] v) =
      (case v of JBool b \<Rightarrow> Inr (DJson v) | _ \<Rightarrow> Inl (BadField ''target'' (BadField ''checked'' (BadPrimitive ''a Bool'' v))))"
    unfolding targetChecked_def runHelp_at by (cases v) (simp_all add: runPrimitive_def)
  then show ?thesis
    by (cases v) (simp_all add: sends_def onCheck_def Html_on_def Html_onWithOptions_def Html_defaultOptions_def
      eventHandler_def Json_run_def Json_map1_def del: nested.simps)
qed

lemma keyCode_decodes:
  "map_of fs ''keyCode'' = Some (JNum n) \<Longrightarrow> js_isInt n \<Longrightarrow> runHelp floorLog keyCode (JObj fs) = Inr (DJson (JNum n))"
  by (simp add: keyCode_def runField_def runPrimitive_def)

subsection \<open>Lists of classes\<close>

lemma AList_update_twice: "AList.update k v (AList.update k w xs) = AList.update k v xs"
  by (induction xs) auto

lemma map_of_update_same: "map_of (AList.update k v xs) k = Some v"
  by (simp add: update_conv')

lemma classes_collected:
  "cs \<noteq> [] \<Longrightarrow> organizeFacts_loop (map F_className cs @ rest) ns facts =
     organizeFacts_loop (F_className (js_join '' '' cs) # rest) ns facts"
proof (induction cs arbitrary: facts)
  case (Cons c cs)
  show ?case
  proof (cases "cs = []")
    case False
    with Cons.IH [OF False] show ?thesis
      by (simp add: js_join_Cons AList_update_twice map_of_update_same split: option.split json.split)
  qed simp
qed simp

lemma organizeFacts_append:
  "\<exists>ns facts. \<forall>ys. organizeFacts (xs @ ys) = organizeFacts_loop ys ns facts"
proof -
  have "\<exists>ns' facts'. \<forall>ys. organizeFacts_loop (xs @ ys) ns facts = organizeFacts_loop ys ns' facts'" for ns facts
  proof (induction xs arbitrary: ns facts)
    case (Cons x xs)
    then show ?case by (cases x) simp_all
  qed auto
  then show ?thesis by (simp add: organizeFacts_def)
qed

text \<open>
  \<^verbatim>\<open>classList\<close> with a selected name stands for one \<^verbatim>\<open>class\<close> per selected name, wherever it is in the list of
  facts: the element gets the same classes together with all others that it has.
\<close>

theorem Html_classList_classes:
  assumes "\<exists>x \<in> set xs. snd x"
  shows "organizeFacts (before @ Html_classList xs # after) =
    organizeFacts (before @ map Html_class (map fst (filter snd xs)) @ after)"
proof -
  obtain ns facts where f: "\<forall>ys. organizeFacts (before @ ys) = organizeFacts_loop ys ns facts"
    using organizeFacts_append by blast
  have "map fst (filter snd xs) \<noteq> []" using assms by (auto simp: filter_empty_conv)
  from classes_collected [OF this, of after ns facts] f show ?thesis
    by (simp add: Html_classList_def Html_class_def [abs_def] string_property_def VirtualDom_property_def NString_join_def elm_simps
        comp_def)
qed

end
