(* ===== verification/Elm_Program.thy ===== *)
theory Elm_Program
  imports Elm_Platform Elm_VirtualDom_Correct
begin

text \<open>
  How a program starts (\<^verbatim>\<open>initialize\<close>, \<^verbatim>\<open>program\<close> and \<^verbatim>\<open>programWithFlags\<close> of \<^verbatim>\<open>Native.Platform\<close>; \<^verbatim>\<open>makeProgram\<close>,
  the flag checkers and \<^verbatim>\<open>normalSetup\<close> of \<^verbatim>\<open>Native.VirtualDom\<close>; the publication of modules at the end of
  \<^verbatim>\<open>Main.js\<close>): the flags are checked, the main process and the processes of the effect managers are
  spawned, and when the main process runs, it draws the first view and hands the first effects to the
  managers.
\<close>

subsection \<open>Flags\<close>

text \<open>
  A checker gives the initial state of the program or the text of the error. A program without flags
  wants \<^verbatim>\<open>undefined\<close>. The decoder of flags is missing when the flags have the type \<^verbatim>\<open>Never\<close>.
\<close>

definition checkNoFlags :: "string \<Rightarrow> 'i \<Rightarrow> json \<Rightarrow> string + 'i" where
  "checkNoFlags moduleName init flags =
     (if flags = JUndefined then Inr init
      else Inl (''The `'' @ moduleName @ ''` module does not need flags.'' @ newline @
                ''Initialize it with no arguments and you should be all set!''))"

definition trickster :: "string \<Rightarrow> string" where
  "trickster moduleName =
     ''Are you trying to sneak a Never value into Elm? Trickster!'' @ newline @
     ''It looks like '' @ moduleName @ ''.main is defined with `programWithFlags` but has type `Program Never`.'' @
     newline @ ''Use `program` instead if you do not want flags.''"

definition checkYesFlags ::
  "(json \<Rightarrow> string) \<Rightarrow> (int \<Rightarrow> nat) \<Rightarrow> 'u decoder option \<Rightarrow> string \<Rightarrow> ('u dval \<Rightarrow> 'i) \<Rightarrow> json \<Rightarrow> string + 'i" where
  "checkYesFlags stringify floorLog flagDecoder moduleName init flags =
     (case flagDecoder of
        None \<Rightarrow> Inl (trickster moduleName)
      | Some decoder \<Rightarrow>
          (case Json_run stringify floorLog decoder flags of
             Ok value \<Rightarrow> Inr (init value)
           | Err problem \<Rightarrow>
               Inl (''Trying to initialize the `'' @ moduleName @ ''` module with an unexpected flag.'' @ newline @
                    ''I tried to convert it to an Elm value, but ran into this problem:'' @ newline @ newline @ problem)))"

text \<open>The functions \<^verbatim>\<open>worker\<close> of programs without a view.\<close>

definition worker_noFlags :: "string \<Rightarrow> 'i \<Rightarrow> json \<Rightarrow> 'i result" where
  "worker_noFlags moduleName init flags =
     (if flags \<noteq> JUndefined then
        Inl (JsError (''The `'' @ moduleName @ ''` module does not need flags.'' @ newline @
                      ''Call '' @ moduleName @ ''.worker() with no arguments and you should be all set!''))
      else Inr init)"

definition worker_yesFlags ::
  "(json \<Rightarrow> string) \<Rightarrow> (int \<Rightarrow> nat) \<Rightarrow> 'u decoder option \<Rightarrow> string \<Rightarrow> ('u dval \<Rightarrow> 'i) \<Rightarrow> json \<Rightarrow> 'i result" where
  "worker_yesFlags stringify floorLog flagDecoder moduleName init flags =
     (case flagDecoder of
        None \<Rightarrow> Inl (JsError (trickster moduleName))
      | Some decoder \<Rightarrow>
          (case Json_run stringify floorLog decoder flags of
             Err problem \<Rightarrow>
               Inl (JsError (moduleName @ ''.worker(...) was called with an unexpected argument.'' @ newline @
                      ''I tried to convert it to an Elm value, but ran into this problem:'' @ newline @ newline @ problem))
           | Ok value \<Rightarrow> Inr (init value)))"

subsection \<open>The page\<close>

text \<open>What a node of the page contains: DOM nodes, or the text that \<^verbatim>\<open>crash\<close> has written.\<close>

datatype 'u contents = Children "'u dom list" | InnerHTML string

definition crash_page :: "string \<Rightarrow> js_error \<times> 'u contents" where
  "crash_page errorMessage =
     (JsError errorMessage,
      InnerHTML (''<div style=\"padding-left:1em;\">'' @
        ''<h2 style=\"font-weight:normal;\"><b>Oops!</b> Something went wrong when starting your Elm program.</h2>'' @
        ''<pre style=\"padding-left:1em;\">'' @ errorMessage @ ''</pre>'' @ ''</div>''))"

subsection \<open>Initialisation\<close>

text \<open>
  \<^verbatim>\<open>initialize\<close>, up to the end of the call: the main process is spawned, which runs the task \<open>init_app\<close> (the native
  binding \<^verbatim>\<open>initApp\<close>) before it receives messages with \<open>onMessage\<close>, and then one process for every effect manager.
  \<^verbatim>\<open>work\<close> runs later.
\<close>

definition initialize ::
  "(string \<times> ('c, 's, 'i, 't) manager_info) list \<Rightarrow> ('c, 's, 'i, 't) mtask \<Rightarrow>
   (('c, 's, 'i, 't) mval \<Rightarrow> ('c, 's, 'i, 't) mval \<Rightarrow> ('c, 's, 'i, 't) mtask) \<Rightarrow> ('c, 's, 'i, 't) payload sched \<Rightarrow>
   nat \<times> (string \<times> nat) list \<times> ('c, 's, 'i, 't) payload sched" where
  "initialize effectManagers init_app onMessage s =
     (case spawnLoop init_app onMessage s of (mainProcess, s') \<Rightarrow>
        (case setupEffects effectManagers s' of (managers, s'') \<Rightarrow> (mainProcess, managers, s'')))"

text \<open>
  \<^verbatim>\<open>initApp\<close>: the renderer draws the first view, and the first effects are dispatched. The first result
  is the model, the second one what the renderer made.
\<close>

definition initApp ::
  "(string \<rightharpoonup> ('e, 'm) effect_maps) \<Rightarrow> (string \<times> nat) list \<Rightarrow> 'model \<times> ('e, 'm \<Rightarrow> 'm) bag \<Rightarrow>
   ('model \<Rightarrow> ('e, 'm \<Rightarrow> 'm) bag) \<Rightarrow> ('model \<Rightarrow> 'r) \<Rightarrow> ('e, 'e, 'i, 't) payload sched \<Rightarrow>
   ('model \<times> 'r \<times> ('e, 'e, 'i, 't) payload sched) result" where
  "initApp ems managers init subscriptions renderer s =
     (case init of (model, cmds) \<Rightarrow>
        let updateView = renderer model in
        bindE (dispatchEffects ems managers cmds (subscriptions model) s) (\<lambda>s'. Inr (model, updateView, s')))"

text \<open>The renderer of \<^verbatim>\<open>normalSetup\<close> appends the node to the parent; that of a worker draws nothing.\<close>

definition attach :: "'u contents \<Rightarrow> 'u dom \<Rightarrow> 'u contents" where
  "attach parentNode domNode =
     (case parentNode of Children kids \<Rightarrow> Children (kids @ [domNode]) | InnerHTML html \<Rightarrow> InnerHTML html)"

definition page_renderer ::
  "'u contents \<Rightarrow> ('model \<Rightarrow> 'u vnode) \<Rightarrow> 'model \<Rightarrow> 'u contents \<times> ('model, 'u) stepper" where
  "page_renderer parentNode view initialModel =
     (let stepper = normalRenderer view initialModel in (attach parentNode (page stepper), stepper))"

definition worker_renderer :: "'model \<Rightarrow> unit" where
  "worker_renderer model = ()"

subsection \<open>Setup\<close>

text \<open>
  \<^verbatim>\<open>embed\<close> empties the node first; \<^verbatim>\<open>fullscreen\<close> takes \<^verbatim>\<open>document.body\<close> as it is. Both give the initial
  state with the parent of the view, or throw after they have shown the error.
\<close>

definition embed :: "(json \<Rightarrow> string + 'i) \<Rightarrow> 'u contents \<Rightarrow> json \<Rightarrow> (js_error \<times> 'u contents) + ('i \<times> 'u contents)" where
  "embed flagChecker node flags =
     (let emptied = Children [] in
      case flagChecker flags of
        Inl errorMessage \<Rightarrow> Inl (crash_page errorMessage)
      | Inr init \<Rightarrow> Inr (init, emptied))"

definition fullscreen :: "(json \<Rightarrow> string + 'i) \<Rightarrow> 'u contents \<Rightarrow> json \<Rightarrow> (js_error \<times> 'u contents) + ('i \<times> 'u contents)" where
  "fullscreen flagChecker body flags =
     (case flagChecker flags of
        Inl errorMessage \<Rightarrow> Inl (crash_page errorMessage)
      | Inr init \<Rightarrow> Inr (init, body))"

text \<open>\<^verbatim>\<open>makeProgram\<close>: a module compiled without debug information is set up normally.\<close>

definition makeProgram :: "('k \<Rightarrow> 'setup) \<Rightarrow> ('d \<Rightarrow> 'k \<Rightarrow> 'setup) \<Rightarrow> 'k \<Rightarrow> 'd option \<Rightarrow> 'setup" where
  "makeProgram normalSetup debugSetup checker debugMetadata =
     (case debugMetadata of None \<Rightarrow> normalSetup checker | Some metadata \<Rightarrow> debugSetup metadata checker)"

text \<open>A program of \<^verbatim>\<open>Html.beginnerProgram\<close> and a static one have no effects.\<close>

definition beginner_init :: "'model \<Rightarrow> 'model \<times> ('e, 'g) bag" where
  "beginner_init model = (model, B_node [])"

definition beginner_update :: "('msg \<Rightarrow> 'model \<Rightarrow> 'model result) \<Rightarrow> 'msg \<Rightarrow> 'model \<Rightarrow> ('model \<times> ('e, 'g) bag) result" where
  "beginner_update update msg model = bindE (update msg model) (\<lambda>model'. Inr (model', B_node []))"

definition beginner_subscriptions :: "'model \<Rightarrow> ('e, 'g) bag" where
  "beginner_subscriptions model = B_node []"

definition static_update :: "'msg \<Rightarrow> unit \<Rightarrow> (unit \<times> ('e, 'g) bag) result" where
  "static_update msg model = Inr ((), B_node [])"

subsection \<open>Publishing the modules\<close>

text \<open>
  The modules of the file are put into the global object \<^verbatim>\<open>Elm\<close>, which another file may have made; the
  modules before a name that is taken are published all the same.
\<close>

fun publish_loop :: "(string \<times> 'a) list \<Rightarrow> (string \<times> 'a) list \<Rightarrow> js_error option \<times> (string \<times> 'a) list" where
  "publish_loop [] globalElm = (None, globalElm)"
| "publish_loop ((publicModule, m) # rest) globalElm =
     (if map_of globalElm publicModule \<noteq> None \<or> publicModule \<in> set object_prototype
      then (Some (JsError (''There are two Elm modules called `'' @ publicModule @ ''` on this page! Rename one of them.'')), globalElm)
      else publish_loop rest (AList.update publicModule m globalElm))"

definition publish :: "(string \<times> 'a) list \<Rightarrow> (string \<times> 'a) list option \<Rightarrow> js_error option \<times> (string \<times> 'a) list" where
  "publish Elm globalElm =
     (case globalElm of None \<Rightarrow> (None, Elm) | Some g \<Rightarrow> publish_loop Elm g)"

subsection \<open>What is ready when the program starts\<close>

definition manager_process ::
  "('c, 's, 'i, 't) manager_info \<Rightarrow> ('c, 's, 'i, 't) mval list \<Rightarrow> ('c, 's, 'i, 't) payload process" where
  "manager_process info msgs =
     \<lparr>proc_root = Some (T_andThen (state_loop (manager_onMessage info)) (init_task info)), stack = [], mailbox = msgs\<rparr>"

lemma rawSpawn_simps:
  "fst (rawSpawn t s) = guid s" "guid (snd (rawSpawn t s)) = Suc (guid s)"
  "workQueue (snd (rawSpawn t s)) = workQueue s @ [guid s]"
  "processes (snd (rawSpawn t s)) = (processes s)(guid s \<mapsto> \<lparr>proc_root = Some t, stack = [], mailbox = []\<rparr>)"
  by (simp_all add: rawSpawn_def enqueue_def setTimeout_def Let_def)

lemma setupEffects_spec:
  "setupEffects infos s = (managers, s') \<Longrightarrow>
     managers = zip (map fst infos) [guid s..<guid s + length infos] \<and>
     workQueue s' = workQueue s @ [guid s..<guid s + length infos] \<and>
     (\<forall>j < length infos. processes s' (guid s + j) = Some (manager_process (snd (infos ! j)) [])) \<and>
     (\<forall>q < guid s. processes s' q = processes s q)"
proof (induction infos arbitrary: s managers s')
  case (Cons x infos)
  obtain key info where x: "x = (key, info)" by (cases x)
  let ?s = "snd (makeManager info s)"
  obtain ms where ms: "setupEffects infos ?s = (ms, s')" "managers = (key, guid s) # ms"
    using Cons.prems x by (auto simp: makeManager_def spawnLoop_def rawSpawn_def split: prod.splits)
  have spawn: "guid ?s = Suc (guid s)" "workQueue ?s = workQueue s @ [guid s]"
    "processes ?s = (processes s)(guid s \<mapsto> manager_process info [])"
    by (simp_all add: makeManager_def spawnLoop_def rawSpawn_simps manager_process_def)
  note IH = Cons.IH [OF ms(1), unfolded spawn(1)]
  have upt: "[guid s..<guid s + length (x # infos)] = guid s # [Suc (guid s)..<Suc (guid s) + length infos]"
    using upt_conv_Cons [of "guid s" "guid s + length (x # infos)"] by (simp del: upt_Suc)
  have "processes s' (guid s + j) = Some (manager_process (snd ((x # infos) ! j)) [])" if "j < length (x # infos)" for j
    using IH spawn(3) x that by (cases j) simp_all
  then show ?case using IH spawn ms(2) x upt by simp
qed simp

lemma initialize_spec:
  assumes "initialize infos init_app onMessage s = (main, managers, s')"
  shows "main = guid s" "managers = zip (map fst infos) [Suc (guid s)..<Suc (guid s) + length infos]"
    "workQueue s' = workQueue s @ main # map snd managers"
    "j < length infos \<Longrightarrow> processes s' (Suc (guid s) + j) = Some (manager_process (snd (infos ! j)) [])"
proof -
  let ?s = "snd (rawSpawn (T_andThen (state_loop onMessage) init_app) s)"
  have m: "main = guid s" "setupEffects infos ?s = (managers, s')"
    using assms by (auto simp: initialize_def spawnLoop_def rawSpawn_def split: prod.splits)
  note S = setupEffects_spec [OF m(2), unfolded rawSpawn_simps]
  show "main = guid s" "managers = zip (map fst infos) [Suc (guid s)..<Suc (guid s) + length infos]"
    "workQueue s' = workQueue s @ main # map snd managers"
    "j < length infos \<Longrightarrow> processes s' (Suc (guid s) + j) = Some (manager_process (snd (infos ! j)) [])"
    using S m(1) by simp_all
qed

text \<open>A manager's process runs its initial task, handles its mailbox and waits.\<close>

lemma manager_starts:
  assumes "evals (init_task info) k (Inr st)" "handles (manager_onMessage info) st msgs j st'" "n + k + j + 3 < MAX_STEPS"
  shows "step n pid (with_process pid (manager_process info msgs) s) =
    (Inr (n + k + j + 4), with_process pid \<lparr>proc_root = Some (T_receive (\<lambda>m. manager_onMessage info m st')),
       stack = [F_andThen (state_loop (manager_onMessage info))], mailbox = []\<rparr> s)"
proof -
  let ?f = "manager_onMessage info"
  let ?p = "\<lparr>proc_root = None, stack = [F_andThen (state_loop ?f)], mailbox = msgs\<rparr>"
  have "step n pid (with_process pid (manager_process info msgs) s) =
      step (Suc n) pid (with_process pid (?p\<lparr>proc_root := Some (init_task info)\<rparr>) s)"
    using step_rounds(1) [where n = n and p = "\<lparr>proc_root = None, stack = [], mailbox = msgs\<rparr>" and f = "state_loop ?f"] assms(3)
    by (simp add: manager_process_def del: fun_upd_apply)
  also have "\<dots> = step (Suc n + k) pid (with_process pid (?p\<lparr>proc_root := Some (T_succeed st)\<rparr>) s)"
    using step_evals [OF assms(1), of "Suc n" pid s ?p] assms(3) by (simp add: task_of_def del: fun_upd_apply)
  also have "\<dots> = step (Suc (Suc n + k)) pid (with_process pid \<lparr>proc_root = Some (state_loop ?f st), stack = [], mailbox = msgs\<rparr> s)"
    using step_rounds(3) [where n = "Suc n + k" and p = "\<lparr>proc_root = None, stack = [], mailbox = msgs\<rparr>"
        and f = "state_loop ?f" and stk = "[]"] assms(3) by (simp del: fun_upd_apply)
  also have "\<dots> = (Inr (n + k + j + 4), with_process pid \<lparr>proc_root = Some (T_receive (\<lambda>m. ?f m st')),
       stack = [F_andThen (state_loop ?f)], mailbox = []\<rparr> s)"
    using loop_drains [OF assms(2), of "Suc (Suc n + k)" pid s] assms(3) by (simp add: add_ac del: fun_upd_apply)
  finally show ?thesis .
qed

subsection \<open>Properties\<close>


definition echo_manager :: "(nat, nat, unit, nat) manager_info" where
  "echo_manager = \<lparr>init_task = T_succeed (VUser (PState 0)),
     onEffects = Tag_cmd (\<lambda>cmds state. T_succeed (VUser (PState (sum_list cmds)))), onSelfMsg = \<lambda>_ state. T_succeed state\<rparr>"


text \<open>
  The first view. A program without flags that is started full screen draws the view of its first model below
  what the page already has; one that is embedded draws it as the only child of its node. The stepper shows the
  view from the start.
\<close>

theorem Program_first_view:
  assumes "vnode_ok legit force (view model)"
  shows "\<exists>domNode stepper.
    fullscreen (checkNoFlags moduleName init) (Children kids) JUndefined = Inr (init, Children kids) \<and>
    page_renderer (Children kids) view model = (Children (kids @ [domNode]), stepper) \<and>
    (\<exists>node'. embed (checkNoFlags moduleName init) node JUndefined = Inr (init, node') \<and>
       page_renderer node' view model = (Children [domNode], stepper)) \<and>
    displays legit same (view model) domNode \<and> page stepper = domNode \<and> stepper_inv legit same view model stepper"
  using displays_render [OF assms] normalRenderer_inv [of legit force view model, OF assms]
  by (simp add: fullscreen_def embed_def checkNoFlags_def page_renderer_def attach_def normalRenderer_def
      makeStepper_def Let_def)

text \<open>
  Wrong flags stop a program before anything is drawn or spawned: the message is shown in place of everything
  in the node, and thrown. It is the message of the decoder.
\<close>

lemma Program_wrong_flags:
  assumes "Json_run stringify floorLog decoder flags = Err problem"
  shows "\<exists>before. fullscreen (checkYesFlags stringify floorLog (Some decoder) moduleName init) body flags =
      Inl (crash_page (before @ problem))"
proof -
  let ?before = "''Trying to initialize the `'' @ moduleName @ ''` module with an unexpected flag.'' @ newline @
    ''I tried to convert it to an Elm value, but ran into this problem:'' @ newline @ newline"
  have "fullscreen (checkYesFlags stringify floorLog (Some decoder) moduleName init) body flags = Inl (crash_page (?before @ problem))"
    using assms by (simp add: fullscreen_def checkYesFlags_def)
  then show ?thesis by blast
qed

text \<open>Modules with new names are all published, and those of other files stay.\<close>

lemma publish_new:
  assumes "distinct (map fst Elm)" "\<forall>x \<in> fst ` set Elm. map_of g x = None \<and> x \<notin> set object_prototype"
  shows "\<exists>g'. publish Elm (Some g) = (None, g') \<and> map_of g' = map_of g ++ map_of Elm"
proof -
  have "\<exists>g'. publish_loop Elm g = (None, g') \<and> map_of g' = map_of g ++ map_of Elm" using assms
  proof (induction Elm arbitrary: g)
    case (Cons x Elm)
    obtain k m where x: "x = (k, m)" by (cases x)
    have "\<forall>y \<in> fst ` set Elm. map_of (AList.update k m g) y = None \<and> y \<notin> set object_prototype"
      using Cons.prems x by (auto simp: update_conv' image_iff)
    with Cons.IH [of "AList.update k m g"] Cons.prems x obtain g' where
      g': "publish_loop Elm (AList.update k m g) = (None, g')" "map_of g' = map_of (AList.update k m g) ++ map_of Elm" by auto
    have "k \<notin> dom (map_of Elm)" using Cons.prems(1) x by (simp add: dom_map_of_conv_image_fst)
    then have "map_of g' y = (map_of g ++ map_of (x # Elm)) y" for y
      using g'(2) x by (cases "y = k") (auto simp: update_conv' map_add_def dom_def split: option.splits)
    then have "map_of g' = map_of g ++ map_of (x # Elm)" by blast
    moreover have "publish_loop (x # Elm) g = (None, g')" using g'(1) Cons.prems(2) x by simp
    ultimately show ?case by blast
  qed simp
  then show ?thesis by (simp add: publish_def)
qed

end
