(* ===== verification/Elm_Task.thy ===== *)
theory Elm_Task
  imports Kubecast_Prelude
begin

text \<open>
  Tasks of effect managers (compiled module \<^verbatim>\<open>Task\<close> of \<^verbatim>\<open>dist/Main.js\<close>), by what running them does to a
  world: the managers' tasks do not fail, so that a task gives a value and a new world, or raises an
  exception of the code inside. How the scheduler runs tasks is the subject of \<^verbatim>\<open>Elm_Scheduler\<close>.
\<close>

type_synonym ('w, 'a) task = "'w \<Rightarrow> ('a \<times> 'w) result"

definition Task_succeed :: "'a \<Rightarrow> ('w, 'a) task" where
  "Task_succeed v = (\<lambda>w. Inr (v, w))"

definition Task_andThen :: "('a \<Rightarrow> ('w, 'b) task) \<Rightarrow> ('w, 'a) task \<Rightarrow> ('w, 'b) task" where
  "Task_andThen callback task = (\<lambda>w. bindE (task w) (\<lambda>(v, w'). callback v w'))"

definition Task_map :: "('a \<Rightarrow> 'b) \<Rightarrow> ('w, 'a) task \<Rightarrow> ('w, 'b) task" where
  "Task_map func taskA = Task_andThen (\<lambda>a. Task_succeed (func a)) taskA"

definition Task_map2 ::
  "('a \<Rightarrow> 'b \<Rightarrow> 'c) \<Rightarrow> ('w, 'a) task \<Rightarrow> ('w, 'b) task \<Rightarrow> ('w, 'c) task" where
  "Task_map2 func taskA taskB =
     Task_andThen (\<lambda>a. Task_andThen (\<lambda>b. Task_succeed (func a b)) taskB) taskA"

fun Task_sequence :: "('w, 'a) task list \<Rightarrow> ('w, 'a list) task" where
  "Task_sequence [] = Task_succeed []"
| "Task_sequence (t # ts) = Task_map2 (#) t (Task_sequence ts)"

text \<open>A dictionary operation inside a task.\<close>

definition lift :: "'a result \<Rightarrow> ('w, 'a) task" where
  "lift r = (\<lambda>w. bindE r (\<lambda>v. Inr (v, w)))"

text \<open>The operator \<^verbatim>\<open>&>\<close>.\<close>

definition Task_then :: "('w, 'a) task \<Rightarrow> ('w, 'b) task \<Rightarrow> ('w, 'b) task" where
  "Task_then t1 t2 = Task_andThen (\<lambda>_. t2) t1"

end
