(* ===== verification/Elm_Navigation.thy ===== *)
theory Elm_Navigation
  imports Elm_List Elm_Task
begin

text \<open>
  The Navigation effect manager (compiled module \<^verbatim>\<open>Navigation\<close> of \<^verbatim>\<open>dist/Main.js\<close>) and its bindings
  (\<^verbatim>\<open>Native.Navigation\<close>), through which the program learns of changes of the page's address. The
  browser is part of the world: the address, the listeners of the window, by the process that
  registered them, and a log of what was done to the history and sent to the program.
\<close>

subsection \<open>The browser\<close>

record location =
  href :: string
  host :: string
  hostname :: string
  protocol :: string
  origin :: string
  port_number :: string
  pathname :: string
  search :: string
  hash :: string
  username :: string
  password :: string

datatype 'msg nav_effect =
    HistoryGo int
  | PushState string
  | ReplaceState string
  | SetLocation string
  | ReloadPage bool
  | ToProgram 'msg

record 'msg nav_world =
  document_location :: location
  listeners :: "(nat \<times> string) list"
  nav_next :: nat
  nav_log :: "'msg nav_effect list"

text \<open>
  What the browser decides: the address a URL stands for in a page, if the page may take it on without a
  load (\<^verbatim>\<open>pushState\<close> and \<^verbatim>\<open>replaceState\<close> throw a \<^verbatim>\<open>SecurityError\<close> otherwise); the URLs that an assignment to
  \<^verbatim>\<open>window.location\<close> throws for; the product.
\<close>

record browser =
  resolve :: "location \<Rightarrow> string \<Rightarrow> location option"
  malformed :: "string \<Rightarrow> bool"
  userAgent_Trident :: bool

type_synonym ('msg, 'a) nav_task = "('msg nav_world, 'a) task"

definition nav_emit :: "'msg nav_effect \<Rightarrow> ('msg, unit) nav_task" where
  "nav_emit e = (\<lambda>w. Inr ((), w\<lparr>nav_log := nav_log w @ [e]\<rparr>))"

definition getLocation :: "'msg nav_world \<Rightarrow> location" where
  "getLocation w = document_location w"

definition Navigation_go :: "int \<Rightarrow> ('msg, unit) nav_task" where
  "Navigation_go n = (if n \<noteq> 0 then nav_emit (HistoryGo n) else Task_succeed ())"

definition set_state :: "browser \<Rightarrow> 'msg nav_effect \<Rightarrow> string \<Rightarrow> ('msg, location) nav_task" where
  "set_state br e url =
     (\<lambda>w. case resolve br (document_location w) url of
        None \<Rightarrow> Inl (JsError ''SecurityError'')
      | Some loc \<Rightarrow>
          (let w' = w\<lparr>document_location := loc, nav_log := nav_log w @ [e]\<rparr> in Inr (getLocation w', w')))"

definition Navigation_pushState :: "browser \<Rightarrow> string \<Rightarrow> ('msg, location) nav_task" where
  "Navigation_pushState br url = set_state br (PushState url) url"

definition Navigation_replaceState :: "browser \<Rightarrow> string \<Rightarrow> ('msg, location) nav_task" where
  "Navigation_replaceState br url = set_state br (ReplaceState url) url"

definition Navigation_reloadPage :: "bool \<Rightarrow> ('msg, unit) nav_task" where
  "Navigation_reloadPage skipCache = nav_emit (ReloadPage skipCache)"

definition Navigation_setLocation :: "browser \<Rightarrow> string \<Rightarrow> ('msg, unit) nav_task" where
  "Navigation_setLocation br url =
     (if malformed br url then nav_emit (ReloadPage False) else nav_emit (SetLocation url))"

text \<open>
  \<^verbatim>\<open>Process.spawn\<close> of \<^verbatim>\<open>onWindow\<close>: the process registers a listener and waits; \<^verbatim>\<open>Process.kill\<close> removes it.
\<close>

definition spawn_onWindow :: "string \<Rightarrow> ('msg, nat) nav_task" where
  "spawn_onWindow name =
     (\<lambda>w. Inr (nav_next w, w\<lparr>nav_next := Suc (nav_next w), listeners := listeners w @ [(nav_next w, name)]\<rparr>))"

definition kill_listener :: "nat \<Rightarrow> ('msg, unit) nav_task" where
  "kill_listener pid = (\<lambda>w. Inr ((), w\<lparr>listeners := filter (\<lambda>(p, _). p \<noteq> pid) (listeners w)\<rparr>))"

subsection \<open>The manager\<close>

datatype popWatcher =
    Normal nat
  | InternetExplorer nat nat

datatype 'msg nav_sub = Monitor "location \<Rightarrow> 'msg"

datatype nav_cmd =
    Jump int
  | New string
  | Modify string
  | Visit string
  | Reload bool

record 'msg nav_state =
  nav_subs :: "'msg nav_sub list"
  popWatcher :: "popWatcher option"

definition Navigation_init :: "('msg, 'msg nav_state) nav_task" where
  "Navigation_init = Task_succeed \<lparr>nav_subs = [], popWatcher = None\<rparr>"

fun Navigation_cmdMap :: "('a \<Rightarrow> 'b) \<Rightarrow> nav_cmd \<Rightarrow> nav_cmd" where
  "Navigation_cmdMap _ (Jump n) = Jump n"
| "Navigation_cmdMap _ (New url) = New url"
| "Navigation_cmdMap _ (Modify url) = Modify url"
| "Navigation_cmdMap _ (Visit url) = Visit url"
| "Navigation_cmdMap _ (Reload skipCache) = Reload skipCache"

fun Navigation_subMap :: "('a \<Rightarrow> 'b) \<Rightarrow> 'a nav_sub \<Rightarrow> 'b nav_sub" where
  "Navigation_subMap func (Monitor tagger) = Monitor (\<lambda>loc. func (tagger loc))"

definition Navigation_notify :: "'msg nav_sub list \<Rightarrow> location \<Rightarrow> ('msg, unit) nav_task" where
  "Navigation_notify subs loc =
     Task_then
       (Task_sequence (List_map (\<lambda>s. case s of Monitor tagger \<Rightarrow> nav_emit (ToProgram (tagger loc))) subs))
       (Task_succeed ())"

fun Navigation_cmdHelp :: "browser \<Rightarrow> 'msg nav_sub list \<Rightarrow> nav_cmd \<Rightarrow> ('msg, unit) nav_task" where
  "Navigation_cmdHelp br subs (Jump n) = Navigation_go n"
| "Navigation_cmdHelp br subs (New url) = Task_andThen (Navigation_notify subs) (Navigation_pushState br url)"
| "Navigation_cmdHelp br subs (Modify url) = Task_andThen (Navigation_notify subs) (Navigation_replaceState br url)"
| "Navigation_cmdHelp br subs (Visit url) = Navigation_setLocation br url"
| "Navigation_cmdHelp br subs (Reload skipCache) = Navigation_reloadPage skipCache"

fun Navigation_killPopWatcher :: "popWatcher \<Rightarrow> ('msg, unit) nav_task" where
  "Navigation_killPopWatcher (Normal pid) = kill_listener pid"
| "Navigation_killPopWatcher (InternetExplorer pid1 pid2) = Task_then (kill_listener pid1) (kill_listener pid2)"

definition Navigation_onSelfMsg :: "location \<Rightarrow> 'msg nav_state \<Rightarrow> ('msg, 'msg nav_state) nav_task" where
  "Navigation_onSelfMsg loc state = Task_then (Navigation_notify (nav_subs state) loc) (Task_succeed state)"

definition Navigation_spawnPopWatcher :: "browser \<Rightarrow> ('msg, popWatcher) nav_task" where
  "Navigation_spawnPopWatcher br =
     (if userAgent_Trident br
      then Task_map2 InternetExplorer (spawn_onWindow ''popstate'') (spawn_onWindow ''hashchange'')
      else Task_map Normal (spawn_onWindow ''popstate''))"

definition nav_stepState :: "browser \<Rightarrow> 'msg nav_sub list \<Rightarrow> popWatcher option \<Rightarrow> ('msg, 'msg nav_state) nav_task" where
  "nav_stepState br subs watcher =
     (case (subs, watcher) of
        ([], Some pw) \<Rightarrow>
          Task_then (Navigation_killPopWatcher pw) (Task_succeed \<lparr>nav_subs = subs, popWatcher = None\<rparr>)
      | (_ # _, None) \<Rightarrow>
          Task_map (\<lambda>pw. \<lparr>nav_subs = subs, popWatcher = Some pw\<rparr>) (Navigation_spawnPopWatcher br)
      | _ \<Rightarrow> Task_succeed \<lparr>nav_subs = subs, popWatcher = watcher\<rparr>)"

definition Navigation_onEffects ::
  "browser \<Rightarrow> nav_cmd list \<Rightarrow> 'msg nav_sub list \<Rightarrow> 'msg nav_state \<Rightarrow> ('msg, 'msg nav_state) nav_task" where
  "Navigation_onEffects br cmds subs state =
     Task_then (Task_sequence (List_map (Navigation_cmdHelp br subs) cmds)) (nav_stepState br subs (popWatcher state))"

text \<open>
  The user goes back or forward, or changes the fragment: the browser has a new address and fires an
  event, for which every listener of that event has the manager handle the address.
\<close>

definition window_event ::
  "location \<Rightarrow> string \<Rightarrow> 'msg nav_state \<Rightarrow> ('msg, 'msg nav_state) nav_task" where
  "window_event loc name state =
     (\<lambda>w. let w' = w\<lparr>document_location := loc\<rparr> in
       fold (\<lambda>_ t. Task_andThen (Navigation_onSelfMsg (getLocation w')) t)
         (filter (\<lambda>(_, n). n = name) (listeners w')) (Task_succeed state) w')"

text \<open>
  \<^verbatim>\<open>Navigation.program\<close>: the program starts at the address of the page, and monitors the address beside
  its own subscriptions.
\<close>

definition Navigation_program_init :: "(location \<Rightarrow> 'm) \<Rightarrow> 'msg nav_world \<Rightarrow> 'm" where
  "Navigation_program_init init w = init (getLocation w)"

definition Navigation_program_subs ::
  "(location \<Rightarrow> 'msg) \<Rightarrow> ('m \<Rightarrow> 'sub) \<Rightarrow> 'm \<Rightarrow> ('msg nav_sub + 'sub) list" where
  "Navigation_program_subs locationToMessage subscriptions m =
     [Inl (Monitor locationToMessage), Inr (subscriptions m)]"

subsection \<open>What the manager does\<close>

inductive nav_reachable :: "browser \<Rightarrow> 'msg nav_state \<Rightarrow> 'msg nav_world \<Rightarrow> bool" for br where
  start: "listeners w = [] \<Longrightarrow> Navigation_init w = Inr (st, w') \<Longrightarrow> nav_reachable br st w'"
| effects: "nav_reachable br st w \<Longrightarrow> Navigation_onEffects br cmds subs st w = Inr (st', w') \<Longrightarrow> nav_reachable br st' w'"
| event: "nav_reachable br st w \<Longrightarrow> window_event loc name st w = Inr (st', w') \<Longrightarrow> nav_reachable br st' w'"

text \<open>The listeners are exactly those of the watcher, and there is a watcher when somebody subscribes.\<close>

definition watcher_listeners :: "popWatcher option \<Rightarrow> (nat \<times> string) list" where
  "watcher_listeners pw =
     (case pw of
        None \<Rightarrow> []
      | Some (Normal p) \<Rightarrow> [(p, ''popstate'')]
      | Some (InternetExplorer p q) \<Rightarrow> [(p, ''popstate''), (q, ''hashchange'')])"

definition nav_inv :: "browser \<Rightarrow> 'msg nav_state \<Rightarrow> 'msg nav_world \<Rightarrow> bool" where
  "nav_inv br st w \<longleftrightarrow>
     listeners w = watcher_listeners (popWatcher st) \<and>
     (popWatcher st = None \<longleftrightarrow> nav_subs st = []) \<and>
     (\<forall>pw. popWatcher st = Some pw \<longrightarrow> (userAgent_Trident br \<longleftrightarrow> (\<exists>p q. pw = InternetExplorer p q)))"

definition told :: "'msg nav_sub list \<Rightarrow> location \<Rightarrow> 'msg nav_effect list" where
  "told subs loc = map (\<lambda>s. case s of Monitor tagger \<Rightarrow> ToProgram (tagger loc)) subs"

lemmas task_defs = Task_then_def Task_andThen_def Task_map_def Task_map2_def Task_succeed_def

lemma emits_eq:
  "Task_sequence (map (\<lambda>s. case s of Monitor tagger \<Rightarrow> nav_emit (ToProgram (tagger loc))) subs) w =
   Inr (map (\<lambda>_. ()) subs, w\<lparr>nav_log := nav_log w @ told subs loc\<rparr>)"
proof (induction subs arbitrary: w)
  case (Cons s subs)
  then show ?case by (cases s) (simp add: task_defs nav_emit_def told_def)
qed (simp add: task_defs told_def)

lemma notify_eq: "Navigation_notify subs loc w = Inr ((), w\<lparr>nav_log := nav_log w @ told subs loc\<rparr>)"
  by (simp add: Navigation_notify_def task_defs elm_simps emits_eq)

text \<open>What a command does to the address and to the log; an address the page may not take is an exception.\<close>

fun cmd_outcome :: "browser \<Rightarrow> 'msg nav_sub list \<Rightarrow> nav_cmd \<Rightarrow> location \<Rightarrow> (location \<times> 'msg nav_effect list) result" where
  "cmd_outcome br subs (Jump n) loc = Inr (loc, if n \<noteq> 0 then [HistoryGo n] else [])"
| "cmd_outcome br subs (New url) loc =
     (case resolve br loc url of None \<Rightarrow> Inl (JsError ''SecurityError'') | Some l \<Rightarrow> Inr (l, PushState url # told subs l))"
| "cmd_outcome br subs (Modify url) loc =
     (case resolve br loc url of None \<Rightarrow> Inl (JsError ''SecurityError'') | Some l \<Rightarrow> Inr (l, ReplaceState url # told subs l))"
| "cmd_outcome br subs (Visit url) loc = Inr (loc, [if malformed br url then ReloadPage False else SetLocation url])"
| "cmd_outcome br subs (Reload skipCache) loc = Inr (loc, [ReloadPage skipCache])"

fun cmds_outcome :: "browser \<Rightarrow> 'msg nav_sub list \<Rightarrow> nav_cmd list \<Rightarrow> location \<Rightarrow> (location \<times> 'msg nav_effect list) result" where
  "cmds_outcome br subs [] loc = Inr (loc, [])"
| "cmds_outcome br subs (c # cs) loc =
     bindE (cmd_outcome br subs c loc) (\<lambda>(l, es). bindE (cmds_outcome br subs cs l) (\<lambda>(l', es'). Inr (l', es @ es')))"

lemma cmdHelp_eq:
  "Navigation_cmdHelp br subs c w =
   bindE (cmd_outcome br subs c (document_location w)) (\<lambda>(l, es).
     Inr ((), w\<lparr>document_location := l, nav_log := nav_log w @ es\<rparr>))"
  by (cases c)
     (auto simp: Navigation_go_def Navigation_pushState_def Navigation_replaceState_def Navigation_setLocation_def
       Navigation_reloadPage_def nav_emit_def set_state_def Let_def getLocation_def notify_eq task_defs
       split: option.split)

lemma cmds_eq:
  "Task_sequence (map (Navigation_cmdHelp br subs) cs) w =
   bindE (cmds_outcome br subs cs (document_location w)) (\<lambda>(l, es).
     Inr (map (\<lambda>_. ()) cs, w\<lparr>document_location := l, nav_log := nav_log w @ es\<rparr>))"
proof (induction cs arbitrary: w)
  case (Cons c cs)
  then show ?case
    by (cases "cmd_outcome br subs c (document_location w)")
       (auto simp: task_defs cmdHelp_eq bindE_def split: sum.split)
qed (simp add: task_defs)

lemma stepState_eq:
  assumes "nav_inv br st w" "listeners w' = listeners w"
  shows "\<exists>st' w''. nav_stepState br subs (popWatcher st) w' = Inr (st', w'') \<and> nav_subs st' = subs \<and>
    nav_inv br st' w'' \<and> nav_log w'' = nav_log w' \<and> document_location w'' = document_location w'"
proof (cases "popWatcher st")
  case None
  with assms show ?thesis
    by (cases subs)
       (auto simp: nav_stepState_def nav_inv_def watcher_listeners_def task_defs Navigation_spawnPopWatcher_def
         spawn_onWindow_def)
next
  case (Some pw)
  show ?thesis
  proof (cases subs)
    case Nil
    with assms Some show ?thesis
      by (cases pw) (auto simp: nav_stepState_def nav_inv_def watcher_listeners_def task_defs kill_listener_def)
  next
    case (Cons s ss)
    with assms Some show ?thesis by (simp add: nav_stepState_def nav_inv_def task_defs)
  qed
qed

lemma onEffects_eq:
  assumes "nav_inv br st w" "cmds_outcome br subs cmds (document_location w) = Inr (l, es)"
  shows "\<exists>st' w'. Navigation_onEffects br cmds subs st w = Inr (st', w') \<and> nav_subs st' = subs \<and> nav_inv br st' w' \<and>
    nav_log w' = nav_log w @ es \<and> document_location w' = l"
  using stepState_eq [OF assms(1), of "w\<lparr>document_location := l, nav_log := nav_log w @ es\<rparr>" subs] assms(2)
  by (simp add: Navigation_onEffects_def Task_then_def Task_andThen_def elm_simps cmds_eq)

lemma onEffects_raises:
  "cmds_outcome br subs cmds (document_location w) = Inl e \<Longrightarrow> Navigation_onEffects br cmds subs st w = Inl e"
  by (simp add: Navigation_onEffects_def Task_then_def Task_andThen_def elm_simps cmds_eq)

lemma onSelfMsg_eq: "Navigation_onSelfMsg loc st w = Inr (st, w\<lparr>nav_log := nav_log w @ told (nav_subs st) loc\<rparr>)"
  by (simp add: Navigation_onSelfMsg_def task_defs notify_eq)

lemma window_event_eq:
  assumes "nav_inv br st w"
  shows "window_event loc name st w =
    Inr (st, w\<lparr>document_location := loc, nav_log := nav_log w @
      (if name = ''popstate'' \<or> userAgent_Trident br \<and> name = ''hashchange'' then told (nav_subs st) loc else [])\<rparr>)"
proof (cases "popWatcher st")
  case None
  with assms show ?thesis
    by (auto simp: window_event_def nav_inv_def watcher_listeners_def told_def task_defs)
next
  case (Some pw)
  with assms show ?thesis
    by (cases pw)
       (auto simp: window_event_def nav_inv_def watcher_listeners_def task_defs onSelfMsg_eq getLocation_def)
qed

lemma nav_reachable_inv: "nav_reachable br st w \<Longrightarrow> nav_inv br st w"
proof (induction rule: nav_reachable.induct)
  case (start w st w')
  then show ?case by (auto simp: Navigation_init_def Task_succeed_def nav_inv_def watcher_listeners_def)
next
  case (effects st w cmds subs st' w')
  then show ?case
    using onEffects_eq [of br st w subs cmds] onEffects_raises [of br subs cmds w _ st]
    by (cases "cmds_outcome br subs cmds (document_location w)") auto
next
  case (event st w loc name st' w')
  then show ?case by (auto simp: window_event_eq nav_inv_def)
qed

text \<open>
  The commands and subscriptions of an update, in every reachable state of the manager: the commands
  take effect in order; a new or modified address is told to every subscription of this update, once and
  right after the change; an address the page may not take on is an exception of the whole update. Then
  the window is listened to exactly when there are subscriptions. This is claim C18.
\<close>

theorem Navigation_onEffects_behaviour:
  assumes "nav_reachable br st w"
  shows "case cmds_outcome br subs cmds (document_location w) of
      Inl e \<Rightarrow> Navigation_onEffects br cmds subs st w = Inl e
    | Inr (loc, es) \<Rightarrow>
        (\<exists>st' w'. Navigation_onEffects br cmds subs st w = Inr (st', w') \<and>
           document_location w' = loc \<and> nav_log w' = nav_log w @ es \<and> nav_subs st' = subs \<and>
           listeners w' = watcher_listeners (popWatcher st') \<and> (listeners w' = [] \<longleftrightarrow> subs = []))"
proof (cases "cmds_outcome br subs cmds (document_location w)")
  case (Inl e)
  then show ?thesis by (simp add: onEffects_raises)
next
  case (Inr r)
  then obtain loc es where r: "cmds_outcome br subs cmds (document_location w) = Inr (loc, es)" by (cases r) auto
  from onEffects_eq [OF nav_reachable_inv [OF assms] r] obtain st' w' where
    "Navigation_onEffects br cmds subs st w = Inr (st', w')" "nav_subs st' = subs" "nav_inv br st' w'"
    "nav_log w' = nav_log w @ es" "document_location w' = loc" by blast
  moreover from this(2,3) have "listeners w' = watcher_listeners (popWatcher st')" "listeners w' = [] \<longleftrightarrow> subs = []"
    by (auto simp: nav_inv_def watcher_listeners_def split: option.splits popWatcher.splits)
  ultimately show ?thesis using r by simp
qed

text \<open>
  When the user navigates, in every reachable state of the manager, every subscription is told the new
  address exactly once, and nothing else changes; in Internet Explorer also for changes of the fragment.
\<close>

theorem Navigation_event_reported:
  assumes "nav_reachable br st w"
  shows "window_event loc name st w =
    Inr (st, w\<lparr>document_location := loc, nav_log := nav_log w @
      (if name = ''popstate'' \<or> userAgent_Trident br \<and> name = ''hashchange'' then told (nav_subs st) loc else [])\<rparr>)"
  by (rule window_event_eq [OF nav_reachable_inv [OF assms]])

text \<open>A page, a browser that resolves every URL to a path, and a program with one subscription.\<close>

definition nav_page :: "string \<Rightarrow> location" where
  "nav_page path = \<lparr>href = path, host = ''h'', hostname = ''h'', protocol = ''http:'', origin = [], port_number = [],
     pathname = path, search = [], hash = [], username = [], password = []\<rparr>"

definition nav_browser :: browser where
  "nav_browser = \<lparr>resolve = \<lambda>_ url. if url = [] then None else Some (nav_page url), malformed = \<lambda>_. False, userAgent_Trident = False\<rparr>"

definition nav_world0 :: "string nav_world" where
  "nav_world0 = \<lparr>document_location = nav_page ''/'', listeners = [], nav_next = 0, nav_log = []\<rparr>"

lemma nav_example_start: "nav_reachable nav_browser \<lparr>nav_subs = [], popWatcher = None\<rparr> nav_world0"
  by (rule nav_reachable.start [of nav_world0]) (simp_all add: nav_world0_def Navigation_init_def Task_succeed_def)

lemma nav_example_subscribed:
  "nav_reachable nav_browser \<lparr>nav_subs = [Monitor href], popWatcher = Some (Normal 0)\<rparr>
     (nav_world0\<lparr>listeners := [(0, ''popstate'')], nav_next := 1\<rparr>)"
  by (rule nav_reachable.effects [OF nav_example_start, of "[]" "[Monitor href]"])
     (simp add: Navigation_onEffects_def elm_simps task_defs nav_stepState_def Navigation_spawnPopWatcher_def
       spawn_onWindow_def nav_world0_def nav_browser_def)

theorem Navigation_onEffects_behaviour_witness:
  "\<exists>st' w'. Navigation_onEffects nav_browser [New ''/a'', Jump 0, Jump (- 1)] [Monitor href]
      \<lparr>nav_subs = [], popWatcher = None\<rparr> nav_world0 = Inr (st', w') \<and>
    document_location w' = nav_page ''/a'' \<and>
    nav_log w' = nav_log nav_world0 @ [PushState ''/a'', ToProgram ''/a'', HistoryGo (- 1)] \<and> nav_subs st' = [Monitor href] \<and>
    listeners w' = watcher_listeners (popWatcher st') \<and> (listeners w' = [] \<longleftrightarrow> [Monitor href] = [])"
  using Navigation_onEffects_behaviour [OF nav_example_start, where subs = "[Monitor href]" and cmds = "[New ''/a'', Jump 0, Jump (- 1)]"]
  by (simp add: nav_browser_def nav_world0_def told_def nav_page_def)

theorem Navigation_event_reported_witness:
  "window_event (nav_page ''/b'') ''popstate'' \<lparr>nav_subs = [Monitor href], popWatcher = Some (Normal 0)\<rparr>
     (nav_world0\<lparr>listeners := [(0, ''popstate'')], nav_next := 1\<rparr>) =
   Inr (\<lparr>nav_subs = [Monitor href], popWatcher = Some (Normal 0)\<rparr>,
     nav_world0\<lparr>listeners := [(0, ''popstate'')], nav_next := 1, document_location := nav_page ''/b'',
       nav_log := [ToProgram ''/b'']\<rparr>)"
  using Navigation_event_reported [OF nav_example_subscribed, where loc = "nav_page ''/b''" and name = "''popstate''"]
  by (simp add: told_def nav_page_def nav_world0_def)

end
