(* ===== verification/Elm_Time.thy ===== *)
theory Elm_Time
  imports Elm_Dict_Correct Elm_Task
begin

text \<open>
  The Time effect manager (compiled module \<^verbatim>\<open>Time\<close> of \<^verbatim>\<open>dist/Main.js\<close>) with its bindings
  (\<^verbatim>\<open>Native.Time\<close>): one repeating timer for every interval that somebody subscribes to. The world
  holds the clock, the running timers, by the process that set them and their interval, and the
  messages sent to the program. Intervals and times are whole milliseconds.
\<close>

subsection \<open>Timers\<close>

record 'msg time_world =
  date_now :: int
  intervals :: "(nat \<times> int) list"
  tm_next :: nat
  tm_log :: "'msg list"

type_synonym ('msg, 'a) time_task = "('msg time_world, 'a) task"

definition Time_now :: "('msg, int) time_task" where
  "Time_now = (\<lambda>w. Inr (date_now w, w))"

text \<open>
  \<^verbatim>\<open>spawn\<close> of \<^verbatim>\<open>setInterval_\<close>: the process sets the timer and waits; \<^verbatim>\<open>kill\<close> clears it.
\<close>

definition spawn_setInterval :: "int \<Rightarrow> ('msg, nat) time_task" where
  "spawn_setInterval interval =
     (\<lambda>w. Inr (tm_next w,
        w\<lparr>intervals := intervals w @ [(tm_next w, interval)], tm_next := Suc (tm_next w)\<rparr>))"

definition clear_interval :: "nat \<Rightarrow> ('msg, unit) time_task" where
  "clear_interval pid = (\<lambda>w. Inr ((), w\<lparr>intervals := filter (\<lambda>(p, _). p \<noteq> pid) (intervals w)\<rparr>))"

definition time_toApp :: "'msg \<Rightarrow> ('msg, unit) time_task" where
  "time_toApp msg = (\<lambda>w. Inr ((), w\<lparr>tm_log := tm_log w @ [msg]\<rparr>))"

subsection \<open>The manager\<close>

datatype 'msg time_sub = Every int "int \<Rightarrow> 'msg"

record 'msg time_state =
  tm_taggers :: "(int, (int \<Rightarrow> 'msg) list) dict"
  tm_processes :: "(int, nat) dict"

fun Time_spawnHelp :: "int list \<Rightarrow> (int, nat) dict \<Rightarrow> ('msg, (int, nat) dict) time_task" where
  "Time_spawnHelp [] procs = Task_succeed procs"
| "Time_spawnHelp (interval # rest) procs =
     Task_andThen (\<lambda>i. Task_andThen (Time_spawnHelp rest) (lift (Dict_insert interval i procs)))
       (spawn_setInterval interval)"

fun Time_addMySub ::
  "'msg time_sub \<Rightarrow> (int, (int \<Rightarrow> 'msg) list) dict \<Rightarrow> (int, (int \<Rightarrow> 'msg) list) dict result" where
  "Time_addMySub (Every interval tagger) state =
     (case Dict_get interval state of
        None \<Rightarrow> Dict_insert interval [tagger] state
      | Some taggers \<Rightarrow> Dict_insert interval (tagger # taggers) state)"

definition Time_init :: "('msg, 'msg time_state) time_task" where
  "Time_init = Task_succeed \<lparr>tm_taggers = Dict_empty, tm_processes = Dict_empty\<rparr>"

definition tellTaggers :: "(int \<Rightarrow> 'msg) list \<Rightarrow> int \<Rightarrow> ('msg, unit list) time_task" where
  "tellTaggers taggers time = Task_sequence (List_map (\<lambda>tagger. time_toApp (tagger time)) taggers)"

definition Time_onSelfMsg :: "int \<Rightarrow> 'msg time_state \<Rightarrow> ('msg, 'msg time_state) time_task" where
  "Time_onSelfMsg interval state =
     (case Dict_get interval (tm_taggers state) of
        None \<Rightarrow> Task_succeed state
      | Some taggers \<Rightarrow>
          Task_andThen (\<lambda>_. Task_succeed state) (Task_andThen (tellTaggers taggers) Time_now))"

text \<open>
  The three steps of \<^verbatim>\<open>onEffects\<close> collect the intervals to start, the processes to keep and the task
  that stops the others. The accumulator is a \<open>result\<close> because the dictionary of the processes to
  keep is built by insertions.
\<close>

type_synonym 'msg time_acc = "(int list \<times> (int, nat) dict \<times> ('msg, unit) time_task) result"

definition time_leftStep :: "int \<Rightarrow> 'a \<Rightarrow> 'msg time_acc \<Rightarrow> 'msg time_acc" where
  "time_leftStep interval _ acc =
     bindE acc (\<lambda>(spawnList, existing, killTask). Inr (interval # spawnList, existing, killTask))"

definition time_bothStep :: "int \<Rightarrow> 'a \<Rightarrow> nat \<Rightarrow> 'msg time_acc \<Rightarrow> 'msg time_acc" where
  "time_bothStep interval _ pid acc =
     bindE acc (\<lambda>(spawnList, existing, killTask).
       bindE (Dict_insert interval pid existing) (\<lambda>existing'. Inr (spawnList, existing', killTask)))"

definition time_rightStep :: "int \<Rightarrow> nat \<Rightarrow> 'msg time_acc \<Rightarrow> 'msg time_acc" where
  "time_rightStep _ pid acc =
     bindE acc (\<lambda>(spawnList, existing, killTask).
       Inr (spawnList, existing, Task_andThen (\<lambda>_. killTask) (clear_interval pid)))"

definition Time_onEffects :: "'msg time_sub list \<Rightarrow> 'msg time_state \<Rightarrow> ('msg, 'msg time_state) time_task" where
  "Time_onEffects subs state =
     Task_andThen (\<lambda>newTaggers.
       Task_andThen (\<lambda>(spawnList, existingDict, killTask).
         Task_andThen (\<lambda>newProcesses. Task_succeed \<lparr>tm_taggers = newTaggers, tm_processes = newProcesses\<rparr>)
           (Task_andThen (\<lambda>_. Time_spawnHelp spawnList existingDict) killTask))
         (lift (Dict_merge time_leftStep time_bothStep time_rightStep newTaggers (tm_processes state)
            (Inr ([], Dict_empty, Task_succeed ())))))
       (lift (List_foldl (\<lambda>s acc. bindE acc (Time_addMySub s)) (Inr Dict_empty) subs))"

fun Time_subMap :: "('a \<Rightarrow> 'b) \<Rightarrow> 'a time_sub \<Rightarrow> 'b time_sub" where
  "Time_subMap f (Every interval tagger) = Every interval (\<lambda>time. f (tagger time))"

text \<open>
  The clock moves on and the timer that a process set goes off: its task sends the interval to the
  manager.
\<close>

definition timer_fires :: "int \<Rightarrow> nat \<Rightarrow> int \<Rightarrow> 'msg time_state \<Rightarrow> ('msg, 'msg time_state) time_task" where
  "timer_fires elapsed pid interval state =
     (\<lambda>w. let w' = w\<lparr>date_now := date_now w + elapsed\<rparr> in
       if (pid, interval) \<in> set (intervals w') then Time_onSelfMsg interval state w' else Inr (state, w'))"

subsection \<open>What the manager does\<close>

lemmas time_task_defs = Task_succeed_def Task_andThen_def Task_map_def Task_map2_def lift_def

fun taggers_for :: "int \<Rightarrow> 'msg time_sub list \<Rightarrow> (int \<Rightarrow> 'msg) list" where
  "taggers_for i [] = []"
| "taggers_for i (Every j tagger # rest) = (if j = i then tagger # taggers_for i rest else taggers_for i rest)"

lemma addMySub_total:
  assumes "Dict_wf d"
  shows "\<exists>d'. fold (\<lambda>s acc. bindE acc (Time_addMySub s)) subs (Inr d) = Inr d' \<and> Dict_wf d' \<and>
    (\<forall>i. Dict_get i d' =
       (if taggers_for i subs = [] then Dict_get i d
        else Some (rev (taggers_for i subs) @ Maybe_withDefault [] (Dict_get i d))))"
  using assms
proof (induction subs arbitrary: d)
  case (Cons x subs)
  obtain j t where x: "x = Every j t"
    by (cases x)
  obtain d1 where d1: "Time_addMySub x d = Inr d1" "Dict_wf d1"
    "\<And>i. Dict_get i d1 = (if i = j then Some (t # Maybe_withDefault [] (Dict_get j d)) else Dict_get i d)"
    using Dict_insert_total [OF Cons.prems, of j "t # Maybe_withDefault [] (Dict_get j d)"]
    by (auto simp: x Maybe_withDefault_def split: option.splits)
  obtain d' where "fold (\<lambda>s acc. bindE acc (Time_addMySub s)) subs (Inr d1) = Inr d'" "Dict_wf d'"
    "\<And>i. Dict_get i d' = (if taggers_for i subs = [] then Dict_get i d1
       else Some (rev (taggers_for i subs) @ Maybe_withDefault [] (Dict_get i d1)))"
    using Cons.IH [OF d1(2)] by blast
  with d1 show ?case
    by (auto simp: x Maybe_withDefault_def)
qed simp


lemma spawnHelp_total:
  fixes w :: "'msg time_world"
  assumes "Dict_wf d" "distinct sp"
  shows "\<exists>d'. Time_spawnHelp sp d w =
      Inr (d', w\<lparr>intervals := intervals w @ zip [tm_next w..<tm_next w + length sp] sp,
                 tm_next := tm_next w + length sp\<rparr>) \<and>
    Dict_wf d' \<and>
    (\<forall>i. Dict_get i d' = (case map_of (zip sp [tm_next w..<tm_next w + length sp]) i of
                            Some p \<Rightarrow> Some p | None \<Rightarrow> Dict_get i d))"
  using assms
proof (induction sp arbitrary: d w)
  case Nil
  then show ?case
    by (simp add: Task_succeed_def)
next
  case (Cons i sp)
  obtain d1 where d1: "Dict_insert i (tm_next w) d = Inr d1" "Dict_wf d1"
    "\<And>j. Dict_get j d1 = (if j = i then Some (tm_next w) else Dict_get j d)"
    using Dict_insert_total [OF Cons.prems(1)] by blast
  define w1 where "w1 = w\<lparr>intervals := intervals w @ [(tm_next w, i)], tm_next := Suc (tm_next w)\<rparr>"
  obtain d' where d': "Time_spawnHelp sp d1 w1 =
      Inr (d', w1\<lparr>intervals := intervals w1 @ zip [tm_next w1..<tm_next w1 + length sp] sp,
                  tm_next := tm_next w1 + length sp\<rparr>)"
    "Dict_wf d'"
    "\<And>j. Dict_get j d' = (case map_of (zip sp [tm_next w1..<tm_next w1 + length sp]) j of
                            Some p \<Rightarrow> Some p | None \<Rightarrow> Dict_get j d1)"
    using Cons.IH [OF d1(2), of w1] Cons.prems(2) by auto
  have upt: "[tm_next w..<tm_next w + length (i # sp)] = tm_next w # [Suc (tm_next w)..<Suc (tm_next w) + length sp]"
    by (simp add: upt_conv_Cons del: upt_Suc)
  define m where "m = map_of (zip sp [Suc (tm_next w)..<Suc (tm_next w) + length sp])"
  have "m i = None"
    using Cons.prems(2) by (auto simp: m_def map_of_eq_None_iff simp del: upt_Suc dest: set_zip_leftD)
  moreover have "Dict_get j d' = (case m j of Some p \<Rightarrow> Some p | None \<Rightarrow> Dict_get j d1)" for j
    using d'(3) by (simp add: m_def w1_def del: upt_Suc)
  moreover have "map_of (zip (i # sp) [tm_next w..<tm_next w + length (i # sp)]) = m(i \<mapsto> tm_next w)"
    by (simp only: upt m_def zip_Cons_Cons map_of.simps fst_conv snd_conv)
  moreover have "Time_spawnHelp (i # sp) d w = Time_spawnHelp sp d1 w1"
    using d1(1) by (simp add: time_task_defs spawn_setInterval_def w1_def)
  moreover have "w1\<lparr>intervals := intervals w1 @ zip [tm_next w1..<tm_next w1 + length sp] sp, tm_next := tm_next w1 + length sp\<rparr> =
    w\<lparr>intervals := intervals w @ zip [tm_next w..<tm_next w + length (i # sp)] (i # sp), tm_next := tm_next w + length (i # sp)\<rparr>"
    unfolding upt by (simp add: w1_def del: upt_Suc)
  ultimately show ?case
    using d1 d'(1,2) by (auto simp: fun_upd_def simp del: upt_Suc split: option.split)
qed

abbreviation (input) time_visit ::
  "(int \<rightharpoonup> 'a) \<Rightarrow> (int \<rightharpoonup> nat) \<Rightarrow> int \<Rightarrow> 'msg time_acc \<Rightarrow> 'msg time_acc" where
  "time_visit \<equiv> merge_visit time_leftStep time_bothStep time_rightStep"

definition stopped :: "(int \<rightharpoonup> 'a) \<Rightarrow> (int \<rightharpoonup> nat) \<Rightarrow> int set \<Rightarrow> nat set" where
  "stopped new old ks = {p. \<exists>k \<in> ks. new k = None \<and> old k = Some p}"

definition clear_all :: "nat set \<Rightarrow> 'msg time_world \<Rightarrow> 'msg time_world" where
  "clear_all ps w = w\<lparr>intervals := filter (\<lambda>(p, _). p \<notin> ps) (intervals w)\<rparr>"

lemma stopped_insert:
  "stopped new old (insert k ks) =
   (if new k = None then (case old k of Some p \<Rightarrow> insert p (stopped new old ks) | None \<Rightarrow> stopped new old ks)
    else stopped new old ks)"
  by (auto simp: stopped_def split: option.split)

lemma clear_all_insert: "clear_all ps (w\<lparr>intervals := filter (\<lambda>(p, _). p \<noteq> q) (intervals w)\<rparr>) = clear_all (insert q ps) w"
proof -
  have "filter (\<lambda>(p, _). p \<notin> ps) (filter (\<lambda>(p, _). p \<noteq> q) xs) = filter (\<lambda>(p, _). p \<notin> insert q ps) xs" for xs :: "(nat \<times> int) list"
    by (induction xs) auto
  then show ?thesis
    by (simp add: clear_all_def)
qed

lemma collect_timers:
  assumes "distinct ks"
  shows "\<exists>sp ex kt. fold (time_visit new old) ks (Inr ([], Dict_empty, Task_succeed ())) =
      (Inr (sp, ex, kt) :: 'msg time_acc) \<and>
    distinct sp \<and> set sp = {k \<in> set ks. new k \<noteq> None \<and> old k = None} \<and> Dict_wf ex \<and>
    (\<forall>k. Dict_get k ex = (if k \<in> set ks \<and> new k \<noteq> None then old k else None)) \<and>
    (\<forall>w. kt w = Inr ((), clear_all (stopped new old (set ks)) w))"
  using assms
proof (induction ks rule: rev_induct)
  case Nil
  then show ?case
    by (simp add: Dict_wf_empty dict.get_empty Task_succeed_def stopped_def clear_all_def)
next
  case (snoc k ks)
  then obtain sp ex and kt :: "('msg, unit) time_task" where
    f: "fold (time_visit new old) ks (Inr ([], Dict_empty, Task_succeed ())) = Inr (sp, ex, kt)"
    and sp: "distinct sp" "set sp = {k \<in> set ks. new k \<noteq> None \<and> old k = None}"
    and ex: "Dict_wf ex" "\<And>k. Dict_get k ex = (if k \<in> set ks \<and> new k \<noteq> None then old k else None)"
    and kt: "\<And>w. kt w = Inr ((), clear_all (stopped new old (set ks)) w)"
    by auto
  have k: "k \<notin> set ks"
    using snoc.prems by simp
  consider a where "new k = Some a" "old k = None" | a p where "new k = Some a" "old k = Some p"
    | p where "new k = None" "old k = Some p" | "new k = None" "old k = None"
    by (cases "new k"; cases "old k") auto
  then show ?case
  proof cases
    case 1
    then have "fold (time_visit new old) (ks @ [k]) (Inr ([], Dict_empty, Task_succeed ())) = Inr (k # sp, ex, kt)"
      by (simp add: f merge_visit_simps(1) [of new k a old] time_leftStep_def [of _ _ "Inr _"])
    with 1 sp ex kt k show ?thesis
      by (auto simp: stopped_insert)
  next
    case 2
    obtain ex' where ex': "Dict_insert k p ex = Inr ex'" "Dict_wf ex'"
      "\<And>j. Dict_get j ex' = (if j = k then Some p else Dict_get j ex)"
      using Dict_insert_total [OF ex(1)] by blast
    with 2 have "fold (time_visit new old) (ks @ [k]) (Inr ([], Dict_empty, Task_succeed ())) = Inr (sp, ex', kt)"
      by (simp add: f merge_visit_simps(2) [of new k a old] time_bothStep_def [of _ _ _ "Inr _"])
    with 2 sp ex ex' kt k show ?thesis
      by (auto simp: stopped_insert)
  next
    case 3
    then have "fold (time_visit new old) (ks @ [k]) (Inr ([], Dict_empty, Task_succeed ())) =
      Inr (sp, ex, Task_andThen (\<lambda>_. kt) (clear_interval p))"
      by (simp add: f merge_visit_simps(3) [of new k old] time_rightStep_def [of _ _ "Inr _"])
    moreover have "Task_andThen (\<lambda>_. kt) (clear_interval p) w = Inr ((), clear_all (insert p (stopped new old (set ks))) w)" for w
      by (simp add: Task_andThen_def clear_interval_def kt clear_all_insert)
    ultimately show ?thesis
      using 3 sp ex k by (auto simp: stopped_insert)
  next
    case 4
    then have "fold (time_visit new old) (ks @ [k]) (Inr ([], Dict_empty, Task_succeed ())) = Inr (sp, ex, kt)"
      by (simp add: f merge_visit_neither)
    with 4 sp ex kt k show ?thesis
      by (auto simp: stopped_insert)
  qed
qed

text \<open>
  The invariant of the manager: there is a process for exactly the intervals that have
  subscribers, and the running timers are exactly those of the processes.
\<close>

definition time_inv :: "'msg time_state \<Rightarrow> 'msg time_world \<Rightarrow> bool" where
  "time_inv st w \<longleftrightarrow>
     Dict_wf (tm_taggers st) \<and> Dict_wf (tm_processes st) \<and>
     (\<forall>i. (Dict_get i (tm_taggers st) = None) = (Dict_get i (tm_processes st) = None)) \<and>
     (\<forall>p i. ((p, i) \<in> set (intervals w)) = (Dict_get i (tm_processes st) = Some p)) \<and>
     distinct (map fst (intervals w)) \<and> (\<forall>p \<in> fst ` set (intervals w). p < tm_next w)"

lemma time_inv_pid_unique:
  assumes "time_inv st w" "Dict_get i (tm_processes st) = Some p" "Dict_get j (tm_processes st) = Some p"
  shows "i = j"
proof -
  have "(p, i) \<in> set (intervals w)" "(p, j) \<in> set (intervals w)" "distinct (map fst (intervals w))"
    using assms by (auto simp: time_inv_def)
  then show ?thesis
    by (metis eq_key_imp_eq_value)
qed

lemma set_zip_swap: "length xs = length ys \<Longrightarrow> (a, b) \<in> set (zip xs ys) \<longleftrightarrow> (b, a) \<in> set (zip ys xs)"
  by (auto simp: set_zip)

text \<open>What stopping the unneeded timers and starting the missing ones makes of the world.\<close>

lemma timers_after:
  fixes st :: "'msg time_state"
  assumes inv: "time_inv st w"
    and sp: "distinct sp" "set sp = {k. new k \<noteq> None \<and> Dict_get k (tm_processes st) = None}"
    and ex: "\<And>k. Dict_get k ex = (if new k \<noteq> None then Dict_get k (tm_processes st) else None)"
    and ps: "ps = [tm_next w..<tm_next w + length sp]"
    and d: "\<And>i. Dict_get i d = (case map_of (zip sp ps) i of Some p \<Rightarrow> Some p | None \<Rightarrow> Dict_get i ex)"
    and iv: "iv = filter (\<lambda>(p, _). p \<notin> stopped new (\<lambda>k. Dict_get k (tm_processes st)) UNIV) (intervals w) @ zip ps sp"
  shows "(new i = None) = (Dict_get i d = None)"
    and "((p, i) \<in> set iv) = (Dict_get i d = Some p)"
    and "distinct (map fst iv)"
    and "\<forall>p \<in> fst ` set iv. p < tm_next w + length sp"
proof -
  let ?old = "\<lambda>k. Dict_get k (tm_processes st)"
  have len: "length sp = length ps"
    by (simp add: ps)
  have zip_None: "map_of (zip sp ps) i = None \<longleftrightarrow> i \<notin> set sp" for i
    using len by (simp add: map_of_zip_is_None)
  show n: "(new i = None) = (Dict_get i d = None)" for i
  proof (cases "i \<in> set sp")
    case True
    then obtain p where "map_of (zip sp ps) i = Some p"
      using zip_None [of i] by blast
    then have "Dict_get i d = Some p"
      by (simp only: d option.simps)
    moreover have "new i \<noteq> None"
      using True sp(2) by blast
    ultimately show ?thesis
      by simp
  next
    case False
    then have "map_of (zip sp ps) i = None"
      using zip_None [of i] by blast
    then have "Dict_get i d = Dict_get i ex"
      by (simp only: d option.simps)
    moreover have "new i = None \<or> ?old i \<noteq> None"
      using False unfolding sp(2) by simp
    ultimately show ?thesis
      using ex [of i] by auto
  qed
  have old: "((p, i) \<in> set (intervals w)) = (?old i = Some p)" for p i
    using inv by (simp add: time_inv_def)
  have st: "p \<in> stopped new ?old UNIV \<longleftrightarrow> new i = None" if "?old i = Some p" for p i
  proof
    assume "p \<in> stopped new ?old UNIV"
    then obtain k where "new k = None" "?old k = Some p"
      by (auto simp: stopped_def)
    with time_inv_pid_unique [OF inv that, of k] show "new i = None"
      by simp
  next
    assume "new i = None"
    with that show "p \<in> stopped new ?old UNIV"
      unfolding stopped_def by blast
  qed
  have "((p, i) \<in> set (zip ps sp)) = (map_of (zip sp ps) i = Some p)"
    using set_zip_swap [of ps sp p i] len sp(1) map_of_eq_Some_iff [of "zip sp ps" i p] by simp
  then have "((p, i) \<in> set iv) = ((?old i = Some p \<and> new i \<noteq> None) \<or> map_of (zip sp ps) i = Some p)"
    using old [of p i] st [of i p] by (auto simp: iv)
  also have "\<dots> = (Dict_get i d = Some p)"
  proof (cases "i \<in> set sp")
    case True
    then obtain q where "map_of (zip sp ps) i = Some q"
      using zip_None [of i] by blast
    then have "Dict_get i d = Some q"
      by (simp only: d option.simps)
    moreover have "?old i = None"
      using True sp(2) by blast
    ultimately show ?thesis
      using \<open>map_of (zip sp ps) i = Some q\<close> by simp
  next
    case False
    then have m: "map_of (zip sp ps) i = None"
      using zip_None [of i] by blast
    then have "Dict_get i d = Dict_get i ex"
      by (simp only: d option.simps)
    with m ex [of i] show ?thesis
      by (simp only:) auto
  qed
  finally show "((p, i) \<in> set iv) = (Dict_get i d = Some p)" .
  have fresh: "\<forall>p \<in> fst ` set (intervals w). p < tm_next w" and dist: "distinct (map fst (intervals w))"
    using inv by (auto simp: time_inv_def)
  have z: "map fst (zip ps sp) = ps"
    using len by simp
  have "distinct (map fst (filter (\<lambda>(p, _). p \<notin> stopped new ?old UNIV) (intervals w)))"
    using dist by (rule distinct_map_filter)
  with z fresh show "distinct (map fst iv)"
    by (auto simp: iv ps)
  have "p < tm_next w + length sp" if "p \<in> fst ` set iv" for p
  proof -
    have "p \<in> fst ` set (intervals w) \<or> p \<in> set ps"
      using that z by (auto simp: iv dest: set_zip_leftD intro: rev_image_eqI)
    with fresh show ?thesis
      by (auto simp: ps)
  qed
  then show "\<forall>p \<in> fst ` set iv. p < tm_next w + length sp"
    by blast
qed

lemma Time_onEffects_total:
  fixes w :: "'msg time_world"
  assumes inv: "time_inv st w"
  shows "\<exists>st' w'. Time_onEffects ss st w = Inr (st', w') \<and> time_inv st' w' \<and>
    (\<forall>i. Dict_get i (tm_taggers st') = (if taggers_for i ss = [] then None else Some (rev (taggers_for i ss)))) \<and>
    (\<forall>i p. Dict_get i (tm_processes st) = Some p \<and> taggers_for i ss \<noteq> [] \<longrightarrow> Dict_get i (tm_processes st') = Some p) \<and>
    tm_log w' = tm_log w \<and> date_now w' = date_now w"
proof -
  obtain nt where nt: "fold (\<lambda>s acc. bindE acc (Time_addMySub s)) ss (Inr Dict_empty) = Inr nt" "Dict_wf nt"
    "\<And>i. Dict_get i nt = (if taggers_for i ss = [] then None else Some (rev (taggers_for i ss)))"
    using addMySub_total [OF Dict_wf_empty, of ss] by (auto simp: dict.get_empty Maybe_withDefault_def)
  let ?new = "\<lambda>k. Dict_get k nt" and ?old = "\<lambda>k. Dict_get k (tm_processes st)"
  let ?K = "{k. ?new k \<noteq> None} \<union> {k. ?old k \<noteq> None}"
  have wf: "Dict_wf (tm_processes st)"
    using inv by (simp add: time_inv_def)
  have K: "set (sorted_list_of_set ?K) = ?K" "distinct (sorted_list_of_set ?K)"
    using dom_Dict_get [OF nt(2)] dom_Dict_get [OF wf] by simp_all
  obtain sp ex and kt :: "('msg, unit) time_task" where
    f: "Dict_merge time_leftStep time_bothStep time_rightStep nt (tm_processes st)
          (Inr ([], Dict_empty, Task_succeed ())) = Inr (sp, ex, kt)"
    and sp: "distinct sp" "set sp = {k \<in> ?K. ?new k \<noteq> None \<and> ?old k = None}"
    and ex: "Dict_wf ex" "\<And>k. Dict_get k ex = (if k \<in> ?K \<and> ?new k \<noteq> None then ?old k else None)"
    and kt: "\<And>w. kt w = Inr ((), clear_all (stopped ?new ?old ?K) w)"
    using collect_timers [OF K(2), of ?new ?old, where 'msg = 'msg] unfolding K(1) Dict_merge_eq [OF nt(2) wf] by blast
  have st: "stopped ?new ?old ?K = stopped ?new ?old UNIV"
    by (auto simp: stopped_def)
  define w1 where "w1 = clear_all (stopped ?new ?old UNIV) w"
  have w1: "tm_next w1 = tm_next w" "tm_log w1 = tm_log w" "date_now w1 = date_now w"
    "intervals w1 = filter (\<lambda>(p, _). p \<notin> stopped ?new ?old UNIV) (intervals w)"
    by (simp_all add: w1_def clear_all_def)
  obtain d where d: "Time_spawnHelp sp ex w1 =
      Inr (d, w1\<lparr>intervals := intervals w1 @ zip [tm_next w..<tm_next w + length sp] sp,
                 tm_next := tm_next w + length sp\<rparr>)" "Dict_wf d"
    "\<And>i. Dict_get i d = (case map_of (zip sp [tm_next w..<tm_next w + length sp]) i of
                            Some p \<Rightarrow> Some p | None \<Rightarrow> Dict_get i ex)"
    using spawnHelp_total [OF ex(1) sp(1), of w1] unfolding w1(1) by blast
  let ?st = "\<lparr>tm_taggers = nt, tm_processes = d\<rparr>"
  let ?w = "w1\<lparr>intervals := intervals w1 @ zip [tm_next w..<tm_next w + length sp] sp, tm_next := tm_next w + length sp\<rparr>"
  have sp': "set sp = {k. ?new k \<noteq> None \<and> ?old k = None}" and ex': "Dict_get k ex = (if ?new k \<noteq> None then ?old k else None)" for k
    using sp(2) ex(2) by auto
  note after = timers_after [where new = ?new, OF inv sp(1) sp' ex' refl d(3) refl]
  have "time_inv ?st ?w"
    using after nt(2) d(2) by (simp add: time_inv_def w1 del: not_None_eq)
  moreover have "kt w = Inr ((), w1)"
    by (simp only: kt st w1_def)
  then have "Time_onEffects ss st w = Inr (?st, ?w)"
    using d(1) by (simp add: Time_onEffects_def time_task_defs List_foldl_eq nt(1) f [unfolded Task_succeed_def])
  moreover have "Dict_get i d = Some p" if "?old i = Some p" "taggers_for i ss \<noteq> []" for i p
  proof -
    have "i \<notin> set sp"
      using that(1) by (simp add: sp')
    then have "map_of (zip sp [tm_next w..<tm_next w + length sp]) i = None"
      by (simp add: map_of_zip_is_None)
    then have "Dict_get i d = Dict_get i ex"
      by (simp only: d(3) option.simps)
    with that show ?thesis
      by (simp add: ex' nt(3))
  qed
  ultimately show ?thesis
    using nt(3) w1 by (intro exI [of _ ?st] exI [of _ ?w]) auto
qed


lemma sequence_toApp:
  "Task_sequence (map (\<lambda>t. time_toApp (f t)) ts) w =
   Inr (map (\<lambda>_. ()) ts, w\<lparr>tm_log := tm_log w @ map f ts\<rparr>)"
  by (induction ts arbitrary: w) (simp_all add: time_task_defs time_toApp_def)

lemma time_onSelfMsg_eq:
  "Time_onSelfMsg i st w =
   Inr (st, w\<lparr>tm_log := tm_log w @
     map (\<lambda>t. t (date_now w)) (Maybe_withDefault [] (Dict_get i (tm_taggers st)))\<rparr>)"
  by (simp add: Time_onSelfMsg_def tellTaggers_def sequence_toApp Task_andThen_def Task_succeed_def
      Time_now_def Maybe_withDefault_def List_map_eq split: option.split)

inductive time_reachable :: "'msg time_state \<Rightarrow> 'msg time_world \<Rightarrow> bool" where
  start: "intervals w = [] \<Longrightarrow> Time_init w = Inr (st, w') \<Longrightarrow> time_reachable st w'"
| effects: "time_reachable st w \<Longrightarrow> Time_onEffects ss st w = Inr (st', w') \<Longrightarrow> time_reachable st' w'"
| tick: "time_reachable st w \<Longrightarrow> timer_fires elapsed pid i st w = Inr (st', w') \<Longrightarrow> time_reachable st' w'"

lemma time_inv_simps [simp]:
  "time_inv st (w\<lparr>date_now := t\<rparr>) = time_inv st w" "time_inv st (w\<lparr>tm_log := l\<rparr>) = time_inv st w"
  by (simp_all add: time_inv_def)

lemma time_reachable_inv: "time_reachable st w \<Longrightarrow> time_inv st w"
proof (induction rule: time_reachable.induct)
  case (start w st w')
  then show ?case
    by (auto simp: Time_init_def Task_succeed_def time_inv_def Dict_wf_empty dict.get_empty)
next
  case (effects st w ss st' w')
  then show ?case
    using Time_onEffects_total [of st w ss] by auto
next
  case (tick st w elapsed pid i st' w')
  then show ?case
    by (auto simp: timer_fires_def Let_def time_onSelfMsg_eq split: if_splits)
qed

text \<open>
  Handling subscriptions never throws, whatever happened before. Afterwards the manager knows the
  callbacks of every interval, the newest first, and the timers that are still needed were not
  restarted.
\<close>

theorem Time_onEffects_behaviour:
  assumes "time_reachable st w"
  shows "\<exists>st' w'. Time_onEffects ss st w = Inr (st', w') \<and>
    (\<forall>i. Dict_get i (tm_taggers st') = (if taggers_for i ss = [] then None else Some (rev (taggers_for i ss)))) \<and>
    (\<forall>i p. (p, i) \<in> set (intervals w) \<and> taggers_for i ss \<noteq> [] \<longrightarrow> (p, i) \<in> set (intervals w'))"
proof -
  have inv: "time_inv st w"
    using assms by (rule time_reachable_inv)
  obtain st' w' where e: "Time_onEffects ss st w = Inr (st', w')" "time_inv st' w'"
    "\<forall>i. Dict_get i (tm_taggers st') = (if taggers_for i ss = [] then None else Some (rev (taggers_for i ss)))"
    "\<forall>i p. Dict_get i (tm_processes st) = Some p \<and> taggers_for i ss \<noteq> [] \<longrightarrow> Dict_get i (tm_processes st') = Some p"
    using Time_onEffects_total [OF inv, of ss] by blast
  have "((p, i) \<in> set (intervals w)) = (Dict_get i (tm_processes st) = Some p)"
    "((p, i) \<in> set (intervals w')) = (Dict_get i (tm_processes st') = Some p)" for p i
    using inv e(2) by (simp_all add: time_inv_def)
  with e show ?thesis
    by (intro exI [of _ st'] exI [of _ w']) simp
qed

definition clock :: "int time_world" where
  "clock = \<lparr>date_now = 0, intervals = [], tm_next = 0, tm_log = []\<rparr>"

definition time_idle :: "int time_state" where
  "time_idle = \<lparr>tm_taggers = Dict_empty, tm_processes = Dict_empty\<rparr>"

lemma idle_reachable: "time_reachable time_idle clock"
  by (rule time_reachable.start [of clock]) (simp_all add: clock_def time_idle_def Time_init_def Task_succeed_def)

theorem Time_onEffects_behaviour_witness:
  "\<exists>st' w'. Time_onEffects [Every 1000 (\<lambda>t. t)] time_idle clock = Inr (st', w') \<and>
    (\<forall>i. Dict_get i (tm_taggers st') =
      (if taggers_for i [Every 1000 (\<lambda>t::int. t)] = [] then None else Some (rev (taggers_for i [Every 1000 (\<lambda>t. t)])))) \<and>
    (\<forall>i p. (p, i) \<in> set (intervals clock) \<and> taggers_for i [Every 1000 (\<lambda>t::int. t)] \<noteq> [] \<longrightarrow> (p, i) \<in> set (intervals w'))"
  by (rule Time_onEffects_behaviour [OF idle_reachable])

text \<open>
  After subscriptions have been handled, exactly the subscribed intervals have a timer, one each, and
  when it goes off, every subscriber of its interval gets the current time and nothing else happens. This is claim C36.
\<close>

theorem Time_every_ticks:
  assumes "time_reachable st w" and "Time_onEffects ss st w = Inr (st', w')"
  shows "(\<exists>!pid. (pid, i) \<in> set (intervals w')) = (taggers_for i ss \<noteq> []) \<and>
    ((pid, i) \<in> set (intervals w') \<longrightarrow>
      timer_fires elapsed pid i st' w' =
        Inr (st', w'\<lparr>date_now := date_now w' + elapsed,
          tm_log := tm_log w' @ map (\<lambda>t. t (date_now w' + elapsed)) (rev (taggers_for i ss))\<rparr>))"
proof -
  have inv': "time_inv st' w'" and t: "Dict_get i (tm_taggers st') = (if taggers_for i ss = [] then None else Some (rev (taggers_for i ss)))"
    using Time_onEffects_total [OF time_reachable_inv [OF assms(1)], of ss] assms(2) by auto
  have iv: "((p, i) \<in> set (intervals w')) = (Dict_get i (tm_processes st') = Some p)" for p
    using inv' by (simp add: time_inv_def)
  have "(Dict_get i (tm_taggers st') = None) = (Dict_get i (tm_processes st') = None)"
    using inv' by (simp add: time_inv_def)
  then have "(\<exists>!pid. (pid, i) \<in> set (intervals w')) = (taggers_for i ss \<noteq> [])"
    using t by (cases "Dict_get i (tm_processes st')") (auto simp: iv split: if_splits)
  moreover have "timer_fires elapsed pid i st' w' =
        Inr (st', w'\<lparr>date_now := date_now w' + elapsed,
          tm_log := tm_log w' @ map (\<lambda>t. t (date_now w' + elapsed)) (rev (taggers_for i ss))\<rparr>)"
    if "(pid, i) \<in> set (intervals w')"
    using that t by (auto simp: timer_fires_def time_onSelfMsg_eq Maybe_withDefault_def)
  ultimately show ?thesis
    by blast
qed

theorem Time_every_ticks_witness:
  "\<exists>st' w'. Time_onEffects [Every 1000 (\<lambda>t. t)] time_idle clock = Inr (st', w') \<and>
    (\<exists>!pid. (pid, 1000) \<in> set (intervals w')) = (taggers_for 1000 [Every 1000 (\<lambda>t::int. t)] \<noteq> [])"
proof -
  obtain st' w' where e: "Time_onEffects [Every 1000 (\<lambda>t. t)] time_idle clock = Inr (st', w')"
    using Time_onEffects_total [OF time_reachable_inv [OF idle_reachable]] by blast
  with Time_every_ticks [OF idle_reachable e, of 1000] show ?thesis
    by blast
qed

end
