(* ===== verification/Elm_WebSocket.thy ===== *)
theory Elm_WebSocket
  imports Elm_Dict_Correct Elm_Utils Elm_Socket Elm_Task
begin

text \<open>
  The WebSocket effect manager (compiled module \<^verbatim>\<open>WebSocket\<close> of \<^verbatim>\<open>dist/Main.js\<close>), through which the
  program listens to the server. The manager's handlers return tasks; a task is modelled by what
  running it does to a world that counts the processes spawned so far and logs the effects in the
  order they happen. \<^verbatim>\<open>Native.WebSocket\<close> (\<^verbatim>\<open>send\<close>, \<^verbatim>\<open>close\<close>), \<^verbatim>\<open>Process.kill\<close> and
  \<^verbatim>\<open>Platform.sendToApp\<close> appear as logged effects; \<^verbatim>\<open>attemptOpen\<close> logs the process it spawns with
  the delay and the URL of its attempt. A dictionary operation that crashes is an error of the task.
\<close>

subsection \<open>Effects\<close>

datatype 'msg effect =
    KillProcess nat
  | CloseSocket nat
  | SpawnOpen nat int string
  | SendSocket nat string
  | ToApp 'msg

record 'msg world =
  next_pid :: nat
  log :: "'msg effect list"

type_synonym ('msg, 'a) ws_task = "('msg world, 'a) task"

text \<open>A logged effect.\<close>

definition emit :: "'msg effect \<Rightarrow> ('msg, unit) ws_task" where
  "emit e = (\<lambda>w. Inr ((), w\<lparr>log := log w @ [e]\<rparr>))"

subsection \<open>State\<close>

datatype connection =
    Opening int nat
  | Connected nat

record 'msg ws_state =
  sockets :: "(string, connection) dict"
  queues :: "(string, string list) dict"
  subs :: "(string, (string \<Rightarrow> 'msg) list) dict"

datatype ws_cmd = Send string string

datatype 'msg ws_sub =
    Listen string "string \<Rightarrow> 'msg"
  | KeepAlive string

datatype ws_selfmsg =
    Receive string string
  | Die string
  | GoodOpen string nat
  | BadOpen string

definition WebSocket_init :: "('msg, 'msg ws_state) ws_task" where
  "WebSocket_init = Task_succeed \<lparr>sockets = Dict_empty, queues = Dict_empty, subs = Dict_empty\<rparr>"

fun WebSocket_cmdMap :: "('a \<Rightarrow> 'b) \<Rightarrow> ws_cmd \<Rightarrow> ws_cmd" where
  "WebSocket_cmdMap _ (Send url message) = Send url message"

fun WebSocket_subMap :: "('a \<Rightarrow> 'b) \<Rightarrow> 'a ws_sub \<Rightarrow> 'b ws_sub" where
  "WebSocket_subMap func (Listen url tagger) = Listen url (\<lambda>x. func (tagger x))"
| "WebSocket_subMap func (KeepAlive url) = KeepAlive url"

subsection \<open>Connections\<close>

definition WebSocket_closeConnection :: "connection \<Rightarrow> ('msg, unit) ws_task" where
  "WebSocket_closeConnection connection =
     (case connection of
        Opening _ pid \<Rightarrow> emit (KillProcess pid)
      | Connected socket \<Rightarrow> emit (CloseSocket socket))"

text \<open>The delay in milliseconds before an attempt; 0 when there is none.\<close>

definition WebSocket_after :: "int \<Rightarrow> int" where
  "WebSocket_after backoff = (if cmp backoff 1 < 0 then 0 else 10 * 2 ^ nat backoff)"

definition WebSocket_attemptOpen :: "int \<Rightarrow> string \<Rightarrow> ('msg, nat) ws_task" where
  "WebSocket_attemptOpen backoff name =
     (\<lambda>w. Inr (next_pid w,
        w\<lparr>next_pid := Suc (next_pid w),
          log := log w @ [SpawnOpen (next_pid w) (WebSocket_after backoff) name]\<rparr>))"

text \<open>
  What the process spawned by \<^verbatim>\<open>attemptOpen\<close> and the listeners it registers tell the manager: the
  messages to the manager itself, in the order of the browser's events for the socket. A URL the
  browser rejects gives \<^verbatim>\<open>BadOpen\<close>; a connection the server refuses or drops ends with a close event
  and gives \<^verbatim>\<open>Die\<close>.
\<close>

definition WebSocket_open ::
  "(string \<Rightarrow> js_exception + nat) \<Rightarrow> string \<Rightarrow>
   bad_open + nat \<times> (socket_event \<Rightarrow> ws_selfmsg socket_action)" where
  "WebSocket_open newSocket name =
     NWebSocket_open newSocket name
       \<lparr>onMessage = \<lambda>_ msg. Receive name msg, onClose = \<lambda>details. Die name\<rparr>"

definition WebSocket_actuallyAttemptOpen ::
  "(string \<Rightarrow> js_exception + nat) \<Rightarrow> string \<Rightarrow> socket_event list \<Rightarrow> ws_selfmsg list" where
  "WebSocket_actuallyAttemptOpen newSocket name events =
     (case WebSocket_open newSocket name of
        Inl _ \<Rightarrow> [BadOpen name]
      | Inr (_, listener) \<Rightarrow>
          map (\<lambda>event. case listener event of Resume ws \<Rightarrow> GoodOpen name ws | RawSpawn m \<Rightarrow> m) events)"

definition WebSocket_removeQueue :: "string \<Rightarrow> 'msg ws_state \<Rightarrow> 'msg ws_state result" where
  "WebSocket_removeQueue name state =
     bindE (Dict_remove name (queues state)) (\<lambda>q. Inr (state\<lparr>queues := q\<rparr>))"

definition WebSocket_updateSocket ::
  "string \<Rightarrow> connection \<Rightarrow> 'msg ws_state \<Rightarrow> 'msg ws_state result" where
  "WebSocket_updateSocket name connection state =
     bindE (Dict_insert name connection (sockets state)) (\<lambda>s. Inr (state\<lparr>sockets := s\<rparr>))"

definition WebSocket_add :: "'a \<Rightarrow> 'a list option \<Rightarrow> 'a list option" where
  "WebSocket_add v maybeList =
     (case maybeList of None \<Rightarrow> Some [v] | Some list \<Rightarrow> Some (v # list))"

fun WebSocket_buildSubDict ::
  "'msg ws_sub list \<Rightarrow> (string, (string \<Rightarrow> 'msg) list) dict \<Rightarrow>
   (string, (string \<Rightarrow> 'msg) list) dict result" where
  "WebSocket_buildSubDict [] dict = Inr dict"
| "WebSocket_buildSubDict (Listen name tagger # rest) dict =
     bindE (Dict_update name (WebSocket_add tagger) dict) (WebSocket_buildSubDict rest)"
| "WebSocket_buildSubDict (KeepAlive name # rest) dict =
     bindE (Dict_update name (\<lambda>m. Some (Maybe_withDefault [] m)) dict) (WebSocket_buildSubDict rest)"

subsection \<open>Handlers\<close>

fun WebSocket_sendMessagesHelp ::
  "ws_cmd list \<Rightarrow> (string, connection) dict \<Rightarrow> (string, string list) dict \<Rightarrow>
   ('msg, (string, string list) dict) ws_task" where
  "WebSocket_sendMessagesHelp [] socketsDict queuesDict = Task_succeed queuesDict"
| "WebSocket_sendMessagesHelp (Send name msg # rest) socketsDict queuesDict =
     (case Dict_get name socketsDict of
        Some (Connected socket) \<Rightarrow>
          Task_then (emit (SendSocket socket msg))
            (WebSocket_sendMessagesHelp rest socketsDict queuesDict)
      | _ \<Rightarrow>
          Task_andThen (WebSocket_sendMessagesHelp rest socketsDict)
            (lift (Dict_update name (WebSocket_add msg) queuesDict)))"

definition ws_leftStep ::
  "string \<Rightarrow> 'a \<Rightarrow> ('msg, (string, connection) dict) ws_task \<Rightarrow> ('msg, (string, connection) dict) ws_task"
where
  "ws_leftStep name _ getNewSockets =
     Task_andThen (\<lambda>newSockets.
       Task_andThen (\<lambda>pid. lift (Dict_insert name (Opening 0 pid) newSockets))
         (WebSocket_attemptOpen 0 name)) getNewSockets"

definition ws_bothStep ::
  "string \<Rightarrow> 'a \<Rightarrow> connection \<Rightarrow> ('msg, (string, connection) dict) ws_task \<Rightarrow>
   ('msg, (string, connection) dict) ws_task"
where
  "ws_bothStep name _ connection getNewSockets =
     Task_andThen (\<lambda>newSockets. lift (Dict_insert name connection newSockets)) getNewSockets"

definition ws_rightStep ::
  "string \<Rightarrow> connection \<Rightarrow> ('msg, (string, connection) dict) ws_task \<Rightarrow>
   ('msg, (string, connection) dict) ws_task"
where
  "ws_rightStep name connection getNewSockets =
     Task_then (WebSocket_closeConnection connection) getNewSockets"

definition ws_cleanup ::
  "(string, connection) dict \<Rightarrow> (string, (string \<Rightarrow> 'msg) list) dict \<Rightarrow> (string, string list) dict \<Rightarrow>
   ('msg, 'msg ws_state) ws_task"
where
  "ws_cleanup oldSockets newSubs newQueues =
     Task_andThen (\<lambda>newEntries.
       Task_map (\<lambda>newSockets. \<lparr>sockets = newSockets, queues = newQueues, subs = newSubs\<rparr>)
         (Dict_merge ws_leftStep ws_bothStep ws_rightStep newEntries oldSockets
            (Task_succeed Dict_empty)))
       (lift (Dict_union newQueues (Dict_map (\<lambda>k v. []) newSubs)))"

definition WebSocket_onEffects ::
  "ws_cmd list \<Rightarrow> 'msg ws_sub list \<Rightarrow> 'msg ws_state \<Rightarrow> ('msg, 'msg ws_state) ws_task" where
  "WebSocket_onEffects cmds newSubscriptions state =
     Task_andThen (\<lambda>newSubs.
       Task_andThen (ws_cleanup (sockets state) newSubs)
         (WebSocket_sendMessagesHelp cmds (sockets state) (queues state)))
       (lift (WebSocket_buildSubDict newSubscriptions Dict_empty))"

definition WebSocket_onSelfMsg :: "ws_selfmsg \<Rightarrow> 'msg ws_state \<Rightarrow> ('msg, 'msg ws_state) ws_task" where
  "WebSocket_onSelfMsg selfMsg state =
     (case selfMsg of
        Receive name str \<Rightarrow>
          Task_then
            (Task_sequence (List_map (\<lambda>tagger. emit (ToApp (tagger str)))
               (Maybe_withDefault [] (Dict_get name (subs state)))))
            (Task_succeed state)
      | Die name \<Rightarrow>
          (case Dict_get name (sockets state) of
             None \<Rightarrow> Task_succeed state
           | Some _ \<Rightarrow>
               Task_andThen (\<lambda>pid. lift (WebSocket_updateSocket name (Opening 0 pid) state))
                 (WebSocket_attemptOpen 0 name))
      | GoodOpen name socket \<Rightarrow>
          (case Dict_get name (queues state) of
             None \<Rightarrow> lift (WebSocket_updateSocket name (Connected socket) state)
           | Some messages \<Rightarrow>
               List_foldl (\<lambda>msg task. Task_then (emit (SendSocket socket msg)) task)
                 (lift (bindE (WebSocket_updateSocket name (Connected socket) state)
                          (WebSocket_removeQueue name)))
                 messages)
      | BadOpen name \<Rightarrow>
          (case Dict_get name (sockets state) of
             None \<Rightarrow> Task_succeed state
           | Some (Opening backoff _) \<Rightarrow>
               Task_andThen
                 (\<lambda>pid. lift (WebSocket_updateSocket name (Opening (backoff + 1) pid) state))
                 (WebSocket_attemptOpen (backoff + 1) name)
           | Some (Connected _) \<Rightarrow> Task_succeed state))"

subsection \<open>Correctness\<close>

lemmas attempt_defs = WebSocket_actuallyAttemptOpen_def WebSocket_open_def NWebSocket_open_def

lemmas task_defs = Task_succeed_def Task_andThen_def Task_then_def Task_map_def Task_map2_def
  lift_def emit_def

definition ws_wf :: "'msg ws_state \<Rightarrow> bool" where
  "ws_wf st \<longleftrightarrow> Dict_wf (sockets st) \<and> Dict_wf (queues st) \<and> Dict_wf (subs st)"

lemma updateSocket_total:
  "ws_wf st \<Longrightarrow> \<exists>s. WebSocket_updateSocket name c st = Inr (st\<lparr>sockets := s\<rparr>) \<and> Dict_wf s \<and>
     (\<forall>j. Dict_get j s = (if j = name then Some c else Dict_get j (sockets st)))"
  using Dict_insert_total [of "sockets st" name c] by (auto simp: ws_wf_def WebSocket_updateSocket_def)

lemma removeQueue_total:
  "ws_wf st \<Longrightarrow> \<exists>q. WebSocket_removeQueue name st = Inr (st\<lparr>queues := q\<rparr>) \<and> Dict_wf q \<and>
     (\<forall>j. Dict_get j q = (if j = name then None else Dict_get j (queues st)))"
  using Dict_remove_total [of "queues st" name] by (auto simp: ws_wf_def WebSocket_removeQueue_def)

text \<open>The URLs a list of subscriptions needs, and the callbacks it registers for one of them.\<close>

fun sub_name :: "'msg ws_sub \<Rightarrow> string" where
  "sub_name (Listen name _) = name"
| "sub_name (KeepAlive name) = name"

fun taggers :: "string \<Rightarrow> 'msg ws_sub list \<Rightarrow> (string \<Rightarrow> 'msg) list" where
  "taggers name [] = []"
| "taggers name (Listen name' tagger # rest) =
     taggers name rest @ (if name' = name then [tagger] else [])"
| "taggers name (KeepAlive _ # rest) = taggers name rest"

lemma buildSubDict_total:
  "Dict_wf d \<Longrightarrow> \<exists>d'. WebSocket_buildSubDict ss d = Inr d' \<and> Dict_wf d' \<and>
     (\<forall>j. Dict_get j d' =
        (if j \<in> sub_name ` set ss
         then Some (taggers j ss @ Maybe_withDefault [] (Dict_get j d)) else Dict_get j d))"
proof (induction ss arbitrary: d)
  case (Cons x ss)
  show ?case
  proof (cases x)
    case (Listen name tagger)
    obtain d1 where d1: "Dict_update name (WebSocket_add tagger) d = Inr d1" "Dict_wf d1"
      "\<And>j. Dict_get j d1 = (if j = name then WebSocket_add tagger (Dict_get name d) else Dict_get j d)"
      using dict.update_total [OF Cons.prems] by blast
    obtain d' where d': "WebSocket_buildSubDict ss d1 = Inr d'" "Dict_wf d'"
      "\<And>j. Dict_get j d' = (if j \<in> sub_name ` set ss
        then Some (taggers j ss @ Maybe_withDefault [] (Dict_get j d1)) else Dict_get j d1)"
      using Cons.IH [OF d1(2)] by blast
    have "taggers name ss = []" if "name \<notin> sub_name ` set ss"
      using that by (induction name ss rule: taggers.induct) auto
    with d1 d' Listen show ?thesis
      by (auto simp: WebSocket_add_def Maybe_withDefault_def split: option.splits)
  next
    case (KeepAlive name)
    obtain d1 where d1: "Dict_update name (\<lambda>m. Some (Maybe_withDefault [] m)) d = Inr d1" "Dict_wf d1"
      "\<And>j. Dict_get j d1 = (if j = name then Some (Maybe_withDefault [] (Dict_get name d)) else Dict_get j d)"
      using dict.update_total [OF Cons.prems] by blast
    obtain d' where d': "WebSocket_buildSubDict ss d1 = Inr d'" "Dict_wf d'"
      "\<And>j. Dict_get j d' = (if j \<in> sub_name ` set ss
        then Some (taggers j ss @ Maybe_withDefault [] (Dict_get j d1)) else Dict_get j d1)"
      using Cons.IH [OF d1(2)] by blast
    have "taggers name ss = []" if "name \<notin> sub_name ` set ss"
      using that by (induction name ss rule: taggers.induct) auto
    with d1 d' KeepAlive show ?thesis
      by (auto simp: Maybe_withDefault_def)
  qed
qed auto

subsubsection \<open>Sending\<close>

fun messages_for :: "string \<Rightarrow> ws_cmd list \<Rightarrow> string list" where
  "messages_for name [] = []"
| "messages_for name (Send name' msg # rest) =
     (if name' = name then msg # messages_for name rest else messages_for name rest)"

fun sent_now :: "(string, connection) dict \<Rightarrow> ws_cmd list \<Rightarrow> 'msg effect list" where
  "sent_now socks [] = []"
| "sent_now socks (Send name msg # rest) =
     (case Dict_get name socks of
        Some (Connected socket) \<Rightarrow> SendSocket socket msg # sent_now socks rest
      | _ \<Rightarrow> sent_now socks rest)"

definition is_connected :: "(string, connection) dict \<Rightarrow> string \<Rightarrow> bool" where
  "is_connected socks name \<longleftrightarrow> (\<exists>socket. Dict_get name socks = Some (Connected socket))"

text \<open>A queue holds the messages not yet sent, the newest first.\<close>

definition queue_after :: "(string, connection) dict \<Rightarrow> ws_cmd list \<Rightarrow> string \<Rightarrow> string list option \<Rightarrow> string list option" where
  "queue_after socks cmds name q =
     (if is_connected socks name \<or> messages_for name cmds = [] then q
      else Some (rev (messages_for name cmds) @ Maybe_withDefault [] q))"

lemma queue_after_Cons:
  assumes "\<not> is_connected socks name"
  shows "queue_after socks rest name (WebSocket_add msg q) = queue_after socks (Send name msg # rest) name q"
  using assms by (auto simp: queue_after_def WebSocket_add_def Maybe_withDefault_def split: option.split)

lemma sendMessagesHelp_total:
  fixes w :: "'msg world"
  shows "Dict_wf q \<Longrightarrow> \<exists>q'. WebSocket_sendMessagesHelp cmds socks q w =
      Inr (q', w\<lparr>log := log w @ sent_now socks cmds\<rparr>) \<and> Dict_wf q' \<and>
      (\<forall>j. Dict_get j q' = queue_after socks cmds j (Dict_get j q))"
proof (induction cmds arbitrary: q w)
  case Nil
  then show ?case by (auto simp: task_defs queue_after_def)
next
  case (Cons x cmds)
  obtain name msg where x: "x = Send name msg" by (cases x)
  show ?case
  proof (cases "is_connected socks name")
    case True
    then obtain socket where sock: "Dict_get name socks = Some (Connected socket)"
      by (auto simp: is_connected_def)
    let ?w = "w\<lparr>log := log w @ [SendSocket socket msg]\<rparr>"
    obtain q' where "WebSocket_sendMessagesHelp cmds socks q ?w =
        Inr (q', ?w\<lparr>log := log ?w @ sent_now socks cmds\<rparr>)" "Dict_wf q'"
      "\<forall>j. Dict_get j q' = queue_after socks cmds j (Dict_get j q)"
      using Cons.IH [OF Cons.prems] by blast
    moreover have "queue_after socks (x # cmds) j (Dict_get j q) = queue_after socks cmds j (Dict_get j q)" for j
      using True by (auto simp: x queue_after_def)
    ultimately show ?thesis using sock by (auto simp: x task_defs)
  next
    case False
    obtain q1 where q1: "Dict_update name (WebSocket_add msg) q = Inr q1" "Dict_wf q1"
      "\<And>j. Dict_get j q1 = (if j = name then WebSocket_add msg (Dict_get name q) else Dict_get j q)"
      using dict.update_total [OF Cons.prems] by blast
    obtain q' where q': "WebSocket_sendMessagesHelp cmds socks q1 w =
        Inr (q', w\<lparr>log := log w @ sent_now socks cmds\<rparr>)" "Dict_wf q'"
      "\<And>j. Dict_get j q' = queue_after socks cmds j (Dict_get j q1)"
      using Cons.IH [OF q1(2)] by blast
    have "Dict_get j q' = queue_after socks (x # cmds) j (Dict_get j q)" for j
      using queue_after_Cons [OF False, of cmds msg "Dict_get name q"]
      by (auto simp: x q'(3) q1(3) queue_after_def)
    moreover have "WebSocket_sendMessagesHelp (x # cmds) socks q w =
        WebSocket_sendMessagesHelp cmds socks q1 w"
      "sent_now socks (x # cmds) = (sent_now socks cmds :: 'msg effect list)"
      using False q1(1) by (auto simp: x is_connected_def task_defs split: option.splits connection.splits)
    ultimately show ?thesis using q'(1,2) by auto
  qed
qed

subsubsection \<open>Opening and closing\<close>

definition close_effect :: "connection \<Rightarrow> 'msg effect" where
  "close_effect c = (case c of Opening _ pid \<Rightarrow> KillProcess pid | Connected socket \<Rightarrow> CloseSocket socket)"

lemma closeConnection_eq: "WebSocket_closeConnection c = emit (close_effect c)"
  by (simp add: WebSocket_closeConnection_def close_effect_def split: connection.split)

text \<open>
  What becomes of the connection to one URL: a needed one is kept as it is or opened, any other is
  closed.
\<close>

definition settled ::
  "(string \<Rightarrow> bool) \<Rightarrow> (string \<Rightarrow> connection option) \<Rightarrow> (string, connection) dict \<Rightarrow> 'msg effect list \<Rightarrow>
   string \<Rightarrow> bool" where
  "settled needed old d effects name \<longleftrightarrow>
     (case old name of
        Some c \<Rightarrow>
          if needed name then Dict_get name d = Some c
          else Dict_get name d = None \<and> close_effect c \<in> set effects
      | None \<Rightarrow>
          if needed name
          then \<exists>pid. Dict_get name d = Some (Opening 0 pid) \<and> SpawnOpen pid 0 name \<in> set effects
          else Dict_get name d = None)"

lemma settled_mono:
  "settled needed old d es name \<Longrightarrow> set es \<subseteq> set es' \<Longrightarrow> Dict_get name d' = Dict_get name d \<Longrightarrow>
   settled needed old d' es' name"
  by (auto simp: settled_def split: option.splits if_splits)

abbreviation (input) ws_visit ::
  "(string \<rightharpoonup> 'a) \<Rightarrow> (string \<rightharpoonup> connection) \<Rightarrow> string \<Rightarrow>
   ('msg, (string, connection) dict) ws_task \<Rightarrow> ('msg, (string, connection) dict) ws_task" where
  "ws_visit \<equiv> merge_visit ws_leftStep ws_bothStep ws_rightStep"

lemma collect_total:
  fixes w :: "'msg world"
  assumes "distinct ks"
  shows "\<exists>d w'. fold (ws_visit new old) ks (Task_succeed Dict_empty) w = Inr (d, w') \<and> Dict_wf d \<and>
    set (log w) \<subseteq> set (log w') \<and>
    (\<forall>name \<in> set ks. settled (\<lambda>n. new n \<noteq> None) old d (log w') name) \<and>
    (\<forall>name. name \<notin> set ks \<longrightarrow> Dict_get name d = None)"
  using assms
proof (induction ks arbitrary: w rule: rev_induct)
  case Nil
  then show ?case by (auto simp: task_defs Dict_wf_empty dict.get_empty)
next
  case (snoc k ks)
  let ?T = "fold (ws_visit new old) ks (Task_succeed Dict_empty) :: ('msg, _) ws_task"
  have IH: "\<exists>d w'. ?T w = Inr (d, w') \<and> Dict_wf d \<and> set (log w) \<subseteq> set (log w') \<and>
      (\<forall>name \<in> set ks. settled (\<lambda>n. new n \<noteq> None) old d (log w') name) \<and>
      (\<forall>name. name \<notin> set ks \<longrightarrow> Dict_get name d = None)" for w
    using snoc by auto
  have k: "k \<notin> set ks" using snoc.prems by simp
  consider a where "new k = Some a" "old k = None" | a c where "new k = Some a" "old k = Some c"
    | c where "new k = None" "old k = Some c" | "new k = None" "old k = None"
    by (cases "new k"; cases "old k") auto
  then show ?case
  proof cases
    case 1
    obtain d w1 where d: "?T w = Inr (d, w1)" "Dict_wf d" "set (log w) \<subseteq> set (log w1)"
      "\<forall>name \<in> set ks. settled (\<lambda>n. new n \<noteq> None) old d (log w1) name"
      "\<forall>name. name \<notin> set ks \<longrightarrow> Dict_get name d = None" using IH by blast
    obtain d' where d': "Dict_insert k (Opening 0 (next_pid w1)) d = Inr d'" "Dict_wf d'"
      "\<And>j. Dict_get j d' = (if j = k then Some (Opening 0 (next_pid w1)) else Dict_get j d)"
      using Dict_insert_total [OF d(2)] by blast
    let ?w = "w1\<lparr>next_pid := Suc (next_pid w1), log := log w1 @ [SpawnOpen (next_pid w1) 0 k]\<rparr>"
    have "settled (\<lambda>n. new n \<noteq> None) old d' (log ?w) name" if "name \<in> set ks" for name
      using that k d'(3) by (intro settled_mono [OF d(4) [rule_format, OF that]]) auto
    moreover have "settled (\<lambda>n. new n \<noteq> None) old d' (log ?w) k"
      using 1 d'(3) by (simp add: settled_def)
    ultimately have "\<forall>name \<in> set (ks @ [k]). settled (\<lambda>n. new n \<noteq> None) old d' (log ?w) name"
      by auto
    moreover have "fold (ws_visit new old) (ks @ [k]) (Task_succeed Dict_empty) w = Inr (d', ?w)"
      using d(1) d'(1)
      by (simp add: merge_visit_simps(1) [of new k a old, OF 1] ws_leftStep_def Task_andThen_def
          lift_def WebSocket_attemptOpen_def WebSocket_after_def)
    moreover have "\<forall>name. name \<notin> set (ks @ [k]) \<longrightarrow> Dict_get name d' = None" using d(5) d'(3) by auto
    moreover have "set (log w) \<subseteq> set (log ?w)" using d(3) by auto
    ultimately show ?thesis using d'(2) by blast
  next
    case 2
    obtain d w1 where d: "?T w = Inr (d, w1)" "Dict_wf d" "set (log w) \<subseteq> set (log w1)"
      "\<forall>name \<in> set ks. settled (\<lambda>n. new n \<noteq> None) old d (log w1) name"
      "\<forall>name. name \<notin> set ks \<longrightarrow> Dict_get name d = None" using IH by blast
    obtain d' where d': "Dict_insert k c d = Inr d'" "Dict_wf d'"
      "\<And>j. Dict_get j d' = (if j = k then Some c else Dict_get j d)"
      using Dict_insert_total [OF d(2)] by blast
    have "settled (\<lambda>n. new n \<noteq> None) old d' (log w1) name" if "name \<in> set ks" for name
      using that k d'(3) by (intro settled_mono [OF d(4) [rule_format, OF that]]) auto
    moreover have "settled (\<lambda>n. new n \<noteq> None) old d' (log w1) k"
      using 2 d'(3) by (simp add: settled_def)
    ultimately have "\<forall>name \<in> set (ks @ [k]). settled (\<lambda>n. new n \<noteq> None) old d' (log w1) name"
      by auto
    moreover have "fold (ws_visit new old) (ks @ [k]) (Task_succeed Dict_empty) w = Inr (d', w1)"
      using d(1) d'(1)
      by (simp add: merge_visit_simps(2) [of new k a old, OF 2] ws_bothStep_def Task_andThen_def lift_def)
    moreover have "\<forall>name. name \<notin> set (ks @ [k]) \<longrightarrow> Dict_get name d' = None" using d(5) d'(3) by auto
    ultimately show ?thesis using d(3) d'(2) by blast
  next
    case 3
    let ?w = "w\<lparr>log := log w @ [close_effect c]\<rparr>"
    obtain d w1 where d: "?T ?w = Inr (d, w1)" "Dict_wf d" "set (log ?w) \<subseteq> set (log w1)"
      "\<forall>name \<in> set ks. settled (\<lambda>n. new n \<noteq> None) old d (log w1) name"
      "\<forall>name. name \<notin> set ks \<longrightarrow> Dict_get name d = None" using IH by blast
    have "fold (ws_visit new old) (ks @ [k]) (Task_succeed Dict_empty) w = Inr (d, w1)"
      using d(1) by (simp add: merge_visit_simps(3) [of new k old, OF 3] ws_rightStep_def Task_then_def
          Task_andThen_def closeConnection_eq emit_def)
    moreover have "settled (\<lambda>n. new n \<noteq> None) old d (log w1) k"
      using 3 k d(3,5) by (auto simp: settled_def)
    ultimately show ?thesis using d by auto
  next
    case 4
    obtain d w1 where d: "?T w = Inr (d, w1)" "Dict_wf d" "set (log w) \<subseteq> set (log w1)"
      "\<forall>name \<in> set ks. settled (\<lambda>n. new n \<noteq> None) old d (log w1) name"
      "\<forall>name. name \<notin> set ks \<longrightarrow> Dict_get name d = None" using IH by blast
    have "fold (ws_visit new old) (ks @ [k]) (Task_succeed Dict_empty) w = Inr (d, w1)"
      using d(1) by (simp add: merge_visit_neither [of new k old, OF 4])
    moreover have "settled (\<lambda>n. new n \<noteq> None) old d (log w1) k"
      using 4 k d(5) by (simp add: settled_def)
    ultimately show ?thesis using d by auto
  qed
qed

lemma Dict_map_get: "Dict_get k (Dict_map f d) = map_option (f k) (Dict_get k d)"
  by (induction f d rule: Dict_map.induct) (auto split: order.split)

lemma Dict_map_inorder: "inorder (Dict_map f d) = map (\<lambda>(k, v). (k, f k v)) (inorder d)"
  by (induction f d rule: Dict_map.induct) auto

lemma Dict_map_colour [simp]: "hasCol c (Dict_map f d) = hasCol c d"
  by (cases d) (auto simp: hasCol_def)

lemma Dict_map_shape:
  "proper d \<Longrightarrow> proper (Dict_map f d) \<and> bh (Dict_map f d) = bh d \<and> invh (Dict_map f d) = invh d"
  by (induction f d rule: Dict_map.induct) auto

lemma Dict_map_wf: "Dict_wf d \<Longrightarrow> Dict_wf (Dict_map f d)"
  using Dict_map_shape [of d f]
  by (auto simp: Dict_wf_def rb_tree_def Dict_map_inorder comp_def case_prod_unfold)

lemma Dict_union_total:
  assumes "Dict_wf d1" "Dict_wf d2"
  shows "\<exists>d. Dict_union d1 d2 = Inr d \<and> Dict_wf d \<and>
    (\<forall>j. Dict_get j d = (case Dict_get j d1 of Some v \<Rightarrow> Some v | None \<Rightarrow> Dict_get j d2))"
  using dict.union_total [OF assms]
  by (simp add: Dict_union_def Dict_foldl_eq Dict_insert_eq Dict_toList_eq)

lemma cleanup_total:
  fixes w :: "'msg world"
  assumes "Dict_wf old" "Dict_wf newSubs" "Dict_wf newQueues"
  shows "\<exists>socks w'. ws_cleanup old newSubs newQueues w =
      Inr (\<lparr>sockets = socks, queues = newQueues, subs = newSubs\<rparr>, w') \<and> Dict_wf socks \<and>
    set (log w) \<subseteq> set (log w') \<and>
    (\<forall>name. settled (\<lambda>n. Dict_get n newQueues \<noteq> None \<or> Dict_get n newSubs \<noteq> None)
       (\<lambda>n. Dict_get n old) socks (log w') name)"
proof -
  obtain new where new: "Dict_union newQueues (Dict_map (\<lambda>k v. []) newSubs) = Inr new" "Dict_wf new"
    "\<And>j. Dict_get j new = (case Dict_get j newQueues of Some v \<Rightarrow> Some v
                             | None \<Rightarrow> map_option (\<lambda>_. []) (Dict_get j newSubs))"
    using Dict_union_total [OF assms(3) Dict_map_wf [OF assms(2)], of "\<lambda>k v. []"]
    by (auto simp: Dict_map_get split: option.split)
  let ?ks = "sorted_list_of_set ({k. Dict_get k new \<noteq> None} \<union> {k. Dict_get k old \<noteq> None})"
  have fin: "finite ({k. Dict_get k new \<noteq> None} \<union> {k. Dict_get k old \<noteq> None})"
    using dom_Dict_get [OF new(2)] dom_Dict_get [OF assms(1)] by simp
  obtain d w' where d: "fold (ws_visit (\<lambda>k. Dict_get k new) (\<lambda>k. Dict_get k old)) ?ks
      (Task_succeed Dict_empty) w = Inr (d, w')" "Dict_wf d" "set (log w) \<subseteq> set (log w')"
    "\<forall>name \<in> set ?ks. settled (\<lambda>n. Dict_get n new \<noteq> None) (\<lambda>k. Dict_get k old) d (log w') name"
    "\<forall>name. name \<notin> set ?ks \<longrightarrow> Dict_get name d = None"
    using collect_total [of ?ks "\<lambda>k. Dict_get k new" "\<lambda>k. Dict_get k old" w] by auto
  have needed: "Dict_get n new \<noteq> None \<longleftrightarrow> Dict_get n newQueues \<noteq> None \<or> Dict_get n newSubs \<noteq> None" for n
    by (auto simp: new(3) split: option.split)
  have "settled (\<lambda>n. Dict_get n new \<noteq> None) (\<lambda>k. Dict_get k old) d (log w') name" for name
    using d(4,5) fin by (cases "name \<in> set ?ks") (auto simp: settled_def)
  then have "\<forall>name. settled (\<lambda>n. Dict_get n newQueues \<noteq> None \<or> Dict_get n newSubs \<noteq> None)
      (\<lambda>k. Dict_get k old) d (log w') name"
    by (simp only: needed simp_thms)
  then show ?thesis
    using new(1) d(1-3)
    by (auto simp: ws_cleanup_def Task_andThen_def lift_def Task_map_def Dict_merge_eq [OF new(2) assms(1)]
        Task_succeed_def)
qed

lemma onEffects_total:
  fixes w :: "'msg world"
  assumes "ws_wf st"
  shows "\<exists>st' w'. WebSocket_onEffects cmds ss st w = Inr (st', w') \<and> ws_wf st' \<and>
    set (log w @ sent_now (sockets st) cmds) \<subseteq> set (log w') \<and>
    (\<forall>j. Dict_get j (queues st') = queue_after (sockets st) cmds j (Dict_get j (queues st))) \<and>
    (\<forall>j. Dict_get j (subs st') = (if j \<in> sub_name ` set ss then Some (taggers j ss) else None)) \<and>
    (\<forall>name. settled (\<lambda>n. Dict_get n (queues st') \<noteq> None \<or> n \<in> sub_name ` set ss)
       (\<lambda>n. Dict_get n (sockets st)) (sockets st') (log w') name)"
proof -
  obtain sd where sd: "WebSocket_buildSubDict ss Dict_empty = Inr sd" "Dict_wf sd"
    "\<And>j. Dict_get j sd = (if j \<in> sub_name ` set ss then Some (taggers j ss) else None)"
    using buildSubDict_total [OF Dict_wf_empty, of ss] by (auto simp: dict.get_empty Maybe_withDefault_def)
  have needed: "Dict_get n sd \<noteq> None \<longleftrightarrow> n \<in> sub_name ` set ss" for n by (simp add: sd(3))
  let ?w = "w\<lparr>log := log w @ sent_now (sockets st) cmds\<rparr>"
  obtain q where q: "WebSocket_sendMessagesHelp cmds (sockets st) (queues st) w = Inr (q, ?w)" "Dict_wf q"
    "\<And>j. Dict_get j q = queue_after (sockets st) cmds j (Dict_get j (queues st))"
    using sendMessagesHelp_total [of "queues st" cmds "sockets st" w] assms by (auto simp: ws_wf_def)
  obtain socks w' where c: "ws_cleanup (sockets st) sd q ?w =
      Inr (\<lparr>sockets = socks, queues = q, subs = sd\<rparr>, w')" "Dict_wf socks" "set (log ?w) \<subseteq> set (log w')"
    "\<And>name. settled (\<lambda>n. Dict_get n q \<noteq> None \<or> Dict_get n sd \<noteq> None)
       (\<lambda>n. Dict_get n (sockets st)) socks (log w') name"
    using cleanup_total [of "sockets st" sd q ?w] assms sd(2) q(2) by (auto simp: ws_wf_def)
  have "WebSocket_onEffects cmds ss st w = Inr (\<lparr>sockets = socks, queues = q, subs = sd\<rparr>, w')"
    using sd(1) q(1) c(1) by (simp add: WebSocket_onEffects_def Task_andThen_def lift_def)
  moreover have "ws_wf \<lparr>sockets = socks, queues = q, subs = sd\<rparr>"
    using sd(2) q(2) c(2) by (simp add: ws_wf_def)
  moreover have "settled (\<lambda>n. Dict_get n q \<noteq> None \<or> n \<in> sub_name ` set ss)
      (\<lambda>n. Dict_get n (sockets st)) socks (log w') name" for name
    using c(4) [of name] by (simp only: needed)
  ultimately show ?thesis
    using c(3) q(3) sd(3)
    by (intro exI [of _ "\<lparr>sockets = socks, queues = q, subs = sd\<rparr>"] exI [of _ w'] conjI) simp_all
qed

subsubsection \<open>Messages to the manager\<close>

lemma send_all:
  "fold (\<lambda>msg task. Task_then (emit (SendSocket socket msg)) task) q t w =
   t (w\<lparr>log := log w @ map (SendSocket socket) (rev q)\<rparr>)"
  by (induction q arbitrary: t w) (simp_all add: task_defs)

lemma sequence_emit:
  "\<exists>us. Task_sequence (map (\<lambda>x. emit (g x)) xs) w = Inr (us, w\<lparr>log := log w @ map g xs\<rparr>)"
proof (induction xs arbitrary: w)
  case (Cons x xs)
  obtain us where "Task_sequence (map (\<lambda>x. emit (g x)) xs) (w\<lparr>log := log w @ [g x]\<rparr>) =
      Inr (us, w\<lparr>log := log w @ g x # map g xs\<rparr>)"
    using Cons.IH [of "w\<lparr>log := log w @ [g x]\<rparr>"] by auto
  then show ?case by (simp add: task_defs)
qed (simp add: task_defs)

lemma receive_eq:
  "WebSocket_onSelfMsg (Receive name str) st w =
   Inr (st, w\<lparr>log := log w @
     map (\<lambda>tagger. ToApp (tagger str)) (Maybe_withDefault [] (Dict_get name (subs st)))\<rparr>)"
proof -
  obtain us where "Task_sequence (map (\<lambda>tagger. emit (ToApp (tagger str)))
      (Maybe_withDefault [] (Dict_get name (subs st)))) w =
    Inr (us, w\<lparr>log := log w @
      map (\<lambda>tagger. ToApp (tagger str)) (Maybe_withDefault [] (Dict_get name (subs st)))\<rparr>)"
    using sequence_emit [of "\<lambda>tagger. ToApp (tagger str)"] by blast
  then show ?thesis
    by (simp add: WebSocket_onSelfMsg_def elm_simps Task_then_def Task_andThen_def Task_succeed_def)
qed

lemma reopen_total:
  assumes "ws_wf st"
  shows "\<exists>s. Task_andThen (\<lambda>pid. lift (WebSocket_updateSocket name (Opening b pid) st))
      (WebSocket_attemptOpen b name) w =
    Inr (st\<lparr>sockets := s\<rparr>, w\<lparr>next_pid := Suc (next_pid w),
           log := log w @ [SpawnOpen (next_pid w) (WebSocket_after b) name]\<rparr>) \<and> Dict_wf s \<and>
    (\<forall>j. Dict_get j s = (if j = name then Some (Opening b (next_pid w)) else Dict_get j (sockets st)))"
  using updateSocket_total [OF assms, of name "Opening b (next_pid w)"]
  by (auto simp: Task_andThen_def WebSocket_attemptOpen_def lift_def)

lemma reopen_wf:
  assumes "ws_wf st"
  shows "\<exists>st' w'. Task_andThen (\<lambda>pid. lift (WebSocket_updateSocket name (Opening b pid) st))
      (WebSocket_attemptOpen b name) w = Inr (st', w') \<and> ws_wf st'"
proof -
  obtain s w' where "Task_andThen (\<lambda>pid. lift (WebSocket_updateSocket name (Opening b pid) st))
      (WebSocket_attemptOpen b name) w = Inr (st\<lparr>sockets := s\<rparr>, w')" "Dict_wf s"
    using reopen_total [OF assms, of name b w] by blast
  moreover from this have "ws_wf (st\<lparr>sockets := s\<rparr>)" using assms by (simp add: ws_wf_def)
  ultimately show ?thesis by blast
qed

lemma goodOpen_total:
  assumes "ws_wf st"
  shows "\<exists>st'. WebSocket_onSelfMsg (GoodOpen name socket) st w =
      Inr (st', w\<lparr>log := log w @ map (SendSocket socket)
                 (rev (Maybe_withDefault [] (Dict_get name (queues st))))\<rparr>) \<and> ws_wf st' \<and>
    (\<forall>j. Dict_get j (sockets st') = (if j = name then Some (Connected socket) else Dict_get j (sockets st))) \<and>
    (\<forall>j. Dict_get j (queues st') = (if j = name then None else Dict_get j (queues st))) \<and>
    subs st' = subs st"
proof -
  obtain s where s: "WebSocket_updateSocket name (Connected socket) st = Inr (st\<lparr>sockets := s\<rparr>)" "Dict_wf s"
    "\<And>j. Dict_get j s = (if j = name then Some (Connected socket) else Dict_get j (sockets st))"
    using updateSocket_total [OF assms] by blast
  have wf: "ws_wf (st\<lparr>sockets := s\<rparr>)" using assms s(2) by (simp add: ws_wf_def)
  show ?thesis
  proof (cases "Dict_get name (queues st)")
    case None
    then show ?thesis
      using s wf by (auto simp: WebSocket_onSelfMsg_def lift_def Maybe_withDefault_def)
  next
    case (Some messages)
    obtain q where "WebSocket_removeQueue name (st\<lparr>sockets := s\<rparr>) = Inr (st\<lparr>sockets := s, queues := q\<rparr>)"
      "Dict_wf q" "\<And>j. Dict_get j q = (if j = name then None else Dict_get j (queues st))"
      using removeQueue_total [OF wf, of name] by auto
    then show ?thesis
      using s wf Some
      by (auto simp: WebSocket_onSelfMsg_def elm_simps send_all lift_def Maybe_withDefault_def ws_wf_def)
  qed
qed

lemma onSelfMsg_total:
  assumes "ws_wf st"
  shows "\<exists>st' w'. WebSocket_onSelfMsg m st w = Inr (st', w') \<and> ws_wf st'"
proof (cases m)
  case (Receive name str)
  then show ?thesis using receive_eq [of name str st w] assms by auto
next
  case (GoodOpen name socket)
  then show ?thesis using goodOpen_total [OF assms, of name socket w] by auto
next
  case (Die name)
  then show ?thesis
    using reopen_wf [OF assms, of name 0 w] assms
    by (auto simp: WebSocket_onSelfMsg_def Task_succeed_def split: option.split)
next
  case (BadOpen name)
  then show ?thesis
    using reopen_wf [OF assms, of name _ w] assms
    by (simp add: WebSocket_onSelfMsg_def Task_succeed_def split: option.split connection.split)
qed

text \<open>The states the manager can be in: the runtime calls its handlers in any order.\<close>

inductive ws_reachable :: "'msg ws_state \<Rightarrow> 'msg world \<Rightarrow> bool" where
  init: "WebSocket_init w = Inr (st, w') \<Longrightarrow> ws_reachable st w'"
| effects: "ws_reachable st w \<Longrightarrow> WebSocket_onEffects cmds ss st w = Inr (st', w') \<Longrightarrow> ws_reachable st' w'"
| selfmsg: "ws_reachable st w \<Longrightarrow> WebSocket_onSelfMsg m st w = Inr (st', w') \<Longrightarrow> ws_reachable st' w'"

lemma ws_reachable_wf: "ws_reachable st w \<Longrightarrow> ws_wf st"
proof (induction rule: ws_reachable.induct)
  case (init w st w')
  then show ?case by (auto simp: WebSocket_init_def Task_succeed_def ws_wf_def Dict_wf_empty)
next
  case (effects st w cmds ss st' w')
  then show ?case using onEffects_total [of st cmds ss w] by auto
next
  case (selfmsg st w m st' w')
  then show ?case using onSelfMsg_total [of st m w] by auto
qed

subsection \<open>Properties\<close>

text \<open>
  In every reachable state of the manager both handlers run to their end, whatever commands,
  subscriptions or messages they get: no dictionary operation crashes, and the state stays
  well-formed. This is claim C14.
\<close>

theorem WebSocket_never_crashes:
  assumes "ws_reachable st w"
  shows "ws_wf st \<and> (\<exists>st' w'. WebSocket_onEffects cmds ss st w = Inr (st', w')) \<and>
    (\<exists>st' w'. WebSocket_onSelfMsg m st w = Inr (st', w'))"
  using onEffects_total [OF ws_reachable_wf [OF assms], of cmds ss w]
    onSelfMsg_total [OF ws_reachable_wf [OF assms], of m w] ws_reachable_wf [OF assms]
  by blast

text \<open>
  After the effects of an update, a connection exists for exactly the URLs that are subscribed to or
  have queued messages: needed connections are kept untouched, missing ones are opened at once, and
  all others are closed. This is claim C15.
\<close>

theorem WebSocket_onEffects_settles:
  assumes "ws_wf st"
  shows "\<exists>st' w'. WebSocket_onEffects cmds ss st w = Inr (st', w') \<and> ws_wf st' \<and>
    (\<forall>name. settled (\<lambda>n. Dict_get n (queues st') \<noteq> None \<or> n \<in> sub_name ` set ss)
       (\<lambda>n. Dict_get n (sockets st)) (sockets st') (log w') name)"
  using onEffects_total [OF assms, of cmds ss w] by blast


text \<open>
  A message received from a URL reaches the program once for every subscription to that URL, and no
  other; the manager's state does not change.
\<close>

theorem WebSocket_receive_delivers:
  assumes "ws_wf st"
  shows "\<exists>st' w'. WebSocket_onEffects cmds ss st w = Inr (st', w') \<and>
    (\<forall>name str w2. WebSocket_onSelfMsg (Receive name str) st' w2 =
      Inr (st', w2\<lparr>log := log w2 @ map (\<lambda>tagger. ToApp (tagger str)) (taggers name ss)\<rparr>))"
proof -
  obtain st' w' where st': "WebSocket_onEffects cmds ss st w = Inr (st', w')"
    "\<And>j. Dict_get j (subs st') = (if j \<in> sub_name ` set ss then Some (taggers j ss) else None)"
    using onEffects_total [OF assms, of cmds ss w] by blast
  have "name \<notin> sub_name ` set ss \<Longrightarrow> taggers name ss = []" for name
    by (induction name ss rule: taggers.induct) auto
  then have "WebSocket_onSelfMsg (Receive name str) st' w2 =
      Inr (st', w2\<lparr>log := log w2 @ map (\<lambda>tagger. ToApp (tagger str)) (taggers name ss)\<rparr>)" for name str w2
    using st'(2) by (auto simp: receive_eq Maybe_withDefault_def)
  then show ?thesis using st'(1) by blast
qed

text \<open>
  A failed attempt is repeated with a delay that doubles: the attempt after \<open>n + 1\<close> failures waits
  \<open>10 * 2^(n+1)\<close> milliseconds. A connection that is closed, on the other hand, is reopened
  without delay and with the counter back at 0, also when it never opened: an attempt that the
  server refuses ends with a close event alone, which the manager gets as \<^verbatim>\<open>Die\<close>, so that it is tried
  again at once, as often as it is refused. This is claim C17.
\<close>

theorem WebSocket_backoff:
  assumes "ws_wf st" "Dict_get name (sockets st) = Some (Opening n pid)" "0 \<le> n"
  shows "(\<exists>st' w'. WebSocket_onSelfMsg (BadOpen name) st w = Inr (st', w') \<and>
      Dict_get name (sockets st') = Some (Opening (n + 1) (next_pid w)) \<and>
      log w' = log w @ [SpawnOpen (next_pid w) (10 * 2 ^ nat (n + 1)) name]) \<and>
    (\<exists>st' w'. WebSocket_onSelfMsg (Die name) st w = Inr (st', w') \<and>
      Dict_get name (sockets st') = Some (Opening 0 (next_pid w)) \<and>
      log w' = log w @ [SpawnOpen (next_pid w) 0 name]) \<and>
    WebSocket_actuallyAttemptOpen (\<lambda>_. Inr s) name [SocketClose d] = [Die name] \<and>
    WebSocket_actuallyAttemptOpen (\<lambda>_. Inl e) name evs = [BadOpen name]"
proof (intro conjI)
  have "WebSocket_after (n + 1) = 10 * 2 ^ nat (n + 1)" using assms(3) by (simp add: WebSocket_after_def)
  then show "\<exists>st' w'. WebSocket_onSelfMsg (BadOpen name) st w = Inr (st', w') \<and>
      Dict_get name (sockets st') = Some (Opening (n + 1) (next_pid w)) \<and>
      log w' = log w @ [SpawnOpen (next_pid w) (10 * 2 ^ nat (n + 1)) name]"
    using reopen_total [OF assms(1), of name "n + 1" w] assms(2) by (auto simp: WebSocket_onSelfMsg_def)
  have "WebSocket_after 0 = 0" by (simp add: WebSocket_after_def)
  then show "\<exists>st' w'. WebSocket_onSelfMsg (Die name) st w = Inr (st', w') \<and>
      Dict_get name (sockets st') = Some (Opening 0 (next_pid w)) \<and>
      log w' = log w @ [SpawnOpen (next_pid w) 0 name]"
    using reopen_total [OF assms(1), of name 0 w] assms(2) by (auto simp: WebSocket_onSelfMsg_def)
  show "WebSocket_actuallyAttemptOpen (\<lambda>_. Inr s) name [SocketClose d] = [Die name]"
    "WebSocket_actuallyAttemptOpen (\<lambda>_. Inl e) name evs = [BadOpen name]"
    by (cases e; simp add: attempt_defs)+
qed

subsection \<open>Witnesses\<close>

abbreviation ws_state0 :: "string ws_state" where
  "ws_state0 \<equiv> \<lparr>sockets = RBEmpty LBlack, queues = RBEmpty LBlack, subs = RBEmpty LBlack\<rparr>"

abbreviation ws_opening :: "string ws_state" where
  "ws_opening \<equiv>
     \<lparr>sockets = RBNode Black ''u'' (Opening 2 7) (RBEmpty LBlack) (RBEmpty LBlack),
      queues = RBEmpty LBlack, subs = RBEmpty LBlack\<rparr>"

abbreviation world0 :: "string world" where
  "world0 \<equiv> \<lparr>next_pid = 8, log = []\<rparr>"

lemma ws_wf_examples: "ws_wf ws_state0" "ws_wf ws_opening"
  by (simp_all add: ws_wf_def Dict_wf_def rb_tree_def hasCol_def)

lemma ws_reachable_example: "ws_reachable ws_state0 world0"
  by (rule ws_reachable.init [of world0]) (simp add: WebSocket_init_def Task_succeed_def Dict_empty_def)

theorem WebSocket_never_crashes_witness:
  "ws_wf ws_state0 \<and> (\<exists>st' w'. WebSocket_onEffects [Send ''u'' ''m''] [] ws_state0 world0 = Inr (st', w')) \<and>
   (\<exists>st' w'. WebSocket_onSelfMsg (Die ''u'') ws_state0 world0 = Inr (st', w'))"
  by (rule WebSocket_never_crashes) (rule ws_reachable_example)

theorem WebSocket_onEffects_settles_witness:
  "\<exists>st' w'. WebSocket_onEffects [] [Listen ''v'' id] ws_opening world0 = Inr (st', w') \<and> ws_wf st' \<and>
    (\<forall>name. settled (\<lambda>n. Dict_get n (queues st') \<noteq> None \<or> n \<in> sub_name ` set [Listen ''v'' (id :: string \<Rightarrow> string)])
       (\<lambda>n. Dict_get n (sockets ws_opening)) (sockets st') (log w') name)"
  by (rule WebSocket_onEffects_settles) (rule ws_wf_examples)


theorem WebSocket_receive_delivers_witness:
  "\<exists>st' w'. WebSocket_onEffects [] [Listen ''u'' id] ws_opening world0 = Inr (st', w') \<and>
    (\<forall>name str w2. WebSocket_onSelfMsg (Receive name str) st' w2 =
      Inr (st', w2\<lparr>log := log w2 @
        map (\<lambda>tagger. ToApp (tagger str)) (taggers name [Listen ''u'' (id :: string \<Rightarrow> string)])\<rparr>))"
  by (rule WebSocket_receive_delivers) (rule ws_wf_examples)

theorem WebSocket_backoff_witness:
  "(\<exists>st' w'. WebSocket_onSelfMsg (BadOpen ''u'') ws_opening world0 = Inr (st', w') \<and>
      Dict_get ''u'' (sockets st') = Some (Opening (2 + 1) (next_pid world0)) \<and>
      log w' = log world0 @ [SpawnOpen (next_pid world0) (10 * 2 ^ nat (2 + 1)) ''u'']) \<and>
    (\<exists>st' w'. WebSocket_onSelfMsg (Die ''u'') ws_opening world0 = Inr (st', w') \<and>
      Dict_get ''u'' (sockets st') = Some (Opening 0 (next_pid world0)) \<and>
      log w' = log world0 @ [SpawnOpen (next_pid world0) 0 ''u'']) \<and>
    WebSocket_actuallyAttemptOpen (\<lambda>_. Inr 5) ''u''
      [SocketClose \<lparr>close_code = 1006, close_reason = [], wasClean = False\<rparr>] = [Die ''u''] \<and>
    WebSocket_actuallyAttemptOpen (\<lambda>_. Inl (''SyntaxError'', [])) ''u'' [] = [BadOpen ''u'']"
  by (rule WebSocket_backoff [OF ws_wf_examples(2), where pid = 7]) (simp_all add: compare_eq)

end
