(* ===== verification/Kubecast_Server.thy ===== *)
theory Kubecast_Server
  imports Elm_String
begin

text \<open>
  What the server (\<^verbatim>\<open>cmd/server/main.go\<close>) sends to the web interface: one iteration of the loop of
  \<^verbatim>\<open>listHandler\<close>. The files found by \<^verbatim>\<open>filepath.Glob\<close> and the labels read for each of them are
  arguments; the rest of the server is input and output and not modelled.
\<close>

definition labelsString :: "string list \<Rightarrow> string" where
  "labelsString labelsArray = foldl (\<lambda>s label. s @ label @ ''.'') [] labelsArray"

definition list_message :: "(string \<Rightarrow> string list) \<Rightarrow> string list \<Rightarrow> string" where
  "list_message labels files =
     foldl (\<lambda>message file. message @ file @ [CHR 0x0A] @ labelsString (labels file) @ [CHR 0x0A]) [] files"

text \<open>The labels an upload stores: every character outside \<^verbatim>\<open>[a-zA-Z0-9-]\<close> is removed.\<close>

definition label_char :: "char \<Rightarrow> bool" where
  "label_char c \<longleftrightarrow>
     c = CHR ''-'' \<or>
     (\<exists>(lo, hi) \<in> set [(CHR ''a'', CHR ''z''), (CHR ''A'', CHR ''Z''), (CHR ''0'', CHR ''9'')]. lo \<le> c \<and> c \<le> hi)"

definition sanitise_label :: "string \<Rightarrow> string" where
  "sanitise_label label = filter label_char label"

subsection \<open>The shape of the message\<close>

lemma labelsString_eq: "labelsString ls = concat (map (\<lambda>l. l @ ''.'') ls)"
proof -
  have "foldl (\<lambda>s l. s @ l @ ''.'') acc ls = acc @ concat (map (\<lambda>l. l @ ''.'') ls)" for acc
    by (induction ls arbitrary: acc) auto
  then show ?thesis by (simp add: labelsString_def)
qed

lemma list_message_eq:
  "list_message labels files =
   concat (map (\<lambda>f. f @ [CHR 0x0A] @ labelsString (labels f) @ [CHR 0x0A]) files)"
proof -
  have "foldl (\<lambda>m f. m @ f @ [CHR 0x0A] @ labelsString (labels f) @ [CHR 0x0A]) acc files =
      acc @ concat (map (\<lambda>f. f @ [CHR 0x0A] @ labelsString (labels f) @ [CHR 0x0A]) files)" for acc
    by (induction files arbitrary: acc) auto
  then show ?thesis by (simp add: list_message_def)
qed

text \<open>The lines of the message: file and labels in turn.\<close>

fun list_lines :: "(string \<Rightarrow> string list) \<Rightarrow> string list \<Rightarrow> string list" where
  "list_lines labels [] = []"
| "list_lines labels (f # fs) = f # labelsString (labels f) # list_lines labels fs"

lemma list_lines_eq_Nil [simp]: "list_lines labels fs = [] \<longleftrightarrow> fs = []"
  by (cases fs) auto

lemma list_message_join:
  "files \<noteq> [] \<Longrightarrow> list_message labels files = js_join [CHR 0x0A] (list_lines labels files) @ [CHR 0x0A]"
proof (induction files)
  case (Cons f fs)
  then show ?case by (cases fs) (auto simp: list_message_eq)
qed simp

lemma list_lines_last:
  "files \<noteq> [] \<Longrightarrow> last (list_lines labels files) = labelsString (labels (last files))"
proof (induction files)
  case (Cons f fs)
  then show ?case by (cases "fs = []") auto
qed simp

lemma labelsString_last: "ls \<noteq> [] \<Longrightarrow> labelsString ls \<noteq> [] \<and> last (labelsString ls) = CHR ''.''"
  by (induction ls) (auto simp: labelsString_eq)

lemma labelsString_newline_free:
  "\<forall>l \<in> set ls. CHR 0x0A \<notin> set l \<Longrightarrow> CHR 0x0A \<notin> set (labelsString ls)"
  by (auto simp: labelsString_eq)

lemma sanitise_label_newline_free: "CHR 0x0A \<notin> set (sanitise_label l)"
  by (auto simp: sanitise_label_def label_char_def less_eq_char_def)

end
