(* ===== verification/Cast_App.thy ===== *)
theory Cast_App
  imports Elm_Array_Correct Elm_Json Elm_WebSocket Kubecast_Server Elm_Navigation Elm_StringExtra
begin

text \<open>
  The kubecast program itself: the compiled modules \<^verbatim>\<open>Cast.Helpers\<close>, \<^verbatim>\<open>Cast.Models\<close>, \<^verbatim>\<open>Cast.Msgs\<close>,
  \<^verbatim>\<open>Cast.Update\<close>, \<^verbatim>\<open>Cast.View\<close> and \<^verbatim>\<open>Main\<close> of \<^verbatim>\<open>dist/Main.js\<close>. The model is a record, a message a
  datatype, and \<^verbatim>\<open>update\<close> returns the new model with the command it issues; the only commands are
  none and the outgoing port \<^verbatim>\<open>displayCast\<close>, which tells the page to play a recording. The view is
  a tree of elements with properties and event decoders.
\<close>

subsection \<open>Cast.Helpers\<close>

fun oddElements_loop :: "'a list \<Rightarrow> int \<Rightarrow> 'a list" where
  "oddElements_loop [] index = []"
| "oddElements_loop (x # xs) index =
     (if Basics_mod index 2 = Inr 0 then oddElements_loop xs (index + 1)
      else x # oddElements_loop xs (index + 1))"

definition oddElements :: "'a list \<Rightarrow> 'a list" where
  "oddElements list = oddElements_loop list 1"

fun evenElements_loop :: "'a list \<Rightarrow> int \<Rightarrow> 'a list" where
  "evenElements_loop [] index = []"
| "evenElements_loop (x # xs) index =
     (if Basics_mod index 2 = Inr 0 then x # evenElements_loop xs (index + 1)
      else evenElements_loop xs (index + 1))"

definition evenElements :: "'a list \<Rightarrow> 'a list" where
  "evenElements list = evenElements_loop list 1"

subsection \<open>Cast.Models and Cast.Msgs\<close>

record model =
  cast :: string
  casts :: "string list"
  labels :: "string list"
  location :: location

definition initialModel :: "location \<Rightarrow> model" where
  "initialModel loc = \<lparr>cast = [], casts = [], labels = [], location = loc\<rparr>"

datatype msg =
    DisplayCast string
  | ListCasts string
  | OnLocationChange location

subsection \<open>Cast.Update\<close>

datatype cmd =
    Cmd_none
  | Cmd_displayCast string

definition displayCast :: "string \<Rightarrow> cmd" where
  "displayCast v = Cmd_displayCast v"

definition setCastIfEmpty :: "string \<Rightarrow> string list \<Rightarrow> (string \<times> cmd) result" where
  "setCastIfEmpty currentCast newCasts =
     (if currentCast = [] then
        bindE (NArray_fromList newCasts) (\<lambda>array.
        bindE (Array_get 0 array) (\<lambda>first.
          case first of
            Some c \<Rightarrow> Inr (c, displayCast c)
          | None \<Rightarrow> Inr ([], Cmd_none)))
      else Inr (currentCast, Cmd_none))"

definition Update_update :: "msg \<Rightarrow> model \<Rightarrow> (model \<times> cmd) result" where
  "Update_update msg m =
     (case msg of
        DisplayCast c \<Rightarrow> Inr (m\<lparr>cast := c\<rparr>, displayCast c)
      | ListCasts castsString \<Rightarrow>
          (let newLabels = evenElements (NString_split [CHR 0x0A] (NString_trim castsString));
               newCasts = oddElements (NString_split [CHR 0x0A] (NString_trim castsString))
           in bindE (setCastIfEmpty (cast m) newCasts) (\<lambda>(c, command).
                Inr (m\<lparr>cast := c, casts := newCasts, labels := newLabels\<rparr>, command)))
      | OnLocationChange loc \<Rightarrow> Inr (m\<lparr>location := loc\<rparr>, Cmd_none))"

subsection \<open>Cast.View\<close>

datatype attribute =
    Property string json
  | OnEvent string "msg decoder"

datatype html =
    Text string
  | Element string "attribute list" "html list"

definition stringProperty :: "string \<Rightarrow> string \<Rightarrow> attribute" where
  "stringProperty name str = Property name (JStr str)"

definition Attr_class :: "string \<Rightarrow> attribute" where
  "Attr_class name = stringProperty ''className'' name"

definition Attr_id :: "string \<Rightarrow> attribute" where
  "Attr_id name = stringProperty ''id'' name"

definition Attr_value :: "string \<Rightarrow> attribute" where
  "Attr_value v = stringProperty ''value'' v"

definition targetValue :: "msg decoder" where
  "targetValue = Decode_at [''target'', ''value''] (Primitive PString)"

text \<open>
  \<^verbatim>\<open>onInput\<close> maps the tagger over \<^verbatim>\<open>targetValue\<close>, which yields strings only. The number identifies
  the tagger for decoder equality.
\<close>

definition onInput :: "nat \<Rightarrow> (string \<Rightarrow> msg) \<Rightarrow> attribute" where
  "onInput fid tagger =
     OnEvent ''input''
       (Json_map1 fid (\<lambda>v. case v of DJson (JStr s) \<Rightarrow> DMsg (tagger s) | _ \<Rightarrow> v) targetValue)"

definition castOption :: "string \<Rightarrow> string \<Rightarrow> html" where
  "castOption c label =
     Element ''option'' [Attr_value (toString_string c)] [Text (unquote (toString_string label))]"

definition View_view :: "model \<Rightarrow> html" where
  "View_view m =
     Element ''div'' [Attr_class ''container'']
       [Element ''div'' [Attr_class ''row'']
          [Element ''h2'' [Attr_class ''text-center''] [Text ''Terminal Sessions''],
           Element ''select'' [onInput 0 DisplayCast] (NList_map2 castOption (casts m) (labels m))],
        Element ''div'' [Attr_class ''row'']
          [Element ''div'' [Attr_id ''asciinema-player-container'', Attr_class ''container''] []]]"

subsection \<open>Main\<close>

definition webSocketUrl :: "location \<Rightarrow> string \<Rightarrow> string" where
  "webSocketUrl loc path =
     (if host loc = ''localhost:3000'' then Utils_append ''ws://localhost:5050'' path
      else if host loc = ''127.0.0.1:3000'' then Utils_append ''ws://127.0.0.1:5050'' path
      else if protocol loc = ''https:''
      then Utils_append ''wss://'' (Utils_append (host loc) path)
      else Utils_append ''ws://'' (Utils_append (host loc) path))"

definition subscriptions :: "model \<Rightarrow> msg ws_sub" where
  "subscriptions m = Listen (webSocketUrl (location m) ''/list'') ListCasts"

definition Main_init :: "location \<Rightarrow> model \<times> cmd" where
  "Main_init loc = (initialModel loc, Cmd_none)"

text \<open>\<^verbatim>\<open>main\<close>\<close>

definition main_init :: "msg nav_world \<Rightarrow> model \<times> cmd" where
  "main_init = Navigation_program_init Main_init"

definition main_subscriptions :: "model \<Rightarrow> (msg nav_sub + msg ws_sub) list" where
  "main_subscriptions = Navigation_program_subs OnLocationChange subscriptions"

text \<open>
  The program as a transition system: it starts with \<^verbatim>\<open>init\<close> at some location and then handles
  messages one at a time. The command is that of the last step.
\<close>

inductive app_reachable :: "model \<Rightarrow> cmd \<Rightarrow> bool" where
  start: "Main_init loc = (m, c) \<Longrightarrow> app_reachable m c"
| step: "app_reachable m c \<Longrightarrow> Update_update msg m = Inr (m', c') \<Longrightarrow> app_reachable m' c'"

subsection \<open>Lemmas\<close>

lemma Basics_mod_2: "Basics_mod i 2 = Inr 0 \<longleftrightarrow> even i"
  by (simp add: Basics_mod_pos even_iff_mod_2_eq_zero)

text \<open>Counting from 1, the odd and even elements are those at even and odd positions.\<close>

fun alternate :: "'a list \<Rightarrow> 'a list" where
  "alternate [] = []"
| "alternate [x] = [x]"
| "alternate (x # y # xs) = x # alternate xs"

lemma odd_even_loop:
  "oddElements_loop xs i = (if odd i then alternate xs else alternate (tl xs)) \<and>
   evenElements_loop xs i = (if even i then alternate xs else alternate (tl xs))"
proof (induction xs arbitrary: i rule: alternate.induct)
  case (3 x y xs)
  show ?case
    using 3 [of "i + 2"] by (cases xs) (auto simp: Basics_mod_2 add.commute)
qed (auto simp: Basics_mod_2)

lemma oddElements_eq [elm_simps]: "oddElements xs = alternate xs"
  by (simp add: oddElements_def odd_even_loop)

lemma evenElements_eq [elm_simps]: "evenElements xs = alternate (tl xs)"
  by (simp add: evenElements_def odd_even_loop)

lemma alternate_nth: "i < length (alternate xs) \<Longrightarrow> alternate xs ! i = xs ! (2 * i)"
proof (induction xs arbitrary: i rule: alternate.induct)
  case (3 x y xs)
  then show ?case by (cases i) auto
qed auto

lemma length_alternate: "length (alternate xs) = (length xs + 1) div 2"
  by (induction xs rule: alternate.induct) auto

lemma alternate_lines [simp]:
  "alternate (list_lines ls fs) = fs" "alternate (tl (list_lines ls fs)) = map (labelsString \<circ> ls) fs"
proof -
  show "alternate (list_lines ls fs) = fs" by (induction fs) auto
  have "alternate (l # list_lines ls fs) = l # map (labelsString \<circ> ls) fs" for l
    by (induction fs arbitrary: l) auto
  then show "alternate (tl (list_lines ls fs)) = map (labelsString \<circ> ls) fs" by (cases fs) auto
qed

text \<open>The first element of an array is found whatever the height of the tree.\<close>

lemma unsafeGet_0:
  "rrb_wf a \<Longrightarrow> elems a \<noteq> [] \<Longrightarrow> unsafeGet_loop (NArray_height a) 0 a = Inr (hd (elems a))"
proof (induction a)
  case (Leaf xs)
  then show ?case by (cases xs) (auto simp: js_nth_def)
next
  case (Node h ts ls)
  then obtain t us where ts: "ts = t # us" by (cases ts) auto
  have h: "h = Suc (NArray_height t)" "rrb_wf t" "elems t \<noteq> []" "ls = accLengths 0 ts"
    using Node.prems(1) by (auto simp: ts)
  have "js_shr 0 k = 0" for k by (simp add: js_shr_def toInt32_def)
  moreover have "slot_loop ls 0 0 = 0"
    using h by (subst slot_loop.simps) (simp add: ts js_nth_def rrb_wf_length)
  moreover have "unsafeGet_loop (NArray_height t) 0 t = Inr (hd (elems t))"
    using Node.IH [of t] h by (simp add: ts)
  ultimately show ?case
    using h by (simp add: h(1) ts js_nth_def slotStart_def del: mult_Suc)
qed

lemma Array_get_first:
  "rrb_wf a \<Longrightarrow> Array_get 0 a = Inr (if elems a = [] then None else Some (hd (elems a)))"
  using unsafeGet_0 [of a]
  by (auto simp: Array_get_def NArray_get_def NArray_unsafeGet_def rrb_wf_length)

lemma setCastIfEmpty_eq:
  "setCastIfEmpty c cs =
   Inr (if c \<noteq> [] then (c, Cmd_none)
        else case cs of [] \<Rightarrow> ([], Cmd_none) | d # _ \<Rightarrow> (d, displayCast d))"
proof -
  obtain a where "NArray_fromList cs = Inr a" "rrb_wf a" "elems a = cs"
    using fromList_correct by blast
  then show ?thesis by (simp add: setCastIfEmpty_def Array_get_first split: list.split)
qed

text \<open>The lines of a listing, and the model after it.\<close>

definition listing :: "string \<Rightarrow> string list" where
  "listing str = js_split [CHR 0x0A] (js_trim str)"

lemma listing_ne [simp]: "listing str \<noteq> []"
  by (simp add: listing_def js_split_def)

lemma update_ListCasts:
  "Update_update (ListCasts str) m =
   Inr (m\<lparr>cast := if cast m \<noteq> [] then cast m else hd (listing str),
          casts := alternate (listing str), labels := alternate (tl (listing str))\<rparr>,
        if cast m \<noteq> [] then Cmd_none else displayCast (hd (listing str)))"
proof -
  obtain l ls where l: "listing str = l # ls" by (cases "listing str") auto
  have "alternate (l # ls) = l # alternate (tl ls)" by (cases ls) auto
  with l show ?thesis
    by (simp add: Update_update_def elm_simps NString_trim_def setCastIfEmpty_eq flip: listing_def)
qed

lemma update_total: "\<exists>m' c. Update_update msg m = Inr (m', c)"
  by (cases msg) (auto simp: update_ListCasts, auto simp: Update_update_def)

lemma js_trim_strip:
  assumes "b \<noteq> []" "\<not> js_space (hd b)" "\<not> js_space (last b)" "\<forall>c \<in> set sp. js_space c"
  shows "js_trim (b @ sp) = b"
proof -
  have "dropWhile js_space (b @ sp) = b @ sp" using assms(1,2) by (cases b) auto
  moreover have "dropWhile js_space (rev sp @ rev b) = rev b"
  proof -
    have "dropWhile js_space (rev sp @ rev b) = dropWhile js_space (rev b)"
      using assms(4) by (intro dropWhile_append2) auto
    also have "\<dots> = rev b" using assms(1,3) by (cases b rule: rev_cases) auto
    finally show ?thesis .
  qed
  ultimately show ?thesis by (simp add: js_trim_def js_trimLeft_def js_trimRight_def)
qed

lemma js_trim_spaces: "\<forall>c \<in> set s. js_space c \<Longrightarrow> js_trim s = []"
  by (simp add: js_trim_def js_trimLeft_def js_trimRight_def dropWhile_eq_Nil_conv [THEN iffD2])

lemma js_join_hd: "s \<noteq> [] \<Longrightarrow> js_join sep (s # ss) \<noteq> [] \<and> hd (js_join sep (s # ss)) = hd s"
  by (cases ss) auto

lemma js_join_last: "ss \<noteq> [] \<Longrightarrow> last ss \<noteq> [] \<Longrightarrow> last (js_join sep ss) = last (last ss) \<and> js_join sep ss \<noteq> []"
proof (induction ss)
  case (Cons s ss)
  then show ?case by (cases "ss = []") (auto simp: js_join_Cons)
qed simp

lemma listing_list_message:
  assumes "files \<noteq> []" "hd files \<noteq> []" "\<not> js_space (hd (hd files))"
    "\<forall>f \<in> set files. CHR 0x0A \<notin> set f \<and> ls f \<noteq> [] \<and> (\<forall>l \<in> set (ls f). CHR 0x0A \<notin> set l)"
  shows "listing (list_message ls files) = list_lines ls files"
proof -
  obtain f fs where files: "files = f # fs" using assms(1) by (cases files) auto
  let ?body = "js_join [CHR 0x0A] (list_lines ls files)"
  have "ls (last files) \<noteq> []" using assms(1,4) by simp
  then have last: "last ?body = CHR ''.''" "?body \<noteq> []"
    using js_join_last [of "list_lines ls files" "[CHR 0x0A]"] labelsString_last assms(1)
    by (auto simp: list_lines_last)
  have "hd ?body = hd f" using assms(2) js_join_hd [of f "[CHR 0x0A]"] by (simp add: files)
  then have "js_trim (?body @ [CHR 0x0A]) = ?body"
    using last assms(3) by (intro js_trim_strip) (auto simp: files js_space_def)
  moreover have "\<forall>l \<in> set (list_lines ls fs). CHR 0x0A \<notin> set l" if "set fs \<subseteq> set files" for fs
    using that assms(4) by (induction fs) (auto simp: labelsString_newline_free)
  from this [OF order_refl] have "\<forall>l \<in> set (list_lines ls files). CHR 0x0A \<notin> set l" .
  ultimately show ?thesis
    using js_split_join_char [of "list_lines ls files" "CHR 0x0A"] assms(1)
    by (simp add: listing_def list_message_join)
qed

lemma app_reachable_inv:
  "app_reachable m c \<Longrightarrow> (c = Cmd_none \<or> c = Cmd_displayCast (cast m)) \<and>
     length (labels m) \<le> length (casts m) \<and> length (casts m) \<le> Suc (length (labels m))"
proof (induction rule: app_reachable.induct)
  case (start loc m c)
  then show ?case by (auto simp: Main_init_def initialModel_def)
next
  case (step m c msg m' c')
  then show ?case
  proof (cases msg)
    case (ListCasts str)
    with step.hyps(2) show ?thesis
      by (auto simp: update_ListCasts displayCast_def length_alternate)
  qed (auto simp: Update_update_def displayCast_def)
qed

subsection \<open>Properties\<close>

text \<open>A location for the examples: the page as the local development server serves it.\<close>

definition example_location :: location where
  "example_location =
     \<lparr>href = ''http://localhost:3000/'', host = ''localhost:3000'', hostname = ''localhost'',
      protocol = ''http:'', origin = ''http://localhost:3000'', port_number = ''3000'',
      pathname = ''/'', search = [], hash = [], username = [], password = []\<rparr>"

text \<open>
  The listing the server sends arrives unchanged: after a \<^verbatim>\<open>ListCasts\<close> message with the server's
  text, the model lists exactly the server's files with the labels of each, in order. A recording
  that is being shown stays; if none is, the first one is shown. This is claim C11.
\<close>

theorem Cast_listing_roundtrip:
  assumes "files \<noteq> []" "hd files \<noteq> []" "\<not> js_space (hd (hd files))"
    "\<forall>f \<in> set files. CHR 0x0A \<notin> set f \<and> ls f \<noteq> [] \<and> (\<forall>l \<in> set (ls f). CHR 0x0A \<notin> set l)"
  shows "Update_update (ListCasts (list_message ls files)) m =
    Inr (m\<lparr>cast := if cast m \<noteq> [] then cast m else hd files, casts := files,
           labels := map (labelsString \<circ> ls) files\<rparr>,
         if cast m \<noteq> [] then Cmd_none else Cmd_displayCast (hd files))"
proof -
  have "hd (list_lines ls files) = hd files" using assms(1) by (cases files) auto
  then show ?thesis
    by (simp add: update_ListCasts listing_list_message [OF assms] displayCast_def)
qed

theorem Cast_listing_roundtrip_witness:
  "Update_update (ListCasts (list_message (\<lambda>f. [f, ''x'']) [''/tmp/1.cast'', ''/tmp/2.cast'']))
     (initialModel example_location) =
   Inr (initialModel example_location\<lparr>cast := if cast (initialModel example_location) \<noteq> [] then cast (initialModel example_location)
              else hd [''/tmp/1.cast'', ''/tmp/2.cast''],
          casts := [''/tmp/1.cast'', ''/tmp/2.cast''],
          labels := map (labelsString \<circ> (\<lambda>f. [f, ''x''])) [''/tmp/1.cast'', ''/tmp/2.cast'']\<rparr>,
        if cast (initialModel example_location) \<noteq> [] then Cmd_none
        else Cmd_displayCast (hd [''/tmp/1.cast'', ''/tmp/2.cast'']))"
  by (rule Cast_listing_roundtrip) (simp_all add: js_space_def)


text \<open>
  An empty listing, which the server sends while there are no recordings, becomes a listing of
  one recording with an empty name: it is put into the model, and the page is told to play it.
\<close>

theorem Cast_empty_listing:
  assumes "\<forall>c \<in> set str. js_space c" "cast m = []"
  shows "Update_update (ListCasts str) m = Inr (m\<lparr>casts := [[]], labels := []\<rparr>, Cmd_displayCast [])"
proof -
  have "listing str = [[]]" by (simp add: listing_def js_trim_spaces [OF assms(1)] js_split_def)
  with assms(2) show ?thesis by (simp add: update_ListCasts displayCast_def)
qed

theorem Cast_empty_listing_witness:
  "Update_update (ListCasts []) (initialModel example_location) =
   Inr (initialModel example_location\<lparr>casts := [[]], labels := []\<rparr>, Cmd_displayCast [])"
  by (rule Cast_empty_listing) (simp_all add: initialModel_def)

definition example_playing :: model where
  "example_playing = initialModel example_location\<lparr>cast := ''a''\<rparr>"


text \<open>What selecting an option sends to the program: the \<^verbatim>\<open>input\<close> event carries the option's value.\<close>

definition input_event :: "string \<Rightarrow> json" where
  "input_event v = nested [''target'', ''value''] (JStr v)"

definition dispatch :: "(int \<Rightarrow> nat) \<Rightarrow> attribute \<Rightarrow> json \<Rightarrow> msg option" where
  "dispatch floorLog a event =
     (case a of
        OnEvent _ d \<Rightarrow> (case runHelp floorLog d event of Inr (DMsg m) \<Rightarrow> Some m | _ \<Rightarrow> None)
      | Property _ _ \<Rightarrow> None)"

lemma dispatch_onInput: "dispatch fl (onInput fid tagger) (input_event v) = Some (tagger v)"
proof -
  have "runHelp fl targetValue (input_event v) = Inr (DJson (JStr v))"
    using runHelp_at [of fl "[''target'', ''value'']" "Primitive PString" "JStr v"]
    by (simp add: targetValue_def input_event_def runPrimitive_def)
  then show ?thesis by (simp add: dispatch_def onInput_def Json_map1_def)
qed

lemma unquote_quoted: "unquote ([CHR 0x22] @ s @ [CHR 0x22]) = s"
proof -
  have len: "NString_length [CHR 0x22] = 1" by (simp add: NString_length_def)
  have "NString_dropLeft 1 ([CHR 0x22] @ s @ [CHR 0x22]) = s @ [CHR 0x22]"
    using js_slice_int [of 1 "Suc (Suc (length s))" "[CHR 0x22] @ s @ [CHR 0x22]"]
    by (simp add: NString_dropLeft_def)
  moreover have "NString_dropRight 1 (s @ [CHR 0x22]) = s"
    by (simp add: NString_dropRight_def js_slice_def js_clip_def)
  moreover have "NString_startsWith [CHR 0x22] ([CHR 0x22] @ s @ [CHR 0x22])"
    "NString_endsWith [CHR 0x22] ([CHR 0x22] @ s @ [CHR 0x22])"
    using js_index_from_0 [of "[CHR 0x22]" 0 "[CHR 0x22] @ s @ [CHR 0x22]"]
      js_last_from_suffix [of "[CHR 0x22]" "[CHR 0x22] @ s @ [CHR 0x22]" "Suc (Suc (length s))"]
    by (auto simp: NString_startsWith_def NString_endsWith_def js_indexOf_def js_lastIndexOf_def
        suffix_def prefix_def)
  ultimately show ?thesis by (simp add: unquote_def unsurround_def len)
qed

lemma castOption_plain:
  "list_all plain c \<Longrightarrow> list_all plain l \<Longrightarrow>
   castOption c l = Element ''option'' [Attr_value ([CHR 0x22] @ c @ [CHR 0x22])] [Text l]"
  using unquote_quoted [of l] by (simp add: castOption_def toString_string_def addSlashes_plain)

text \<open>
  The view offers one option per recording and its labels, in order. An option shows the labels as
  they are, but its value is the recording's name in quotes; selecting it therefore makes the
  quoted name the model's current recording, which is then not one of the listed recordings. This is claim C12.
\<close>

theorem Cast_view_selection:
  assumes "\<forall>c \<in> set (casts m). list_all plain c" "\<forall>l \<in> set (labels m). list_all plain l"
    "i < length (casts m)" "i < length (labels m)"
  shows "\<exists>opts onSel. View_view m = Element ''div'' [Attr_class ''container'']
       [Element ''div'' [Attr_class ''row'']
          [Element ''h2'' [Attr_class ''text-center''] [Text ''Terminal Sessions''],
           Element ''select'' [onSel] opts],
        Element ''div'' [Attr_class ''row'']
          [Element ''div'' [Attr_id ''asciinema-player-container'', Attr_class ''container''] []]] \<and>
    length opts = min (length (casts m)) (length (labels m)) \<and>
    opts ! i = Element ''option'' [Attr_value ([CHR 0x22] @ casts m ! i @ [CHR 0x22])] [Text (labels m ! i)] \<and>
    dispatch fl onSel (input_event ([CHR 0x22] @ casts m ! i @ [CHR 0x22])) =
      Some (DisplayCast ([CHR 0x22] @ casts m ! i @ [CHR 0x22])) \<and>
    [CHR 0x22] @ casts m ! i @ [CHR 0x22] \<notin> set (casts m)"
proof -
  let ?opts = "NList_map2 castOption (casts m) (labels m)"
  let ?v = "[CHR 0x22] @ casts m ! i @ [CHR 0x22]"
  have in_set: "casts m ! i \<in> set (casts m)" "labels m ! i \<in> set (labels m)" using assms(3,4) by simp_all
  have "?opts ! i = castOption (casts m ! i) (labels m ! i)"
    using assms(3,4) by (simp add: elm_simps)
  also have "\<dots> = Element ''option'' [Attr_value ?v] [Text (labels m ! i)]"
    using assms(1,2) in_set by (intro castOption_plain) auto
  finally have "?opts ! i = Element ''option'' [Attr_value ?v] [Text (labels m ! i)]" .
  moreover have "\<not> list_all plain ?v" by (simp add: plain_def)
  then have "?v \<notin> set (casts m)" using assms(1) by blast
  moreover have "length ?opts = min (length (casts m)) (length (labels m))" by (simp add: elm_simps)
  moreover have "dispatch fl (onInput 0 DisplayCast) (input_event ?v) = Some (DisplayCast ?v)"
    by (rule dispatch_onInput)
  ultimately show ?thesis
    by (intro exI [of _ ?opts] exI [of _ "onInput 0 DisplayCast"] conjI) (simp_all only: View_view_def not_False_eq_True)
qed

definition example_page :: model where
  "example_page = initialModel example_location\<lparr>casts := [''a''], labels := [''b'']\<rparr>"

theorem Cast_view_selection_witness:
  "\<exists>opts onSel. View_view example_page = Element ''div'' [Attr_class ''container'']
       [Element ''div'' [Attr_class ''row'']
          [Element ''h2'' [Attr_class ''text-center''] [Text ''Terminal Sessions''],
           Element ''select'' [onSel] opts],
        Element ''div'' [Attr_class ''row'']
          [Element ''div'' [Attr_id ''asciinema-player-container'', Attr_class ''container''] []]] \<and>
    length opts = min (length (casts example_page)) (length (labels example_page)) \<and>
    opts ! 0 = Element ''option'' [Attr_value ([CHR 0x22] @ casts example_page ! 0 @ [CHR 0x22])]
                 [Text (labels example_page ! 0)] \<and>
    dispatch (\<lambda>_. 0) onSel (input_event ([CHR 0x22] @ casts example_page ! 0 @ [CHR 0x22])) =
      Some (DisplayCast ([CHR 0x22] @ casts example_page ! 0 @ [CHR 0x22])) \<and>
    [CHR 0x22] @ casts example_page ! 0 @ [CHR 0x22] \<notin> set (casts example_page)"
  by (rule Cast_view_selection) (simp_all add: example_page_def initialModel_def plain_def)

end
