(* ===== verification/Kubecast_Page.thy ===== *)
theory Kubecast_Page
  imports Cast_App Elm_VirtualDom_Correct
begin

text \<open>
  The program in the page: the view of \<^verbatim>\<open>Cast.View\<close> as a virtual node, the program's messages and the
  browser's frames interleaved, and what the page then shows. The page is the tree the virtual DOM
  keeps; the nodes that the player adds below its container are not part of it, and no update
  touches the container.
\<close>

subsection \<open>The view as a virtual node\<close>

definition defaultOptions :: "msg decoder \<Rightarrow> msg event" where
  "defaultOptions decoder = \<lparr>stopPropagation = False, preventDefault = False, event_decoder = decoder\<rparr>"

fun toFact :: "attribute \<Rightarrow> msg fact" where
  "toFact (Property name v) =
     (case v of JStr s \<Rightarrow> if name = ''className'' then F_className s else F_property name v | _ \<Rightarrow> F_property name v)"
| "toFact (OnEvent name decoder) = F_event name (defaultOptions decoder)"

fun toVNode :: "html \<Rightarrow> msg vnode" where
  "toVNode (Text s) = VText s"
| "toVNode (Element tag attributes children) = nodeHelp tag (map toFact attributes) (map toVNode children)"

definition page_view :: "model \<Rightarrow> msg vnode" where
  "page_view m = toVNode (View_view m)"

subsection \<open>Messages and frames\<close>

text \<open>
  A message updates the model and hands the new one to the stepper, as \<^verbatim>\<open>onMessage\<close> of
  \<^verbatim>\<open>Native.Platform\<close> does; a frame runs a draw callback.
\<close>

datatype page_event = Message msg | DrawFrame

fun page_step ::
  "(msg vnode \<Rightarrow> msg vnode \<Rightarrow> bool) \<Rightarrow> (msg dval \<Rightarrow> msg dval \<Rightarrow> bool) \<Rightarrow> page_event \<Rightarrow>
   model \<times> (model, msg) stepper \<Rightarrow> (model \<times> (model, msg) stepper) result" where
  "page_step refEq same (Message x) (m, s) =
     bindE (Update_update x m) (\<lambda>(m', _). Inr (m', stepper_call m' s))"
| "page_step refEq same DrawFrame (m, s) =
     bindE (draw_step refEq same page_view Frame s) (\<lambda>s'. Inr (m, s'))"

fun page_run ::
  "(msg vnode \<Rightarrow> msg vnode \<Rightarrow> bool) \<Rightarrow> (msg dval \<Rightarrow> msg dval \<Rightarrow> bool) \<Rightarrow> page_event list \<Rightarrow>
   model \<times> (model, msg) stepper \<Rightarrow> (model \<times> (model, msg) stepper) result" where
  "page_run refEq same [] ms = Inr ms"
| "page_run refEq same (e # es) ms = bindE (page_step refEq same e ms) (page_run refEq same es)"

definition page_load :: "location \<Rightarrow> model \<times> (model, msg) stepper" where
  "page_load loc = (let m = fst (Main_init loc) in (m, normalRenderer page_view m))"

definition page_messages :: "page_event list \<Rightarrow> msg list" where
  "page_messages es = concat (map (\<lambda>e. case e of Message x \<Rightarrow> [x] | DrawFrame \<Rightarrow> []) es)"

text \<open>The messages handled one after the other, with the commands they issue.\<close>

fun app_run :: "msg list \<Rightarrow> model \<Rightarrow> (model \<times> cmd list) result" where
  "app_run [] m = Inr (m, [])"
| "app_run (x # xs) m =
     bindE (Update_update x m) (\<lambda>(m', c). bindE (app_run xs m') (\<lambda>(m'', cs). Inr (m'', c # cs)))"

text \<open>What a user finds in the page: the select element with its handler, and its options with value and text.\<close>

fun page_select :: "msg dom \<Rightarrow> (msg dom_facts \<times> msg dom list) option" where
  "page_select (DElement _ _ _ [DElement _ _ _ [_, DElement tag _ facts options], _]) =
     (if tag = ''select'' then Some (facts, options) else None)"
| "page_select _ = None"

fun page_option :: "msg dom \<Rightarrow> (json option \<times> string) option" where
  "page_option (DElement tag _ facts [DText label]) =
     (if tag = ''option'' then Some (dom_props facts ''value'', label) else None)"
| "page_option _ = None"

subsection \<open>Lemmas\<close>

definition select_event :: "msg event" where
  "select_event = defaultOptions
     (Json_map1 0 (\<lambda>v. case v of DJson (JStr s) \<Rightarrow> DMsg (DisplayCast s) | _ \<Rightarrow> v) targetValue)"

definition class_facts :: "string \<Rightarrow> msg facts" where
  "class_facts c = \<lparr>f_props = [(''className'', JStr c)], f_styles = None, f_attrs = [], f_attrs_ns = [], f_events = []\<rparr>"

definition option_node :: "string \<Rightarrow> string \<Rightarrow> msg vnode" where
  "option_node c l =
     VNode ''option'' None
       \<lparr>f_props = [(''value'', JStr (toString_string c))], f_styles = None, f_attrs = [], f_attrs_ns = [], f_events = []\<rparr>
       [VText (unquote (toString_string l))]"

lemmas facts_defs = nodeHelp_def organizeFacts_def empty_facts_def

lemma page_view_eq:
  "page_view m =
     VNode ''div'' None (class_facts ''container'')
       [VNode ''div'' None (class_facts ''row'')
          [VNode ''h2'' None (class_facts ''text-center'') [VText ''Terminal Sessions''],
           VNode ''select'' None (empty_facts\<lparr>f_events := [(''input'', select_event)]\<rparr>)
             (map2 option_node (casts m) (labels m))],
        VNode ''div'' None (class_facts ''row'')
          [VNode ''div'' None
             \<lparr>f_props = [(''id'', JStr ''asciinema-player-container''), (''className'', JStr ''container'')],
              f_styles = None, f_attrs = [], f_attrs_ns = [], f_events = []\<rparr> []]]"
  by (simp add: page_view_def View_view_def Attr_class_def Attr_id_def stringProperty_def onInput_def
      facts_defs class_facts_def select_event_def elm_simps castOption_def Attr_value_def option_node_def comp_def
      case_prod_unfold)

lemma page_view_ok: "vnode_ok (\<lambda>e. e = select_event) force (page_view m)" "\<not> is_thunk (page_view m)"
  by (auto simp: page_view_eq facts_wf_def class_facts_def empty_facts_def styles_of_def option_node_def)

lemma select_event_equal: "equalEvents same select_event select_event"
  by (simp add: equalEvents_def select_event_def defaultOptions_def Json_map1_def targetValue_def listEquality_def)

lemma equal_facts: "diffFacts same (class_facts c) (class_facts c) = None"
  by (simp add: diffFacts_def diff_category_def class_facts_def diff_styles_def)

text \<open>A node whose facts do not change and whose children keep their number is not patched itself.\<close>

lemma ldiff_unchanged:
  assumes "diffFacts same fs fs' = None" "length as = length bs" "x \<in> set (ldiff refEq same (VNode tag ns fs as) (VNode tag ns fs' bs))"
  shows "x \<in> set (lpairs refEq same 0 as bs)"
proof (cases "refEq (VNode tag ns fs as) (VNode tag ns fs' bs)")
  case True
  with assms(3) show ?thesis by (simp add: diff_refEq)
next
  case False
  from diff_node(2) [where refEq = refEq and same = same, OF this refl refl] assms show ?thesis by (simp add: head_patches_def facts_patches_def)
qed

lemma ldiff_class_node:
  assumes "(q, p) \<in> set (ldiff refEq same (VNode tag ns (class_facts c) as) (VNode tag ns (class_facts c) bs))"
    "length as = length bs"
  shows "(q, p) \<in> set (lpairs refEq same 0 as bs)"
  using ldiff_unchanged [OF equal_facts assms(2,1)] .

lemma prefix_path_in: "(q, p) \<in> set (prefix_path j l) \<longleftrightarrow> (\<exists>r. q = j # r \<and> (r, p) \<in> set l)"
  by (force simp: prefix_path_def)

lemma ldiff_text: "ldiff refEq same (VText t) (VText t) = []"
  by (cases "refEq (VText t) (VText t)") (simp_all add: diff_refEq diff_text)

text \<open>Every patch between two views is for the select element or below it.\<close>

lemma page_patches:
  assumes "(q, p) \<in> set (ldiff refEq same (page_view m) (page_view m'))"
  shows "\<exists>r. q = 0 # 1 # r"
proof -
  let ?player = "VNode ''div'' None \<lparr>f_props = [(''id'', JStr ''asciinema-player-container''), (''className'', JStr ''container'')],
              f_styles = None, f_attrs = [], f_attrs_ns = [], f_events = []\<rparr> []"
  have player: "(r, p) \<notin> set (ldiff refEq same ?player ?player)" for r
    by (auto dest!: ldiff_unchanged [rotated 2] simp: diffFacts_def diff_category_def diff_styles_def)
  have row2: "(r, p) \<notin> set (ldiff refEq same (VNode ''div'' None (class_facts c) [?player]) (VNode ''div'' None (class_facts c) [?player]))" for r c
    using player by (auto dest!: ldiff_class_node simp: prefix_path_in)
  have h2: "(r, p) \<notin> set (ldiff refEq same (VNode tag ns (class_facts c) [VText t]) (VNode tag ns (class_facts c) [VText t]))" for r tag ns c t
    by (auto dest!: ldiff_class_node simp: prefix_path_in ldiff_text)
  show ?thesis
    using assms unfolding page_view_eq
    by (auto dest!: ldiff_class_node simp: prefix_path_in h2 row2)
qed

lemma patches_in_row:
  "\<forall>(q, p) \<in> set l. \<exists>r. q = 0 # r \<Longrightarrow>
   \<exists>row'. applyPatchesHelp l (DElement tag ns df (row # rest)) = DElement tag ns df (row' # rest)"
  by (induction l arbitrary: row) fastforce+

text \<open>
  Updates leave the player alone. Whatever two models follow each other, and whatever the player has
  put below its container, the patches between their views are applied without an error to the row
  with the list of recordings only; the rest of the page is exactly what it was, and the root stays. This is claim C4.
\<close>

theorem Kubecast_updates_keep_player:
  "\<exists>row'. applyPatches (DElement tag ns df (row # player)) (page_view m)
      (VirtualDom_diff refEq same (page_view m) (page_view m')) =
    Inr (DElement tag ns df (row' # player), True)"
proof -
  have "\<forall>(q, p) \<in> set (ldiff refEq same (page_view m) (page_view m')). \<exists>r. q = 0 # r"
    using page_patches [of _ _ refEq same m m'] by fastforce
  from patches_in_row [OF this] keeps_root [OF page_view_ok(2)] show ?thesis by (simp add: applyPatches_diff)
qed

subsection \<open>The page shows the model\<close>

lemma page_frame:
  assumes "\<forall>a b. refEq a b \<longrightarrow> a = b" "stepper_inv (\<lambda>e. e = select_event) same page_view m s"
  shows "\<exists>s'. draw_step refEq same page_view Frame s = Inr s' \<and>
    stepper_inv (\<lambda>e. e = select_event) same page_view m s' \<and> draw_state s' \<noteq> PENDING_REQUEST"
  by (rule draw_frame [where force = undefined, OF assms(2)]) (use assms(1) page_view_ok in auto)

lemma page_run_eq:
  assumes "\<forall>a b. refEq a b \<longrightarrow> a = b"
  shows "stepper_inv (\<lambda>e. e = select_event) same page_view m s \<Longrightarrow>
    \<exists>m' s' cs. page_run refEq same es (m, s) = Inr (m', s') \<and> app_run (page_messages es) m = Inr (m', cs) \<and>
      stepper_inv (\<lambda>e. e = select_event) same page_view m' s'"
proof (induction es arbitrary: m s)
  case (Cons e es)
  show ?case
  proof (cases e)
    case (Message x)
    obtain m' c where upd: "Update_update x m = Inr (m', c)" using update_total by blast
    from Cons.IH [OF stepper_call_inv [OF Cons.prems, of m']] upd Message show ?thesis
      by (auto simp: page_messages_def)
  next
    case DrawFrame
    from page_frame [OF assms Cons.prems] obtain s' where
      "draw_step refEq same page_view Frame s = Inr s'" "stepper_inv (\<lambda>e. e = select_event) same page_view m s'"
      by blast
    with Cons.IH [OF this(2)] DrawFrame show ?thesis by (simp add: page_messages_def del: draw_step.simps)
  qed
qed (simp add: page_messages_def)

lemma displays_option:
  "displays legit same (option_node c l) d \<Longrightarrow>
   page_option d = Some (Some (JStr (toString_string c)), unquote (toString_string l))"
  by (auto simp: option_node_def displays_facts_def displays_value_def list_all2_Cons1 split: option.splits)

lemma list_all2_of_map2:
  "list_all2 P (map2 f xs ys) zs \<Longrightarrow> (\<And>x y z. P (f x y) z \<Longrightarrow> g z = h x y) \<Longrightarrow> map g zs = map2 h xs ys"
proof (induction xs arbitrary: ys zs)
  case (Cons x xs)
  then show ?case by (cases ys) (auto simp: list_all2_Cons1)
qed simp

lemma displays_page:
  assumes "displays (\<lambda>e. e = select_event) same (page_view m) d"
  shows "\<exists>facts opts. page_select d = Some (facts, opts) \<and> dom_handlers facts ''input'' = Some select_event \<and>
    map page_option opts =
      map2 (\<lambda>c l. Some (Some (JStr (toString_string c)), unquote (toString_string l))) (casts m) (labels m)"
proof -
  obtain facts opts where "page_select d = Some (facts, opts)"
    "displays_facts (\<lambda>e. e = select_event) same (empty_facts\<lparr>f_events := [(''input'', select_event)]\<rparr>) facts"
    "list_all2 (displays (\<lambda>e. e = select_event) same) (map2 option_node (casts m) (labels m)) opts"
    using assms unfolding page_view_eq by (auto simp: list_all2_Cons1)
  moreover from this(2) have "dom_handlers facts ''input'' = Some select_event"
    by (auto simp: displays_facts_def displays_event_def dest!: spec [of _ "''input''"])
  moreover have "map page_option opts =
      map2 (\<lambda>c l. Some (Some (JStr (toString_string c)), unquote (toString_string l))) (casts m) (labels m)"
    by (rule list_all2_of_map2 [OF calculation(3)]) (rule displays_option)
  ultimately show ?thesis by blast
qed

lemma select_event_handled:
  "eventHandler stringify floorLog [TFunction id] select_event (input_event v) =
   Some \<lparr>stopped = False, prevented = False, message = DMsg (DisplayCast v)\<rparr>"
proof -
  have "runHelp floorLog targetValue (input_event v) = Inr (DJson (JStr v))"
    using runHelp_at [of floorLog "[''target'', ''value'']" "Primitive PString" "JStr v"]
    by (simp add: targetValue_def input_event_def runPrimitive_def)
  then show ?thesis
    by (simp add: eventHandler_def Json_run_def select_event_def defaultOptions_def Json_map1_def)
qed

lemma page_displays:
  assumes "\<forall>a b. refEq a b \<longrightarrow> a = b"
  shows "\<exists>m s cs. page_run refEq same (es @ [DrawFrame]) (page_load loc) = Inr (m, s) \<and>
    app_run (page_messages es) (fst (Main_init loc)) = Inr (m, cs) \<and>
    displays (\<lambda>e. e = select_event) same (page_view m) (page s)"
proof -
  let ?m0 = "fst (Main_init loc)"
  have "stepper_inv (\<lambda>e. e = select_event) same page_view ?m0 (normalRenderer page_view ?m0)"
    by (rule normalRenderer_inv [of _ undefined]) (rule page_view_ok)
  from page_run_eq [OF assms this, of es] obtain m s cs where
    run: "page_run refEq same es (page_load loc) = Inr (m, s)" "app_run (page_messages es) ?m0 = Inr (m, cs)"
      "stepper_inv (\<lambda>e. e = select_event) same page_view m s"
    by (auto simp: page_load_def Let_def)
  from page_frame [OF assms run(3)] obtain s' where
    s': "draw_step refEq same page_view Frame s = Inr s'" "stepper_inv (\<lambda>e. e = select_event) same page_view m s'"
      "draw_state s' \<noteq> PENDING_REQUEST" by blast
  have "page_run refEq same (es @ [DrawFrame]) ms = bindE (page_run refEq same es ms) (page_step refEq same DrawFrame)" for ms
    by (induction es arbitrary: ms) (auto simp: bindE_def split: sum.split)
  with run(1) s'(1) have "page_run refEq same (es @ [DrawFrame]) (page_load loc) = Inr (m, s')"
    by (simp del: draw_step.simps)
  moreover have "displays (\<lambda>e. e = select_event) same (page_view m) (page s')"
    using s'(2,3) by (auto simp: stepper_inv_def)
  ultimately show ?thesis
    using run(2) by blast
qed

text \<open>
  The page shows the model. From the page load on, whatever messages the program gets and however the
  frames of the browser fall between them, nothing raises an exception; one frame after the last
  message the page has a select element with one option per recording and its labels, in order, whose
  value and text are those of the view for the model reached; and the handler of the select element
  turns the selection of a value into the message \<^verbatim>\<open>DisplayCast\<close> with that value, even where the handler was
  installed for an earlier view. This is claim C3.
\<close>

theorem Kubecast_page_shows_model:
  assumes "\<forall>a b. refEq a b \<longrightarrow> a = b"
  shows "\<exists>m s cs facts opts e. page_run refEq same (es @ [DrawFrame]) (page_load loc) = Inr (m, s) \<and>
    app_run (page_messages es) (fst (Main_init loc)) = Inr (m, cs) \<and>
    page_select (page s) = Some (facts, opts) \<and>
    map page_option opts =
      map2 (\<lambda>c l. Some (Some (JStr (toString_string c)), unquote (toString_string l))) (casts m) (labels m) \<and>
    dom_handlers facts ''input'' = Some e \<and>
    (\<forall>v. eventHandler stringify floorLog [TFunction id] e (input_event v) =
       Some \<lparr>stopped = False, prevented = False, message = DMsg (DisplayCast v)\<rparr>)"
proof -
  obtain m s cs where run: "page_run refEq same (es @ [DrawFrame]) (page_load loc) = Inr (m, s)"
    "app_run (page_messages es) (fst (Main_init loc)) = Inr (m, cs)"
    "displays (\<lambda>e. e = select_event) same (page_view m) (page s)"
    using page_displays [OF assms, of same es loc] by blast
  from displays_page [OF run(3)] run(1,2) select_event_handled show ?thesis by metis
qed

theorem Kubecast_page_shows_model_witness:
  "\<exists>m s cs facts opts e.
    page_run (\<lambda>_ _. False) (\<lambda>_ _. False)
      ([Message (ListCasts [CHR ''a'', CHR 0x0A, CHR ''b'']), DrawFrame, Message (DisplayCast ''a'')] @ [DrawFrame])
      (page_load example_location) = Inr (m, s) \<and>
    app_run (page_messages [Message (ListCasts [CHR ''a'', CHR 0x0A, CHR ''b'']), DrawFrame, Message (DisplayCast ''a'')])
      (fst (Main_init example_location)) = Inr (m, cs) \<and>
    page_select (page s) = Some (facts, opts) \<and>
    map page_option opts =
      map2 (\<lambda>c l. Some (Some (JStr (toString_string c)), unquote (toString_string l))) (casts m) (labels m) \<and>
    dom_handlers facts ''input'' = Some e \<and>
    (\<forall>v. eventHandler (\<lambda>_. []) (\<lambda>_. 0) [TFunction id] e (input_event v) =
       Some \<lparr>stopped = False, prevented = False, message = DMsg (DisplayCast v)\<rparr>)"
  by (rule Kubecast_page_shows_model) simp

subsection \<open>Navigation\<close>

definition nav_subs_of :: "model \<Rightarrow> msg nav_sub list" where
  "nav_subs_of m = concat (map (\<lambda>s. case s of Inl n \<Rightarrow> [n] | Inr _ \<Rightarrow> []) (main_subscriptions m))"

text \<open>
  When the user goes back or forward in the history, the program is told the new address once. It takes
  the address into its model, issues no command and shows the same view; as long as host and protocol stay the
  same, it subscribes to the same connections, so that going through the history does not disturb
  the listing. This is claim C9.
\<close>

theorem Kubecast_navigation_keeps_listing:
  fixes w :: "msg nav_world"
  assumes "nav_reachable br st w" "nav_subs st = nav_subs_of m"
    "host loc = host (location m)" "protocol loc = protocol (location m)"
  shows "window_event loc ''popstate'' st w =
      Inr (st, w\<lparr>document_location := loc, nav_log := nav_log w @ [ToProgram (OnLocationChange loc)]\<rparr>) \<and>
    (\<exists>m'. Update_update (OnLocationChange loc) m = Inr (m', Cmd_none) \<and> location m' = loc \<and>
       View_view m' = View_view m \<and> main_subscriptions m' = main_subscriptions m)"
proof -
  have "told (nav_subs st) loc = [ToProgram (OnLocationChange loc)]"
    by (simp add: assms(2) nav_subs_of_def main_subscriptions_def Navigation_program_subs_def told_def)
  then show ?thesis
    using window_event_eq [OF nav_reachable_inv [OF assms(1)], of loc "''popstate''"] assms(3,4)
    by (simp add: Update_update_def View_view_def main_subscriptions_def Navigation_program_subs_def subscriptions_def
        webSocketUrl_def)
qed

definition nav_started :: "msg nav_world" where
  "nav_started = \<lparr>document_location = example_location, listeners = [], nav_next = 0, nav_log = []\<rparr>"

theorem Kubecast_navigation_keeps_listing_witness:
  "\<exists>st w. window_event (example_location\<lparr>hash := ''x''\<rparr>) ''popstate'' st w =
      Inr (st, w\<lparr>document_location := example_location\<lparr>hash := ''x''\<rparr>,
        nav_log := nav_log w @ [ToProgram (OnLocationChange (example_location\<lparr>hash := ''x''\<rparr>))]\<rparr>) \<and>
    (\<exists>m'. Update_update (OnLocationChange (example_location\<lparr>hash := ''x''\<rparr>)) example_page = Inr (m', Cmd_none) \<and>
       location m' = example_location\<lparr>hash := ''x''\<rparr> \<and>
       View_view m' = View_view example_page \<and> main_subscriptions m' = main_subscriptions example_page)"
proof -
  have start: "nav_reachable nav_browser \<lparr>nav_subs = [], popWatcher = None\<rparr> nav_started"
    by (rule nav_reachable.start [of nav_started]) (simp_all add: nav_started_def Navigation_init_def Task_succeed_def)
  obtain st' w' where "Navigation_onEffects nav_browser [] (nav_subs_of example_page) \<lparr>nav_subs = [], popWatcher = None\<rparr> nav_started = Inr (st', w')"
    "nav_subs st' = nav_subs_of example_page"
    using onEffects_eq [OF nav_reachable_inv [OF start], of "nav_subs_of example_page" "[]"] by auto
  with Kubecast_navigation_keeps_listing [OF nav_reachable.effects [OF start this(1)] this(2), of "example_location\<lparr>hash := ''x''\<rparr>"]
  show ?thesis by (auto simp: example_page_def initialModel_def)
qed

end
