(* ===== verification/Spec2Isabelle.thy ===== *)
theory Spec2Isabelle
  imports Elm_List Elm_Sort Elm_Dict_Correct Elm_Array_Correct Elm_String
    Elm_Bitwise Elm_Regex_Correct Elm_StringExtra_Correct Elm_Utils
    Elm_Equality_Correct Elm_ToString Elm_Debugger Elm_Char Elm_Http Elm_Dom Elm_Json Elm_JsonTypes Elm_Socket Elm_Scheduler Elm_Platform Elm_TaskManager
    Elm_VirtualDom_Correct Elm_Html Elm_Program Elm_Task Elm_Navigation Elm_Time Elm_WebSocket Kubecast_Server Cast_App Kubecast_Page
begin

text \<open>
  A verification library for the web interface of kubecast (\<^verbatim>\<open>src/ui\<close>).

  \<^bold>\<open>The program.\<close> kubecast records terminal sessions of containers. A client traces the kernel
  and uploads what is written to terminals; the server (\<^verbatim>\<open>src/cmd/server/main.go\<close>) stores it as
  recordings and sends, on the web socket \<^verbatim>\<open>/list\<close>, a listing of the recordings every second. The web
  interface is an Elm program, deployed as \<^verbatim>\<open>src/ui/dist/Main.js\<close>: the compiled modules \<^verbatim>\<open>Main\<close> and
  \<^verbatim>\<open>Cast.*\<close>, the compiled library modules they use, and the JavaScript modules \<^verbatim>\<open>Native.*\<close> of the
  runtime, which are also in \<^verbatim>\<open>src/ui/elm-stuff/packages\<close>. The program subscribes to the listing, keeps
  the recordings and their labels in its model, shows them in a selection box and tells the page which
  recording to play.

  \<^bold>\<open>The theories\<close>, from the bottom up.
  \<^item> \<^verbatim>\<open>Kubecast_Prelude\<close>: exceptions (\<open>js_error\<close>, \<open>'a result\<close>), the comparison \<^verbatim>\<open>Native.Utils.cmp\<close> on
    primitive values, decimal numerals, JavaScript's indexing and slicing.
  \<^item> \<^verbatim>\<open>Elm_Basics\<close>, \<^verbatim>\<open>Elm_List\<close>: \<^verbatim>\<open>Native.Basics\<close>, \<^verbatim>\<open>Maybe\<close>, \<^verbatim>\<open>Result\<close>, \<^verbatim>\<open>Native.List\<close> and \<^verbatim>\<open>List\<close>; each
    function is related to a function of the library.
  \<^item> \<^verbatim>\<open>Elm_Sort\<close>: \<^verbatim>\<open>sortBy\<close>, \<^verbatim>\<open>sortWith\<close> and \<^verbatim>\<open>sort\<close> over the sorting of the engine, and the update of records.
  \<^item> \<^verbatim>\<open>Elm_Dict\<close>, \<^verbatim>\<open>Elm_Dict_Correct\<close>: the red-black trees of \<^verbatim>\<open>Dict\<close> with the crashes the code has; the
    locale \<open>elm_map\<close> states what a client may rely on, and its interpretation \<open>dict\<close> shows it for the
    trees. No operation crashes on a well-formed tree, well-formedness is kept, the depth is
    logarithmic, and every operation is the one on finite maps.
  \<^item> \<^verbatim>\<open>Elm_Array\<close>, \<^verbatim>\<open>Elm_Array_Correct\<close>: the relaxed radix balanced trees of \<^verbatim>\<open>Native.Array\<close>, the locale
    \<open>elm_array\<close> and its interpretation \<open>arr\<close>; where slices and appends of the code go wrong, that is
    proved too.
  \<^item> \<^verbatim>\<open>Elm_String\<close>, \<^verbatim>\<open>Elm_Utils\<close>: \<^verbatim>\<open>Native.String\<close> over JavaScript's string methods, comparison of lists and
    tuples (locales \<open>comparable\<close>, \<open>comparable_pair\<close>), escaping.
  \<^item> \<^verbatim>\<open>Elm_ToString\<close>: \<^verbatim>\<open>toString\<close> on lists, constructors, records, dictionaries and the other structures; it
    prints different values of one type differently. \<^verbatim>\<open>Elm_Debugger\<close>: the trees in which the debugger shows values
    (\<^verbatim>\<open>Native.Debug\<close>), which are as faithful. \<^verbatim>\<open>Elm_Char\<close>: \<^verbatim>\<open>Char\<close> and \<^verbatim>\<open>Tuple\<close>.
  \<^item> \<^verbatim>\<open>Elm_Http\<close>, \<^verbatim>\<open>Elm_Dom\<close>: requests on an \<^verbatim>\<open>XMLHttpRequest\<close> with their listeners, responses and headers
    (\<^verbatim>\<open>Native.Http\<close>), and focus, scrolling and sizes of nodes (\<^verbatim>\<open>Native.Dom\<close>).
  \<^item> \<^verbatim>\<open>Elm_Equality\<close>, \<^verbatim>\<open>Elm_Equality_Correct\<close>: structural equality \<^verbatim>\<open>eq\<close> with its depth bound and its stack,
    against equality of meanings; it is exact up to depth 100 and can throw below.
  \<^item> \<^verbatim>\<open>Elm_Bitwise\<close>: \<^verbatim>\<open>Native.Bitwise\<close> on 32-bit words, and what it computes on integers.
  \<^item> \<^verbatim>\<open>Elm_Regex\<close>, \<^verbatim>\<open>Elm_Regex_Correct\<close>: JavaScript's regular expressions (a parser of their syntax, a backtracking
    matcher with groups, \<^verbatim>\<open>exec\<close>, \<^verbatim>\<open>replace\<close> and \<^verbatim>\<open>split\<close>) and \<^verbatim>\<open>Native.Regex\<close> on top of them. The locale
    \<open>token_regex\<close> describes an expression by the length it matches at a position; its interpretations are
    the literals, character classes and runs that \<^verbatim>\<open>String.Extra\<close> uses. Escaping, finding, replacing and
    splitting are related to the functions on strings.
  \<^item> \<^verbatim>\<open>Elm_StringExtra\<close>, \<^verbatim>\<open>Elm_StringExtra_Correct\<close>: every function of \<^verbatim>\<open>String.Extra\<close>, with what its regular
    expressions amount to, the round trip of code points, and where functions throw or do not return.
  \<^item> \<^verbatim>\<open>Elm_Json\<close>, \<^verbatim>\<open>Elm_JsonTypes\<close>: decoders, their errors, their equality, and encoding; the typing rules
    of decoders and that running a decoder keeps them.
  \<^item> \<^verbatim>\<open>Elm_Scheduler\<close>: tasks, processes, mailboxes and the work queue of \<^verbatim>\<open>Native.Scheduler\<close>; the
    wake-up invariant, the meaning of tasks, and how a second \<^verbatim>\<open>kill\<close> stops the scheduler.
  \<^item> \<^verbatim>\<open>Elm_Platform\<close>: effect managers as processes in a receive loop, bags of effects and their
    distribution, the main process, and ports (\<^verbatim>\<open>Native.Platform\<close>).
  \<^item> \<^verbatim>\<open>Elm_VirtualDom_Keyed\<close>, \<^verbatim>\<open>Elm_VirtualDom\<close>, \<^verbatim>\<open>Elm_VirtualDom_Locate\<close>, \<^verbatim>\<open>Elm_VirtualDom_Correct\<close>:
    \<^verbatim>\<open>Native.VirtualDom\<close> for text, element, keyed and lazy nodes: facts, rendering, the difference of two
    nodes as patches with indices, the difference of keyed children with its table of removed, inserted
    and moved keys, the search for the DOM nodes of the patches, their application, event handlers, and
    the stepper that draws at most once per frame. The patches turn a page that shows the old node into
    one that shows the new node, also when keyed children move, and the stepper
    brings every latest model to the page.
  \<^item> \<^verbatim>\<open>Elm_Html\<close>: \<^verbatim>\<open>Html\<close>, \<^verbatim>\<open>Html.Attributes\<close> and \<^verbatim>\<open>Html.Events\<close>; what the handler of an event sends, and
    \<^verbatim>\<open>classList\<close> as a list of \<^verbatim>\<open>class\<close>.
  \<^item> \<^verbatim>\<open>Elm_Program\<close>: how a program starts (\<^verbatim>\<open>initialize\<close>, \<^verbatim>\<open>program\<close> and \<^verbatim>\<open>programWithFlags\<close>, the checkers of
    flags and \<^verbatim>\<open>normalSetup\<close>): the first view is drawn and the first effects are handled by every manager,
    and wrong flags stop the program before anything is drawn.
  \<^item> \<^verbatim>\<open>Elm_Socket\<close>, \<^verbatim>\<open>Elm_WebSocket\<close>: the bindings to web sockets and the effect manager that keeps the
    connections the program's subscriptions need.
  \<^item> \<^verbatim>\<open>Elm_Task\<close>, \<^verbatim>\<open>Elm_Navigation\<close>, \<^verbatim>\<open>Elm_Time\<close>: tasks of managers as state transformers, the effect manager
    that tells the program of changes of the page's address, and the one that keeps a timer for every
    subscribed interval.
  \<^item> \<^verbatim>\<open>Elm_TaskManager\<close>: the combinators of \<^verbatim>\<open>Task\<close> and the manager that runs a command's task in a
    process of the scheduler.
  \<^item> \<^verbatim>\<open>Kubecast_Server\<close>: the message of the server's \<^verbatim>\<open>listHandler\<close>.
  \<^item> \<^verbatim>\<open>Cast_App\<close>: the program itself, \<^verbatim>\<open>Cast.Helpers\<close>, \<^verbatim>\<open>Cast.Models\<close>, \<^verbatim>\<open>Cast.Msgs\<close>, \<^verbatim>\<open>Cast.Update\<close>,
    \<^verbatim>\<open>Cast.View\<close> and \<^verbatim>\<open>Main\<close>.
  \<^item> \<^verbatim>\<open>Kubecast_Page\<close>: the program with its view in the page: messages and frames interleaved, what the
    page shows, what selecting an option sends, and that updates leave the player's part alone.
  \<^item> this theory: the path from the server's listing through the manager and the program to the page.

  \<^bold>\<open>Conventions.\<close> A definition has the name of the function it models, with the module in front where
  the bare name is taken (\<open>NArray_push\<close> is \<^verbatim>\<open>push\<close> of \<^verbatim>\<open>Native.Array\<close>, \<open>Dict_update\<close> is \<^verbatim>\<open>update\<close> of
  \<^verbatim>\<open>Dict\<close>); a suffix \<open>_loop\<close> or \<open>_rec\<close> marks the loop or the inner recursive function of the code. Code
  that throws returns \<open>Inl\<close>. Numbers are unbounded integers: the code uses them for indices, counters
  and delays far below \<open>2^53\<close>, and the places that truncate to 32 bits (\<^verbatim>\<open>|\<close>, \<^verbatim>\<open>>>\<close>) do so explicitly
  (\<open>toInt32\<close>, \<open>js_shr\<close>). Characters are code units below 256.

  \<^bold>\<open>Loops.\<close> No model uses fuel: each loop is a recursive function with a termination proof, but for
  \<^verbatim>\<open>breaker\<close> of \<^verbatim>\<open>String.Extra\<close> and the loop of \<^verbatim>\<open>split\<close> in \<^verbatim>\<open>Native.Regex\<close>, which do not return on some
  arguments: they are partial functions, and the theorems say when the result is \<open>None\<close>. The one
  unbounded loop of the program, the scheduler's, is cut by the code itself after \<open>MAX_STEPS\<close> steps, and
  its termination proof rests on that bound.

  \<^bold>\<open>Parameters.\<close> The browser and the engine are arguments of the definitions that use them:
  \<^verbatim>\<open>new WebSocket\<close>, the exceptions of its methods, \<^verbatim>\<open>JSON.parse\<close>, \<^verbatim>\<open>JSON.stringify\<close>, \<^verbatim>\<open>Math.log\<close>,
  \<^verbatim>\<open>Array.prototype.sort\<close>, and the URLs and headers that an \<^verbatim>\<open>XMLHttpRequest\<close> accepts.

  \<^bold>\<open>Not modelled.\<close> The player \<^verbatim>\<open>asciinema-player.js\<close> is minified third-party code. The
  functions of \<^verbatim>\<open>Date\<close> are calls into the engine. Floating-point functions of \<^verbatim>\<open>Basics\<close>, case conversion and
  \<^verbatim>\<open>toFloat\<close> are the engine's. Of the virtual DOM, taggers and
  custom nodes are left out, and of the debugger all but the display of values and messages; the program
  uses none of them. The Go client, the eBPF program and the uploads of
  the server are input and output.
\<close>

subsection \<open>From the server to the page\<close>

text \<open>
  The runtime hands the manager its messages one after the other, and the program the messages the
  manager sends to it.
\<close>

fun manager_run :: "ws_selfmsg list \<Rightarrow> 'msg ws_state \<Rightarrow> ('msg, 'msg ws_state) ws_task" where
  "manager_run [] st = Task_succeed st"
| "manager_run (m # ms) st = Task_andThen (manager_run ms) (WebSocket_onSelfMsg m st)"

lemma manager_run_receive:
  "Dict_get url (subs st) = Some [tagger] \<Longrightarrow>
   manager_run (map (Receive url) texts) st w =
   Inr (st, w\<lparr>log := log w @ map (\<lambda>t. ToApp (tagger t)) texts\<rparr>)"
  by (induction texts arbitrary: w)
     (simp_all add: Task_succeed_def Task_andThen_def receive_eq Maybe_withDefault_def)

text \<open>Once a recording is shown, listings change the lists only; the first listing shows one.\<close>

lemma app_run_listings:
  "\<exists>m' cs. app_run (map ListCasts texts) m = Inr (m', cs) \<and> length cs = length texts \<and>
     (cast m \<noteq> [] \<longrightarrow> cast m' = cast m \<and> (\<forall>c \<in> set cs. c = Cmd_none)) \<and>
     (texts \<noteq> [] \<longrightarrow> casts m' = alternate (listing (last texts)) \<and>
                     labels m' = alternate (tl (listing (last texts))))"
proof (induction texts arbitrary: m)
  case (Cons t texts)
  let ?m = "m\<lparr>cast := if cast m \<noteq> [] then cast m else hd (listing t),
      casts := alternate (listing t), labels := alternate (tl (listing t))\<rparr>"
  obtain m' cs where "app_run (map ListCasts texts) ?m = Inr (m', cs)" "length cs = length texts"
    "cast ?m \<noteq> [] \<longrightarrow> cast m' = cast ?m \<and> (\<forall>c \<in> set cs. c = Cmd_none)"
    "texts \<noteq> [] \<longrightarrow> casts m' = alternate (listing (last texts)) \<and>
                     labels m' = alternate (tl (listing (last texts)))"
    using Cons.IH [of ?m] by blast
  then show ?case by (cases "texts = []") (auto simp: update_ListCasts)
qed auto


text \<open>A page whose server lists one recording and then two.\<close>

abbreviation (input) example_texts :: "string list" where
  "example_texts \<equiv>
     [list_message (\<lambda>f. [f, ''x'']) [''a.cast''], list_message (\<lambda>f. [f, ''x'']) [''a.cast'', ''b.cast'']]"


subsection \<open>From the page to the user\<close>

lemma quoted_plain: "list_all plain c \<Longrightarrow> toString_string c = [CHR 0x22] @ c @ [CHR 0x22]"
  by (simp add: toString_string_def addSlashes_plain)

lemma labelsString_plain: "\<forall>l \<in> set ls. list_all plain l \<Longrightarrow> list_all plain (labelsString ls)"
  by (auto simp: labelsString_eq list_all_iff plain_def)

lemma options_plain:
  "\<forall>f \<in> set files. list_all plain f \<and> ls f \<noteq> [] \<and> (\<forall>l \<in> set (ls f). list_all plain l) \<Longrightarrow>
   map2 (\<lambda>c l. Some (Some (JStr (toString_string c)), unquote (toString_string l))) files (map (labelsString \<circ> ls) files) =
   map (\<lambda>f. Some (Some (JStr ([CHR 0x22] @ f @ [CHR 0x22])), labelsString (ls f))) files"
  using unquote_quoted by (induction files) (simp_all add: quoted_plain labelsString_plain)

text \<open>
  From the server to the user. When the messages that reach the program are listings of the server,
  the last of them for \<open>files\<close>, then one frame later, wherever else the browser drew frames, the page
  offers exactly these recordings in the server's order: the text of an option is the line of the recording's
  labels, its value is the name of the recording in quotes. Names and labels must not contain quotes,
  backslashes or control characters, as the labels the server makes never do. This is claim C2.
\<close>

theorem Kubecast_listing_shown:
  assumes "\<forall>a b. refEq a b \<longrightarrow> a = b" "page_messages es = map ListCasts texts" "texts \<noteq> []"
    "last texts = list_message ls files" "files \<noteq> []" "hd files \<noteq> []" "\<not> js_space (hd (hd files))"
    "\<forall>f \<in> set files. list_all plain f \<and> ls f \<noteq> [] \<and> (\<forall>l \<in> set (ls f). list_all plain l)"
  shows "\<exists>m s facts opts. page_run refEq same (es @ [DrawFrame]) (page_load loc) = Inr (m, s) \<and>
    page_select (page s) = Some (facts, opts) \<and>
    map page_option opts =
      map (\<lambda>f. Some (Some (JStr ([CHR 0x22] @ f @ [CHR 0x22])), labelsString (ls f))) files"
proof -
  have nl: "\<forall>f \<in> set files. CHR 0x0A \<notin> set f \<and> ls f \<noteq> [] \<and> (\<forall>l \<in> set (ls f). CHR 0x0A \<notin> set l)"
    using assms(8) by (fastforce simp: list_all_iff plain_def)
  obtain m s cs where run: "page_run refEq same (es @ [DrawFrame]) (page_load loc) = Inr (m, s)"
    "app_run (map ListCasts texts) (fst (Main_init loc)) = Inr (m, cs)"
    "displays (\<lambda>e. e = select_event) same (page_view m) (page s)"
    using page_displays [OF assms(1), of same es loc] by (auto simp: assms(2))
  have m: "casts m = files" "labels m = map (labelsString \<circ> ls) files"
    using app_run_listings [of texts "fst (Main_init loc)"] run(2) assms(3,4)
      listing_list_message [OF assms(5-7) nl] by auto
  have "map2 (\<lambda>c l. Some (Some (JStr (toString_string c)), unquote (toString_string l))) files (map (labelsString \<circ> ls) files) =
      map (\<lambda>f. Some (Some (JStr ([CHR 0x22] @ f @ [CHR 0x22])), labelsString (ls f))) files"
    using assms(8) by (rule options_plain)
  with run(1) displays_page [OF run(3)] m show ?thesis by auto
qed

theorem Kubecast_listing_shown_witness:
  "\<exists>m s facts opts.
    page_run (\<lambda>_ _. False) (\<lambda>_ _. False)
      ([Message (ListCasts (hd example_texts)), DrawFrame, Message (ListCasts (last example_texts))] @ [DrawFrame])
      (page_load example_location) = Inr (m, s) \<and>
    page_select (page s) = Some (facts, opts) \<and>
    map page_option opts =
      map (\<lambda>f. Some (Some (JStr ([CHR 0x22] @ f @ [CHR 0x22])), labelsString [f, ''x''])) [''a.cast'', ''b.cast'']"
  by (rule Kubecast_listing_shown [where texts = example_texts])
     (simp_all add: page_messages_def js_space_def plain_def)

end
